(* ===== verification/Prelude.thy ===== *)
theory Prelude
  imports Main "HOL-Library.Word" "HOL-Library.AList"
begin

text \<open>
  Shared vocabulary of the development.

  \<^item> \<open>byte\<close> and \<open>bytes\<close>: the contents of a Node \<open>Buffer\<close>.
  \<^item> \<open>string\<close>: a JavaScript string, given by its UTF-8 bytes (one Isabelle \<open>char\<close> is one byte).
    The code measures, splits and joins on ASCII separators only, so this is the view in
    which \<open>Buffer.from(s, 'utf8')\<close> is the identity on the contents.
  \<^item> \<open>jsval\<close>: the dynamically typed values that reach the code from outside, with
    \<open>String(v)\<close> as \<open>js_string\<close>. A number is an integer, or any other number given by its text.
  \<^item> \<open>split_on\<close>, \<open>join\<close>, \<open>pop_empties\<close>, \<open>js_trim\<close>, \<open>ascii_lower\<close> and \<open>ascii_upper\<close>: the string operations
    the components share, with the lemmas that relate them. Trimming and case are those of ASCII: the Unicode
    spaces that \<open>String.trim\<close> also strips and case beyond ASCII are not modelled.
  \<^item> decimal text: \<open>is_digit\<close>, \<open>nat_of_digits\<close>, \<open>nat_str\<close> and their round trip.
\<close>

named_theorems wire_simps \<open>splitting, joining and trimming of wire segments\<close>
named_theorems hex_simps \<open>hex encoding of buffers\<close>

type_synonym byte = "8 word"
type_synonym bytes = "8 word list"

section \<open>Lists\<close>

lemma filter_partition_length:
  "length (filter P xs) + length (filter (\<lambda>x. \<not> P x) xs) = length xs"
  by (induction xs) auto

lemma distinct_all_equal_short:
  assumes "distinct (map f xs)" and "\<forall>x\<in>set xs. f x = k"
  shows "length xs \<le> 1"
proof (cases xs)
  case Nil
  then show ?thesis by simp
next
  case (Cons y ys)
  with assms show ?thesis by (cases ys) auto
qed

lemma append_eq_same_length:
  "length a = length b \<Longrightarrow> (a @ x = b @ y) = (a = b \<and> x = y)"
  by (rule append_eq_append_conv) simp

lemma append_eq_same_suffix_length:
  assumes "length x = length y"
  shows "(a @ x = b @ y) = (a = b \<and> x = y)"
proof
  assume e: "a @ x = b @ y"
  then have "length a + length x = length b + length y"
    by (metis length_append)
  with assms have "length a = length b" by simp
  with e show "a = b \<and> x = y" by simp
qed simp

section \<open>Splitting and joining\<close>

fun split_on :: "char \<Rightarrow> string \<Rightarrow> string list" where
  "split_on c [] = [[]]"
| "split_on c (x # xs) =
     (if x = c then [] # split_on c xs
      else (case split_on c xs of [] \<Rightarrow> [[x]] | y # ys \<Rightarrow> (x # y) # ys))"

fun join :: "string \<Rightarrow> string list \<Rightarrow> string" where
  "join sep [] = []"
| "join sep [x] = x"
| "join sep (x # y # ys) = x @ sep @ join sep (y # ys)"

lemma split_on_nonempty [wire_simps, simp]: "split_on c s \<noteq> []"
  by (induction s) (auto split: list.splits)

lemma split_on_no_sep:
  "c \<notin> set s \<Longrightarrow> split_on c s = [s]"
  by (induction s) auto

lemma split_on_append_sep:
  "c \<notin> set x \<Longrightarrow> split_on c (x @ c # s) = x # split_on c s"
  by (induction x) auto

lemma split_on_join [wire_simps]:
  "xs \<noteq> [] \<Longrightarrow> \<forall>x\<in>set xs. c \<notin> set x \<Longrightarrow> split_on c (join [c] xs) = xs"
  by (induction "[c]" xs rule: join.induct)
    (auto simp: split_on_no_sep split_on_append_sep)

lemma join_Cons:
  "xs \<noteq> [] \<Longrightarrow> join sep (x # xs) = x @ sep @ join sep xs"
  by (cases xs) auto

lemma join_split_on [wire_simps]: "join [c] (split_on c s) = s"
proof (induction s)
  case Nil
  then show ?case by simp
next
  case (Cons x xs)
  show ?case
  proof (cases "x = c")
    case True
    with Cons show ?thesis by (simp add: join_Cons)
  next
    case False
    obtain y ys where s: "split_on c xs = y # ys"
      by (metis split_on_nonempty neq_Nil_conv)
    have "join [c] ((x # y) # ys) = x # join [c] (y # ys)"
      by (cases ys) auto
    with Cons False s show ?thesis by simp
  qed
qed

lemma split_on_segments: "x \<in> set (split_on c s) \<Longrightarrow> c \<notin> set x"
proof (induction s arbitrary: x)
  case Nil
  then show ?case by simp
next
  case (Cons a s)
  obtain y ys where s: "split_on c s = y # ys"
    by (metis split_on_nonempty neq_Nil_conv)
  with Cons show ?case by (auto split: if_splits)
qed

lemma join_injective:
  assumes "xs \<noteq> []" "ys \<noteq> []" "\<forall>x\<in>set xs. c \<notin> set x" "\<forall>y\<in>set ys. c \<notin> set y"
    and "join [c] xs = join [c] ys"
  shows "xs = ys"
  using assms split_on_join by metis

text \<open>
  A joined text whose parts are known to be free of the separator determines the parts of every other
  join of as many parts.
\<close>

lemma join_count:
  "xs \<noteq> [] \<Longrightarrow> length (filter ((=) c) (join [c] xs)) + 1 =
     sum_list (map (\<lambda>x. length (filter ((=) c) x)) xs) + length xs"
  by (induction "[c]" xs rule: join.induct) auto

lemma join_clean_eq:
  assumes "join [c] xs = join [c] ys" "length xs = length ys" "\<forall>x\<in>set xs. c \<notin> set x"
  shows "xs = ys"
proof (cases "xs = []")
  case False
  then have ne: "ys \<noteq> []" using assms(2) by auto
  have z: "length (filter ((=) c) x) = 0 \<longleftrightarrow> c \<notin> set x" for x by (auto simp: filter_empty_conv)
  have x: "sum_list (map (\<lambda>x. length (filter ((=) c) x)) xs) = 0" using assms(3) z by (auto simp: sum_list_eq_0_iff)
  have "sum_list (map (\<lambda>x. length (filter ((=) c) x)) ys) = 0"
    using join_count [OF False, of c, unfolded x] join_count [OF ne, of c] by (simp only: assms(1,2))
  then have "\<forall>y\<in>set ys. c \<notin> set y" using z by (auto simp: sum_list_eq_0_iff)
  with assms ne False show ?thesis using join_injective by blast
qed (use assms in auto)

lemma join_append: "xs \<noteq> [] \<Longrightarrow> ys \<noteq> [] \<Longrightarrow> join sep (xs @ ys) = join sep xs @ sep @ join sep ys"
  by (induction sep xs rule: join.induct) (auto simp: join_Cons)

lemma length_join_le:
  "x \<in> set xs \<Longrightarrow> length x \<le> length (join sep xs)"
  by (induction sep xs rule: join.induct) auto

section \<open>Trailing empty segments\<close>

text \<open>
  The serializers all end with the same loop: while there are more than \<open>k\<close> parts and the
  last one is empty, pop it.
\<close>

function pop_empties :: "nat \<Rightarrow> string list \<Rightarrow> string list" where
  "pop_empties k parts =
     (if k < length parts \<and> last parts = [] then pop_empties k (butlast parts) else parts)"
  by pat_completeness auto
termination
  by (relation "measure (\<lambda>(k, parts). length parts)") auto

declare pop_empties.simps [simp del]

lemma pop_empties_min_length:
  "min k (length parts) \<le> length (pop_empties k parts)"
proof (induction k parts rule: pop_empties.induct)
  case (1 k parts)
  show ?case
  proof (cases "k < length parts \<and> last parts = []")
    case True
    with 1 have "min k (length parts - 1) \<le> length (pop_empties k (butlast parts))" by simp
    moreover have "k \<le> length parts - 1" using True by linarith
    ultimately have "k \<le> length (pop_empties k (butlast parts))" by (simp add: min_def)
    with True show ?thesis by (subst pop_empties.simps) simp
  next
    case False
    then show ?thesis by (subst pop_empties.simps) auto
  qed
qed

lemma pop_empties_pad:
  "\<exists>n. parts = pop_empties k parts @ replicate n []"
proof (induction k parts rule: pop_empties.induct)
  case (1 k parts)
  show ?case
  proof (cases "k < length parts \<and> last parts = []")
    case True
    then obtain n where "butlast parts = pop_empties k (butlast parts) @ replicate n []"
      using 1 by blast
    moreover have "parts = butlast parts @ [[]]"
      using True by (metis append_butlast_last_id length_greater_0_conv not_less_zero gr0I)
    ultimately have "parts = pop_empties k (butlast parts) @ replicate (Suc n) []"
      by (metis append.assoc replicate_append_same replicate_Suc)
    moreover have "pop_empties k parts = pop_empties k (butlast parts)"
      using True by (subst pop_empties.simps) simp
    ultimately show ?thesis by metis
  next
    case False
    then have "pop_empties k parts = parts" by (subst pop_empties.simps) auto
    then show ?thesis by (intro exI [of _ 0]) simp
  qed
qed

lemma pop_empties_stop:
  "length (pop_empties k parts) \<le> k \<or> last (pop_empties k parts) \<noteq> []"
proof (induction k parts rule: pop_empties.induct)
  case (1 k parts)
  show ?case
  proof (cases "k < length parts \<and> last parts = []")
    case True
    with 1 show ?thesis by (subst (1 2) pop_empties.simps) simp
  next
    case False
    then have "pop_empties k parts = parts" by (subst pop_empties.simps) auto
    with False show ?thesis by (auto simp: not_less)
  qed
qed

lemma pop_empties_set: "set (pop_empties k parts) \<subseteq> set parts"
  by (metis pop_empties_pad set_append sup_ge1)

lemma pop_empties_idem: "pop_empties k (pop_empties k parts) = pop_empties k parts"
  using pop_empties_stop [of k parts] by (subst pop_empties.simps) auto

section \<open>Characters: digits, case, white space\<close>

definition is_digit :: "char \<Rightarrow> bool" where
  "is_digit c \<longleftrightarrow> c \<in> set ''0123456789''"

definition digit_val :: "char \<Rightarrow> nat" where
  "digit_val c = of_char c - 48"

definition digit_char :: "nat \<Rightarrow> char" where
  "digit_char d = char_of (48 + d)"

definition is_ws :: "char \<Rightarrow> bool" where
  "is_ws c \<longleftrightarrow> of_char c \<in> {9, 10, 11, 12, 13, 32 :: nat}"

definition lower_char :: "char \<Rightarrow> char" where
  "lower_char c = (let n = of_char c :: nat in if 65 \<le> n \<and> n \<le> 90 then char_of (n + 32) else c)"

definition upper_char :: "char \<Rightarrow> char" where
  "upper_char c = (let n = of_char c :: nat in if 97 \<le> n \<and> n \<le> 122 then char_of (n - 32) else c)"

definition ascii_lower :: "string \<Rightarrow> string" where
  "ascii_lower s = map lower_char s"

definition ascii_upper :: "string \<Rightarrow> string" where
  "ascii_upper s = map upper_char s"

definition js_trim :: "string \<Rightarrow> string" where
  "js_trim s = rev (dropWhile is_ws (rev (dropWhile is_ws s)))"

definition all_digits :: "string \<Rightarrow> bool" where
  "all_digits s \<longleftrightarrow> s \<noteq> [] \<and> list_all is_digit s"

lemma is_digit_cases:
  "is_digit c \<Longrightarrow> \<exists>d<10. c = digit_char d"
proof -
  assume "is_digit c"
  then have "c \<in> set ''0123456789''" by (simp add: is_digit_def)
  moreover have "\<forall>c\<in>set ''0123456789''. \<exists>d\<in>set [0..<10]. c = digit_char d"
    by (simp add: digit_char_def) code_simp
  ultimately show ?thesis by fastforce
qed

lemma digit_char_digit: "d < 10 \<Longrightarrow> is_digit (digit_char d)"
proof -
  have "\<forall>d\<in>set [0..<10]. is_digit (digit_char d)" by code_simp
  then show "d < 10 \<Longrightarrow> is_digit (digit_char d)" by simp
qed

lemma digit_val_char: "d < 10 \<Longrightarrow> digit_val (digit_char d) = d"
proof -
  have "\<forall>d\<in>set [0..<10]. digit_val (digit_char d) = d" by code_simp
  then show "d < 10 \<Longrightarrow> digit_val (digit_char d) = d" by simp
qed

lemma digit_char_val: "is_digit c \<Longrightarrow> digit_char (digit_val c) = c"
  using is_digit_cases digit_val_char by fastforce

lemma digit_val_lt: "is_digit c \<Longrightarrow> digit_val c < 10"
  using is_digit_cases digit_val_char by fastforce

lemma is_digit_not_ws: "is_digit c \<Longrightarrow> \<not> is_ws c"
proof -
  have "\<forall>c\<in>set ''0123456789''. \<not> is_ws c" by code_simp
  then show "is_digit c \<Longrightarrow> \<not> is_ws c" unfolding is_digit_def by blast
qed

lemma js_trim_no_ws: "\<forall>c\<in>set s. \<not> is_ws c \<Longrightarrow> js_trim s = s"
proof -
  have *: "\<forall>c\<in>set t. \<not> is_ws c \<Longrightarrow> dropWhile is_ws t = t" for t
    by (cases t) auto
  assume "\<forall>c\<in>set s. \<not> is_ws c"
  then show ?thesis by (simp add: js_trim_def *)
qed

section \<open>Decimal text\<close>

definition nat_of_digits :: "string \<Rightarrow> nat" where
  "nat_of_digits s = foldl (\<lambda>n c. 10 * n + digit_val c) 0 s"

fun nat_str :: "nat \<Rightarrow> string" where
  "nat_str n = (if n < 10 then [digit_char n] else nat_str (n div 10) @ [digit_char (n mod 10)])"

declare nat_str.simps [simp del]

definition int_str :: "int \<Rightarrow> string" where
  "int_str i = (if i < 0 then CHR ''-'' # nat_str (nat (- i)) else nat_str (nat i))"

lemma nat_of_digits_Nil [simp]: "nat_of_digits [] = 0"
  by (simp add: nat_of_digits_def)

lemma nat_of_digits_snoc [simp]:
  "nat_of_digits (s @ [c]) = 10 * nat_of_digits s + digit_val c"
  by (simp add: nat_of_digits_def)

lemma nat_of_digits_append:
  "nat_of_digits (s @ t) = nat_of_digits s * 10 ^ length t + nat_of_digits t"
proof (induction t rule: rev_induct)
  case (snoc c t)
  have "nat_of_digits (s @ t @ [c]) = nat_of_digits ((s @ t) @ [c])" by simp
  also have "\<dots> = 10 * nat_of_digits (s @ t) + digit_val c" by (rule nat_of_digits_snoc)
  finally show ?case using snoc by (simp add: algebra_simps)
qed simp

lemma digit_val_zero [simp]: "digit_val (CHR ''0'') = 0"
  by code_simp

lemma nat_of_digits_zeros [simp]: "nat_of_digits (replicate n (CHR ''0'')) = 0"
  by (induction n) (simp_all add: nat_of_digits_def)

lemma nat_str_digits: "list_all is_digit (nat_str n)"
  by (induction n rule: nat_str.induct)
    (subst nat_str.simps, auto simp: digit_char_digit)

lemma nat_str_nonempty [simp]: "nat_str n \<noteq> []"
  by (subst nat_str.simps) auto

lemma all_digits_nat_str: "all_digits (nat_str n)"
  by (simp add: all_digits_def nat_str_digits)

lemma nat_of_digits_nat_str [simp]: "nat_of_digits (nat_str n) = n"
proof (induction n rule: nat_str.induct)
  case (1 n)
  show ?case
  proof (cases "n < 10")
    case True
    then show ?thesis
      by (subst nat_str.simps) (simp add: nat_of_digits_def digit_val_char)
  next
    case False
    then have "nat_of_digits (nat_str (n div 10)) = n div 10" using 1 by simp
    with False show ?thesis
      by (subst nat_str.simps) (simp add: digit_val_char)
  qed
qed

lemma nat_str_inject: "nat_str m = nat_str n \<longleftrightarrow> m = n"
  by (metis nat_of_digits_nat_str)

lemma nat_of_digits_lt:
  "list_all is_digit s \<Longrightarrow> nat_of_digits s < 10 ^ length s"
proof (induction s rule: rev_induct)
  case (snoc c s)
  then have "nat_of_digits s < 10 ^ length s" "digit_val c < 10"
    by (simp_all add: digit_val_lt)
  then have "10 * nat_of_digits s + digit_val c < 10 * 10 ^ length s" by linarith
  then show ?case by simp
qed simp

lemma nat_of_digits_inject:
  assumes "list_all is_digit s" "list_all is_digit t" "length s = length t"
    and "nat_of_digits s = nat_of_digits t"
  shows "s = t"
  using assms
proof (induction s arbitrary: t rule: rev_induct)
  case Nil
  then show ?case by simp
next
  case (snoc c s)
  then obtain d u where t: "t = u @ [d]"
    by (metis append_butlast_last_id length_0_conv snoc_eq_iff_butlast)
  have lt: "digit_val c < 10" "digit_val d < 10"
    using snoc.prems t by (auto simp: digit_val_lt)
  have "10 * nat_of_digits s + digit_val c = 10 * nat_of_digits u + digit_val d"
    using snoc.prems t by simp
  then have "nat_of_digits s = nat_of_digits u" "digit_val c = digit_val d"
    using lt by presburger+
  moreover have dg: "is_digit c" "is_digit d" using snoc.prems t by simp_all
  have "c = d"
    using \<open>digit_val c = digit_val d\<close> digit_char_val [OF dg(1)] digit_char_val [OF dg(2)]
    by metis
  moreover have "list_all is_digit s" "list_all is_digit u" "length s = length u"
    using snoc.prems t by simp_all
  ultimately have "s = u" using snoc.IH by blast
  with \<open>c = d\<close> t show ?case by simp
qed

section \<open>Dynamically typed values\<close>

text \<open>
  \<open>JInt\<close> is a number with an integer value, \<open>JFloat\<close> any other number (fractions, NaN,
  the infinities), given by the text \<open>String(v)\<close> produces.
\<close>

datatype jsval =
    JUndef
  | JNull
  | JBool bool
  | JInt int
  | JBig int
  | JFloat string
  | JRegex string
  | JStr string
  | JArr "jsval list"
  | JObj "(string \<times> jsval) list"

text \<open>\<open>String(v)\<close>; an array joins its elements with commas, absent ones as the empty string.\<close>

fun js_string :: "jsval \<Rightarrow> string" where
  "js_string JUndef = ''undefined''"
| "js_string JNull = ''null''"
| "js_string (JBool b) = (if b then ''true'' else ''false'')"
| "js_string (JInt i) = int_str i"
| "js_string (JBig i) = int_str i"
| "js_string (JFloat s) = s"
| "js_string (JRegex s) = s"
| "js_string (JStr s) = s"
| "js_string (JArr xs) =
     join '','' (map (\<lambda>x. case x of JUndef \<Rightarrow> [] | JNull \<Rightarrow> [] | _ \<Rightarrow> js_string x) xs)"
| "js_string (JObj kvs) = ''[object Object]''"

definition is_nullish :: "jsval \<Rightarrow> bool" where
  "is_nullish v \<longleftrightarrow> v = JUndef \<or> v = JNull"

text \<open>The property read \<open>o[k]\<close> on a plain object without the key is \<open>undefined\<close>.\<close>

definition get_prop :: "(string \<times> jsval) list \<Rightarrow> string \<Rightarrow> jsval" where
  "get_prop kvs k = (case map_of kvs k of None \<Rightarrow> JUndef | Some v \<Rightarrow> v)"

text \<open>\<open>v == null ? '' : String(v)\<close>, which the code writes in many places.\<close>

definition js_text :: "jsval \<Rightarrow> string" where
  "js_text v = (if is_nullish v then [] else js_string v)"

definition MAX_SAFE_INTEGER :: int where
  "MAX_SAFE_INTEGER = 2 ^ 53 - 1"

section \<open>Exceptions as values\<close>

text \<open>Sequencing of a computation that may throw: the first \<open>Inl\<close> is the result.\<close>

fun try_bind :: "'e + 'a \<Rightarrow> ('a \<Rightarrow> 'e + 'b) \<Rightarrow> 'e + 'b" where
  "try_bind (Inl e) f = Inl e"
| "try_bind (Inr a) f = f a"

fun catch_with :: "'e + 'a \<Rightarrow> ('e \<Rightarrow> 'a) \<Rightarrow> 'a" where
  "catch_with (Inl e) f = f e"
| "catch_with (Inr a) f = a"

lemma try_bind_Inr: "try_bind m f = Inr y \<longleftrightarrow> (\<exists>x. m = Inr x \<and> f x = Inr y)"
  by (cases m) auto

end
