(* ===== verification/MerklePrims.thy ===== *)
theory MerklePrims
  imports Prelude
begin

text \<open>
  The byte layer of the light client's Merkle scheme (\<open>src/merkle/primitives.js\<close>): hex
  conversion of buffers, the domain-separated hashes, the table of empty subtrees, canonical
  amounts, the NUL-joined field encoding and the key derivations.

  SHA-256 is Node's \<open>crypto\<close> module, so it is the parameter \<open>H\<close> of every definition that hashes.
  The only fact about it ever used is that a digest has a fixed length; collision resistance is
  never assumed, a binding theorem exhibits the two preimages that collide.
\<close>

section \<open>Buffers and hex text\<close>

datatype merkle_error =
    AmountNotString
  | NonCanonicalAmount
  | FieldHasNul
  | SurplusSiblings
  | IndexOutOfRange
  | UnknownSubtree
  | TypeError

definition hex_digit :: "nat \<Rightarrow> char" where
  "hex_digit n = ''0123456789abcdef'' ! n"

definition hex_val :: "char \<Rightarrow> nat option" where
  "hex_val c =
     (let n = of_char c :: nat in
      if 48 \<le> n \<and> n \<le> 57 then Some (n - 48)
      else if 97 \<le> n \<and> n \<le> 102 then Some (n - 87)
      else if 65 \<le> n \<and> n \<le> 70 then Some (n - 55)
      else None)"

text \<open>\<open>buf.toString('hex')\<close>.\<close>

fun hex_encode :: "bytes \<Rightarrow> string" where
  "hex_encode [] = []"
| "hex_encode (b # bs) = hex_digit (unat b div 16) # hex_digit (unat b mod 16) # hex_encode bs"

text \<open>\<open>Buffer.from(s, 'hex')\<close>: decoding stops at the first pair that is not hex.\<close>

fun hex_decode :: "string \<Rightarrow> bytes" where
  "hex_decode (a # b # s) =
     (case (hex_val a, hex_val b) of
        (Some x, Some y) \<Rightarrow> word_of_nat (16 * x + y) # hex_decode s
      | _ \<Rightarrow> [])"
| "hex_decode _ = []"

text \<open>Arguments that may be a \<open>Buffer\<close> or a hex string.\<close>

datatype bufarg = Buf bytes | Hex string

fun toBuf :: "bufarg \<Rightarrow> bytes" where
  "toBuf (Buf b) = b"
| "toBuf (Hex s) = hex_decode s"

fun toHex :: "bufarg \<Rightarrow> string" where
  "toHex (Buf b) = hex_encode b"
| "toHex (Hex s) = s"

lemma hex_val_digit: "n < 16 \<Longrightarrow> hex_val (hex_digit n) = Some n"
proof -
  have "\<forall>n\<in>set [0..<16]. hex_val (hex_digit n) = Some n" by code_simp
  then show "n < 16 \<Longrightarrow> hex_val (hex_digit n) = Some n" by simp
qed

lemma unat_byte_lt: "unat (b :: byte) < 256"
proof -
  have "unat b < 2 ^ LENGTH(8)" by (rule unsigned_less)
  then show ?thesis by simp
qed

lemma hex_decode_encode [simp, hex_simps]: "hex_decode (hex_encode bs) = bs"
proof (induction bs)
  case (Cons b bs)
  have "unat b div 16 < 16" "unat b mod 16 < 16"
    using unat_byte_lt [of b] by auto
  moreover have "16 * (unat b div 16) + unat b mod 16 = unat b" by simp
  ultimately show ?case using Cons by (simp add: hex_val_digit)
qed simp

lemma hex_encode_inject [simp, hex_simps]: "hex_encode a = hex_encode b \<longleftrightarrow> a = b"
  by (metis hex_decode_encode)

lemma length_hex_encode [simp, hex_simps]: "length (hex_encode b) = 2 * length b"
  by (induction b) auto

section \<open>Domain-separated hashes\<close>

definition utf8 :: "string \<Rightarrow> bytes" where
  "utf8 s = map of_char s"

definition leafHash :: "(bytes \<Rightarrow> bytes) \<Rightarrow> bytes \<Rightarrow> bytes" where
  "leafHash H b = H (0 # b)"

definition nodePre :: "bytes \<Rightarrow> bytes \<Rightarrow> bytes" where
  "nodePre l r = 1 # l @ r"

definition nodeHash :: "(bytes \<Rightarrow> bytes) \<Rightarrow> bytes \<Rightarrow> bytes \<Rightarrow> bytes" where
  "nodeHash H l r = H (nodePre l r)"

fun EMPTY :: "(bytes \<Rightarrow> bytes) \<Rightarrow> nat \<Rightarrow> bytes" where
  "EMPTY H 0 = H (2 # utf8 ''XCHAIN_EMPTY_LEAF'')"
| "EMPTY H (Suc h) = nodeHash H (EMPTY H h) (EMPTY H h)"

definition SMT_DEPTH :: nat where
  "SMT_DEPTH = 256"

definition EMPTY_SMT_ROOT :: "(bytes \<Rightarrow> bytes) \<Rightarrow> bytes" where
  "EMPTY_SMT_ROOT H = EMPTY H SMT_DEPTH"

lemma unat_of_char_byte: "unat (of_char c :: byte) = of_char c"
proof -
  have "unat (of_char c :: byte) = unat (word_of_nat (of_char c) :: byte)"
    by (simp only: of_nat_of_char)
  also have "\<dots> = of_char c mod 2 ^ LENGTH(8)" by (rule unat_of_nat)
  also have "\<dots> = of_char c"
    using of_char_mod_256 [of c, where ?'a = nat] by simp
  finally show ?thesis .
qed

lemma of_char_byte_inject: "(of_char c :: byte) = of_char d \<longleftrightarrow> c = d"
  by (metis unat_of_char_byte of_char_eq_iff)

lemma utf8_inject [simp]: "utf8 s = utf8 t \<longleftrightarrow> s = t"
  unfolding utf8_def by (rule inj_map_eq_map) (auto simp: inj_def of_char_byte_inject)

lemma length_utf8 [simp]: "length (utf8 s) = length s"
  by (simp add: utf8_def)

lemma utf8_append [simp]: "utf8 (s @ t) = utf8 s @ utf8 t"
  by (simp add: utf8_def)

section \<open>Canonical amounts\<close>

text \<open>The test \<open>/^\d+(\.\d{1,18})?$/\<close>.\<close>

definition amount_text :: "string \<Rightarrow> bool" where
  "amount_text s =
     (case split_on (CHR ''.'') s of
        [i] \<Rightarrow> all_digits i
      | [i, f] \<Rightarrow> all_digits i \<and> all_digits f \<and> length f \<le> 18
      | _ \<Rightarrow> False)"

text \<open>The replacement of \<open>/^0+(?=\d)/\<close> by the empty string.\<close>

fun strip_zeros :: "string \<Rightarrow> string" where
  "strip_zeros (c # d # s) =
     (if c = CHR ''0'' \<and> is_digit d then strip_zeros (d # s) else c # d # s)"
| "strip_zeros s = s"

definition canonicalAmount :: "jsval \<Rightarrow> merkle_error + string" where
  "canonicalAmount input =
     (case input of
        JStr raw \<Rightarrow>
          (let s = js_trim raw in
           if \<not> amount_text s then Inl NonCanonicalAmount
           else
             (let parts = split_on (CHR ''.'') s;
                  intPart = hd parts;
                  fracPart = (if length parts > 1 then parts ! 1 else []);
                  intPart' = strip_zeros intPart;
                  fracPart' = take 18 (fracPart @ replicate 18 (CHR ''0''))
              in Inr (intPart' @ ''.'' @ fracPart')))
      | _ \<Rightarrow> Inl AmountNotString)"

definition amountLeaf :: "(bytes \<Rightarrow> bytes) \<Rightarrow> jsval \<Rightarrow> merkle_error + bytes" where
  "amountLeaf H amount =
     (case canonicalAmount amount of Inl e \<Rightarrow> Inl e | Inr s \<Rightarrow> Inr (leafHash H (utf8 s)))"

section \<open>Field encoding and keys\<close>

fun join_parts :: "bool \<Rightarrow> jsval list \<Rightarrow> merkle_error + bytes" where
  "join_parts first [] = Inr []"
| "join_parts first (p # ps) =
     (let b = utf8 (js_string p) in
      if 0 \<in> set b then Inl FieldHasNul
      else (case join_parts False ps of
              Inl e \<Rightarrow> Inl e
            | Inr r \<Rightarrow> Inr ((if first then [] else [0]) @ b @ r)))"

definition joinFields :: "jsval list \<Rightarrow> merkle_error + bytes" where
  "joinFields parts = join_parts True parts"

definition smtKey :: "(bytes \<Rightarrow> bytes) \<Rightarrow> string \<Rightarrow> jsval list \<Rightarrow> merkle_error + bytes" where
  "smtKey H tag fields =
     (case joinFields (JStr tag # fields) of Inl e \<Rightarrow> Inl e | Inr b \<Rightarrow> Inr (H b))"

definition balanceKey :: "(bytes \<Rightarrow> bytes) \<Rightarrow> jsval \<Rightarrow> jsval \<Rightarrow> jsval \<Rightarrow> jsval \<Rightarrow> merkle_error + bytes" where
  "balanceKey H chain network address tick =
     smtKey H ''XCHAIN_BAL'' [chain, network, address, tick]"

definition escrowKey :: "(bytes \<Rightarrow> bytes) \<Rightarrow> jsval \<Rightarrow> jsval \<Rightarrow> jsval \<Rightarrow> jsval \<Rightarrow> merkle_error + bytes" where
  "escrowKey H chain network address tick =
     smtKey H ''XCHAIN_ESC'' [chain, network, address, tick]"

definition stakeKey :: "(bytes \<Rightarrow> bytes) \<Rightarrow> jsval \<Rightarrow> jsval \<Rightarrow> merkle_error + bytes" where
  "stakeKey H pubkey capability = smtKey H ''XCHAIN_STK'' [pubkey, capability]"

definition contractStateKey :: "(bytes \<Rightarrow> bytes) \<Rightarrow> jsval \<Rightarrow> jsval \<Rightarrow> jsval \<Rightarrow> jsval \<Rightarrow> merkle_error + bytes" where
  "contractStateKey H chain network contractIndex stateKey =
     smtKey H ''XCHAIN_CST'' [chain, network, JStr (js_string contractIndex), stateKey]"

end
