(* ===== verification/MerkleAmounts.thy ===== *)
theory MerkleAmounts
  imports MerklePrims
begin

text \<open>
  Canonical amounts (\<open>canonicalAmount\<close>, \<open>sumCanonicalAmounts\<close>, the stake leaves) against a
  reference: an amount is a number of \<open>10^-18\<close> units, and the canonical text is a function of that
  number alone. The field join is injective, so leaf and key preimages determine their fields.
\<close>

section \<open>Summing amounts, stake leaves\<close>

definition pad_start :: "nat \<Rightarrow> string \<Rightarrow> string" where
  "pad_start n s = replicate (n - length s) (CHR ''0'') @ s"

text \<open>The loop over the amounts, each read back from its canonical text.\<close>

fun sum_units :: "nat \<Rightarrow> jsval list \<Rightarrow> merkle_error + nat" where
  "sum_units acc [] = Inr acc"
| "sum_units acc (a # as) =
     (case canonicalAmount (JStr (js_string a)) of
        Inl e \<Rightarrow> Inl e
      | Inr s \<Rightarrow>
          (let parts = split_on (CHR ''.'') s in
           sum_units (acc + nat_of_digits (parts ! 0) * 1000000000000000000
                          + nat_of_digits (parts ! 1)) as))"

definition sumCanonicalAmounts :: "jsval list \<Rightarrow> merkle_error + string" where
  "sumCanonicalAmounts amounts =
     (case sum_units 0 amounts of
        Inl e \<Rightarrow> Inl e
      | Inr acc \<Rightarrow>
          (let s = nat_str acc;
               frac = (if length s > 18 then drop (length s - 18) s else pad_start 18 s);
               intp = (if length s > 18 then take (length s - 18) s else ''0'')
           in Inr (strip_zeros intp @ ''.'' @ frac)))"

definition STAKE_TOTAL_PUBKEY :: string where
  "STAKE_TOTAL_PUBKEY = ''__total__''"

definition stakeMemberLeaf :: "(bytes \<Rightarrow> bytes) \<Rightarrow> jsval \<Rightarrow> jsval \<Rightarrow> merkle_error + bytes" where
  "stakeMemberLeaf H source weight =
     (case canonicalAmount weight of
        Inl e \<Rightarrow> Inl e
      | Inr w \<Rightarrow> (case joinFields [JStr ''STK'', source, JStr w] of
                    Inl e \<Rightarrow> Inl e | Inr b \<Rightarrow> Inr (leafHash H b)))"

definition stakeTotalLeaf :: "(bytes \<Rightarrow> bytes) \<Rightarrow> jsval \<Rightarrow> merkle_error + bytes" where
  "stakeTotalLeaf H amt =
     (case canonicalAmount amt of
        Inl e \<Rightarrow> Inl e
      | Inr w \<Rightarrow> (case joinFields [JStr ''STKTOTAL'', JStr w] of
                    Inl e \<Rightarrow> Inl e | Inr b \<Rightarrow> Inr (leafHash H b)))"

section \<open>Reference: amounts as a number of units\<close>

text \<open>The value of an amount text in units of \<open>10^-18\<close>, and the canonical text of such a value.\<close>

definition UNIT :: nat where
  "UNIT = 10 ^ 18"

definition amount_units :: "string \<Rightarrow> nat" where
  "amount_units s =
     (case split_on (CHR ''.'') s of
        [i] \<Rightarrow> nat_of_digits i * UNIT
      | [i, f] \<Rightarrow> nat_of_digits i * UNIT + nat_of_digits f * 10 ^ (18 - length f)
      | _ \<Rightarrow> 0)"

definition units_text :: "nat \<Rightarrow> string" where
  "units_text u = nat_str (u div UNIT) @ ''.'' @ pad_start 18 (nat_str (u mod UNIT))"

lemma not_digit_dot [simp]: "\<not> is_digit (CHR ''.'')"
  by (simp add: is_digit_def)

lemma is_digit_zero [simp]: "is_digit (CHR ''0'')"
  by (simp add: is_digit_def)

lemma digits_no_dot: "list_all is_digit s \<Longrightarrow> CHR ''.'' \<notin> set s"
  by (auto simp: list_all_iff)

lemma length_nat_str_le: "v < 10 ^ k \<Longrightarrow> 0 < k \<Longrightarrow> length (nat_str v) \<le> k"
proof (induction k arbitrary: v)
  case (Suc k)
  show ?case
  proof (cases "v < 10")
    case True
    then show ?thesis by (subst nat_str.simps) simp
  next
    case False
    then have "0 < k" using Suc.prems by (cases k) auto
    moreover have "v div 10 < 10 ^ k" using Suc.prems(1) by (metis less_mult_imp_div_less power_Suc2)
    ultimately have "length (nat_str (v div 10)) \<le> k" using Suc.IH by blast
    with False show ?thesis by (subst nat_str.simps) simp
  qed
qed simp

lemma strip_zeros_digits: "list_all is_digit s \<Longrightarrow> list_all is_digit (strip_zeros s)"
  by (induction s rule: strip_zeros.induct) auto

lemma strip_zeros_value [simp]: "nat_of_digits (strip_zeros s) = nat_of_digits s"
proof (induction s rule: strip_zeros.induct)
  case (1 c d s)
  then show ?case by (auto simp: nat_of_digits_def)
qed auto

lemma strip_zeros_lead:
  "list_all is_digit s \<Longrightarrow> s \<noteq> [] \<Longrightarrow>
   strip_zeros s \<noteq> [] \<and> (length (strip_zeros s) = 1 \<or> hd (strip_zeros s) \<noteq> CHR ''0'')"
  by (induction s rule: strip_zeros.induct) auto

lemma digit_val_pos: "is_digit c \<Longrightarrow> c \<noteq> CHR ''0'' \<Longrightarrow> 0 < digit_val c"
  by (metis digit_char_val digit_val_zero neq0_conv is_digit_def list.set_intros(1))

lemma lead_is_nat_str:
  "list_all is_digit s \<Longrightarrow> s \<noteq> [] \<Longrightarrow> length s = 1 \<or> hd s \<noteq> CHR ''0'' \<Longrightarrow>
   s = nat_str (nat_of_digits s) \<and> (1 < length s \<longrightarrow> 0 < nat_of_digits s)"
proof (induction s rule: rev_induct)
  case (snoc c s)
  have c: "is_digit c" and s: "list_all is_digit s" using snoc.prems by simp_all
  note dv = digit_val_lt [OF c]
  show ?case
  proof (cases "s = []")
    case True
    have "nat_str (digit_val c) = [c]"
      using dv digit_char_val [OF c] by (subst nat_str.simps) simp
    with True show ?thesis by (simp add: nat_of_digits_def)
  next
    case False
    then have hd: "hd s \<noteq> CHR ''0''" using snoc.prems by (cases s) auto
    have IH: "s = nat_str (nat_of_digits s)" and pos: "1 < length s \<longrightarrow> 0 < nat_of_digits s"
      using snoc.IH s False hd by auto
    have "0 < nat_of_digits s"
    proof (cases "length s = 1")
      case True
      then obtain d where d: "s = [d]" by (auto simp: length_Suc_conv)
      then have "0 < digit_val d" using s hd digit_val_pos by simp
      with d show ?thesis by (simp add: nat_of_digits_def)
    next
      case False
      with \<open>s \<noteq> []\<close> pos show ?thesis by (cases s) auto
    qed
    moreover have "nat_str (10 * nat_of_digits s + digit_val c) = s @ [c]"
      using \<open>0 < nat_of_digits s\<close> dv IH [symmetric] digit_char_val [OF c]
      by (subst nat_str.simps) simp
    ultimately show ?thesis by simp
  qed
qed simp

lemma strip_zeros_eq_nat_str:
  assumes "list_all is_digit s" "s \<noteq> []"
  shows "strip_zeros s = nat_str (nat_of_digits s)"
  using lead_is_nat_str [of "strip_zeros s"] strip_zeros_lead [OF assms]
    strip_zeros_digits [OF assms(1)] by simp

lemma length_pad_start: "length s \<le> n \<Longrightarrow> length (pad_start n s) = n"
  by (simp add: pad_start_def)

lemma pad_start_digits: "list_all is_digit s \<Longrightarrow> list_all is_digit (pad_start n s)"
  by (auto simp: pad_start_def list_all_iff)

lemma pad_start_value [simp]: "nat_of_digits (pad_start n s) = nat_of_digits s"
  by (simp add: pad_start_def nat_of_digits_append)

text \<open>A digit string of length \<open>n\<close> is its own value, padded.\<close>

lemma digits_eq_pad_start:
  assumes "list_all is_digit f" "length f = n" "0 < n"
  shows "f = pad_start n (nat_str (nat_of_digits f))"
proof (rule nat_of_digits_inject)
  have "nat_of_digits f < 10 ^ n" using nat_of_digits_lt assms by auto
  then have "length (nat_str (nat_of_digits f)) \<le> n" using assms(3) by (rule length_nat_str_le)
  then show "length f = length (pad_start n (nat_str (nat_of_digits f)))"
    using assms(2) by (simp add: length_pad_start)
qed (simp_all add: assms pad_start_digits nat_str_digits)

lemma zeros_digits: "list_all is_digit (replicate n (CHR ''0''))"
  by (simp add: list_all_iff)

section \<open>Canonical text is a function of the value\<close>

lemma split_dot_one: "split_on (CHR ''.'') s = [i] \<Longrightarrow> s = i"
  by (metis join_split_on join.simps(2))

lemma split_dot_two: "split_on (CHR ''.'') s = [i, f] \<Longrightarrow> s = i @ ''.'' @ f"
  using join_split_on [of "CHR ''.''" s] by simp

lemma split_dot_join:
  "list_all is_digit i \<Longrightarrow> list_all is_digit f \<Longrightarrow> split_on (CHR ''.'') (i @ ''.'' @ f) = [i, f]"
  by (simp add: split_on_append_sep split_on_no_sep digits_no_dot)

lemma canonical_frac:
  assumes "list_all is_digit f" "length f \<le> 18"
  shows "take 18 (f @ replicate 18 (CHR ''0'')) =
         pad_start 18 (nat_str (nat_of_digits f * 10 ^ (18 - length f)))"
proof -
  let ?g = "take 18 (f @ replicate 18 (CHR ''0''))"
  have g: "?g = f @ replicate (18 - length f) (CHR ''0'')"
    using assms(2) by (simp add: take_replicate min_def)
  have "list_all is_digit ?g" unfolding g using assms(1) by (simp add: zeros_digits)
  moreover have "length ?g = 18" using assms(2) by simp
  moreover have "nat_of_digits ?g = nat_of_digits f * 10 ^ (18 - length f)"
    unfolding g by (simp add: nat_of_digits_append)
  ultimately show ?thesis using digits_eq_pad_start [of ?g 18] by simp
qed

lemma units_text_split:
  assumes "i = u div UNIT" "v = u mod UNIT"
  shows "nat_str i @ ''.'' @ pad_start 18 (nat_str v) = units_text u"
  using assms by (simp add: units_text_def)

lemma UNIT_pos [simp]: "0 < UNIT"
  by (simp add: UNIT_def)

lemma mod_UNIT_lt: "u mod UNIT < 10 ^ 18"
  using mod_less_divisor [OF UNIT_pos] by (simp add: UNIT_def)

lemma frac_units_lt:
  assumes "list_all is_digit f" "length f \<le> 18"
  shows "nat_of_digits f * 10 ^ (18 - length f) < UNIT"
proof -
  have "nat_of_digits f < 10 ^ length f" using assms(1) by (rule nat_of_digits_lt)
  then have "nat_of_digits f * 10 ^ (18 - length f) < 10 ^ length f * 10 ^ (18 - length f)"
    by simp
  also have "\<dots> = UNIT" unfolding UNIT_def using assms(2) by (simp only: flip: power_add) simp
  finally show ?thesis .
qed

lemma canonicalAmount_units:
  assumes "amount_text (js_trim s)"
  shows "canonicalAmount (JStr s) = Inr (units_text (amount_units (js_trim s)))"
proof -
  let ?t = "js_trim s"
  consider i where "split_on (CHR ''.'') ?t = [i]" "all_digits i"
    | i f where "split_on (CHR ''.'') ?t = [i, f]" "all_digits i" "all_digits f" "length f \<le> 18"
    using assms by (auto simp: amount_text_def split: list.splits)
  then show ?thesis
  proof cases
    case 1
    then have d: "list_all is_digit i" "i \<noteq> []" by (auto simp: all_digits_def)
    have z: "pad_start 18 (nat_str 0) = replicate 18 (CHR ''0'')"
      by code_simp
    show ?thesis
      using 1 assms
      by (simp add: canonicalAmount_def Let_def amount_units_def units_text_def z
          strip_zeros_eq_nat_str [OF d])
  next
    case 2
    then have d: "list_all is_digit i" "i \<noteq> []" "list_all is_digit f" by (auto simp: all_digits_def)
    let ?v = "nat_of_digits f * 10 ^ (18 - length f)"
    have lt: "?v < UNIT" using frac_units_lt [OF d(3) 2(4)] .
    have u: "amount_units ?t = nat_of_digits i * UNIT + ?v"
      using 2 by (simp add: amount_units_def)
    have q: "nat_of_digits i = amount_units ?t div UNIT" and r: "?v = amount_units ?t mod UNIT"
      using lt unfolding u by simp_all
    have "canonicalAmount (JStr s) =
        Inr (nat_str (nat_of_digits i) @ ''.'' @ pad_start 18 (nat_str ?v))"
      using 2 assms strip_zeros_eq_nat_str [OF d(1,2)] canonical_frac [OF d(3) 2(4)]
      by (simp add: canonicalAmount_def Let_def)
    then show ?thesis using units_text_split [OF q r] by simp
  qed
qed

lemma canonicalAmount_Inr:
  "canonicalAmount v = Inr r \<Longrightarrow>
   \<exists>s. v = JStr s \<and> amount_text (js_trim s) \<and> r = units_text (amount_units (js_trim s))"
  using canonicalAmount_units
  by (cases v) (auto simp: canonicalAmount_def Let_def split: if_splits)

lemma units_text_digits:
  "list_all is_digit (nat_str (u div UNIT))"
  "list_all is_digit (pad_start 18 (nat_str (u mod UNIT)))"
  by (simp_all add: nat_str_digits pad_start_digits)

lemma units_text_split_on:
  "split_on (CHR ''.'') (units_text u) =
     [nat_str (u div UNIT), pad_start 18 (nat_str (u mod UNIT))]"
  unfolding units_text_def by (rule split_dot_join) (simp_all add: units_text_digits)

lemma length_units_frac: "length (pad_start 18 (nat_str (u mod UNIT))) = 18"
  by (rule length_pad_start, rule length_nat_str_le, rule mod_UNIT_lt) simp

lemma amount_units_units_text [simp]: "amount_units (units_text u) = u"
  unfolding amount_units_def units_text_split_on
  by (simp add: length_units_frac)

lemma amount_text_units_text: "amount_text (units_text u)"
  unfolding amount_text_def units_text_split_on
  using length_units_frac [of u] units_text_digits [of u]
  by (auto simp: all_digits_nat_str all_digits_def)

lemma js_trim_units_text [simp]: "js_trim (units_text u) = units_text u"
proof (rule js_trim_no_ws)
  have "\<not> is_ws (CHR ''.'')" by code_simp
  then show "\<forall>c\<in>set (units_text u). \<not> is_ws c"
    using units_text_digits [of u] is_digit_not_ws
    by (auto simp: units_text_def list_all_iff)
qed

lemma canonicalAmount_units_text: "canonicalAmount (JStr (units_text u)) = Inr (units_text u)"
  using canonicalAmount_units [of "units_text u"] amount_text_units_text by simp

lemma units_text_inject [simp]: "units_text u = units_text v \<longleftrightarrow> u = v"
  by (metis amount_units_units_text)

section \<open>The exact sum\<close>

lemma sum_units_step:
  assumes "canonicalAmount (JStr t) = Inr s"
  shows "nat_of_digits (split_on (CHR ''.'') s ! 0) * 1000000000000000000
           + nat_of_digits (split_on (CHR ''.'') s ! 1) = amount_units (js_trim t)"
proof -
  obtain u where u: "u = amount_units (js_trim t)" and s: "s = units_text u"
    using canonicalAmount_Inr [OF assms] by auto
  have "nat_of_digits (split_on (CHR ''.'') s ! 0) = u div UNIT"
    "nat_of_digits (split_on (CHR ''.'') s ! 1) = u mod UNIT"
    unfolding s units_text_split_on by simp_all
  then show ?thesis using u by (simp add: UNIT_def)
qed

lemma sum_units_ok:
  "\<forall>a\<in>set as. amount_text (js_trim (js_string a)) \<Longrightarrow>
   sum_units acc as = Inr (acc + sum_list (map (\<lambda>a. amount_units (js_trim (js_string a))) as))"
proof (induction as arbitrary: acc)
  case (Cons a as)
  have c: "canonicalAmount (JStr (js_string a)) = Inr (units_text (amount_units (js_trim (js_string a))))"
    using Cons.prems by (intro canonicalAmount_units) simp
  show ?case
    using Cons c sum_units_step [OF c] by (simp add: Let_def add.assoc)
qed simp

lemma sum_units_error:
  "a \<in> set as \<Longrightarrow> \<not> amount_text (js_trim (js_string a)) \<Longrightarrow>
   sum_units acc as = Inl NonCanonicalAmount"
proof (induction as arbitrary: acc)
  case (Cons b as)
  show ?case
  proof (cases "amount_text (js_trim (js_string b))")
    case True
    then show ?thesis using Cons canonicalAmount_units [OF True] by (auto simp: Let_def)
  next
    case False
    then show ?thesis by (simp add: canonicalAmount_def)
  qed
qed simp

lemma length_nat_str_gt: "10 ^ k \<le> v \<Longrightarrow> k < length (nat_str v)"
proof (rule ccontr)
  assume v: "10 ^ k \<le> v" and "\<not> k < length (nat_str v)"
  then have "(10::nat) ^ length (nat_str v) \<le> 10 ^ k" by (intro power_increasing) simp_all
  moreover have "v < 10 ^ length (nat_str v)"
    using nat_of_digits_lt [OF nat_str_digits [of v]] by simp
  ultimately show False using v by linarith
qed

text \<open>Cutting the decimal text of a number at its last 18 digits divides it by \<open>10^18\<close>.\<close>

lemma nat_str_cut:
  assumes "18 < length (nat_str v)"
  defines "k \<equiv> length (nat_str v) - 18"
  shows "strip_zeros (take k (nat_str v)) = nat_str (v div UNIT)"
    and "drop k (nat_str v) = pad_start 18 (nat_str (v mod UNIT))"
proof -
  let ?a = "take k (nat_str v)" and ?b = "drop k (nat_str v)"
  have d: "list_all is_digit ?a" "list_all is_digit ?b"
    using nat_str_digits [of v] by (auto simp: list_all_iff dest: in_set_takeD in_set_dropD)
  have lb: "length ?b = 18" and a: "?a \<noteq> []" using assms by simp_all
  have lt: "nat_of_digits ?b < UNIT" using nat_of_digits_lt [OF d(2)] lb by (simp add: UNIT_def)
  have v: "v = nat_of_digits ?a * UNIT + nat_of_digits ?b" unfolding UNIT_def
    by (metis append_take_drop_id lb nat_of_digits_append nat_of_digits_nat_str)
  have "v div UNIT = nat_of_digits ?a" by (subst v) (use lt in simp)
  moreover have "v mod UNIT = nat_of_digits ?b" by (subst v) (use lt in simp)
  ultimately have "v div UNIT = nat_of_digits ?a" "v mod UNIT = nat_of_digits ?b" by simp_all
  then show "strip_zeros ?a = nat_str (v div UNIT)"
    "?b = pad_start 18 (nat_str (v mod UNIT))"
    using strip_zeros_eq_nat_str [OF d(1) a] digits_eq_pad_start [OF d(2) lb] by simp_all
qed

lemma sum_text:
  "strip_zeros (if length (nat_str v) > 18 then take (length (nat_str v) - 18) (nat_str v) else ''0'')
     @ ''.'' @ (if length (nat_str v) > 18 then drop (length (nat_str v) - 18) (nat_str v)
                else pad_start 18 (nat_str v)) = units_text v"
proof (cases "length (nat_str v) > 18")
  case True
  then show ?thesis using nat_str_cut [OF True] by (simp add: units_text_def)
next
  case False
  then have "v < UNIT" unfolding UNIT_def using length_nat_str_gt [of 18 v] by (meson not_le)
  moreover have "nat_str 0 = ''0''" by code_simp
  ultimately show ?thesis using False by (simp add: units_text_def)
qed

lemma sumCanonicalAmounts_ok:
  assumes "\<forall>a\<in>set as. amount_text (js_trim (js_string a))"
  shows "sumCanonicalAmounts as =
    Inr (units_text (sum_list (map (\<lambda>a. amount_units (js_trim (js_string a))) as)))"
  using sum_units_ok [OF assms, of 0] sum_text
  by (simp only: sumCanonicalAmounts_def Let_def sum.case add_0)

section \<open>The field join is injective\<close>

lemma zero_in_utf8: "0 \<in> set (utf8 s) \<longleftrightarrow> CHR 0x00 \<in> set s"
proof -
  have "(0 :: byte) = of_char (CHR 0x00)" by simp
  then show ?thesis unfolding utf8_def by (metis (no_types, lifting) image_iff list.set_map of_char_byte_inject)
qed

lemma join_parts_Inr:
  "join_parts first ps = Inr r \<Longrightarrow>
   (\<forall>p\<in>set ps. CHR 0x00 \<notin> set (js_string p)) \<and>
   r = (if first \<or> ps = [] then [] else [0]) @ utf8 (join [CHR 0x00] (map js_string ps))"
proof (induction ps arbitrary: first r)
  case Nil
  then show ?case by (simp add: utf8_def)
next
  case (Cons p ps)
  then obtain r' where nul: "CHR 0x00 \<notin> set (js_string p)"
    and tl: "join_parts False ps = Inr r'"
    and r: "r = (if first then [] else [0]) @ utf8 (js_string p) @ r'"
    by (auto simp: Let_def zero_in_utf8 split: if_splits sum.splits)
  have IH: "(\<forall>p\<in>set ps. CHR 0x00 \<notin> set (js_string p)) \<and>
     r' = (if ps = [] then [] else [0]) @ utf8 (join [CHR 0x00] (map js_string ps))"
    using Cons.IH [OF tl] by simp
  show ?case using IH nul r by (cases ps) (auto simp: utf8_def)
qed

lemma joinFields_Inr:
  "joinFields ps = Inr r \<Longrightarrow>
   (\<forall>s\<in>set (map js_string ps). CHR 0x00 \<notin> set s) \<and>
   r = utf8 (join [CHR 0x00] (map js_string ps))"
  unfolding joinFields_def by (drule join_parts_Inr) auto

lemma joinFields_inject:
  assumes "joinFields xs = Inr r" "joinFields ys = Inr r" "xs \<noteq> []" "ys \<noteq> []"
  shows "map js_string xs = map js_string ys"
proof (rule join_injective)
  show "join [CHR 0x00] (map js_string xs) = join [CHR 0x00] (map js_string ys)"
    using joinFields_Inr [OF assms(1)] joinFields_Inr [OF assms(2)] by (metis utf8_inject)
  show "\<forall>x\<in>set (map js_string xs). CHR 0x00 \<notin> set x"
    "\<forall>y\<in>set (map js_string ys). CHR 0x00 \<notin> set y"
    using joinFields_Inr [OF assms(1)] joinFields_Inr [OF assms(2)] by blast+
qed (use assms in simp_all)

section \<open>Properties\<close>

text \<open>
  C26: Two amount texts have the same canonical form exactly when they denote the same number of
  \<open>10^-18\<close> units, so \<open>canonicalAmount\<close> neither merges different amounts nor splits equal ones.
\<close>

theorem canonicalAmount_exact:
  assumes "amount_text (js_trim s)" "amount_text (js_trim t)"
  shows "canonicalAmount (JStr s) = canonicalAmount (JStr t) \<longleftrightarrow>
    amount_units (js_trim s) = amount_units (js_trim t)"
  using assms by (simp add: canonicalAmount_units)

theorem canonicalAmount_exact_witness:
  "amount_units (js_trim '' 007.50 '') = amount_units (js_trim ''7.5'')"
proof -
  have "amount_text (js_trim '' 007.50 '')" "amount_text (js_trim ''7.5'')"
    "canonicalAmount (JStr '' 007.50 '') = canonicalAmount (JStr ''7.5'')" by code_simp+
  then show ?thesis using canonicalAmount_exact by blast
qed

text \<open>
  \<open>sumCanonicalAmounts\<close> is exact: the canonical text of the sum of the units of its arguments,
  with no bound on the size and no rounding.
\<close>

theorem sumCanonicalAmounts_exact:
  assumes "\<forall>a\<in>set as. amount_text (js_trim (js_string a))"
  shows "\<exists>s. sumCanonicalAmounts as = Inr s \<and> amount_text s \<and>
    amount_units s = sum_list (map (\<lambda>a. amount_units (js_trim (js_string a))) as)"
  using sumCanonicalAmounts_ok [OF assms] amount_text_units_text by simp

theorem sumCanonicalAmounts_exact_witness:
  "\<exists>s. sumCanonicalAmounts [JStr ''1.5'', JInt 2, JStr ''0.000000000000000001''] = Inr s \<and> amount_text s \<and>
    amount_units s = sum_list (map (\<lambda>a. amount_units (js_trim (js_string a)))
      [JStr ''1.5'', JInt 2, JStr ''0.000000000000000001''])"
proof (rule sumCanonicalAmounts_exact)
  show "\<forall>a\<in>set [JStr ''1.5'', JInt 2, JStr ''0.000000000000000001'']. amount_text (js_trim (js_string a))"
    by code_simp
qed

text \<open>
  Two keys derived by \<open>smtKey\<close> that are equal come from the same domain tag and the same field
  texts, or the two preimages are a collision of the hash. In particular a spendable and a locked
  balance, a stake and a contract state key never share a key.
\<close>

theorem smtKey_binding:
  assumes "smtKey H tag xs = Inr k" "smtKey H tag' ys = Inr k"
  shows "tag = tag' \<and> map js_string xs = map js_string ys \<or>
    (\<exists>a b. joinFields (JStr tag # xs) = Inr a \<and> joinFields (JStr tag' # ys) = Inr b \<and>
       a \<noteq> b \<and> H a = H b)"
proof -
  obtain a b where "joinFields (JStr tag # xs) = Inr a" "joinFields (JStr tag' # ys) = Inr b"
    "H a = k" "H b = k"
    using assms by (auto simp: smtKey_def split: sum.splits)
  then show ?thesis
    using joinFields_inject [of "JStr tag # xs" a "JStr tag' # ys"] by fastforce
qed

theorem smtKey_binding_witness:
  "\<exists>k. smtKey id ''XCHAIN_BAL'' [JStr ''BTC'', JInt 7] = Inr k \<and>
    smtKey id ''XCHAIN_BAL'' [JStr ''BTC'', JStr ''7''] = Inr k \<and>
    map js_string [JStr ''BTC'', JInt 7] = map js_string [JStr ''BTC'', JStr ''7'']"
proof -
  let ?k = "utf8 ''XCHAIN_BAL'' @ [0] @ utf8 ''BTC'' @ [0] @ utf8 ''7''"
  have "smtKey id ''XCHAIN_BAL'' [JStr ''BTC'', JInt 7] = Inr ?k" by code_simp
  moreover have "smtKey id ''XCHAIN_BAL'' [JStr ''BTC'', JStr ''7''] = Inr ?k" by code_simp
  ultimately show ?thesis using smtKey_binding [of id "''XCHAIN_BAL''" _ ?k "''XCHAIN_BAL''"] by fastforce
qed

end
