(* ===== verification/Merkle.thy ===== *)
theory Merkle
  imports MerkleAmounts
begin

text \<open>
  The trees of \<open>src/merkle.js\<close>: the depth-256 sparse Merkle tree with its proofs and their
  compressed form, the fixed binary Merkle tree, and the state root built on it.

  The locale \<open>merkle_node\<close> is the interface both verifiers rely on: a node preimage from which the
  two children can be read back. Its client lemma says that two different starting values that climb
  to the same root along the same directions exhibit a collision at one of the steps. It is
  interpreted on the code's \<open>nodePre\<close>.
\<close>

section \<open>The interface: climbing a path of node hashes\<close>

text \<open>A path is bottom-up: at each step, whether the current node is the right child, and its sibling.\<close>

fun climb :: "('p \<Rightarrow> 'n) \<Rightarrow> ('n \<Rightarrow> 'n \<Rightarrow> 'p) \<Rightarrow> (bool \<times> 'n) list \<Rightarrow> 'n \<Rightarrow> 'n" where
  "climb h pre [] n = n"
| "climb h pre ((right, sib) # ps) n =
     climb h pre ps (h (if right then pre sib n else pre n sib))"

fun climb_pres :: "('p \<Rightarrow> 'n) \<Rightarrow> ('n \<Rightarrow> 'n \<Rightarrow> 'p) \<Rightarrow> (bool \<times> 'n) list \<Rightarrow> 'n \<Rightarrow> 'p list" where
  "climb_pres h pre [] n = []"
| "climb_pres h pre ((right, sib) # ps) n =
     (let x = (if right then pre sib n else pre n sib) in x # climb_pres h pre ps (h x))"

text \<open>Two lists of preimages collide when, at one position, they differ and hash alike.\<close>

definition collide_at :: "('p \<Rightarrow> 'n) \<Rightarrow> 'p list \<Rightarrow> 'p list \<Rightarrow> bool" where
  "collide_at h xs ys \<longleftrightarrow> list_ex (\<lambda>(x, y). x \<noteq> y \<and> h x = h y) (zip xs ys)"

lemma length_climb_pres [simp]: "length (climb_pres h pre ps n) = length ps"
  by (induction h pre ps n rule: climb_pres.induct) (auto simp: Let_def)

lemma climb_append:
  "climb h pre (ps @ qs) n = climb h pre qs (climb h pre ps n)"
  by (induction h pre ps n rule: climb.induct) auto

locale merkle_node =
  fixes pre :: "'n \<Rightarrow> 'n \<Rightarrow> 'p"
    and size_of :: "'n \<Rightarrow> nat"
  assumes pre_left: "size_of l = size_of l' \<Longrightarrow> pre l r = pre l' r' \<Longrightarrow> l = l' \<and> r = r'"
    and pre_right: "size_of r = size_of r' \<Longrightarrow> pre l r = pre l' r' \<Longrightarrow> l = l' \<and> r = r'"
begin

lemma step_differs:
  assumes "size_of a = size_of b" "a \<noteq> b"
  shows "(if right then pre s a else pre a s) \<noteq> (if right then pre t b else pre b t)"
  using assms pre_left [of a b s t] pre_right [of a b s t] by auto

lemma climb_binding:
  assumes "map fst ps = map fst qs" and "\<forall>x. size_of (h x) = n"
    and "size_of a = size_of b" and "a \<noteq> b"
    and "climb h pre ps a = climb h pre qs b"
  shows "collide_at h (climb_pres h pre ps a) (climb_pres h pre qs b)"
  using assms
proof (induction ps arbitrary: qs a b)
  case Nil
  then show ?case by simp
next
  case (Cons p ps)
  obtain right s where p: "p = (right, s)" by (cases p)
  then obtain t qs' where qs: "qs = (right, t) # qs'" and fst': "map fst ps = map fst qs'"
    using Cons.prems(1) by (cases qs) auto
  let ?x = "if right then pre s a else pre a s" and ?y = "if right then pre t b else pre b t"
  have xy: "?x \<noteq> ?y" using Cons.prems(3,4) by (rule step_differs)
  show ?case
  proof (cases "h ?x = h ?y")
    case True
    with xy show ?thesis unfolding collide_at_def p qs by (simp add: Let_def del: if_split_asm)
  next
    case False
    have "climb h pre ps (h ?x) = climb h pre qs' (h ?y)"
      using Cons.prems(5) unfolding p qs by simp
    then have "collide_at h (climb_pres h pre ps (h ?x)) (climb_pres h pre qs' (h ?y))"
      using Cons.IH [OF fst' Cons.prems(2) _ False] Cons.prems(2) by simp
    then show ?thesis unfolding collide_at_def p qs by (simp add: Let_def)
  qed
qed

end

interpretation sha_node: merkle_node nodePre length
proof
  show "length l = length l' \<Longrightarrow> nodePre l r = nodePre l' r' \<Longrightarrow> l = l' \<and> r = r'"
    for l l' r r' :: bytes by (simp add: nodePre_def)
  show "length r = length r' \<Longrightarrow> nodePre l r = nodePre l' r' \<Longrightarrow> l = l' \<and> r = r'"
    for l l' r r' :: bytes by (simp add: nodePre_def append_eq_same_suffix_length)
qed

section \<open>Bits of a key\<close>

text \<open>
  \<open>bitAt\<close>: most significant bit first. A read past the end of the buffer is \<open>undefined\<close>, which the
  shift turns into 0.
\<close>

definition bitAt :: "bytes \<Rightarrow> nat \<Rightarrow> byte" where
  "bitAt key i =
     (if i div 8 < length key
      then and (drop_bit (7 - i mod 8) (key ! (i div 8))) 1 else 0)"

lemma bitAt_bit: "i div 8 < length key \<Longrightarrow> bitAt key i = of_bool (bit (key ! (i div 8)) (7 - i mod 8))"
  unfolding bitAt_def by (simp add: and_one_eq mod_2_eq_odd flip: bit_iff_odd_drop_bit)

lemma bitAt_01: "bitAt key i = 0 \<or> bitAt key i = 1"
  by (simp add: bitAt_def and_one_eq mod_2_eq_odd)

text \<open>Two keys of 32 bytes with the same 256 bits are the same key.\<close>

lemma bitAt_ext:
  assumes "length k = 32" "length k' = 32" "\<forall>i<256. bitAt k i = bitAt k' i"
  shows "k = k'"
proof (rule nth_equalityI)
  show "length k = length k'" using assms by simp
  fix j assume j: "j < length k"
  show "k ! j = k' ! j"
  proof (rule bit_word_eqI)
    fix n assume "n < LENGTH(8)"
    then have n: "n < 8" by simp
    define m where "m = 7 - n"
    let ?i = "8 * j + m"
    have m: "m < 8" "7 - m = n" using n by (simp_all add: m_def)
    then have "?i < 256" "?i div 8 = j" "7 - ?i mod 8 = n" using j assms(1) by simp_all
    then show "bit (k ! j) n = bit (k' ! j) n"
      using assms j bitAt_bit [of ?i k] bitAt_bit [of ?i k'] by (auto split: if_splits)
  qed
qed

section \<open>The sparse Merkle tree\<close>

record smt_entry =
  key :: bytes
  leaf :: bytes

text \<open>
  \<open>smtNode\<close>. The depth never passes \<open>SMT_DEPTH\<close>: the code calls it at 0 and recurses one deeper, so
  the guard \<open>SMT_DEPTH \<le> depth\<close> is the code's equality test.
\<close>

function smtNode :: "(bytes \<Rightarrow> bytes) \<Rightarrow> smt_entry list \<Rightarrow> nat \<Rightarrow> bytes" where
  "smtNode H entries depth =
     (if entries = [] then EMPTY H (SMT_DEPTH - depth)
      else if SMT_DEPTH \<le> depth then leaf (hd entries)
      else nodeHash H
             (smtNode H (filter (\<lambda>e. bitAt (key e) depth = 0) entries) (depth + 1))
             (smtNode H (filter (\<lambda>e. bitAt (key e) depth \<noteq> 0) entries) (depth + 1)))"
  by pat_completeness auto
termination
  by (relation "measure (\<lambda>(H, es, d). SMT_DEPTH - d)") auto

declare smtNode.simps [simp del]

text \<open>
  \<open>SparseMerkleTree\<close>: its \<open>_leaves\<close> is a JavaScript \<open>Map\<close> from hex keys to hex leaves. \<open>AList.update\<close>
  is \<open>Map.set\<close>: an existing key keeps its place, a new one goes to the end.
\<close>

type_synonym smt = "(string \<times> string) list"

definition smt_empty :: smt where
  "smt_empty = []"

definition smt_set :: "smt \<Rightarrow> bufarg \<Rightarrow> bufarg option \<Rightarrow> smt" where
  "smt_set t keyBuf leafBufOrNull =
     (let k = toHex keyBuf in
      case leafBufOrNull of
        None \<Rightarrow> AList.delete k t
      | Some v \<Rightarrow> AList.update k (toHex v) t)"

definition smt_delete :: "smt \<Rightarrow> bufarg \<Rightarrow> smt" where
  "smt_delete t keyBuf = AList.delete (toHex keyBuf) t"

definition smt_has :: "smt \<Rightarrow> bufarg \<Rightarrow> bool" where
  "smt_has t keyBuf \<longleftrightarrow> map_of t (toHex keyBuf) \<noteq> None"

definition smt_size :: "smt \<Rightarrow> nat" where
  "smt_size t = length t"

definition smt_entries :: "smt \<Rightarrow> smt_entry list" where
  "smt_entries t = map (\<lambda>(k, v). \<lparr>key = hex_decode k, leaf = hex_decode v\<rparr>) t"

definition smt_root :: "(bytes \<Rightarrow> bytes) \<Rightarrow> smt \<Rightarrow> bytes" where
  "smt_root H t = smtNode H (smt_entries t) 0"

definition smt_rootHex :: "(bytes \<Rightarrow> bytes) \<Rightarrow> smt \<Rightarrow> string" where
  "smt_rootHex H t = hex_encode (smt_root H t)"

text \<open>The loop of \<open>prove\<close>: at each depth the sibling is the root of the other half.\<close>

function proveLoop :: "(bytes \<Rightarrow> bytes) \<Rightarrow> bytes \<Rightarrow> smt_entry list \<Rightarrow> nat \<Rightarrow> string list" where
  "proveLoop H k level depth =
     (if SMT_DEPTH \<le> depth then []
      else
        (let left = filter (\<lambda>e. bitAt (key e) depth = 0) level;
             right = filter (\<lambda>e. bitAt (key e) depth \<noteq> 0) level;
             goRight = (bitAt k depth = 1);
             sibEntries = (if goRight then left else right)
         in hex_encode (smtNode H sibEntries (depth + 1))
              # proveLoop H k (if goRight then right else left) (depth + 1)))"
  by pat_completeness auto
termination
  by (relation "measure (\<lambda>(H, k, es, d). SMT_DEPTH - d)") auto

declare proveLoop.simps [simp del]

text \<open>
  \<open>compressSmtProof\<close>: the bitmap as a 32-byte buffer, the siblings that are not empty subtrees. A
  list shorter than the depth makes the code read \<open>undefined\<close>, which \<open>toBuf\<close> throws on.
\<close>

record compressed_proof =
  bitmap :: string
  csiblings :: "string list"

fun compressLoop :: "(bytes \<Rightarrow> bytes) \<Rightarrow> nat \<Rightarrow> string list \<Rightarrow> bytes \<Rightarrow> bytes \<times> string list" where
  "compressLoop H d [] bm = (bm, [])"
| "compressLoop H d (s # ss) bm =
     (let sib = hex_decode s in
      if sib \<noteq> EMPTY H (SMT_DEPTH - 1 - d)
      then (let bm' = bm[d div 8 := or (bm ! (d div 8)) (push_bit (7 - d mod 8) 1)];
                (b, real) = compressLoop H (d + 1) ss bm'
            in (b, hex_encode sib # real))
      else compressLoop H (d + 1) ss bm)"

definition compressSmtProof :: "(bytes \<Rightarrow> bytes) \<Rightarrow> string list \<Rightarrow> merkle_error + compressed_proof" where
  "compressSmtProof H sibs =
     (if length sibs < SMT_DEPTH then Inl TypeError
      else
        (let (bm, real) = compressLoop H 0 (take SMT_DEPTH sibs) (replicate 32 0)
         in Inr \<lparr>bitmap = hex_encode bm, csiblings = real\<rparr>))"

text \<open>
  \<open>decompressSmtProof\<close>. Where the bitmap asks for a sibling the list no longer has, the read is
  \<open>undefined\<close> (\<open>None\<close> here) and the index still advances; a list that is not used up to its exact end
  is the error.
\<close>

fun decompressLoop :: "(bytes \<Rightarrow> bytes) \<Rightarrow> bytes \<Rightarrow> string list \<Rightarrow> nat \<Rightarrow> nat \<Rightarrow> nat \<Rightarrow> string option list \<times> nat" where
  "decompressLoop H bm real 0 d ri = ([], ri)"
| "decompressLoop H bm real (Suc n) d ri =
     (if bitAt bm d \<noteq> 0
      then (let (out, r) = decompressLoop H bm real n (d + 1) (ri + 1)
            in ((if ri < length real then Some (real ! ri) else None) # out, r))
      else (let (out, r) = decompressLoop H bm real n (d + 1) ri
            in (Some (hex_encode (EMPTY H (SMT_DEPTH - 1 - d))) # out, r)))"

definition decompressSmtProof :: "(bytes \<Rightarrow> bytes) \<Rightarrow> compressed_proof \<Rightarrow> merkle_error + string option list" where
  "decompressSmtProof H c =
     (let (out, ri) = decompressLoop H (hex_decode (bitmap c)) (csiblings c) SMT_DEPTH 0 0
      in if ri \<noteq> length (csiblings c) then Inl SurplusSiblings else Inr out)"

record smt_proof =
  pkey :: string
  leaf_value :: "string option"
  siblings :: "string list"
  compressed :: compressed_proof

definition smt_prove :: "(bytes \<Rightarrow> bytes) \<Rightarrow> smt \<Rightarrow> bufarg \<Rightarrow> merkle_error + smt_proof" where
  "smt_prove H t keyBuf =
     (let k = toBuf keyBuf;
          sibs = proveLoop H k (smt_entries t) 0;
          kh = hex_encode k
      in case compressSmtProof H sibs of
           Inl e \<Rightarrow> Inl e
         | Inr c \<Rightarrow> Inr \<lparr>pkey = kh, leaf_value = map_of t kh, siblings = sibs, compressed = c\<rparr>)"

text \<open>The loop of \<open>verifySmtProof\<close> runs the depths downwards; the argument is one more than the depth.\<close>

fun verifyLoop :: "(bytes \<Rightarrow> bytes) \<Rightarrow> bytes \<Rightarrow> bytes list \<Rightarrow> nat \<Rightarrow> bytes \<Rightarrow> bytes" where
  "verifyLoop H k sibs 0 node = node"
| "verifyLoop H k sibs (Suc d) node =
     verifyLoop H k sibs d
       (if bitAt k d = 0 then nodeHash H node (sibs ! d) else nodeHash H (sibs ! d) node)"

definition verifySmtProof :: "(bytes \<Rightarrow> bytes) \<Rightarrow> bufarg \<Rightarrow> bufarg \<Rightarrow> bufarg option \<Rightarrow> bufarg list \<Rightarrow> bool" where
  "verifySmtProof H rootHex keyBuf leafValueOrNull sibs =
     (if length sibs \<noteq> SMT_DEPTH then False
      else
        (let k = toBuf keyBuf;
             node = (case leafValueOrNull of None \<Rightarrow> EMPTY H 0 | Some v \<Rightarrow> toBuf v)
         in hex_encode (verifyLoop H k (map toBuf sibs) SMT_DEPTH node) = toHex rootHex))"

text \<open>
  \<open>verifyCompressedSmtProof\<close>: the decompression error and the \<open>TypeError\<close> that reading an
  \<open>undefined\<close> sibling raises are results of their own.
\<close>

definition verifyCompressedSmtProof ::
    "(bytes \<Rightarrow> bytes) \<Rightarrow> bufarg \<Rightarrow> bufarg \<Rightarrow> bufarg option \<Rightarrow> compressed_proof \<Rightarrow> merkle_error + bool" where
  "verifyCompressedSmtProof H rootHex keyBuf leafValueOrNull c =
     (case decompressSmtProof H c of
        Inl e \<Rightarrow> Inl e
      | Inr out \<Rightarrow>
          if None \<in> set out then Inl TypeError
          else Inr (verifySmtProof H rootHex keyBuf leafValueOrNull (map (Hex \<circ> the) out)))"

section \<open>Well-formed trees\<close>

definition smt_wf :: "smt \<Rightarrow> bool" where
  "smt_wf t \<longleftrightarrow> distinct (map fst t) \<and>
     (\<forall>(k, v)\<in>set t. length (hex_decode k) = 32 \<and> hex_encode (hex_decode k) = k
        \<and> hex_encode (hex_decode v) = v)"

lemma smt_wf_empty: "smt_wf smt_empty"
  by (simp add: smt_wf_def smt_empty_def)

lemma smt_wf_delete: "smt_wf t \<Longrightarrow> smt_wf (smt_delete t k)"
  unfolding smt_wf_def smt_delete_def
  by (auto simp: AList.delete_eq distinct_map_filter)

lemma smt_wf_update:
  assumes "smt_wf t" "length kb = 32"
  shows "smt_wf (AList.update (hex_encode kb) (hex_encode vb) t)"
proof -
  have "set (AList.update k v t) \<subseteq> insert (k, v) (set t)" for k v
    by (induction t) auto
  then show ?thesis using assms unfolding smt_wf_def
    by (fastforce simp: distinct_update)
qed

lemma smt_wf_set:
  "smt_wf t \<Longrightarrow> length kb = 32 \<Longrightarrow> smt_wf (smt_set t (Buf kb) (map_option Buf v))"
  using smt_wf_update smt_wf_delete [of t "Buf kb"]
  by (cases v) (auto simp: smt_set_def smt_delete_def)

section \<open>The root as a function of the entries\<close>

lemma SMT_DEPTH_pos [simp]: "0 < SMT_DEPTH"
  by (simp add: SMT_DEPTH_def)

lemma smtNode_step:
  assumes "d < SMT_DEPTH"
  shows "smtNode H es d =
    nodeHash H (smtNode H (filter (\<lambda>e. bitAt (key e) d = 0) es) (d + 1))
               (smtNode H (filter (\<lambda>e. bitAt (key e) d \<noteq> 0) es) (d + 1))"
proof (cases "es = []")
  case True
  have "SMT_DEPTH - d = Suc (SMT_DEPTH - (d + 1))" using assms by simp
  moreover have "smtNode H [] d' = EMPTY H (SMT_DEPTH - d')" for d'
    by (subst smtNode.simps) simp
  ultimately show ?thesis using True by simp
next
  case False
  then show ?thesis using assms by (subst smtNode.simps) simp
qed

lemma smtNode_bottom:
  "smtNode H es SMT_DEPTH = (if es = [] then EMPTY H 0 else leaf (hd es))"
  by (subst smtNode.simps) simp

text \<open>Entries that agree on all 256 bits have the same key, so at most one is left at the bottom.\<close>

definition keys_ok :: "smt_entry list \<Rightarrow> bool" where
  "keys_ok es \<longleftrightarrow> distinct (map key es) \<and> (\<forall>e\<in>set es. length (key e) = 32)"

lemma keys_ok_filter: "keys_ok es \<Longrightarrow> keys_ok (filter P es)"
  by (auto simp: keys_ok_def distinct_map_filter)

lemma keys_ok_entries: "smt_wf t \<Longrightarrow> keys_ok (smt_entries t)"
proof -
  assume wf: "smt_wf t"
  have m: "map key (smt_entries t) = map hex_decode (map fst t)"
    by (simp add: smt_entries_def case_prod_beta)
  have "inj_on hex_decode (set (map fst t))"
    using wf unfolding smt_wf_def by (intro inj_on_inverseI [of _ hex_encode]) force
  then have "distinct (map key (smt_entries t))"
    using wf unfolding m distinct_map [of hex_decode] by (simp only: smt_wf_def)
  then show ?thesis using wf by (auto simp: keys_ok_def smt_entries_def smt_wf_def)
qed

lemma same_bits_short:
  assumes "keys_ok es" "\<forall>e\<in>set es. \<forall>i<SMT_DEPTH. bitAt (key e) i = bitAt k i" "length k = 32"
  shows "length es \<le> 1"
proof -
  have "\<forall>e\<in>set es. key e = k"
    using assms bitAt_ext [of _ k] by (auto simp: keys_ok_def SMT_DEPTH_def)
  then show ?thesis using assms(1) distinct_all_equal_short [of key es k] by (auto simp: keys_ok_def)
qed

lemma short_same_set: "length xs \<le> 1 \<Longrightarrow> length ys \<le> 1 \<Longrightarrow> set xs = set ys \<Longrightarrow> xs = ys"
  by (cases xs; cases ys) auto

text \<open>The root depends on the set of entries only, not on their order.\<close>

lemma smtNode_order:
  assumes "keys_ok es" "keys_ok es'" "set es = set es'" "d \<le> SMT_DEPTH"
    and "\<forall>e\<in>set es. \<forall>i<d. bitAt (key e) i = bitAt k i" "length k = 32"
  shows "smtNode H es d = smtNode H es' d"
  using assms
proof (induction "SMT_DEPTH - d" arbitrary: d es es' k)
  case 0
  then have d: "d = SMT_DEPTH" by simp
  have "es = es'"
    using same_bits_short [OF 0(2) _ 0(7)] same_bits_short [OF 0(3) _ 0(7)] 0(4,6) d
    by (intro short_same_set) auto
  then show ?case by simp
next
  case (Suc n)
  then have d: "d < SMT_DEPTH" and n: "n = SMT_DEPTH - (d + 1)" by simp_all
  have side: "smtNode H (filter P es) (d + 1) = smtNode H (filter P es') (d + 1)"
    if P: "P = (\<lambda>e. bitAt (key e) d = 0) \<or> P = (\<lambda>e. bitAt (key e) d \<noteq> 0)" for P
  proof (cases "filter P es = []")
    case True
    moreover have "set (filter P es) = set (filter P es')" using Suc.prems(3) by auto
    ultimately show ?thesis by simp
  next
    case False
    then obtain e where e: "e \<in> set es" "P e" by (auto simp: filter_empty_conv)
    show ?thesis
    proof (rule Suc.hyps(1) [OF n, of _ _ "key e"])
      show "\<forall>x\<in>set (filter P es). \<forall>i<d + 1. bitAt (key x) i = bitAt (key e) i"
      proof (intro ballI allI impI)
        fix x i assume x: "x \<in> set (filter P es)" and i: "i < d + 1"
        show "bitAt (key x) i = bitAt (key e) i"
        proof (cases "i = d")
          case True
          then show ?thesis using P e(2) x bitAt_01 [of "key x" d] bitAt_01 [of "key e" d] by auto
        next
          case False
          then show ?thesis using Suc.prems(5) e(1) x i by (simp add: less_Suc_eq)
        qed
      qed
      show "length (key e) = 32" using e(1) Suc.prems(1) by (simp add: keys_ok_def)
    qed (use Suc.prems d in \<open>auto simp: keys_ok_filter\<close>)
  qed
  show ?case using side d by (simp add: smtNode_step)
qed

section \<open>Proofs climb to the root\<close>

text \<open>The path a verifier walks for a key: the directions are the key's bits, deepest first.\<close>

definition smt_path :: "bytes \<Rightarrow> nat \<Rightarrow> bytes list \<Rightarrow> (bool \<times> bytes) list" where
  "smt_path k d sibs = rev (map (\<lambda>(i, s). (bitAt k i \<noteq> 0, s)) (enumerate d sibs))"

lemma smt_path_Nil [simp]: "smt_path k d [] = []"
  by (simp add: smt_path_def)

lemma smt_path_Cons: "smt_path k d (s # ss) = smt_path k (Suc d) ss @ [(bitAt k d \<noteq> 0, s)]"
  by (simp add: smt_path_def)

lemma smt_path_snoc:
  "smt_path k d (ss @ [s]) = (bitAt k (d + length ss) \<noteq> 0, s) # smt_path k d ss"
  by (simp add: smt_path_def enumerate_append_eq)

lemma map_fst_smt_path: "map fst (smt_path k d ss) = rev (map (\<lambda>i. bitAt k i \<noteq> 0) [d..<d + length ss])"
proof (induction ss arbitrary: d)
  case (Cons s ss)
  have "[d..<d + length (s # ss)] = d # [Suc d..<Suc d + length ss]"
    by (subst upt_conv_Cons) simp_all
  with Cons show ?case by (simp add: smt_path_Cons)
qed simp

lemma verifyLoop_climb:
  "n \<le> length sibs \<Longrightarrow> verifyLoop H k sibs n node = climb H nodePre (smt_path k 0 (take n sibs)) node"
proof (induction n arbitrary: node)
  case (Suc n)
  then have "take (Suc n) sibs = take n sibs @ [sibs ! n]" by (simp add: take_Suc_conv_app_nth)
  with Suc show ?case by (simp add: smt_path_snoc nodeHash_def)
qed simp

lemma length_proveLoop: "d \<le> SMT_DEPTH \<Longrightarrow> length (proveLoop H k es d) = SMT_DEPTH - d"
proof (induction "SMT_DEPTH - d" arbitrary: d es)
  case 0
  then show ?case by (subst proveLoop.simps) simp
next
  case (Suc n)
  then have "d < SMT_DEPTH" "n = SMT_DEPTH - (d + 1)" by simp_all
  then show ?case using Suc.hyps(1) [of "d + 1"] by (subst proveLoop.simps) (simp add: Let_def)
qed

text \<open>
  From the entries that share all the key's bits, the siblings \<open>prove\<close> collects climb back to the
  root of the level they were collected from.
\<close>

definition on_path :: "bytes \<Rightarrow> nat \<Rightarrow> smt_entry \<Rightarrow> bool" where
  "on_path k d e \<longleftrightarrow> (\<forall>i\<in>set [d..<SMT_DEPTH]. bitAt (key e) i = bitAt k i)"

lemma proveLoop_climb:
  assumes "d \<le> SMT_DEPTH"
  shows "climb H nodePre (smt_path k d (map hex_decode (proveLoop H k es d)))
           (smtNode H (filter (on_path k d) es) SMT_DEPTH) = smtNode H es d"
  using assms
proof (induction "SMT_DEPTH - d" arbitrary: d es)
  case 0
  then have "d = SMT_DEPTH" by simp
  moreover have "proveLoop H k es SMT_DEPTH = []" by (subst proveLoop.simps) simp
  ultimately show ?case by (simp add: on_path_def)
next
  case (Suc n)
  then have d: "d < SMT_DEPTH" and n: "n = SMT_DEPTH - (d + 1)" by simp_all
  let ?L = "filter (\<lambda>e. bitAt (key e) d = 0) es" and ?R = "filter (\<lambda>e. bitAt (key e) d \<noteq> 0) es"
  have up: "[d..<SMT_DEPTH] = d # [d + 1..<SMT_DEPTH]" using d by (simp add: upt_conv_Cons)
  consider "bitAt k d = 0" | "bitAt k d = 1" using bitAt_01 by blast
  then show ?case
  proof cases
    case 1
    have f: "filter (on_path k d) es = filter (on_path k (d + 1)) ?L"
      unfolding filter_filter on_path_def up using 1 by (intro filter_cong) auto
    have p: "proveLoop H k es d = hex_encode (smtNode H ?R (d + 1)) # proveLoop H k ?L (d + 1)"
      using d 1 by (subst proveLoop.simps) (simp add: Let_def)
    show ?thesis
      unfolding p f using 1 Suc.hyps(1) [OF n, of ?L] d
      by (simp add: smt_path_Cons climb_append smtNode_step [of d H es] nodeHash_def)
  next
    case 2
    have f: "filter (on_path k d) es = filter (on_path k (d + 1)) ?R"
      unfolding filter_filter on_path_def up using 2
      by (intro filter_cong) (auto simp: bitAt_01, metis bitAt_01)
    have p: "proveLoop H k es d = hex_encode (smtNode H ?L (d + 1)) # proveLoop H k ?R (d + 1)"
      using d 2 by (subst proveLoop.simps) (simp add: Let_def)
    show ?thesis
      unfolding p f using 2 Suc.hyps(1) [OF n, of ?R] d
      by (simp add: smt_path_Cons climb_append smtNode_step [of d H es] nodeHash_def)
  qed
qed

text \<open>At the bottom of a well-formed tree, the entries on the path of a key are its own entry.\<close>

lemma on_path_key: "length k = 32 \<Longrightarrow> length (key e) = 32 \<Longrightarrow> on_path k 0 e \<longleftrightarrow> key e = k"
  using bitAt_ext [of "key e" k] by (auto simp: on_path_def SMT_DEPTH_def)

lemma bottom_value:
  assumes wf: "smt_wf t" and k: "length k = 32"
  shows "smtNode H (filter (on_path k 0) (smt_entries t)) SMT_DEPTH =
    (case map_of t (hex_encode k) of None \<Rightarrow> EMPTY H 0 | Some v \<Rightarrow> hex_decode v)"
proof -
  let ?es = "filter (on_path k 0) (smt_entries t)"
  have len: "\<forall>e\<in>set (smt_entries t). length (key e) = 32"
    using keys_ok_entries [OF wf] by (simp add: keys_ok_def)
  have mem: "e \<in> set ?es \<longleftrightarrow> e \<in> set (smt_entries t) \<and> key e = k" for e
    using len on_path_key [OF k] by auto
  show ?thesis
  proof (cases "map_of t (hex_encode k)")
    case None
    have "set ?es = {}"
    proof (rule ccontr)
      assume "set ?es \<noteq> {}"
      then obtain e where "e \<in> set ?es" by (meson ex_in_conv)
      then have "e \<in> set (smt_entries t)" "key e = k" using mem [of e] by (simp_all only:)
      then obtain kh v where "(kh, v) \<in> set t" "hex_decode kh = k"
        by (auto simp: smt_entries_def)
      then have "hex_encode k \<in> fst ` set t" using wf by (force simp: smt_wf_def)
      with None show False by (simp add: map_of_eq_None_iff)
    qed
    then show ?thesis using None by (simp add: smtNode_bottom)
  next
    case (Some v)
    then have tv: "(hex_encode k, v) \<in> set t" by (rule map_of_SomeD)
    then have "(\<lambda>(k, v). \<lparr>key = hex_decode k, leaf = hex_decode v\<rparr>) (hex_encode k, v)
        \<in> set (smt_entries t)"
      unfolding smt_entries_def set_map by (rule imageI)
    then have "\<lparr>key = k, leaf = hex_decode v\<rparr> \<in> set (smt_entries t)" by simp
    then have in_es: "\<lparr>key = k, leaf = hex_decode v\<rparr> \<in> set ?es"
      using mem [of "\<lparr>key = k, leaf = hex_decode v\<rparr>"] by (simp only: smt_entry.select_convs simp_thms)
    moreover have "length ?es \<le> 1"
    proof (rule same_bits_short)
      show "keys_ok ?es" using keys_ok_filter keys_ok_entries [OF wf] by blast
      show "\<forall>e\<in>set ?es. \<forall>i<SMT_DEPTH. bitAt (key e) i = bitAt k i"
        by (simp add: on_path_def)
    qed (rule k)
    ultimately have "?es = [\<lparr>key = k, leaf = hex_decode v\<rparr>]" by (cases ?es) auto
    then show ?thesis using Some by (simp add: smtNode_bottom)
  qed
qed

lemma prove_siblings_length: "length (proveLoop H k es 0) = SMT_DEPTH"
  using length_proveLoop [of 0 H k es] by simp

lemma smt_prove_Inr:
  "\<exists>p. smt_prove H t kb = Inr p \<and> siblings p = proveLoop H (toBuf kb) (smt_entries t) 0
     \<and> leaf_value p = map_of t (hex_encode (toBuf kb))
     \<and> compressSmtProof H (siblings p) = Inr (compressed p)"
  by (auto simp: smt_prove_def Let_def compressSmtProof_def prove_siblings_length case_prod_beta
      split: sum.splits)

lemma prove_verifies:
  assumes "smt_wf t" "length k = 32" "smt_prove H t (Buf k) = Inr p"
  shows "verifySmtProof H (Hex (smt_rootHex H t)) (Buf k)
    (map_option Hex (leaf_value p)) (map Hex (siblings p))"
proof -
  obtain sibs where p: "siblings p = proveLoop H k (smt_entries t) 0"
    "leaf_value p = map_of t (hex_encode k)"
    using smt_prove_Inr [of H t "Buf k"] assms(3) by auto
  have len: "length (siblings p) = SMT_DEPTH" using p prove_siblings_length by simp
  let ?start = "case map_of t (hex_encode k) of None \<Rightarrow> EMPTY H 0 | Some v \<Rightarrow> hex_decode v"
  have start: "(case map_option Hex (leaf_value p) of None \<Rightarrow> EMPTY H 0 | Some v \<Rightarrow> toBuf v) = ?start"
    using p by (cases "map_of t (hex_encode k)") simp_all
  have "verifyLoop H k (map (toBuf \<circ> Hex) (siblings p)) SMT_DEPTH ?start = smt_root H t"
    using proveLoop_climb [of 0 H k "smt_entries t"] bottom_value [OF assms(1,2)] len p(1)
    by (simp add: verifyLoop_climb smt_root_def comp_def)
  then show ?thesis
    using len start by (simp add: verifySmtProof_def Let_def smt_rootHex_def)
qed

section \<open>Binding\<close>

text \<open>The preimages a verification hashes, from the leaf up.\<close>

definition smt_preimages :: "(bytes \<Rightarrow> bytes) \<Rightarrow> bytes \<Rightarrow> bufarg option \<Rightarrow> bufarg list \<Rightarrow> bytes list" where
  "smt_preimages H k v sibs =
     climb_pres H nodePre (smt_path k 0 (map toBuf sibs))
       (case v of None \<Rightarrow> EMPTY H 0 | Some b \<Rightarrow> toBuf b)"

lemma verify_binding:
  assumes "verifySmtProof H root (Buf k) v sibs" "verifySmtProof H root (Buf k) v' sibs'"
    and "\<forall>x. length (H x) = n"
    and "length (case v of None \<Rightarrow> EMPTY H 0 | Some b \<Rightarrow> toBuf b) =
         length (case v' of None \<Rightarrow> EMPTY H 0 | Some b \<Rightarrow> toBuf b)"
    and "(case v of None \<Rightarrow> EMPTY H 0 | Some b \<Rightarrow> toBuf b) \<noteq>
         (case v' of None \<Rightarrow> EMPTY H 0 | Some b \<Rightarrow> toBuf b)"
  shows "collide_at H (smt_preimages H k v sibs) (smt_preimages H k v' sibs')"
  unfolding smt_preimages_def
proof (rule sha_node.climb_binding)
  have len: "length sibs = SMT_DEPTH" "length sibs' = SMT_DEPTH"
    using assms(1,2) by (auto simp: verifySmtProof_def split: if_splits)
  then show "map fst (smt_path k 0 (map toBuf sibs)) = map fst (smt_path k 0 (map toBuf sibs'))"
    by (simp add: map_fst_smt_path)
  have "hex_encode (verifyLoop H k (map toBuf sibs) SMT_DEPTH
          (case v of None \<Rightarrow> EMPTY H 0 | Some b \<Rightarrow> toBuf b)) =
        hex_encode (verifyLoop H k (map toBuf sibs') SMT_DEPTH
          (case v' of None \<Rightarrow> EMPTY H 0 | Some b \<Rightarrow> toBuf b))"
    using assms(1,2) len by (simp add: verifySmtProof_def Let_def)
  then show "climb H nodePre (smt_path k 0 (map toBuf sibs)) (case v of None \<Rightarrow> EMPTY H 0 | Some b \<Rightarrow> toBuf b) =
    climb H nodePre (smt_path k 0 (map toBuf sibs')) (case v' of None \<Rightarrow> EMPTY H 0 | Some b \<Rightarrow> toBuf b)"
    using len by (simp add: verifyLoop_climb)
qed (use assms in auto)

section \<open>Compressed proofs\<close>

lemma byte_bit_set:
  assumes "m < 8" "n < 8"
  shows "bit (or (b :: byte) (push_bit m 1)) n \<longleftrightarrow> bit b n \<or> n = m"
  using assms by (auto simp: bit_or_iff bit_push_bit_iff bit_exp_iff possible_bit_word)

lemma bitAt_set:
  assumes "length bm = 32" "d < 256"
  shows "bitAt (bm[d div 8 := or (bm ! (d div 8)) (push_bit (7 - d mod 8) 1)]) i =
    (if i = d then 1 else bitAt bm i)"
proof (cases "i div 8 < 32")
  case True
  have same: "i div 8 = d div 8 \<Longrightarrow> (7 - i mod 8 = 7 - d mod 8) = (i = d)"
  proof -
    assume e: "i div 8 = d div 8"
    have "(7 - i mod 8 = 7 - d mod 8) = (i mod 8 = d mod 8)"
      using mod_less_divisor [of 8 i] mod_less_divisor [of 8 d] by linarith
    with e show ?thesis by (metis div_mod_decomp)
  qed
  have m: "7 - i mod 8 < 8" "7 - d mod 8 < 8" by simp_all
  show ?thesis
  proof (cases "i div 8 = d div 8")
    case e: True
    then show ?thesis
      using True assms same byte_bit_set [OF m(2,1)] by (simp add: bitAt_bit) 
  next
    case False
    then show ?thesis using True assms by (auto simp: bitAt_bit)
  qed
next
  case False
  then show ?thesis using assms by (auto simp: bitAt_def)
qed

lemma compress_decompress_loop:
  assumes "compressLoop H d ss bm = (b, real)"
    and "d + length ss \<le> 256" "length bm = 32" "\<forall>i\<ge>d. bitAt bm i = 0"
    and "\<forall>s\<in>set ss. hex_encode (hex_decode s) = s"
  shows "length b = 32 \<and> (\<forall>i<d. bitAt b i = bitAt bm i) \<and>
    (\<forall>ps. decompressLoop H b (ps @ real) (length ss) d (length ps) =
       (map Some ss, length ps + length real))"
  using assms
proof (induction H d ss bm arbitrary: b real rule: compressLoop.induct)
  case (1 H d bm)
  then show ?case by simp
next
  case (2 H d s ss bm)
  show ?case
  proof (cases "hex_decode s = EMPTY H (SMT_DEPTH - 1 - d)")
    case True
    then have c: "compressLoop H (d + 1) ss bm = (b, real)" using "2.prems"(1) by (simp add: Let_def)
    have IH: "length b = 32 \<and> (\<forall>i<d + 1. bitAt b i = bitAt bm i) \<and>
      (\<forall>ps. decompressLoop H b (ps @ real) (length ss) (d + 1) (length ps) =
        (map Some ss, length ps + length real))"
      using True c "2.prems" by (intro "2.IH"(2) [OF refl]) auto
    moreover have "bitAt b d = 0" using IH "2.prems"(4) by simp
    moreover have "hex_encode (EMPTY H (SMT_DEPTH - 1 - d)) = s"
      using True "2.prems"(5) by (metis list.set_intros(1))
    ultimately show ?thesis by simp
  next
    case False
    define bm' where "bm' = bm[d div 8 := or (bm ! (d div 8)) (push_bit (7 - d mod 8) 1)]"
    have set: "bitAt bm' i = (if i = d then 1 else bitAt bm i)" for i
      unfolding bm'_def using "2.prems" by (intro bitAt_set) auto
    obtain real' where c: "compressLoop H (d + 1) ss bm' = (b, real')"
      and real: "real = hex_encode (hex_decode s) # real'"
      using False "2.prems"(1) unfolding bm'_def by (auto simp: Let_def split: prod.splits)
    have IH: "length b = 32 \<and> (\<forall>i<d + 1. bitAt b i = bitAt bm' i) \<and>
      (\<forall>ps. decompressLoop H b (ps @ real') (length ss) (d + 1) (length ps) =
        (map Some ss, length ps + length real'))"
      using "2.IH"(1) [OF refl False bm'_def c] "2.prems" set by (auto simp: bm'_def)
    have real_s: "real = s # real'" using real "2.prems"(5) by simp
    have "decompressLoop H b (ps @ real) (length (s # ss)) d (length ps) =
        (map Some (s # ss), length ps + length real)" for ps
    proof -
      have "decompressLoop H b ((ps @ [s]) @ real') (length ss) (d + 1) (length (ps @ [s])) =
          (map Some ss, length (ps @ [s]) + length real')"
        using IH by blast
      moreover have "bitAt b d = 1" using IH set by simp
      ultimately show ?thesis using real_s by simp
    qed
    then show ?thesis using IH set by simp
  qed
qed

lemma bitAt_zero_bitmap: "bitAt (replicate 32 0) i = 0"
  by (simp add: bitAt_def)

lemma compress_roundtrip:
  assumes "length ss = SMT_DEPTH" "\<forall>s\<in>set ss. hex_encode (hex_decode s) = s"
    and "compressSmtProof H ss = Inr c"
  shows "decompressSmtProof H c = Inr (map Some ss)"
proof -
  obtain b real where l: "compressLoop H 0 ss (replicate 32 0) = (b, real)"
    by (meson surj_pair)
  then have c: "c = \<lparr>bitmap = hex_encode b, csiblings = real\<rparr>"
    using assms by (simp add: compressSmtProof_def)
  have "\<forall>ps. decompressLoop H b (ps @ real) (length ss) 0 (length ps) =
       (map Some ss, length ps + length real)"
    using compress_decompress_loop [OF l] assms bitAt_zero_bitmap by (simp add: SMT_DEPTH_def)
  then have "decompressLoop H b ([] @ real) SMT_DEPTH 0 (length ([] :: string list)) =
       (map Some ss, length real)" using assms(1) by (metis add_0 list.size(3))
  then show ?thesis unfolding c decompressSmtProof_def by simp
qed

text \<open>
  The index counts every sibling the bitmap asks for, also the missing ones, so the final test
  refuses a list that is too short as well as one that is too long.
\<close>

lemma decompressLoop_used:
  "decompressLoop H bm real n d ri = (out, r) \<Longrightarrow>
   length out = n \<and> ri \<le> r \<and> (r \<le> length real \<longrightarrow> None \<notin> set out)"
proof (induction H bm real n d ri arbitrary: out r rule: decompressLoop.induct)
  case (2 H bm real n d ri)
  show ?case
  proof (cases "bitAt bm d \<noteq> 0")
    case True
    obtain out' r' where l: "decompressLoop H bm real n (d + 1) (ri + 1) = (out', r')"
      by (meson surj_pair)
    then show ?thesis using "2.IH"(1) [OF True l] "2.prems" True by auto
  next
    case False
    obtain out' r' where l: "decompressLoop H bm real n (d + 1) ri = (out', r')"
      by (meson surj_pair)
    then show ?thesis using "2.IH"(2) [OF False l] "2.prems" False by auto
  qed
qed auto

lemma decompress_complete:
  assumes "decompressSmtProof H c = Inr out"
  shows "length out = SMT_DEPTH \<and> None \<notin> set out"
  using assms decompressLoop_used [of H "hex_decode (bitmap c)" "csiblings c" SMT_DEPTH 0 0]
  by (auto simp: decompressSmtProof_def Let_def split: prod.splits if_splits)

lemma prove_siblings_hex: "\<forall>s\<in>set (proveLoop H k es d). hex_encode (hex_decode s) = s"
proof (induction H k es d rule: proveLoop.induct)
  case (1 H k es d)
  show ?case
  proof (cases "SMT_DEPTH \<le> d")
    case True
    then show ?thesis by (subst proveLoop.simps) simp
  next
    case False
    then show ?thesis using "1.IH" [OF False] by (subst proveLoop.simps) (simp add: Let_def)
  qed
qed

lemma prove_compressed_verifies:
  assumes "smt_wf t" "length k = 32" "smt_prove H t (Buf k) = Inr p"
  shows "verifyCompressedSmtProof H (Hex (smt_rootHex H t)) (Buf k)
    (map_option Hex (leaf_value p)) (compressed p) = Inr True"
proof -
  have s: "siblings p = proveLoop H k (smt_entries t) 0"
    and c: "compressSmtProof H (siblings p) = Inr (compressed p)"
    using smt_prove_Inr [of H t "Buf k"] assms(3) by auto
  have "decompressSmtProof H (compressed p) = Inr (map Some (siblings p))"
    using c prove_siblings_length prove_siblings_hex unfolding s by (intro compress_roundtrip) auto
  then show ?thesis
    using prove_verifies [OF assms] by (auto simp: verifyCompressedSmtProof_def comp_def)
qed

section \<open>Properties\<close>

text \<open>
  The root of a sparse Merkle tree depends on its set of leaves only, not on the order in which
  they were written: two well-formed trees with the same leaves have the same root.
\<close>

theorem smt_root_order_independent:
  assumes "smt_wf t" "smt_wf t'" "set t = set t'"
  shows "smt_rootHex H t = smt_rootHex H t'"
proof -
  have "set (smt_entries t) = set (smt_entries t')" using assms(3) by (simp add: smt_entries_def)
  then have "smtNode H (smt_entries t) 0 = smtNode H (smt_entries t') 0"
    using smtNode_order [of "smt_entries t" "smt_entries t'" 0 "replicate 32 0"] assms(1,2)
    by (simp add: keys_ok_entries)
  then show ?thesis by (simp add: smt_rootHex_def smt_root_def)
qed

theorem smt_root_order_independent_witness:
  "smt_rootHex id (smt_set (smt_set smt_empty (Buf (replicate 32 1)) (Some (Buf [7]))) (Buf (replicate 32 2)) (Some (Buf [8]))) =
   smt_rootHex id (smt_set (smt_set smt_empty (Buf (replicate 32 2)) (Some (Buf [8]))) (Buf (replicate 32 1)) (Some (Buf [7])))"
proof (rule smt_root_order_independent)
  have "hex_encode (replicate 32 1) \<noteq> hex_encode (replicate 32 2)" by code_simp
  then show "set (smt_set (smt_set smt_empty (Buf (replicate 32 1)) (Some (Buf [7]))) (Buf (replicate 32 2)) (Some (Buf [8]))) =
    set (smt_set (smt_set smt_empty (Buf (replicate 32 2)) (Some (Buf [8]))) (Buf (replicate 32 1)) (Some (Buf [7])))"
    by (auto simp: smt_set_def smt_empty_def)
qed (simp_all add: smt_wf_set [of _ _ "Some _", simplified] smt_wf_empty)

text \<open>
  \<open>set\<close> and \<open>delete\<close> keep a sparse tree well formed (distinct 32-byte keys in hex) and act as
  update and removal of a finite map; setting a key to nothing is the removal.
\<close>

theorem smt_operations:
  assumes "smt_wf t" "length k = 32"
  shows "smt_wf (smt_set t (Buf k) (map_option Buf v)) \<and>
    map_of (smt_set t (Buf k) (map_option Buf v)) = (map_of t)(hex_encode k := map_option hex_encode v) \<and>
    smt_wf (smt_delete t (Buf k)) \<and> smt_has (smt_delete t (Buf k)) (Buf k) = False"
proof (intro conjI)
  show "smt_wf (smt_set t (Buf k) (map_option Buf v))" by (rule smt_wf_set [OF assms])
  show "smt_wf (smt_delete t (Buf k))" by (rule smt_wf_delete [OF assms(1)])
  show "map_of (smt_set t (Buf k) (map_option Buf v)) = (map_of t)(hex_encode k := map_option hex_encode v)"
    by (cases v) (auto simp: smt_set_def update_conv' delete_conv')
  show "smt_has (smt_delete t (Buf k)) (Buf k) = False"
    by (simp add: smt_delete_def smt_has_def delete_conv')
qed

theorem smt_operations_witness:
  "smt_wf (smt_set smt_empty (Buf (replicate 32 3)) (Some (Buf [1]))) \<and>
   map_of (smt_set smt_empty (Buf (replicate 32 3)) (Some (Buf [1]))) =
     (map_of smt_empty)(hex_encode (replicate 32 3) := Some (hex_encode [1]))"
  using smt_operations [of smt_empty "replicate 32 3" "Some [1]"] smt_wf_empty by simp

text \<open>
  C12: Every inclusion or non-inclusion proof a well-formed tree generates is accepted against the
  tree's root, in its plain and in its compressed form, and reports the leaf the tree stores.
\<close>

theorem smt_prove_complete:
  assumes "smt_wf t" "length k = 32"
  shows "\<exists>p. smt_prove H t (Buf k) = Inr p \<and> leaf_value p = map_of t (hex_encode k) \<and>
    verifySmtProof H (Hex (smt_rootHex H t)) (Buf k) (map_option Hex (leaf_value p)) (map Hex (siblings p)) \<and>
    verifyCompressedSmtProof H (Hex (smt_rootHex H t)) (Buf k) (map_option Hex (leaf_value p)) (compressed p) = Inr True"
proof -
  obtain p where p: "smt_prove H t (Buf k) = Inr p" "leaf_value p = map_of t (hex_encode k)"
    using smt_prove_Inr [of H t "Buf k"] by auto
  then show ?thesis using prove_verifies [OF assms p(1)] prove_compressed_verifies [OF assms p(1)] by blast
qed

theorem smt_prove_complete_witness:
  "\<exists>p. smt_prove id (smt_set smt_empty (Buf (replicate 32 3)) (Some (Buf [1]))) (Buf (replicate 32 3)) = Inr p \<and>
     leaf_value p = Some (hex_encode [1]) \<and>
     verifySmtProof id (Hex (smt_rootHex id (smt_set smt_empty (Buf (replicate 32 3)) (Some (Buf [1])))))
       (Buf (replicate 32 3)) (map_option Hex (leaf_value p)) (map Hex (siblings p))"
  using smt_prove_complete [of "smt_set smt_empty (Buf (replicate 32 3)) (Some (Buf [1]))" "replicate 32 3" id]
    smt_wf_set [OF smt_wf_empty, of "replicate 32 3" "Some [1]"]
  by (auto simp: smt_set_def smt_empty_def)

text \<open>
  A root binds the value at a key: if two different values (or a value and absence) are both
  accepted for one key under one root, then at one level the two verifications hash two different
  preimages to the same digest. The two preimages are among those the verifier itself computed.
\<close>

theorem smt_root_binding:
  assumes "verifySmtProof H root (Buf k) v sibs" "verifySmtProof H root (Buf k) v' sibs'"
    and "\<forall>x. length (H x) = 32"
    and "\<forall>b. v = Some b \<longrightarrow> length (toBuf b) = 32" "\<forall>b. v' = Some b \<longrightarrow> length (toBuf b) = 32"
    and "(case v of None \<Rightarrow> EMPTY H 0 | Some b \<Rightarrow> toBuf b) \<noteq> (case v' of None \<Rightarrow> EMPTY H 0 | Some b \<Rightarrow> toBuf b)"
  shows "collide_at H (smt_preimages H k v sibs) (smt_preimages H k v' sibs')"
proof (rule verify_binding [OF assms(1,2,3) _ assms(6)])
  show "length (case v of None \<Rightarrow> EMPTY H 0 | Some b \<Rightarrow> toBuf b) =
      length (case v' of None \<Rightarrow> EMPTY H 0 | Some b \<Rightarrow> toBuf b)"
    using assms(3-5) by (cases v; cases v') auto
qed

text \<open>A digest for witnesses only.\<close>

definition const_digest :: "bytes \<Rightarrow> bytes" where
  "const_digest x = replicate 32 0"

lemma verifyLoop_const: "verifyLoop const_digest k sibs (Suc n) node = replicate 32 0"
  by (induction n arbitrary: node) (simp_all add: nodeHash_def const_digest_def)

theorem smt_root_binding_witness:
  "collide_at const_digest
    (smt_preimages const_digest (replicate 32 5) (Some (Buf (replicate 32 1))) (replicate 256 (Buf [])))
    (smt_preimages const_digest (replicate 32 5) (Some (Buf (replicate 32 2))) (replicate 256 (Buf [])))"
proof (rule smt_root_binding)
  have n: "SMT_DEPTH = Suc 255" by (simp add: SMT_DEPTH_def)
  show "verifySmtProof const_digest (Buf (replicate 32 0)) (Buf (replicate 32 5))
      (Some (Buf (replicate 32 1))) (replicate 256 (Buf []))"
    "verifySmtProof const_digest (Buf (replicate 32 0)) (Buf (replicate 32 5))
      (Some (Buf (replicate 32 2))) (replicate 256 (Buf []))"
    unfolding verifySmtProof_def n by (simp_all only: verifyLoop_const) simp_all
  have "(1 :: byte) \<noteq> 2" by simp
  then show "(case Some (Buf (replicate 32 1)) of None \<Rightarrow> EMPTY const_digest 0 | Some b \<Rightarrow> toBuf b) \<noteq>
      (case Some (Buf (replicate 32 2)) of None \<Rightarrow> EMPTY const_digest 0 | Some b \<Rightarrow> toBuf b)"
    by simp
qed (simp_all add: const_digest_def)

text \<open>
  Compression loses nothing: the siblings of a generated proof, compressed and decompressed, are
  the same 256 siblings; and whatever compressed proof is decompressed without an error yields 256
  siblings with none missing.
\<close>

theorem compress_decompress:
  "\<exists>c. compressSmtProof H (proveLoop H k (smt_entries t) 0) = Inr c \<and>
     decompressSmtProof H c = Inr (map Some (proveLoop H k (smt_entries t) 0)) \<and>
     (\<forall>d\<in>{d. decompressSmtProof H d = Inr out}. length out = SMT_DEPTH \<and> None \<notin> set out)"
proof -
  let ?s = "proveLoop H k (smt_entries t) 0"
  obtain c where "compressSmtProof H ?s = Inr c"
    using prove_siblings_length by (auto simp: compressSmtProof_def case_prod_beta)
  then show ?thesis
    using compress_roundtrip [OF prove_siblings_length prove_siblings_hex] decompress_complete by auto
qed

theorem compress_decompress_witness:
  "\<exists>c. compressSmtProof id (proveLoop id [] [] 0) = Inr c \<and>
     decompressSmtProof id c = Inr (map Some (proveLoop id [] [] 0))"
  using compress_decompress [of id "[]" smt_empty] by (auto simp: smt_entries_def smt_empty_def)

end
