(* ===== verification/FixedMerkle.thy ===== *)
theory FixedMerkle
  imports Merkle
begin

text \<open>
  The fixed binary Merkle tree of \<open>src/merkle.js\<close> (\<open>fixedMerkleRoot\<close>, \<open>fixedMerkleProof\<close>,
  \<open>verifyFixedMerkleProof\<close>), the named state root built on it (\<open>stateRoot\<close>, \<open>stateRootProof\<close>) and the
  block-content leaves.

  JavaScript's shifts work on 32-bit words, so \<open>nextPow2\<close> and the verifier's index are 32-bit words
  here. A loop that does not end is \<open>None\<close>; \<open>nextPow2\<close> ends exactly for arguments up to \<open>2^30\<close>.
\<close>

section \<open>The width of the padded vector\<close>

partial_function (option) nextPow2Loop :: "32 word \<Rightarrow> int \<Rightarrow> int option" where
  "nextPow2Loop p n =
     (if sint p < n then nextPow2Loop (push_bit 1 p) n else Some (sint p))"

definition nextPow2 :: "int \<Rightarrow> int option" where
  "nextPow2 n = nextPow2Loop 1 n"

section \<open>Root, proof and verification\<close>

text \<open>
  One layer: neighbours hashed in pairs. Every layer the code builds has a power of two as its
  length, so the case of a single trailing node does not arise.
\<close>

fun pair_up :: "(bytes \<Rightarrow> bytes) \<Rightarrow> bytes list \<Rightarrow> bytes list" where
  "pair_up H (a # b # xs) = nodeHash H a b # pair_up H xs"
| "pair_up H _ = []"

lemma length_pair_up [simp]: "length (pair_up H xs) = length xs div 2"
  by (induction H xs rule: pair_up.induct) auto

function fixedLoop :: "(bytes \<Rightarrow> bytes) \<Rightarrow> bytes list \<Rightarrow> bytes list" where
  "fixedLoop H layer = (if length layer > 1 then fixedLoop H (pair_up H layer) else layer)"
  by pat_completeness auto
termination
  by (relation "measure (\<lambda>(H, l). length l)") auto

declare fixedLoop.simps [simp del]

text \<open>The layer of a vector: the leaves as buffers, padded with the empty leaf.\<close>

definition fixedLayer :: "(bytes \<Rightarrow> bytes) \<Rightarrow> bufarg list \<Rightarrow> bytes list option" where
  "fixedLayer H leaves =
     (case nextPow2 (int (length leaves)) of
        None \<Rightarrow> None
      | Some width \<Rightarrow>
          Some (map toBuf leaves @ replicate (nat width - length leaves) (EMPTY H 0)))"

definition fixedMerkleRoot :: "(bytes \<Rightarrow> bytes) \<Rightarrow> bufarg list \<Rightarrow> bytes option" where
  "fixedMerkleRoot H leaves =
     (if leaves = [] then Some (EMPTY H 0)
      else map_option (\<lambda>layer. hd (fixedLoop H layer)) (fixedLayer H leaves))"

function fixedProofLoop :: "(bytes \<Rightarrow> bytes) \<Rightarrow> bytes list \<Rightarrow> nat \<Rightarrow> string list" where
  "fixedProofLoop H layer idx =
     (if length layer > 1
      then hex_encode (layer ! (xor idx 1)) # fixedProofLoop H (pair_up H layer) (drop_bit 1 idx)
      else [])"
  by pat_completeness auto
termination
  by (relation "measure (\<lambda>(H, l, i). length l)") auto

declare fixedProofLoop.simps [simp del]

definition fixedMerkleProof ::
    "(bytes \<Rightarrow> bytes) \<Rightarrow> bufarg list \<Rightarrow> int \<Rightarrow> (merkle_error + int \<times> string list) option" where
  "fixedMerkleProof H leaves index =
     (if index < 0 \<or> index \<ge> int (length leaves) then Some (Inl IndexOutOfRange)
      else map_option (\<lambda>layer. Inr (index, fixedProofLoop H layer (nat index))) (fixedLayer H leaves))"

fun verifyFixedLoop :: "(bytes \<Rightarrow> bytes) \<Rightarrow> bytes \<Rightarrow> 32 word \<Rightarrow> bytes list \<Rightarrow> bytes" where
  "verifyFixedLoop H node idx [] = node"
| "verifyFixedLoop H node idx (sib # sibs) =
     verifyFixedLoop H (if and idx 1 = 0 then nodeHash H node sib else nodeHash H sib node)
       (signed_drop_bit 1 idx) sibs"

definition verifyFixedMerkleProof ::
    "(bytes \<Rightarrow> bytes) \<Rightarrow> bufarg \<Rightarrow> bufarg \<Rightarrow> int \<Rightarrow> bufarg list \<Rightarrow> bool" where
  "verifyFixedMerkleProof H rootHex leafBuf index sibs \<longleftrightarrow>
     hex_encode (verifyFixedLoop H (toBuf leafBuf) (word_of_int index) (map toBuf sibs)) = toHex rootHex"

section \<open>The state root\<close>

definition STATE_SUBTREES :: "string list" where
  "STATE_SUBTREES = [''balances_root'', ''stakes_root'', ''ownership_root'', ''tokens_root'',
                     ''contract_state_root'']"

text \<open>
  A named sub-root that is absent or empty (\<open>''\<close> is falsy) is the root of an empty tree. The object
  of sub-roots is a map from names to hex texts.
\<close>

definition subRootLeaves :: "(bytes \<Rightarrow> bytes) \<Rightarrow> (string \<rightharpoonup> bufarg) \<Rightarrow> bufarg list" where
  "subRootLeaves H subRoots =
     map (\<lambda>name. case subRoots name of
                    None \<Rightarrow> Buf (EMPTY_SMT_ROOT H)
                  | Some (Hex s) \<Rightarrow> (if s = [] then Buf (EMPTY_SMT_ROOT H) else Hex s)
                  | Some (Buf b) \<Rightarrow> Buf b) STATE_SUBTREES"

definition stateRoot :: "(bytes \<Rightarrow> bytes) \<Rightarrow> (string \<rightharpoonup> bufarg) \<Rightarrow> bytes option" where
  "stateRoot H subRoots = fixedMerkleRoot H (subRootLeaves H subRoots)"

fun index_of :: "'a \<Rightarrow> 'a list \<Rightarrow> int" where
  "index_of x [] = -1"
| "index_of x (y # ys) = (if x = y then 0 else (let i = index_of x ys in if i < 0 then -1 else i + 1))"

definition stateRootProof ::
    "(bytes \<Rightarrow> bytes) \<Rightarrow> (string \<rightharpoonup> bufarg) \<Rightarrow> string \<Rightarrow> (merkle_error + int \<times> string list) option" where
  "stateRootProof H subRoots name =
     (let idx = index_of name STATE_SUBTREES in
      if idx < 0 then Some (Inl UnknownSubtree)
      else fixedMerkleProof H (subRootLeaves H subRoots) idx)"

section \<open>Termination of the doubling loop\<close>

lemma sint_pow2: "j < 31 \<Longrightarrow> sint (2 ^ j :: 32 word) = 2 ^ j"
proof -
  assume "j < 31"
  then have "j \<in> set [0..<31]" by simp
  moreover have "list_all (\<lambda>j. sint (2 ^ j :: 32 word) = 2 ^ j) [0..<31]" by code_simp
  ultimately show ?thesis by (auto simp: list_all_iff)
qed

lemma push_bit_pow2: "push_bit 1 (2 ^ j :: 32 word) = 2 ^ (Suc j)"
  by (simp add: push_bit_eq_mult)

lemma nextPow2Loop_up:
  assumes "n \<le> 2 ^ k" "k < 31" "j \<le> k"
  shows "\<exists>i. j \<le> i \<and> i \<le> k \<and> n \<le> 2 ^ i \<and> (\<forall>m. j \<le> m \<and> m < i \<longrightarrow> 2 ^ m < n)
    \<and> nextPow2Loop (2 ^ j) n = Some (2 ^ i)"
  using assms(3)
proof (induction "k - j" arbitrary: j)
  case 0
  then show ?case using assms by (subst nextPow2Loop.simps) (auto simp: sint_pow2)
next
  case (Suc d)
  have j: "j < 31" using Suc.prems assms(2) by simp
  show ?case
  proof (cases "n \<le> 2 ^ j")
    case True
    then have "nextPow2Loop (2 ^ j) n = Some (2 ^ j)"
      using j by (subst nextPow2Loop.simps) (simp add: sint_pow2)
    with True Suc.prems show ?thesis by (intro exI [of _ j]) simp
  next
    case False
    then have up: "nextPow2Loop (2 ^ j) n = nextPow2Loop (2 ^ Suc j) n"
      using j by (subst nextPow2Loop.simps) (simp add: sint_pow2 push_bit_eq_mult mult.commute)
    have "d = k - Suc j" "Suc j \<le> k" using Suc.hyps(2) by simp_all
    from Suc.hyps(1) [OF this] obtain i where i: "Suc j \<le> i" "i \<le> k" "n \<le> 2 ^ i"
        "\<forall>m. Suc j \<le> m \<and> m < i \<longrightarrow> 2 ^ m < n" "nextPow2Loop (2 ^ Suc j) n = Some (2 ^ i)" by blast
    have "2 ^ m < n" if "j \<le> m" "m < i" for m
      using that i(4) False by (cases "m = j") simp_all
    with i up show ?thesis by (intro exI [of _ i]) simp
  qed
qed

lemma nextPow2_least:
  assumes "n \<le> 2 ^ 30"
  shows "(LEAST i. n \<le> 2 ^ i) \<le> 30" "n \<le> 2 ^ (LEAST i. n \<le> 2 ^ i)"
    "nextPow2 n = Some (2 ^ (LEAST i. n \<le> 2 ^ i))"
proof -
  from nextPow2Loop_up [of n 30 0] assms obtain i where i: "i \<le> 30" "n \<le> 2 ^ i"
      "\<And>m. m < i \<Longrightarrow> 2 ^ m < n" "nextPow2 n = Some (2 ^ i)" by (auto simp: nextPow2_def)
  have "(LEAST i. n \<le> 2 ^ i) = i"
  proof (rule Least_equality)
    show "n \<le> 2 ^ i" by (rule i(2))
  next
    fix m :: nat
    assume "n \<le> 2 ^ m"
    with i(3) [of m] show "i \<le> m" by linarith
  qed
  with i show "(LEAST i. n \<le> 2 ^ i) \<le> 30" "n \<le> 2 ^ (LEAST i. n \<le> 2 ^ i)"
    "nextPow2 n = Some (2 ^ (LEAST i. n \<le> 2 ^ i))" by simp_all
qed

lemma nextPow2_up:
  assumes "n \<le> 2 ^ 30"
  shows "\<exists>i \<le> 30. n \<le> 2 ^ i \<and> nextPow2 n = Some (2 ^ i)"
  using nextPow2_least [OF assms] by blast

text \<open>Past \<open>2^30\<close> the word is doubled to the sign bit and then to zero, where it stays.\<close>

lemma nextPow2Loop_zero: "0 < n \<Longrightarrow> nextPow2Loop 0 n = None"
proof -
  assume n: "0 < n"
  have "y \<noteq> y \<or> False" if "nextPow2Loop p m = Some y" "p = 0" "m = n" for p m y
    using nextPow2Loop.raw_induct [of "\<lambda>p m y. p = 0 \<and> m = n \<longrightarrow> False" p m y] that n
    by (fastforce split: if_splits)
  then show ?thesis by (cases "nextPow2Loop 0 n") auto
qed

lemma nextPow2Loop_double: "sint p < n \<Longrightarrow> nextPow2Loop p n = nextPow2Loop (push_bit 1 p) n"
  by (subst nextPow2Loop.simps) simp

lemma nextPow2_diverges:
  assumes "2 ^ 30 < n"
  shows "nextPow2 n = None"
proof -
  have step: "nextPow2Loop (2 ^ j) n = nextPow2Loop (2 ^ Suc j) n" if "j < 31" for j
  proof -
    have "(2::int) ^ j \<le> 2 ^ 30" using that by (intro power_increasing) auto
    then have "2 ^ j < n" using assms by simp
    then show ?thesis
      using that by (subst nextPow2Loop.simps) (simp add: sint_pow2 push_bit_eq_mult mult.commute)
  qed
  have "j \<le> 31 \<Longrightarrow> nextPow2Loop 1 n = nextPow2Loop (2 ^ j) n" for j
    by (induction j) (use step in auto)
  from this [of 31] have "nextPow2Loop 1 n = nextPow2Loop (2 ^ 31) n" by simp
  also have "\<dots> = nextPow2Loop (push_bit 1 (2 ^ 31 :: 32 word)) n"
  proof (rule nextPow2Loop_double)
    have "sint (2 ^ 31 :: 32 word) < 0" by code_simp
    also have "0 < n" using assms by simp
    finally show "sint (2 ^ 31 :: 32 word) < n" .
  qed
  also have "\<dots> = nextPow2Loop 0 n"
    by (rule arg_cong [of _ _ "\<lambda>p. nextPow2Loop p n"]) code_simp
  also have "\<dots> = None" using assms by (intro nextPow2Loop_zero) simp
  finally show ?thesis by (simp add: nextPow2_def)
qed

section \<open>The verifier climbs\<close>

text \<open>The directions of an index: bit \<open>j\<close> says whether the node is a right child at level \<open>j\<close>.\<close>

definition fixed_dirs :: "nat \<Rightarrow> nat \<Rightarrow> bool list" where
  "fixed_dirs i n = map (\<lambda>j. bit i j) [0..<n]"

lemma length_fixed_dirs [simp]: "length (fixed_dirs i n) = n"
  by (simp add: fixed_dirs_def)

lemma fixed_dirs_Suc: "fixed_dirs i (Suc n) = bit i 0 # fixed_dirs (i div 2) n"
  unfolding fixed_dirs_def by (subst map_upt_Suc) (simp add: bit_Suc)

lemma bit_small_nat: "i < 2 ^ 31 \<Longrightarrow> bit (i :: nat) j \<Longrightarrow> j < 31"
proof (rule ccontr)
  assume i: "i < 2 ^ 31" and b: "bit i j" and "\<not> j < 31"
  then have "(2::nat) ^ 31 \<le> 2 ^ j" by (intro power_increasing) auto
  with i have "i div 2 ^ j = 0" by simp
  with b show False by (simp add: bit_iff_odd)
qed

lemma idx_shift:
  assumes "i < 2 ^ 31"
  shows "signed_drop_bit 1 (word_of_nat i :: 32 word) = word_of_nat (i div 2)"
proof (rule bit_word_eqI)
  fix n assume "n < LENGTH(32)"
  then have n: "n < 32" by simp
  have high: "\<not> bit i j" if "31 \<le> j" for j using bit_small_nat [OF assms, of j] that by auto
  then have "\<not> bit (i div 2) j" if "31 \<le> j" for j using that by (metis bit_Suc le_SucI)
  then show "bit (signed_drop_bit 1 (word_of_nat i :: 32 word)) n =
      bit (word_of_nat (i div 2) :: 32 word) n"
    using n high by (auto simp: bit_signed_drop_bit_iff bit_of_nat_iff bit_exp_iff possible_bit_word bit_Suc)
qed

lemma idx_low: "and (word_of_nat i :: 32 word) 1 = 0 \<longleftrightarrow> \<not> bit i 0"
  by (simp add: and_one_eq mod_2_eq_odd even_of_nat_iff bit_0)

lemma verifyFixedLoop_climb:
  "i < 2 ^ 31 \<Longrightarrow>
   verifyFixedLoop H node (word_of_nat i) sibs = climb H nodePre (zip (fixed_dirs i (length sibs)) sibs) node"
proof (induction sibs arbitrary: i node)
  case (Cons s ss)
  have "i div 2 < 2 ^ 31" using Cons.prems by simp
  from Cons.IH [OF this] show ?case
    by (simp add: fixed_dirs_Suc idx_shift [OF Cons.prems, simplified] idx_low nodeHash_def)
qed simp

section \<open>Every generated proof verifies\<close>

lemma pair_up_nth:
  "i < length xs div 2 \<Longrightarrow> pair_up H xs ! i = nodeHash H (xs ! (2 * i)) (xs ! (2 * i + 1))"
proof (induction H xs arbitrary: i rule: pair_up.induct)
  case (1 H a b xs)
  then show ?case by (cases i) auto
qed auto

lemma xor_sibling: "xor (i :: nat) 1 = (if bit i 0 then i - 1 else i + 1)"
  unfolding xor_nat_unfold [of i 1] by (auto simp: bit_0 elim!: evenE oddE)

lemma fixedProofLoop_climb:
  assumes "length layer = 2 ^ k" "i < 2 ^ k"
  shows "length (fixedProofLoop H layer i) = k \<and>
    climb H nodePre (zip (fixed_dirs i k) (map hex_decode (fixedProofLoop H layer i))) (layer ! i) =
      hd (fixedLoop H layer)"
  using assms
proof (induction k arbitrary: layer i)
  case 0
  then show ?case
    by (auto simp: fixedProofLoop.simps [of H layer] fixedLoop.simps [of H layer] length_Suc_conv)
next
  case (Suc k)
  have "length layer = 2 * 2 ^ k" "(1 :: nat) \<le> 2 ^ k" using Suc.prems(1) by simp_all
  then have len: "length layer > 1" "length (pair_up H layer) = 2 ^ k"
    using Suc.prems(1) by (linarith, simp)
  have i: "i div 2 < 2 ^ k" using Suc.prems(2) by auto
  have p: "fixedProofLoop H layer i =
      hex_encode (layer ! (xor i 1)) # fixedProofLoop H (pair_up H layer) (i div 2)"
    using len(1) by (subst fixedProofLoop.simps) (simp add: drop_bit_Suc)
  have l: "fixedLoop H layer = fixedLoop H (pair_up H layer)"
    using len(1) by (subst fixedLoop.simps) simp
  have "pair_up H layer ! (i div 2) =
      nodeHash H (layer ! (2 * (i div 2))) (layer ! (2 * (i div 2) + 1))"
    using len(2) i by (intro pair_up_nth) simp
  also have "\<dots> = H (if bit i 0 then nodePre (layer ! (xor i 1)) (layer ! i)
                            else nodePre (layer ! i) (layer ! (xor i 1)))"
    by (auto simp: nodeHash_def xor_sibling [simplified] bit_0 elim!: evenE oddE)
  finally have up: "H (if bit i 0 then nodePre (layer ! (xor i 1)) (layer ! i)
      else nodePre (layer ! i) (layer ! (xor i 1))) = pair_up H layer ! (i div 2)" ..
  define z where "z = layer ! (xor i 1)"
  show ?case
    using Suc.IH [OF len(2) i] up unfolding p l z_def [symmetric]
    by (cases "bit i 0") (simp_all add: fixed_dirs_Suc)
qed

lemma fixedLayer_Some:
  assumes "length leaves \<le> 2 ^ 30"
  obtains k where "k = (LEAST i. int (length leaves) \<le> 2 ^ i)" "k \<le> 30" "length leaves \<le> 2 ^ k"
    "fixedLayer H leaves = Some (map toBuf leaves @ replicate (2 ^ k - length leaves) (EMPTY H 0))"
proof -
  have "int (length leaves) \<le> 2 ^ 30" using assms by (metis of_nat_le_iff of_nat_numeral of_nat_power)
  from nextPow2_least [OF this] obtain k where k: "k \<le> 30" "int (length leaves) \<le> 2 ^ k"
    "nextPow2 (int (length leaves)) = Some (2 ^ k)" "k = (LEAST i. int (length leaves) \<le> 2 ^ i)" by blast
  have "length leaves \<le> 2 ^ k" using k(2) by (metis of_nat_le_iff of_nat_numeral of_nat_power)
  then show ?thesis using that k by (simp add: fixedLayer_def nat_power_eq)
qed

lemma fixed_proof_verifies:
  assumes "length leaves \<le> 2 ^ 30" "i < length leaves"
  obtains root sibs where "fixedMerkleRoot H leaves = Some root"
    "fixedMerkleProof H leaves (int i) = Some (Inr (int i, sibs))"
    "verifyFixedMerkleProof H (Buf root) (leaves ! i) (int i) (map Hex sibs)"
proof -
  obtain k where k: "k \<le> 30" "length leaves \<le> 2 ^ k" and
    lay: "fixedLayer H leaves = Some (map toBuf leaves @ replicate (2 ^ k - length leaves) (EMPTY H 0))"
    using fixedLayer_Some [OF assms(1)] by metis
  define L where "L = map toBuf leaves @ replicate (2 ^ k - length leaves) (EMPTY H 0)"
  have L: "length L = 2 ^ k" "i < 2 ^ k" "L ! i = toBuf (leaves ! i)"
    using k assms(2) by (simp_all add: L_def nth_append)
  have "(2 :: nat) ^ k \<le> 2 ^ 30" using k(1) by (intro power_increasing) auto
  then have i: "i < 2 ^ 31" using L(2) by simp
  let ?sibs = "fixedProofLoop H L i"
  have c: "length ?sibs = k"
    "climb H nodePre (zip (fixed_dirs i k) (map hex_decode ?sibs)) (L ! i) = hd (fixedLoop H L)"
    using fixedProofLoop_climb [OF L(1,2)] by auto
  show ?thesis
  proof (rule that [of "hd (fixedLoop H L)" ?sibs])
    show "fixedMerkleRoot H leaves = Some (hd (fixedLoop H L))"
      using assms(2) lay by (auto simp: fixedMerkleRoot_def L_def)
    show "fixedMerkleProof H leaves (int i) = Some (Inr (int i, ?sibs))"
      using assms(2) lay by (simp add: fixedMerkleProof_def L_def)
    show "verifyFixedMerkleProof H (Buf (hd (fixedLoop H L))) (leaves ! i) (int i) (map Hex ?sibs)"
      using c L(3) verifyFixedLoop_climb [OF i, of H "L ! i" "map hex_decode ?sibs"]
      by (simp add: verifyFixedMerkleProof_def comp_def)
  qed
qed

section \<open>Properties\<close>

text \<open>
  C28: \<open>nextPow2\<close> computes the least power of two that is not below its argument, for every argument up
  to \<open>2^30\<close>; above that the 32-bit shift overflows and the loop never ends.
\<close>

theorem nextPow2_total_or_diverges:
  "nextPow2 n = (if n \<le> 2 ^ 30 then Some (2 ^ (LEAST i. n \<le> 2 ^ i)) else None)"
  using nextPow2_least(3) nextPow2_diverges by simp

text \<open>
  C27: For every leaf of a vector of up to \<open>2^30\<close> leaves the fixed tree's generated proof is accepted
  against the vector's root at that leaf's index; an index outside the vector is the range error.
\<close>

theorem fixed_proof_complete:
  assumes "length leaves \<le> 2 ^ 30"
  shows "if 0 \<le> i \<and> i < int (length leaves)
    then \<exists>root sibs. fixedMerkleRoot H leaves = Some root \<and>
      fixedMerkleProof H leaves i = Some (Inr (i, sibs)) \<and>
      verifyFixedMerkleProof H (Buf root) (leaves ! nat i) i (map Hex sibs)
    else fixedMerkleProof H leaves i = Some (Inl IndexOutOfRange)"
proof (cases "0 \<le> i \<and> i < int (length leaves)")
  case True
  then have "nat i < length leaves" "int (nat i) = i" by linarith+
  then show ?thesis using fixed_proof_verifies [OF assms, of "nat i" H] True by metis
next
  case False
  then show ?thesis by (auto simp: fixedMerkleProof_def)
qed

theorem fixed_proof_complete_witness:
  "\<exists>root sibs. fixedMerkleRoot id [Buf [1], Buf [2], Buf [3]] = Some root \<and>
     fixedMerkleProof id [Buf [1], Buf [2], Buf [3]] 2 = Some (Inr (2, sibs)) \<and>
     verifyFixedMerkleProof id (Buf root) (Buf [3]) 2 (map Hex sibs)"
  using fixed_proof_complete [of "[Buf [1], Buf [2], Buf [3]]" 2 id] by simp

end
