(* ===== verification/CommittedTree.thy ===== *)
theory CommittedTree
  imports FixedMerkle
begin

text \<open>
  What the committed roots of \<open>src/merkle.js\<close> commit to. A committed tree is written out with its
  leaf preimages (\<open>mtree\<close>); \<open>mhash\<close> is its root and \<open>mpres\<close> everything hashed to obtain it. The
  sparse tree of a table of (key, contents) pairs and the state tree of five such tables are trees of
  this kind, and their roots are the roots the code computes.

  The soundness lemma \<open>climb_follow\<close> walks a verified path down such a tree: either the path ends at
  a leaf with the verified preimage, or one preimage of the verifier and one of the tree are different
  and hash alike. It says nothing about the number of siblings, which is what the verifiers need,
  because \<open>verifyFixedMerkleProof\<close> does not check it.
\<close>

section \<open>Trees with their preimages\<close>

datatype mtree = MLeaf bytes | MNode mtree mtree

fun mhash :: "(bytes \<Rightarrow> bytes) \<Rightarrow> mtree \<Rightarrow> bytes" where
  "mhash H (MLeaf p) = H p"
| "mhash H (MNode l r) = H (nodePre (mhash H l) (mhash H r))"

fun mpres :: "(bytes \<Rightarrow> bytes) \<Rightarrow> mtree \<Rightarrow> bytes set" where
  "mpres H (MLeaf p) = {p}"
| "mpres H (MNode l r) = insert (nodePre (mhash H l) (mhash H r)) (mpres H l \<union> mpres H r)"

fun mleaves :: "mtree \<Rightarrow> bytes set" where
  "mleaves (MLeaf p) = {p}"
| "mleaves (MNode l r) = mleaves l \<union> mleaves r"

fun follow :: "bool list \<Rightarrow> mtree \<Rightarrow> mtree option" where
  "follow [] t = Some t"
| "follow (b # bs) (MNode l r) = follow bs (if b then r else l)"
| "follow (b # bs) (MLeaf p) = None"

lemma follow_append:
  "follow (as @ bs) t = (case follow as t of None \<Rightarrow> None | Some u \<Rightarrow> follow bs u)"
  by (induction as t rule: follow.induct) auto

text \<open>A leaf preimage never starts with the node prefix: this is the domain separation.\<close>

definition leaf_pre :: "bytes \<Rightarrow> bool" where
  "leaf_pre p \<longleftrightarrow> p \<noteq> [] \<and> hd p \<noteq> 1"

lemma leaf_pre_node: "leaf_pre p \<Longrightarrow> p \<noteq> nodePre l r"
  by (auto simp: leaf_pre_def nodePre_def)

text \<open>\<open>breaks H A B\<close>: a preimage of \<open>A\<close> and another one of \<open>B\<close> hash alike.\<close>

definition breaks :: "(bytes \<Rightarrow> bytes) \<Rightarrow> bytes set \<Rightarrow> bytes set \<Rightarrow> bool" where
  "breaks H A B \<longleftrightarrow> (\<exists>x\<in>A. \<exists>y\<in>B. x \<noteq> y \<and> H x = H y)"

lemma breaksI: "x \<in> A \<Longrightarrow> y \<in> B \<Longrightarrow> x \<noteq> y \<Longrightarrow> H x = H y \<Longrightarrow> breaks H A B"
  by (auto simp: breaks_def)

lemma breaks_mono: "breaks H A B \<Longrightarrow> A \<subseteq> A' \<Longrightarrow> B \<subseteq> B' \<Longrightarrow> breaks H A' B'"
  by (auto simp: breaks_def)

lemma climb_pres_append:
  "climb_pres h pre (ps @ qs) n = climb_pres h pre ps n @ climb_pres h pre qs (climb h pre ps n)"
  by (induction h pre ps n rule: climb_pres.induct) (auto simp: Let_def)

lemma climb_follow:
  assumes "\<forall>x. length (H x) = n" "leaf_pre p" "\<forall>q\<in>mleaves T. leaf_pre q"
    and "climb H nodePre ps (H p) = mhash H T"
  shows "follow (rev (map fst ps)) T = Some (MLeaf p) \<or>
    breaks H (insert p (set (climb_pres H nodePre ps (H p)))) (mpres H T)"
  using assms(3,4)
proof (induction ps arbitrary: T rule: rev_induct)
  case Nil
  then show ?case
    using leaf_pre_node [OF assms(2)] by (cases T) (auto intro: breaksI)
next
  case (snoc st ps)
  obtain right s where st: "st = (right, s)" by (cases st)
  define c where "c = climb H nodePre ps (H p)"
  define x where "x = (if right then nodePre s c else nodePre c s)"
  have pres: "set (climb_pres H nodePre (ps @ [st]) (H p)) =
      insert x (set (climb_pres H nodePre ps (H p)))"
    by (simp add: climb_pres_append st x_def c_def Let_def)
  have hx: "H x = mhash H T"
    using snoc.prems(2) by (cases right) (simp_all add: climb_append st x_def c_def)
  have lc: "length c = n" unfolding c_def
  proof (cases ps rule: rev_cases)
    case Nil
    then show "length (climb H nodePre ps (H p)) = n" using assms(1) by simp
  next
    case (snoc qs q)
    then show "length (climb H nodePre ps (H p)) = n" using assms(1)
      by (cases q) (simp add: climb_append)
  qed
  have lh: "length (mhash H U) = n" for U using assms(1) by (cases U) auto
  show ?case
  proof (cases T)
    case (MLeaf q)
    then have "leaf_pre q" using snoc.prems(1) by simp
    then have "x \<noteq> q" using leaf_pre_node unfolding x_def by (metis (full_types))
    then show ?thesis using hx MLeaf unfolding pres by (auto intro: breaksI [of x])
  next
    case (MNode l r)
    let ?y = "nodePre (mhash H l) (mhash H r)"
    show ?thesis
    proof (cases "x = ?y")
      case False
      then show ?thesis using hx MNode unfolding pres by (auto intro: breaksI [of x])
    next
      case True
      let ?U = "if right then r else l"
      have "c = mhash H ?U"
        using True lc lh sha_node.pre_left [of c "mhash H l" s "mhash H r"]
          sha_node.pre_right [of c "mhash H r" s "mhash H l"] by (auto simp: x_def split: if_splits)
      then have "follow (rev (map fst ps)) ?U = Some (MLeaf p) \<or>
          breaks H (insert p (set (climb_pres H nodePre ps (H p)))) (mpres H ?U)"
        using snoc.prems(1) MNode unfolding c_def by (intro snoc.IH) (auto split: if_splits)
      then show ?thesis unfolding pres MNode using st breaks_mono [of H _ "mpres H ?U"]
        by (auto simp: breaks_def split: if_splits)
    qed
  qed
qed

section \<open>The tree of a table\<close>

text \<open>A table maps 32-byte keys to leaf contents; the leaf hashed for an entry is \<open>0\<close> and the contents.\<close>

type_synonym table = "(bytes \<times> bytes) list"

definition empty_pre :: bytes where
  "empty_pre = 2 # utf8 ''XCHAIN_EMPTY_LEAF''"

definition table_entry :: "(bytes \<Rightarrow> bytes) \<Rightarrow> bytes \<times> bytes \<Rightarrow> smt_entry" where
  "table_entry H = (\<lambda>(k, c). \<lparr>key = k, leaf = leafHash H c\<rparr>)"

definition table_smt :: "(bytes \<Rightarrow> bytes) \<Rightarrow> table \<Rightarrow> smt" where
  "table_smt H tb = map (\<lambda>(k, c). (hex_encode k, hex_encode (leafHash H c))) tb"

definition table_ok :: "table \<Rightarrow> bool" where
  "table_ok tb \<longleftrightarrow> distinct (map fst tb) \<and> (\<forall>k\<in>fst ` set tb. length k = 32)"

fun table_tree :: "nat \<Rightarrow> nat \<Rightarrow> table \<Rightarrow> mtree" where
  "table_tree 0 d tb = MLeaf (case tb of [] \<Rightarrow> empty_pre | (k, c) # _ \<Rightarrow> 0 # c)"
| "table_tree (Suc n) d tb =
     MNode (table_tree n (Suc d) (filter (\<lambda>(k, c). bitAt k d = 0) tb))
           (table_tree n (Suc d) (filter (\<lambda>(k, c). bitAt k d \<noteq> 0) tb))"

lemma table_tree_hash:
  "n + d = SMT_DEPTH \<Longrightarrow> mhash H (table_tree n d tb) = smtNode H (map (table_entry H) tb) d"
proof (induction n d tb rule: table_tree.induct)
  case (1 d tb)
  then have "d = SMT_DEPTH" by simp
  then show ?case
    by (cases tb) (auto simp: smtNode_bottom empty_pre_def table_entry_def leafHash_def)
next
  case (2 n d tb)
  have f: "map (table_entry H) (filter (\<lambda>(k, c). P (bitAt k d)) tb) =
      filter (\<lambda>e. P (bitAt (key e) d)) (map (table_entry H) tb)" for P
    by (induction tb) (auto simp: table_entry_def)
  from 2 show ?case
    using f [of "\<lambda>b. b = 0"] f [of "\<lambda>b. b \<noteq> 0"] by (simp add: smtNode_step nodeHash_def)
qed

lemma table_smt_entries: "smt_entries (table_smt H tb) = map (table_entry H) tb"
  by (auto simp: smt_entries_def table_smt_def table_entry_def)

lemma table_root: "mhash H (table_tree 256 0 tb) = smt_root H (table_smt H tb)"
  using table_tree_hash [of 256 0 H tb]
  by (simp add: smt_root_def table_smt_entries SMT_DEPTH_def)

lemma table_smt_wf: "table_ok tb \<Longrightarrow> smt_wf (table_smt H tb)"
proof -
  assume ok: "table_ok tb"
  have "map fst (table_smt H tb) = map hex_encode (map fst tb)"
    by (simp add: table_smt_def case_prod_beta)
  moreover have "inj_on hex_encode (set (map fst tb))" by (simp add: inj_on_def)
  ultimately have "distinct (map fst (table_smt H tb))"
    using ok by (simp only: table_ok_def distinct_map [of hex_encode] simp_thms)
  then show ?thesis using ok by (auto simp: smt_wf_def table_smt_def table_ok_def)
qed

lemma table_smt_lookup: "map_of (table_smt H tb) (hex_encode k) =
    map_option (\<lambda>c. hex_encode (leafHash H c)) (map_of tb k)"
  by (induction tb) (auto simp: table_smt_def)

lemma table_tree_leaves: "\<forall>q\<in>mleaves (table_tree n d tb). leaf_pre q"
  by (induction n d tb rule: table_tree.induct)
     (auto simp: leaf_pre_def empty_pre_def split: list.splits)

lemma follow_table_length:
  "follow bs (table_tree n d tb) = Some (MLeaf q) \<Longrightarrow> length bs = n"
  by (induction n arbitrary: bs d tb) (case_tac bs; auto split: if_splits)+

lemma bitAt_nz: "bitAt k i \<noteq> 0 \<Longrightarrow> bitAt k' i \<noteq> 0 \<Longrightarrow> bitAt k i = bitAt k' i"
  using bitAt_01 [of k i] bitAt_01 [of k' i] by auto

text \<open>Following the bits of a key ends at the contents of its entry.\<close>

lemma follow_table_bits:
  "follow (map (\<lambda>i. bitAt k i \<noteq> 0) [d..<d + n]) (table_tree n d tb) =
   Some (table_tree 0 (d + n) (filter (\<lambda>(k', c). \<forall>i\<in>set [d..<d + n]. bitAt k' i = bitAt k i) tb))"
proof (induction n arbitrary: d tb)
  case 0
  then show ?case by simp
next
  case (Suc n)
  have up: "[d..<d + Suc n] = d # [Suc d..<Suc d + n]" by (subst upt_conv_Cons) simp_all
  have f: "filter (\<lambda>(k', c). \<forall>i\<in>set [Suc d..<Suc d + n]. bitAt k' i = bitAt k i)
        (filter (\<lambda>(k', c). (bitAt k' d \<noteq> 0) = (bitAt k d \<noteq> 0)) tb) =
      filter (\<lambda>(k', c). \<forall>i\<in>set [d..<d + Suc n]. bitAt k' i = bitAt k i) tb"
    unfolding filter_filter up
    by (intro filter_cong refl) (auto simp del: upt_Suc intro: bitAt_nz)
  let ?F = "filter (\<lambda>(k', c). (bitAt k' d \<noteq> 0) = (bitAt k d \<noteq> 0)) tb"
  have "follow (map (\<lambda>i. bitAt k i \<noteq> 0) [d..<d + Suc n]) (table_tree (Suc n) d tb) =
      follow (map (\<lambda>i. bitAt k i \<noteq> 0) [Suc d..<Suc d + n]) (table_tree n (Suc d) ?F)"
    unfolding up by (cases "bitAt k d \<noteq> 0") (simp_all del: upt_Suc)
  also have "\<dots> = Some (table_tree 0 (Suc d + n)
      (filter (\<lambda>(k', c). \<forall>i\<in>set [Suc d..<Suc d + n]. bitAt k' i = bitAt k i) ?F))"
    by (rule Suc.IH)
  also have "\<dots> = Some (table_tree 0 (d + Suc n)
      (filter (\<lambda>(k', c). \<forall>i\<in>set [d..<d + Suc n]. bitAt k' i = bitAt k i) tb))"
    unfolding f by simp
  finally show ?case .
qed

lemma follow_table:
  assumes "table_ok tb" "length k = 32"
  shows "follow (map (\<lambda>i. bitAt k i \<noteq> 0) [0..<256]) (table_tree 256 0 tb) =
    Some (MLeaf (case map_of tb k of None \<Rightarrow> empty_pre | Some c \<Rightarrow> 0 # c))"
proof -
  have "filter (\<lambda>(k', c). \<forall>i\<in>set [0..<256]. bitAt k' i = bitAt k i) tb =
      filter (\<lambda>(k', c). k' = k) tb"
    using assms bitAt_ext [of _ k] by (intro filter_cong refl) (fastforce simp: table_ok_def)
  moreover have "(case filter (\<lambda>(k', c). k' = k) tb of [] \<Rightarrow> empty_pre | (k, c) # _ \<Rightarrow> 0 # c) =
      (case map_of tb k of None \<Rightarrow> empty_pre | Some c \<Rightarrow> 0 # c)"
    by (induction tb) auto
  ultimately show ?thesis using follow_table_bits [of k 0 256 tb] by simp
qed

section \<open>The committed state\<close>

text \<open>The five named tables, in the order of \<open>STATE_SUBTREES\<close>; an inert one is empty.\<close>

record committed_state =
  balances :: table
  stakes :: table
  ownership :: table
  tokens :: table
  contract_state :: table

definition state_tables :: "committed_state \<Rightarrow> table list" where
  "state_tables st = [balances st, stakes st, ownership st, tokens st, contract_state st]"

definition state_ok :: "committed_state \<Rightarrow> bool" where
  "state_ok st \<longleftrightarrow> list_all table_ok (state_tables st)"

definition sub_roots :: "(bytes \<Rightarrow> bytes) \<Rightarrow> committed_state \<Rightarrow> (string \<rightharpoonup> bufarg)" where
  "sub_roots H st = map_of (zip STATE_SUBTREES
     (map (\<lambda>tb. Buf (smt_root H (table_smt H tb))) (state_tables st)))"

definition state_tree :: "committed_state \<Rightarrow> mtree" where
  "state_tree st =
     (let t = (\<lambda>tb. table_tree 256 0 tb); e = MLeaf empty_pre in
      MNode (MNode (MNode (t (balances st)) (t (stakes st)))
                   (MNode (t (ownership st)) (t (tokens st))))
            (MNode (MNode (t (contract_state st)) e) (MNode e e)))"

lemma nextPow2_5: "nextPow2 5 = Some 8"
proof -
  have "nextPow2Loop 1 5 = nextPow2Loop 2 5" by (subst nextPow2Loop.simps) simp
  also have "\<dots> = nextPow2Loop 4 5" by (subst nextPow2Loop.simps) simp
  also have "\<dots> = nextPow2Loop 8 5" by (subst nextPow2Loop.simps) simp
  also have "\<dots> = Some 8" by (subst nextPow2Loop.simps) simp
  finally show ?thesis by (simp add: nextPow2_def)
qed

lemma fixedLoop_8:
  "fixedLoop H [a, b, c, d, e, f, g, h] =
   [nodeHash H (nodeHash H (nodeHash H a b) (nodeHash H c d)) (nodeHash H (nodeHash H e f) (nodeHash H g h))]"
  by (simp add: fixedLoop.simps)

lemma subRootLeaves_state:
  "subRootLeaves H (sub_roots H st) = map (\<lambda>tb. Buf (smt_root H (table_smt H tb))) (state_tables st)"
  by (simp add: subRootLeaves_def sub_roots_def STATE_SUBTREES_def state_tables_def)

lemma stateRoot_tree: "stateRoot H (sub_roots H st) = Some (mhash H (state_tree st))"
proof -
  have "replicate 3 x = [x, x, x]" for x :: bytes by (simp add: numeral_3_eq_3)
  then show ?thesis
    by (simp add: stateRoot_def fixedMerkleRoot_def subRootLeaves_state fixedLayer_def
        state_tables_def nextPow2_5 fixedLoop_8 state_tree_def nodeHash_def table_root
        empty_pre_def Let_def)
qed

lemma state_tree_leaves: "\<forall>q\<in>mleaves (state_tree st). leaf_pre q"
  using table_tree_leaves by (auto simp: state_tree_def Let_def leaf_pre_def empty_pre_def)

text \<open>Every leaf is three or 259 levels down, so a path of at least 256 levels ends at depth 259.\<close>

lemma follow_leaf_length: "follow bs (MLeaf p) = Some (MLeaf q) \<Longrightarrow> bs = []"
  by (cases bs) auto

lemma follow_node_leaf:
  "follow bs (MNode l r) = Some (MLeaf q) \<Longrightarrow>
   \<exists>b bs'. bs = b # bs' \<and> follow bs' (if b then r else l) = Some (MLeaf q)"
  by (cases bs) auto

lemma follow_state_length:
  assumes "follow bs (state_tree st) = Some (MLeaf q)"
  shows "length bs = 3 \<or> length bs = 259"
proof -
  show ?thesis
    using assms unfolding state_tree_def Let_def
    by (auto dest!: follow_node_leaf follow_leaf_length follow_table_length split: if_splits)
qed

definition slot_dirs :: "nat \<Rightarrow> bool list" where
  "slot_dirs i = rev (fixed_dirs i 3)"

lemma follow_slot:
  assumes "i < 5"
  shows "follow (slot_dirs i) (state_tree st) = Some (table_tree 256 0 (state_tables st ! i))"
proof -
  have d: "fixed_dirs i 3 = [bit i 0, bit i 1, bit i 2]" by (simp add: fixed_dirs_def upt_rec numeral_3_eq_3 numeral_2_eq_2)
  from assms have "i \<in> {0, 1, 2, 3, 4}" by auto
  then show ?thesis
    by (auto simp: slot_dirs_def d state_tree_def Let_def state_tables_def bit_numeral_rec bit_1_iff bit_0)
qed

text \<open>What a table holds at a key, as the preimage of its leaf.\<close>

definition table_pre :: "table \<Rightarrow> bytes \<Rightarrow> bytes" where
  "table_pre tb k = (case map_of tb k of None \<Rightarrow> empty_pre | Some c \<Rightarrow> 0 # c)"

definition state_path :: "nat \<Rightarrow> bytes \<Rightarrow> bytes list \<Rightarrow> bytes list \<Rightarrow> (bool \<times> bytes) list" where
  "state_path i k sibs ups = smt_path k 0 sibs @ zip (fixed_dirs i (length ups)) ups"

definition state_pres :: "(bytes \<Rightarrow> bytes) \<Rightarrow> nat \<Rightarrow> bytes \<Rightarrow> bytes \<Rightarrow> bytes list \<Rightarrow> bytes list \<Rightarrow> bytes set" where
  "state_pres H i k p sibs ups =
     insert p (set (climb_pres H nodePre (state_path i k sibs ups) (H p)))"

lemma state_path_sound:
  assumes H: "\<forall>x. length (H x) = n" and ok: "state_ok st" and i: "i < 5"
    and k: "length k = 32" and p: "leaf_pre p" and len: "length sibs = 256"
    and root: "climb H nodePre (state_path i k sibs ups) (H p) = mhash H (state_tree st)"
  shows "p = table_pre (state_tables st ! i) k \<or>
    breaks H (state_pres H i k p sibs ups) (mpres H (state_tree st))"
proof -
  let ?ps = "state_path i k sibs ups"
  have dirs: "rev (map fst ?ps) = rev (fixed_dirs i (length ups)) @ map (\<lambda>j. bitAt k j \<noteq> 0) [0..<256]"
    using len by (simp add: state_path_def map_fst_smt_path)
  from climb_follow [OF H p state_tree_leaves root]
  show ?thesis
  proof
    assume f: "follow (rev (map fst ?ps)) (state_tree st) = Some (MLeaf p)"
    then have "length ups = 3" using follow_state_length [OF f] unfolding dirs by simp
    moreover have "table_ok (state_tables st ! i)"
      using ok i by (simp add: state_ok_def list_all_length state_tables_def)
    ultimately show ?thesis
      using f follow_table [OF _ k] follow_slot [OF i, of st]
      unfolding dirs by (simp add: follow_append slot_dirs_def table_pre_def)
  qed (simp add: state_pres_def)
qed

end
