(* ===== verification/Wire.thy ===== *)
theory Wire
  imports Prelude
begin

text \<open>
  The two strict parses of numbers that arrive over the wire: \<open>src/utils/wire_index.js\<close>
  (\<open>toWireIndex\<close>, \<open>sameWireIndex\<close>) and the height comparison of
  \<open>src/consensus/gates/state_subtree_gate.js\<close>, with the gates built on it.

  A JavaScript number that is an integer is \<open>JInt\<close>, a BigInt is \<open>JBig\<close>. \<open>Number(s)\<close> of a digit string
  is exact here; the code rounds it past \<open>2^53\<close>, above every block height.
\<close>

section \<open>Wire indices\<close>

definition toWireIndex :: "jsval \<Rightarrow> int option" where
  "toWireIndex v =
     (case v of
        JBig i \<Rightarrow> if i \<ge> 0 then Some i else None
      | JInt i \<Rightarrow> if \<bar>i\<bar> \<le> MAX_SAFE_INTEGER \<and> i \<ge> 0 then Some i else None
      | JStr t \<Rightarrow> (let s = js_trim t in if all_digits s then Some (int (nat_of_digits s)) else None)
      | _ \<Rightarrow> None)"

definition sameWireIndex :: "jsval \<Rightarrow> jsval \<Rightarrow> bool" where
  "sameWireIndex a b =
     (case toWireIndex a of
        None \<Rightarrow> False
      | Some x \<Rightarrow> (let y = toWireIndex b in y \<noteq> None \<and> y = Some x))"

lemma sameWireIndex_iff: "sameWireIndex a b \<longleftrightarrow> (\<exists>x. toWireIndex a = Some x \<and> toWireIndex b = Some x)"
  by (auto simp: sameWireIndex_def Let_def split: option.splits)

lemma toWireIndex_nonneg: "toWireIndex v = Some i \<Longrightarrow> 0 \<le> i"
  by (cases v) (auto simp: toWireIndex_def Let_def split: if_splits)

lemma toWireIndex_decimal: "toWireIndex (JStr (nat_str n)) = Some (int n)"
proof -
  have "all_digits (nat_str n)" by (rule all_digits_nat_str)
  moreover have "js_trim (nat_str n) = nat_str n"
    using calculation is_digit_not_ws by (intro js_trim_no_ws) (auto simp: all_digits_def list_all_iff)
  ultimately show ?thesis by (simp add: toWireIndex_def Let_def)
qed

section \<open>Activation heights\<close>

text \<open>\<open>_strictHeight\<close>: \<open>NaN\<close> is \<open>None\<close>.\<close>

definition strictHeight :: "jsval \<Rightarrow> int option" where
  "strictHeight v =
     (case v of
        JInt i \<Rightarrow> if i \<ge> 0 then Some i else None
      | JStr s \<Rightarrow> if all_digits s then Some (int (nat_of_digits s)) else None
      | _ \<Rightarrow> None)"

type_synonym height_map = "(string \<times> jsval) list"

definition threshold :: "height_map \<Rightarrow> jsval \<Rightarrow> jsval \<Rightarrow> jsval" where
  "threshold m network coin =
     (if is_nullish coin then JUndef
      else get_prop m (js_string coin @ '':'' @ js_string network))"

definition atOrAfter :: "height_map \<Rightarrow> jsval \<Rightarrow> jsval \<Rightarrow> jsval \<Rightarrow> bool" where
  "atOrAfter m blockIndex network coin =
     (case strictHeight blockIndex of
        None \<Rightarrow> False
      | Some b \<Rightarrow>
          (case strictHeight (threshold m network coin) of
             None \<Rightarrow> False
           | Some t \<Rightarrow> b \<ge> t))"

definition RESERVED_SUBTREES :: "string list" where
  "RESERVED_SUBTREES = [''ownership_root'', ''tokens_root'', ''contract_state_root'']"

definition STATE_SUBTREE_ACTIVATION :: "string \<Rightarrow> height_map" where
  "STATE_SUBTREE_ACTIVATION name =
     (if name = ''contract_state_root''
      then [(''BTC:regtest'', JInt 10000), (''BTC:testnet'', JInt 0),
            (''LTC:testnet'', JInt 0), (''DOGE:testnet'', JInt 0)]
      else [])"

definition STATE_SUBTREE_SHADOW :: "string \<Rightarrow> height_map" where
  "STATE_SUBTREE_SHADOW name = []"

definition ESCROW_LOCKED_LEAF_ACTIVATION :: height_map where
  "ESCROW_LOCKED_LEAF_ACTIVATION =
     [(''BTC:regtest'', JInt 11200), (''BTC:testnet'', JInt 0),
      (''LTC:testnet'', JInt 0), (''DOGE:testnet'', JInt 0)]"

definition ESCROW_LOCKED_LEAF_SHADOW :: height_map where
  "ESCROW_LOCKED_LEAF_SHADOW = []"

text \<open>An unknown slot name throws (\<open>Inl\<close>).\<close>

datatype subtree_error = UnknownReservedSubtree string

definition isSubtreeActive :: "string \<Rightarrow> jsval \<Rightarrow> jsval \<Rightarrow> jsval \<Rightarrow> subtree_error + bool" where
  "isSubtreeActive name blockIndex network coin =
     (if name \<notin> set RESERVED_SUBTREES then Inl (UnknownReservedSubtree name)
      else Inr (atOrAfter (STATE_SUBTREE_ACTIVATION name) blockIndex network coin))"

definition isSubtreeShadowActive :: "string \<Rightarrow> jsval \<Rightarrow> jsval \<Rightarrow> jsval \<Rightarrow> subtree_error + bool" where
  "isSubtreeShadowActive name blockIndex network coin =
     (if name \<notin> set RESERVED_SUBTREES then Inl (UnknownReservedSubtree name)
      else try_bind (isSubtreeActive name blockIndex network coin)
             (\<lambda>a. if a then Inr False
                  else Inr (atOrAfter (STATE_SUBTREE_SHADOW name) blockIndex network coin)))"

definition isEscrowLockedLeafActive :: "jsval \<Rightarrow> jsval \<Rightarrow> jsval \<Rightarrow> bool" where
  "isEscrowLockedLeafActive blockIndex network coin =
     atOrAfter ESCROW_LOCKED_LEAF_ACTIVATION blockIndex network coin"

definition isEscrowLockedLeafShadowActive :: "jsval \<Rightarrow> jsval \<Rightarrow> jsval \<Rightarrow> bool" where
  "isEscrowLockedLeafShadowActive blockIndex network coin =
     (if isEscrowLockedLeafActive blockIndex network coin then False
      else atOrAfter ESCROW_LOCKED_LEAF_SHADOW blockIndex network coin)"

text \<open>\<open>gateSubRoots\<close>: the candidates in their order, \<open>null\<close> ones skipped before the name is checked.\<close>

fun gateLoop :: "(string \<times> 'v option) list \<Rightarrow> jsval \<Rightarrow> jsval \<Rightarrow> jsval \<Rightarrow> subtree_error + (string \<times> 'v) list" where
  "gateLoop [] b n c = Inr []"
| "gateLoop ((name, None) # cs) b n c = gateLoop cs b n c"
| "gateLoop ((name, Some v) # cs) b n c =
     try_bind (isSubtreeActive name b n c)
       (\<lambda>a. if a then try_bind (gateLoop cs b n c) (\<lambda>out. Inr ((name, v) # out))
            else gateLoop cs b n c)"

definition gateSubRoots ::
    "(string \<times> 'v option) list option \<Rightarrow> jsval \<Rightarrow> jsval \<Rightarrow> jsval \<Rightarrow>
     subtree_error + (string \<times> 'v) list option" where
  "gateSubRoots candidates b n c =
     (case candidates of
        None \<Rightarrow> Inr None
      | Some cs \<Rightarrow> try_bind (gateLoop cs b n c) (\<lambda>out. Inr (if out = [] then None else Some out)))"

fun anyActive :: "string list \<Rightarrow> jsval \<Rightarrow> jsval \<Rightarrow> jsval \<Rightarrow> subtree_error + bool" where
  "anyActive [] b n c = Inr False"
| "anyActive (name # names) b n c =
     try_bind (isSubtreeActive name b n c) (\<lambda>a. if a then Inr True else anyActive names b n c)"

definition stateRootVersion :: "jsval \<Rightarrow> jsval \<Rightarrow> jsval \<Rightarrow> subtree_error + nat" where
  "stateRootVersion b n c =
     try_bind (anyActive RESERVED_SUBTREES b n c)
       (\<lambda>a. Inr (if a then 2 else if isEscrowLockedLeafActive b n c then 2 else 1))"

section \<open>Gates are monotone, and the version says what is committed\<close>

lemma atOrAfter_mono:
  assumes "atOrAfter m b n c" "strictHeight b = Some h" "strictHeight b' = Some h'" "h \<le> h'"
  shows "atOrAfter m b' n c"
  using assms by (auto simp: atOrAfter_def split: option.splits)

lemma atOrAfter_zero:
  assumes "atOrAfter m (JInt 0) n c" "strictHeight b = Some h"
  shows "atOrAfter m b n c"
  using atOrAfter_mono [OF assms(1) _ assms(2), of 0] assms(2)
  by (auto simp: strictHeight_def split: jsval.splits if_splits)

lemma gateLoop_Inr:
  "gateLoop cs b n c = Inr out \<Longrightarrow>
   out = [(name, v). (name, Some v) \<leftarrow> cs, isSubtreeActive name b n c = Inr True]"
  by (induction cs b n c arbitrary: out rule: gateLoop.induct)
     (auto simp: try_bind_Inr split: if_splits)

lemma gateLoop_total:
  "\<forall>(name, v)\<in>set cs. v \<noteq> None \<longrightarrow> name \<in> set RESERVED_SUBTREES \<Longrightarrow> \<exists>out. gateLoop cs b n c = Inr out"
proof (induction cs b n c rule: gateLoop.induct)
  case (3 name v cs b n c)
  then have "isSubtreeActive name b n c = Inr (atOrAfter (STATE_SUBTREE_ACTIVATION name) b n c)"
    by (simp add: isSubtreeActive_def)
  moreover obtain out where "gateLoop cs b n c = Inr out" using 3 calculation by fastforce
  ultimately show ?case by simp
qed auto

lemma anyActive_reserved:
  "set names \<subseteq> set RESERVED_SUBTREES \<Longrightarrow>
   anyActive names b n c = Inr (\<exists>x\<in>set names. atOrAfter (STATE_SUBTREE_ACTIVATION x) b n c)"
  by (induction names) (auto simp: isSubtreeActive_def)

lemma stateRootVersion_eq:
  "stateRootVersion b n c =
   Inr (if (\<exists>x\<in>set RESERVED_SUBTREES. isSubtreeActive x b n c = Inr True) \<or>
           isEscrowLockedLeafActive b n c then 2 else 1)"
  by (auto simp: stateRootVersion_def anyActive_reserved isSubtreeActive_def)

section \<open>Properties\<close>

text \<open>
  \<open>sameWireIndex\<close> identifies wire indices exactly: it holds just when both sides parse to the same
  non-negative integer, so two different decimal indices of any size never match, and a value that
  does not parse matches nothing, not even itself.
\<close>

theorem wire_index_identity:
  "(sameWireIndex a b \<longleftrightarrow> (\<exists>i\<ge>0. toWireIndex a = Some i \<and> toWireIndex b = Some i)) \<and>
   (sameWireIndex (JStr (nat_str m)) (JStr (nat_str n)) \<longleftrightarrow> m = n)"
  using toWireIndex_nonneg by (auto simp: sameWireIndex_iff toWireIndex_decimal)

text \<open>
  The gate in front of the state root is exact: on candidates with known names, \<open>gateSubRoots\<close> hands
  on precisely the present ones whose slot is active at that height, in their order, and answers
  \<open>null\<close> when there is none; the derived version is 2 exactly when some slot or the locked leaf is
  active, so version and committed leaves cannot disagree.
\<close>

theorem gate_sub_roots_exact:
  assumes "\<forall>(name, v)\<in>set cs. name \<in> set RESERVED_SUBTREES"
  shows "gateSubRoots (Some cs) b n c =
      (let out = [(name, v). (name, Some v) \<leftarrow> cs, isSubtreeActive name b n c = Inr True]
       in Inr (if out = [] then None else Some out)) \<and>
    (gateSubRoots (Some cs) b n c = Inr None \<or> stateRootVersion b n c = Inr 2)"
proof -
  have "\<forall>(name, v)\<in>set cs. v \<noteq> None \<longrightarrow> name \<in> set RESERVED_SUBTREES" using assms by auto
  then obtain out where out: "gateLoop cs b n c = Inr out" using gateLoop_total by blast
  then have o: "out = [(name, v). (name, Some v) \<leftarrow> cs, isSubtreeActive name b n c = Inr True]"
    by (rule gateLoop_Inr)
  have "out = [] \<or> (\<exists>x\<in>set RESERVED_SUBTREES. isSubtreeActive x b n c = Inr True)"
  proof (cases out)
    case (Cons e es)
    then have "e \<in> set out" by simp
    then show ?thesis using assms unfolding o by (auto split: option.splits if_splits)
  qed simp
  then show ?thesis
    using out o by (auto simp: gateSubRoots_def stateRootVersion_eq Let_def)
qed

theorem gate_sub_roots_exact_witness:
  "gateSubRoots (Some [(''tokens_root'', Some (1::nat)), (''contract_state_root'', Some 2)])
     (JInt 0) (JStr ''testnet'') (JStr ''BTC'') = Inr (Some [(''contract_state_root'', 2)])"
proof -
  have "isSubtreeActive ''tokens_root'' (JInt 0) (JStr ''testnet'') (JStr ''BTC'') = Inr False"
    "isSubtreeActive ''contract_state_root'' (JInt 0) (JStr ''testnet'') (JStr ''BTC'') = Inr True"
    by code_simp+
  then show ?thesis
    using gate_sub_roots_exact [of "[(''tokens_root'', Some (1::nat)), (''contract_state_root'', Some 2)]"
        "JInt 0" "JStr ''testnet''" "JStr ''BTC''"]
    by (simp add: RESERVED_SUBTREES_def)
qed

end
