(* ===== verification/LightClient.thy ===== *)
theory LightClient
  imports CommittedTree Wire
begin

text \<open>
  The pure verifiers of the light client, \<open>src/protocol/light_client/proof_checks.js\<close>, with
  \<open>lowerHex\<close> and \<open>expectedMismatch\<close> of \<open>fetch_helpers.js\<close>.

  A served proof is untrusted JSON. The fields a verifier compares as text, and the claimed leaf, are
  dynamically typed values (\<open>jsval\<close>). Siblings, bitmaps and the claimed sub-root are strings: any
  other type a served sibling may have is also only read as some buffer, and \<open>Buffer.from\<close> of a
  string reaches every buffer. The claimed leaf is different: it is read once as text and once as a
  buffer, and the two readings of an array do not agree (\<open>wire_buf\<close>).
\<close>

section \<open>Helpers\<close>

definition lowerHex :: "jsval \<Rightarrow> string" where
  "lowerHex x = ascii_lower (js_text x)"

text \<open>The first field the caller asked for that the proof does not answer; a \<open>null\<close> request throws.\<close>

fun expectedMismatchLoop :: "(string \<times> jsval) list \<Rightarrow> (string \<Rightarrow> jsval) \<Rightarrow> merkle_error + string option" where
  "expectedMismatchLoop [] actual = Inr None"
| "expectedMismatchLoop ((field, want) # rest) actual =
     (if want = JUndef then expectedMismatchLoop rest actual
      else if want = JNull then Inl TypeError
      else if js_string want \<noteq> js_string (actual field) then Inr (Some field)
      else expectedMismatchLoop rest actual)"

definition expectedMismatch ::
    "(string \<times> jsval) list option \<Rightarrow> (string \<Rightarrow> jsval) \<Rightarrow> merkle_error + string option" where
  "expectedMismatch expected actual =
     (case expected of None \<Rightarrow> Inr None | Some asked \<Rightarrow> expectedMismatchLoop asked actual)"

text \<open>
  \<open>Buffer.from(x, 'hex')\<close> of a dynamically typed value. An array gives one byte per element, from
  its number; a text that is not a decimal number counts as \<open>NaN\<close>, which is byte 0.
\<close>

definition byte_of_js :: "jsval \<Rightarrow> byte" where
  "byte_of_js v =
     (case v of
        JInt i \<Rightarrow> word_of_int i
      | JBool b \<Rightarrow> (if b then 1 else 0)
      | JStr s \<Rightarrow> (let t = js_trim s in if all_digits t then word_of_nat (nat_of_digits t) else 0)
      | _ \<Rightarrow> 0)"

definition wire_buf :: "jsval \<Rightarrow> merkle_error + bytes" where
  "wire_buf v =
     (case v of
        JStr s \<Rightarrow> Inr (hex_decode s)
      | JArr xs \<Rightarrow> Inr (map byte_of_js xs)
      | _ \<Rightarrow> Inl TypeError)"

section \<open>Proofs and verdicts\<close>

record smt_wire =
  sw_key :: jsval
  sw_leaf :: jsval
  sw_compressed :: compressed_proof

record path_wire =
  pw_index :: jsval
  pw_siblings :: "string list"

record balance_proof =
  bp_address :: jsval
  bp_tick :: jsval
  bp_amount :: jsval
  bp_height :: jsval
  bp_balances_root :: string
  bp_smt :: "smt_wire option"
  bp_path :: "path_wire option"

record verdict =
  verified :: bool
  amount :: "string option"
  reason :: "string option"

definition unverified :: "string \<Rightarrow> verdict" where
  "unverified r = \<lparr>verified = False, amount = None, reason = Some r\<rparr>"

definition accepted :: "string \<Rightarrow> verdict" where
  "accepted a = \<lparr>verified = True, amount = Some a, reason = None\<rparr>"

definition balance_field :: "balance_proof \<Rightarrow> string \<Rightarrow> jsval" where
  "balance_field p f =
     (if f = ''address'' then bp_address p
      else if f = ''tick'' then bp_tick p
      else if f = ''amount'' then bp_amount p
      else if f = ''height'' then bp_height p
      else if f = ''balances_root'' then JStr (bp_balances_root p)
      else JUndef)"

text \<open>
  The call of \<open>verifyCompressedSmtProof\<close> with the claimed leaf as it came: decompression comes first,
  then the leaf is read as a buffer.
\<close>

definition verifyClaimedLeaf ::
    "(bytes \<Rightarrow> bytes) \<Rightarrow> string \<Rightarrow> bytes \<Rightarrow> jsval \<Rightarrow> compressed_proof \<Rightarrow> merkle_error + bool" where
  "verifyClaimedLeaf H root keyBuf lf c =
     (if is_nullish lf then verifyCompressedSmtProof H (Hex root) (Buf keyBuf) None c
      else
        try_bind (decompressSmtProof H c) (\<lambda>_.
        try_bind (wire_buf lf) (\<lambda>b.
          verifyCompressedSmtProof H (Hex root) (Buf keyBuf) (Some (Buf b)) c)))"

text \<open>
  The shared tail of the balance verifiers, from the key check on; the two functions of the source
  repeat it with their own key.
\<close>

definition checkBalanceLeaf ::
    "(bytes \<Rightarrow> bytes) \<Rightarrow> balance_proof \<Rightarrow> smt_wire \<Rightarrow> path_wire \<Rightarrow> string \<Rightarrow> bytes \<Rightarrow> merkle_error + verdict" where
  "checkBalanceLeaf H p smt path trustedStateRoot keyBuf =
     (if lowerHex (sw_key smt) \<noteq> hex_encode keyBuf then Inr (unverified ''KEY_MISMATCH'')
      else
        try_bind (canonicalAmount (bp_amount p)) (\<lambda>amt.
        try_bind (canonicalAmount (JStr ''0'')) (\<lambda>zero.
        try_bind (amountLeaf H (JStr amt)) (\<lambda>amtLeaf.
          if is_nullish (sw_leaf smt) \<and> amt \<noteq> zero
          then Inr (unverified ''NONINCLUSION_NONZERO_AMOUNT'')
          else if \<not> is_nullish (sw_leaf smt) \<and> hex_encode amtLeaf \<noteq> lowerHex (sw_leaf smt)
          then Inr (unverified ''LEAF_AMOUNT_MISMATCH'')
          else
            try_bind (verifyClaimedLeaf H (bp_balances_root p) keyBuf (sw_leaf smt) (sw_compressed smt)) (\<lambda>ok.
              if \<not> ok then Inr (unverified ''SMT_PROOF_INVALID'')
              else if pw_index path \<noteq> JInt (index_of ''balances_root'' STATE_SUBTREES)
              then Inr (unverified ''SUBROOT_SLOT_MISMATCH'')
              else if \<not> verifyFixedMerkleProof H (Hex trustedStateRoot) (Hex (bp_balances_root p))
                          (index_of ''balances_root'' STATE_SUBTREES) (map Hex (pw_siblings path))
              then Inr (unverified ''SUBROOT_BIND_INVALID'')
              else Inr (accepted amt))))))"

definition verifyBalanceProof ::
    "(bytes \<Rightarrow> bytes) \<Rightarrow> balance_proof option \<Rightarrow> string \<Rightarrow> jsval \<Rightarrow> jsval \<Rightarrow>
     (string \<times> jsval) list option \<Rightarrow> verdict" where
  "verifyBalanceProof H proof trustedStateRoot chain network expected =
     (case proof of
        None \<Rightarrow> unverified ''MALFORMED_PROOF''
      | Some p \<Rightarrow>
          (case (bp_smt p, bp_path p) of
             (Some smt, Some path) \<Rightarrow>
               catch_with
                 (try_bind (expectedMismatch expected (balance_field p)) (\<lambda>mis.
                    if mis \<noteq> None then Inr (unverified ''REQUESTED_IDENTITY_MISMATCH'')
                    else try_bind (balanceKey H chain network (bp_address p) (bp_tick p))
                           (checkBalanceLeaf H p smt path trustedStateRoot)))
                 (\<lambda>e. unverified ''VERIFY_ERROR'')
           | _ \<Rightarrow> unverified ''MALFORMED_PROOF''))"

definition gateHeight :: "int \<Rightarrow> jsval" where
  "gateHeight w = (if w \<le> MAX_SAFE_INTEGER then JInt w else JFloat ''NaN'')"

definition verifyLockedBalanceProof ::
    "(bytes \<Rightarrow> bytes) \<Rightarrow> balance_proof option \<Rightarrow> string \<Rightarrow> jsval \<Rightarrow> jsval \<Rightarrow>
     (string \<times> jsval) list option \<Rightarrow> jsval \<Rightarrow> verdict" where
  "verifyLockedBalanceProof H proof trustedStateRoot chain network expected trustedHeight =
     (case proof of
        None \<Rightarrow> unverified ''MALFORMED_PROOF''
      | Some p \<Rightarrow>
          (case (bp_smt p, bp_path p) of
             (Some smt, Some path) \<Rightarrow>
               catch_with
                 (try_bind (expectedMismatch expected (balance_field p)) (\<lambda>mis.
                    if mis \<noteq> None then Inr (unverified ''REQUESTED_IDENTITY_MISMATCH'')
                    else
                      (case toWireIndex (bp_height p) of
                         None \<Rightarrow> Inr (unverified ''ESCROW_LEAF_NOT_COMMITTED'')
                       | Some label \<Rightarrow>
                           (let haveTrustedHeight =
                                  (\<not> is_nullish trustedHeight \<and> trustedHeight \<noteq> JStr []) in
                            if haveTrustedHeight \<and> \<not> sameWireIndex (JBig label) trustedHeight
                            then Inr (unverified ''PROOF_HEIGHT_MISMATCH'')
                            else if \<not> isEscrowLockedLeafActive
                                        (gateHeight (if haveTrustedHeight then label else 0)) network chain
                            then Inr (unverified ''ESCROW_LEAF_NOT_COMMITTED'')
                            else try_bind (escrowKey H chain network (bp_address p) (bp_tick p))
                                   (checkBalanceLeaf H p smt path trustedStateRoot)))))
                 (\<lambda>e. unverified ''VERIFY_ERROR'')
           | _ \<Rightarrow> unverified ''MALFORMED_PROOF''))"

section \<open>Contract state\<close>

record state_proof =
  sp_contract_index :: jsval
  sp_state_key :: jsval
  sp_state_value :: jsval
  sp_state_root :: string
  sp_smt :: "smt_wire option"
  sp_path :: "path_wire option"

text \<open>The verdict carries the stored text in \<open>amount\<close>'s place; \<open>None\<close> of a verified one is absence.\<close>

definition state_field :: "state_proof \<Rightarrow> string \<Rightarrow> jsval" where
  "state_field p f =
     (if f = ''contract_index'' then sp_contract_index p
      else if f = ''state_key'' then sp_state_key p
      else if f = ''state_value'' then sp_state_value p
      else if f = ''contract_state_root'' then JStr (sp_state_root p)
      else JUndef)"

definition checkStateLeaf ::
    "(bytes \<Rightarrow> bytes) \<Rightarrow> state_proof \<Rightarrow> smt_wire \<Rightarrow> path_wire \<Rightarrow> string \<Rightarrow> bytes \<Rightarrow> merkle_error + verdict" where
  "checkStateLeaf H p smt path trustedStateRoot keyBuf =
     (if lowerHex (sw_key smt) \<noteq> hex_encode keyBuf then Inr (unverified ''KEY_MISMATCH'')
      else
        (let val = (if is_nullish (sp_state_value p) then None else Some (js_string (sp_state_value p))) in
         if is_nullish (sw_leaf smt) \<and> val \<noteq> None
         then Inr (unverified ''NONINCLUSION_WITH_VALUE'')
         else if \<not> is_nullish (sw_leaf smt) \<and> val = None
         then Inr (unverified ''INCLUSION_WITHOUT_VALUE'')
         else if \<not> is_nullish (sw_leaf smt) \<and>
                 hex_encode (leafHash H (utf8 (the val))) \<noteq> lowerHex (sw_leaf smt)
         then Inr (unverified ''LEAF_VALUE_MISMATCH'')
         else
           try_bind (verifyClaimedLeaf H (sp_state_root p) keyBuf (sw_leaf smt) (sw_compressed smt)) (\<lambda>ok.
             if \<not> ok then Inr (unverified ''SMT_PROOF_INVALID'')
             else if pw_index path \<noteq> JInt (index_of ''contract_state_root'' STATE_SUBTREES)
             then Inr (unverified ''SUBROOT_SLOT_MISMATCH'')
             else if \<not> verifyFixedMerkleProof H (Hex trustedStateRoot) (Hex (sp_state_root p))
                         (index_of ''contract_state_root'' STATE_SUBTREES) (map Hex (pw_siblings path))
             then Inr (unverified ''SUBROOT_BIND_INVALID'')
             else Inr \<lparr>verified = True, amount = val, reason = None\<rparr>)))"

definition verifyContractStateProof ::
    "(bytes \<Rightarrow> bytes) \<Rightarrow> state_proof option \<Rightarrow> string \<Rightarrow> jsval \<Rightarrow> jsval \<Rightarrow>
     (string \<times> jsval) list option \<Rightarrow> verdict" where
  "verifyContractStateProof H proof trustedStateRoot chain network expected =
     (case proof of
        None \<Rightarrow> unverified ''MALFORMED_PROOF''
      | Some p \<Rightarrow>
          (case (sp_smt p, sp_path p) of
             (Some smt, Some path) \<Rightarrow>
               catch_with
                 (try_bind (expectedMismatch expected (state_field p)) (\<lambda>mis.
                    if mis \<noteq> None then Inr (unverified ''REQUESTED_IDENTITY_MISMATCH'')
                    else try_bind (contractStateKey H chain network (sp_contract_index p) (sp_state_key p))
                           (checkStateLeaf H p smt path trustedStateRoot)))
                 (\<lambda>e. unverified ''VERIFY_ERROR'')
           | _ \<Rightarrow> unverified ''MALFORMED_PROOF''))"

lemma not_verified [simp]: "\<not> verified (unverified r)"
  by (simp add: unverified_def)

lemma verified_catch:
  "verified (catch_with m (\<lambda>e. unverified msg)) \<longleftrightarrow> (\<exists>v. m = Inr v \<and> verified v)"
  by (cases m) auto

section \<open>Accepted proofs bind to the committed state\<close>

text \<open>The preimage a claimed leaf stands for: the amount's leaf, or the empty leaf.\<close>

definition claimed_pre :: "jsval \<Rightarrow> string \<Rightarrow> bytes" where
  "claimed_pre lf text = (if is_nullish lf then empty_pre else 0 # utf8 text)"

lemma leaf_pre_claimed: "leaf_pre (claimed_pre lf t)"
  by (simp add: claimed_pre_def leaf_pre_def empty_pre_def)

definition sibling_bufs :: "(bytes \<Rightarrow> bytes) \<Rightarrow> compressed_proof \<Rightarrow> bytes list" where
  "sibling_bufs H c =
     (case decompressSmtProof H c of Inl e \<Rightarrow> [] | Inr out \<Rightarrow> map (hex_decode \<circ> the) out)"

text \<open>A leaf that came as text and equals the hex of a digest is that digest.\<close>

lemma ascii_lower_hex_decode: "hex_decode (ascii_lower s) = hex_decode s"
proof -
  have lv: "hex_val (lower_char c) = hex_val c" for c
  proof (cases "65 \<le> (of_char c :: nat) \<and> (of_char c :: nat) \<le> 90")
    case True
    then have "of_char (lower_char c) = (of_char c + 32 :: nat)"
      by (simp add: lower_char_def Let_def)
    then show ?thesis using True by (simp add: hex_val_def Let_def)
  next
    case False
    then have "lower_char c = c" by (auto simp: lower_char_def Let_def)
    then show ?thesis by simp
  qed
  show ?thesis
    unfolding ascii_lower_def by (induction s rule: induct_list012) (simp_all add: lv split: option.split)
qed

lemma claimed_leaf_buf:
  assumes "lf = JStr s" "lowerHex lf = hex_encode b"
  shows "wire_buf lf = Inr b"
  using assms ascii_lower_hex_decode [of s]
  by (simp add: wire_buf_def lowerHex_def js_text_def is_nullish_def)

text \<open>The two Merkle steps of an accepted proof, as one climb from the claimed leaf to the state root.\<close>

lemma accepted_climb:
  assumes c: "verifyCompressedSmtProof H (Hex root) (Buf k) v c = Inr True"
    and v: "(case v of None \<Rightarrow> EMPTY H 0 | Some b \<Rightarrow> toBuf b) = H p"
    and f: "verifyFixedMerkleProof H (Hex trusted) (Hex root) (int i) (map Hex ups)"
    and i: "i < 2 ^ 31"
    and t: "trusted = hex_encode r"
  shows "length (sibling_bufs H c) = 256 \<and>
    climb H nodePre (state_path i k (sibling_bufs H c) (map hex_decode ups)) (H p) = r"
proof -
  obtain out where out: "decompressSmtProof H c = Inr out"
    and ver: "verifySmtProof H (Hex root) (Buf k) v (map (Hex \<circ> the) out)"
    using c by (auto simp: verifyCompressedSmtProof_def split: sum.splits if_splits)
  have sb: "sibling_bufs H c = map (hex_decode \<circ> the) out" by (simp add: sibling_bufs_def out)
  have len: "length out = SMT_DEPTH" using decompress_complete [OF out] by simp
  have top: "hex_encode (climb H nodePre (smt_path k 0 (sibling_bufs H c)) (H p)) = root"
    using ver len v by (simp add: verifySmtProof_def verifyLoop_climb sb comp_def Let_def)
  have "verifyFixedLoop H (hex_decode root) (word_of_int (int i)) (map hex_decode ups) = r"
    using f t by (simp add: verifyFixedMerkleProof_def comp_def)
  then have "climb H nodePre (zip (fixed_dirs i (length ups)) (map hex_decode ups)) (hex_decode root) = r"
    using verifyFixedLoop_climb [OF i, of H "hex_decode root" "map hex_decode ups"] by simp
  then show ?thesis
    using len sb top by (auto simp: state_path_def climb_append SMT_DEPTH_def)
qed

text \<open>What every verifier below gets from an accepted leaf.\<close>

lemma accepted_leaf_sound:
  assumes H: "\<forall>x. length (H x) = 32" and ok: "state_ok st" and i: "i < 5"
    and root: "trusted = hex_encode r" "stateRoot H (sub_roots H st) = Some r"
    and k: "length k = 32"
    and lf: "is_nullish lf \<or> (\<exists>s. lf = JStr s) \<and> lowerHex lf = hex_encode (leafHash H (utf8 text))"
    and c: "verifyClaimedLeaf H sub k lf c = Inr True"
    and f: "verifyFixedMerkleProof H (Hex trusted) (Hex sub) (int i) (map Hex ups)"
  shows "claimed_pre lf text = table_pre (state_tables st ! i) k \<or>
    breaks H (state_pres H i k (claimed_pre lf text) (sibling_bufs H c) (map hex_decode ups))
      (mpres H (state_tree st))"
proof -
  have r: "r = mhash H (state_tree st)" using root(2) stateRoot_tree [of H st] by simp
  have i': "i < 2 ^ 31" using i by simp
  have "\<exists>v. verifyCompressedSmtProof H (Hex sub) (Buf k) v c = Inr True \<and>
      (case v of None \<Rightarrow> EMPTY H 0 | Some b \<Rightarrow> toBuf b) = H (claimed_pre lf text)"
  proof (cases "is_nullish lf")
    case True
    then show ?thesis using c
      by (intro exI [of _ None]) (simp add: verifyClaimedLeaf_def claimed_pre_def empty_pre_def)
  next
    case False
    then obtain s where "lf = JStr s" "lowerHex lf = hex_encode (leafHash H (utf8 text))"
      using lf by auto
    then have "wire_buf lf = Inr (leafHash H (utf8 text))" by (rule claimed_leaf_buf)
    then show ?thesis using c False
      by (intro exI [of _ "Some (Buf (leafHash H (utf8 text)))"])
         (auto simp: verifyClaimedLeaf_def claimed_pre_def leafHash_def try_bind_Inr)
  qed
  then obtain v where v: "verifyCompressedSmtProof H (Hex sub) (Buf k) v c = Inr True"
    "(case v of None \<Rightarrow> EMPTY H 0 | Some b \<Rightarrow> toBuf b) = H (claimed_pre lf text)" by blast
  have cl: "length (sibling_bufs H c) = 256 \<and>
      climb H nodePre (state_path i k (sibling_bufs H c) (map hex_decode ups)) (H (claimed_pre lf text)) = r"
    using accepted_climb [OF v f i' root(1)] .
  then show ?thesis
    using state_path_sound [OF H ok i k leaf_pre_claimed, of "sibling_bufs H c"] r by blast
qed

definition zero_amount :: string where
  "zero_amount = ''0.000000000000000000''"

lemma canonical_zero: "canonicalAmount (JStr ''0'') = Inr zero_amount"
  unfolding zero_amount_def by code_simp

lemma canonical_canonical:
  "canonicalAmount v = Inr amt \<Longrightarrow> canonicalAmount (JStr amt) = Inr amt"
  using canonicalAmount_Inr [of v amt] canonicalAmount_units_text by auto

text \<open>The shape of an accepted balance verdict, and of an accepted state verdict.\<close>

lemma checkBalanceLeaf_accepts:
  assumes "checkBalanceLeaf H p smt path trusted k = Inr v" "verified v"
  obtains amt where "v = accepted amt" "canonicalAmount (bp_amount p) = Inr amt"
    "is_nullish (sw_leaf smt) \<and> amt = zero_amount \<or>
     \<not> is_nullish (sw_leaf smt) \<and> lowerHex (sw_leaf smt) = hex_encode (leafHash H (utf8 amt))"
    "verifyClaimedLeaf H (bp_balances_root p) k (sw_leaf smt) (sw_compressed smt) = Inr True"
    "verifyFixedMerkleProof H (Hex trusted) (Hex (bp_balances_root p)) 0 (map Hex (pw_siblings path))"
  using assms canonical_canonical
  by (auto simp: checkBalanceLeaf_def unverified_def try_bind_Inr canonical_zero amountLeaf_def
      STATE_SUBTREES_def split: if_splits sum.splits)

lemma checkStateLeaf_accepts:
  assumes "checkStateLeaf H p smt path trusted k = Inr v" "verified v"
  shows "is_nullish (sw_leaf smt) \<and> amount v = None \<or>
     (\<not> is_nullish (sw_leaf smt) \<and> (\<exists>t. amount v = Some t \<and>
        lowerHex (sw_leaf smt) = hex_encode (leafHash H (utf8 t))))"
    "verifyClaimedLeaf H (sp_state_root p) k (sw_leaf smt) (sw_compressed smt) = Inr True"
    "verifyFixedMerkleProof H (Hex trusted) (Hex (sp_state_root p)) 4 (map Hex (pw_siblings path))"
  using assms
  by (auto simp: checkStateLeaf_def unverified_def try_bind_Inr Let_def STATE_SUBTREES_def split: if_splits)

lemma verifyBalanceProof_accepts:
  assumes "verified (verifyBalanceProof H (Some p) trusted chain network expected)"
  shows "\<exists>smt path k v. bp_smt p = Some smt \<and> bp_path p = Some path \<and>
    expectedMismatch expected (balance_field p) = Inr None \<and>
    balanceKey H chain network (bp_address p) (bp_tick p) = Inr k \<and>
    checkBalanceLeaf H p smt path trusted k = Inr v \<and> verified v \<and>
    verifyBalanceProof H (Some p) trusted chain network expected = v"
  using assms
  by (auto simp: verifyBalanceProof_def verified_catch try_bind_Inr split: option.splits if_splits)

lemma verifyLockedBalanceProof_accepts:
  assumes "verified (verifyLockedBalanceProof H (Some p) trusted chain network expected height)"
  shows "\<exists>smt path k v. bp_smt p = Some smt \<and> bp_path p = Some path \<and>
    expectedMismatch expected (balance_field p) = Inr None \<and>
    escrowKey H chain network (bp_address p) (bp_tick p) = Inr k \<and>
    checkBalanceLeaf H p smt path trusted k = Inr v \<and> verified v \<and>
    verifyLockedBalanceProof H (Some p) trusted chain network expected height = v"
  using assms
  by (auto simp: verifyLockedBalanceProof_def verified_catch try_bind_Inr Let_def
      split: option.splits if_splits)

lemma verifyContractStateProof_accepts:
  assumes "verified (verifyContractStateProof H (Some p) trusted chain network expected)"
  shows "\<exists>smt path k v. sp_smt p = Some smt \<and> sp_path p = Some path \<and>
    expectedMismatch expected (state_field p) = Inr None \<and>
    contractStateKey H chain network (sp_contract_index p) (sp_state_key p) = Inr k \<and>
    checkStateLeaf H p smt path trusted k = Inr v \<and> verified v \<and>
    verifyContractStateProof H (Some p) trusted chain network expected = v"
  using assms
  by (auto simp: verifyContractStateProof_def verified_catch try_bind_Inr
      split: option.splits if_splits)

lemma smtKey_length: "\<forall>x. length (H x) = 32 \<Longrightarrow> smtKey H t fs = Inr k \<Longrightarrow> length k = 32"
  by (auto simp: smtKey_def split: sum.splits)

text \<open>
  The amount a balances table commits to at a key: what is stored there, and zero where nothing is.
\<close>

definition committed_amount :: "table \<Rightarrow> bytes \<Rightarrow> bytes" where
  "committed_amount tb k = (case map_of tb k of None \<Rightarrow> utf8 zero_amount | Some c \<Rightarrow> c)"

lemma claimed_amount:
  assumes "claimed_pre lf amt = table_pre tb k" "is_nullish lf \<Longrightarrow> amt = zero_amount"
  shows "utf8 amt = committed_amount tb k"
  using assms
  by (auto simp: claimed_pre_def table_pre_def committed_amount_def empty_pre_def split: if_splits option.splits)

text \<open>Everything an accepted balance proof made the verifier hash.\<close>

definition balance_pres :: "(bytes \<Rightarrow> bytes) \<Rightarrow> balance_proof \<Rightarrow> bytes \<Rightarrow> string \<Rightarrow> bytes set" where
  "balance_pres H p k amt =
     (case (bp_smt p, bp_path p) of
        (Some smt, Some path) \<Rightarrow>
          state_pres H 0 k (claimed_pre (sw_leaf smt) amt) (sibling_bufs H (sw_compressed smt))
            (map hex_decode (pw_siblings path))
      | _ \<Rightarrow> {})"

definition leaf_is_text :: "smt_wire option \<Rightarrow> bool" where
  "leaf_is_text w \<longleftrightarrow> (case w of None \<Rightarrow> True | Some smt \<Rightarrow> is_nullish (sw_leaf smt) \<or> (\<exists>s. sw_leaf smt = JStr s))"

lemma checkBalanceLeaf_sound:
  assumes H: "\<forall>x. length (H x) = 32" and ok: "state_ok st"
    and root: "trusted = hex_encode r" "stateRoot H (sub_roots H st) = Some r"
    and p: "bp_smt p = Some smt" "bp_path p = Some path" "leaf_is_text (bp_smt p)"
    and k: "length k = 32"
    and acc: "checkBalanceLeaf H p smt path trusted k = Inr v" "verified v"
  shows "\<exists>amt. v = accepted amt \<and> canonicalAmount (bp_amount p) = Inr amt \<and>
    (utf8 amt = committed_amount (balances st) k \<or>
     breaks H (balance_pres H p k amt) (mpres H (state_tree st)))"
proof -
  obtain amt where amt: "v = accepted amt" "canonicalAmount (bp_amount p) = Inr amt"
    and lf: "is_nullish (sw_leaf smt) \<and> amt = zero_amount \<or>
     \<not> is_nullish (sw_leaf smt) \<and> lowerHex (sw_leaf smt) = hex_encode (leafHash H (utf8 amt))"
    and c: "verifyClaimedLeaf H (bp_balances_root p) k (sw_leaf smt) (sw_compressed smt) = Inr True"
    and f: "verifyFixedMerkleProof H (Hex trusted) (Hex (bp_balances_root p)) (int 0) (map Hex (pw_siblings path))"
    by (rule checkBalanceLeaf_accepts [OF acc]) simp
  have "is_nullish (sw_leaf smt) \<or> (\<exists>s. sw_leaf smt = JStr s) \<and>
      lowerHex (sw_leaf smt) = hex_encode (leafHash H (utf8 amt))"
    using lf p(1,3) by (auto simp: leaf_is_text_def)
  then have "claimed_pre (sw_leaf smt) amt = table_pre (state_tables st ! 0) k \<or>
    breaks H (balance_pres H p k amt) (mpres H (state_tree st))"
    using accepted_leaf_sound [OF H ok _ root k _ c f, of amt] p(1,2) by (simp add: balance_pres_def)
  then show ?thesis
    using amt lf claimed_amount [of "sw_leaf smt" amt "balances st" k] by (simp add: state_tables_def) blast
qed

section \<open>Honest proofs are accepted\<close>

lemma ascii_lower_hex_encode [simp]: "ascii_lower (hex_encode b) = hex_encode b"
proof -
  have "list_all (\<lambda>n. lower_char (hex_digit n) = hex_digit n) [0..<16]" by code_simp
  then have d: "lower_char (hex_digit n) = hex_digit n" if "n < 16" for n
    using that by (simp add: list_all_iff)
  show ?thesis
  proof (induction b)
    case (Cons x b)
    have "unat x div 16 < 16" using unat_byte_lt [of x] by auto
    then show ?case using Cons by (simp add: ascii_lower_def d)
  qed (simp add: ascii_lower_def)
qed

lemma lowerHex_hex [simp]: "lowerHex (JStr (hex_encode b)) = hex_encode b"
  by (simp add: lowerHex_def js_text_def is_nullish_def)

lemma verifyClaimedLeaf_text:
  "verifyClaimedLeaf H root k (JStr s) c = verifyCompressedSmtProof H (Hex root) (Buf k) (Some (Hex s)) c"
  by (cases "decompressSmtProof H c")
     (simp_all add: verifyClaimedLeaf_def is_nullish_def wire_buf_def verifyCompressedSmtProof_def
       verifySmtProof_def)

lemma verifyClaimedLeaf_null:
  "verifyClaimedLeaf H root k JNull c = verifyCompressedSmtProof H (Hex root) (Buf k) None c"
  by (simp add: verifyClaimedLeaf_def is_nullish_def)

text \<open>The response an honest server builds for an address and tick, from the committed tables.\<close>

definition served_balance ::
    "(bytes \<Rightarrow> bytes) \<Rightarrow> committed_state \<Rightarrow> string \<Rightarrow> string \<Rightarrow> string \<Rightarrow> jsval \<Rightarrow> smt_proof \<Rightarrow>
     int \<times> string list \<Rightarrow> balance_proof" where
  "served_balance H st address tick amt height sp path =
     \<lparr>bp_address = JStr address, bp_tick = JStr tick, bp_amount = JStr amt, bp_height = height,
      bp_balances_root = smt_rootHex H (table_smt H (balances st)),
      bp_smt = Some \<lparr>sw_key = JStr (pkey sp),
                     sw_leaf = (case leaf_value sp of None \<Rightarrow> JNull | Some s \<Rightarrow> JStr s),
                     sw_compressed = compressed sp\<rparr>,
      bp_path = Some \<lparr>pw_index = JInt (fst path), pw_siblings = snd path\<rparr>\<rparr>"

lemma length_state_tables: "length (state_tables st) = 5"
  by (simp add: state_tables_def)

lemma state_root_path:
  assumes "i < 5" "stateRoot H (sub_roots H st) = Some r"
    and "stateRootProof H (sub_roots H st) (STATE_SUBTREES ! i) = Some (Inr path)"
  shows "fst path = int i \<and>
    verifyFixedMerkleProof H (Hex (hex_encode r)) (Hex (smt_rootHex H (table_smt H (state_tables st ! i))))
      (int i) (map Hex (snd path))"
proof -
  let ?lv = "subRootLeaves H (sub_roots H st)"
  have len: "length ?lv = 5" by (simp add: subRootLeaves_state state_tables_def)
  have idx: "index_of (STATE_SUBTREES ! i) STATE_SUBTREES = int i"
  proof -
    from assms(1) have "i \<in> {0, 1, 2, 3, 4}" by auto
    then show ?thesis by (auto simp: STATE_SUBTREES_def Let_def)
  qed
  have lv: "?lv ! i = Buf (smt_root H (table_smt H (state_tables st ! i)))"
    using assms(1) by (simp add: subRootLeaves_state length_state_tables)
  have "length ?lv \<le> 2 ^ 30" "i < length ?lv" using len assms(1) by simp_all
  then obtain root sibs where "fixedMerkleRoot H ?lv = Some root"
    "fixedMerkleProof H ?lv (int i) = Some (Inr (int i, sibs))"
    "verifyFixedMerkleProof H (Buf root) (?lv ! i) (int i) (map Hex sibs)"
    by (rule fixed_proof_verifies)
  then show ?thesis
    using assms idx lv
    by (auto simp: stateRoot_def stateRootProof_def verifyFixedMerkleProof_def smt_rootHex_def)
qed

lemma served_leaf_checks:
  assumes H: "\<forall>x. length (H x) = 32" and ok: "state_ok st" and k: "length k = 32" and i: "i < 5"
    and stored: "map_of (state_tables st ! i) k = map_option utf8 am"
    and sp: "smt_prove H (table_smt H (state_tables st ! i)) (Buf k) = Inr sp"
  shows "pkey sp = hex_encode k \<and>
    leaf_value sp = map_option (\<lambda>a. hex_encode (leafHash H (utf8 a))) am \<and>
    verifyClaimedLeaf H (smt_rootHex H (table_smt H (state_tables st ! i))) k
      (case leaf_value sp of None \<Rightarrow> JNull | Some s \<Rightarrow> JStr s) (compressed sp) = Inr True"
proof -
  have wf: "smt_wf (table_smt H (state_tables st ! i))"
    using ok i by (intro table_smt_wf) (simp add: state_ok_def list_all_length state_tables_def)
  have lk: "leaf_value sp = map_of (table_smt H (state_tables st ! i)) (hex_encode k)"
    "pkey sp = hex_encode k"
    using sp by (auto simp: smt_prove_def Let_def split: sum.splits)
  have lv: "leaf_value sp = map_option (\<lambda>a. hex_encode (leafHash H (utf8 a))) am"
    using lk(1) stored by (cases am) (simp_all add: table_smt_lookup)
  show ?thesis
    using prove_compressed_verifies [OF wf k sp] lk(2) lv
    by (cases am) (simp_all add: verifyClaimedLeaf_text verifyClaimedLeaf_null)
qed

lemma served_check:
  assumes H: "\<forall>x. length (H x) = 32" and ok: "state_ok st" and k: "length k = 32"
    and stored: "map_of (balances st) k = map_option utf8 am"
    and canon: "canonicalAmount (JStr (case am of None \<Rightarrow> zero_amount | Some a \<Rightarrow> a)) = Inr amt"
      "amt = (case am of None \<Rightarrow> zero_amount | Some a \<Rightarrow> a)"
    and sp: "smt_prove H (table_smt H (balances st)) (Buf k) = Inr sp"
    and path: "stateRootProof H (sub_roots H st) ''balances_root'' = Some (Inr path)"
    and root: "stateRoot H (sub_roots H st) = Some r"
  shows "checkBalanceLeaf H (served_balance H st address tick amt h sp path)
      (the (bp_smt (served_balance H st address tick amt h sp path)))
      (the (bp_path (served_balance H st address tick amt h sp path))) (hex_encode r) k = Inr (accepted amt)"
proof -
  let ?lf = "case leaf_value sp of None \<Rightarrow> JNull | Some s \<Rightarrow> JStr s"
  have t0: "state_tables st ! 0 = balances st" by (simp add: state_tables_def)
  have srv: "pkey sp = hex_encode k" "leaf_value sp = map_option (\<lambda>a. hex_encode (leafHash H (utf8 a))) am"
    "verifyClaimedLeaf H (smt_rootHex H (table_smt H (balances st))) k ?lf (compressed sp) = Inr True"
    using served_leaf_checks [OF H ok k, of 0 am sp, unfolded t0, OF zero_less_numeral stored sp] by blast+
  have rt: "fst path = 0" "verifyFixedMerkleProof H (Hex (hex_encode r))
      (Hex (smt_rootHex H (table_smt H (balances st)))) 0 (map Hex (snd path))"
    using state_root_path [of 0 H st r path] root path unfolding t0 by (simp_all add: STATE_SUBTREES_def)
  have ca: "canonicalAmount (JStr amt) = Inr amt" using canon by simp
  show ?thesis
    using srv rt ca canon(2)
    by (cases am) (simp_all add: checkBalanceLeaf_def served_balance_def canonical_zero amountLeaf_def
        is_nullish_def STATE_SUBTREES_def)
qed

lemma served_balance_accepted:
  assumes H: "\<forall>x. length (H x) = 32" and ok: "state_ok st"
    and key: "balanceKey H chain network (JStr address) (JStr tick) = Inr k"
    and stored: "map_of (balances st) k = map_option utf8 am"
    and canon: "canonicalAmount (JStr (case am of None \<Rightarrow> zero_amount | Some a \<Rightarrow> a)) = Inr amt"
      "amt = (case am of None \<Rightarrow> zero_amount | Some a \<Rightarrow> a)"
    and sp: "smt_prove H (table_smt H (balances st)) (Buf k) = Inr sp"
    and path: "stateRootProof H (sub_roots H st) ''balances_root'' = Some (Inr path)"
    and root: "stateRoot H (sub_roots H st) = Some r"
  shows "verifyBalanceProof H (Some (served_balance H st address tick amt h sp path)) (hex_encode r)
      chain network (Some [(''address'', JStr address), (''tick'', JStr tick)]) = accepted amt"
proof -
  have k: "length k = 32" using smtKey_length [OF H] key by (auto simp: balanceKey_def)
  show ?thesis
    using key served_check [OF H ok k stored canon sp path root, of address tick h]
    by (simp add: verifyBalanceProof_def served_balance_def expectedMismatch_def balance_field_def)
qed

text \<open>The same response for a locked balance is accepted at an armed height of the checkpoint.\<close>

lemma served_locked_accepted:
  assumes H: "\<forall>x. length (H x) = 32" and ok: "state_ok st"
    and key: "escrowKey H chain network (JStr address) (JStr tick) = Inr k"
    and stored: "map_of (balances st) k = map_option utf8 am"
    and canon: "canonicalAmount (JStr (case am of None \<Rightarrow> zero_amount | Some a \<Rightarrow> a)) = Inr amt"
      "amt = (case am of None \<Rightarrow> zero_amount | Some a \<Rightarrow> a)"
    and sp: "smt_prove H (table_smt H (balances st)) (Buf k) = Inr sp"
    and path: "stateRootProof H (sub_roots H st) ''balances_root'' = Some (Inr path)"
    and root: "stateRoot H (sub_roots H st) = Some r"
    and height: "0 \<le> h" "h \<le> MAX_SAFE_INTEGER" "isEscrowLockedLeafActive (JInt h) network chain"
  shows "verifyLockedBalanceProof H (Some (served_balance H st address tick amt (JInt h) sp path)) (hex_encode r)
      chain network (Some [(''address'', JStr address), (''tick'', JStr tick)]) (JInt h) = accepted amt"
proof -
  have k: "length k = 32" using smtKey_length [OF H] key by (auto simp: escrowKey_def)
  have w: "toWireIndex (JInt h) = Some h" "sameWireIndex (JBig h) (JInt h)"
    using height by (simp_all add: sameWireIndex_iff toWireIndex_def)
  show ?thesis
    using key w height served_check [OF H ok k stored canon sp path root, of address tick "JInt h"]
    by (simp add: verifyLockedBalanceProof_def served_balance_def expectedMismatch_def balance_field_def
        is_nullish_def gateHeight_def)
qed

text \<open>The response of an honest server for a contract state key.\<close>

definition served_state ::
    "(bytes \<Rightarrow> bytes) \<Rightarrow> committed_state \<Rightarrow> jsval \<Rightarrow> jsval \<Rightarrow> string option \<Rightarrow> smt_proof \<Rightarrow>
     int \<times> string list \<Rightarrow> state_proof" where
  "served_state H st idx skey val sp path =
     \<lparr>sp_contract_index = idx, sp_state_key = skey,
      sp_state_value = (case val of None \<Rightarrow> JNull | Some v \<Rightarrow> JStr v),
      sp_state_root = smt_rootHex H (table_smt H (contract_state st)),
      sp_smt = Some \<lparr>sw_key = JStr (pkey sp),
                     sw_leaf = (case leaf_value sp of None \<Rightarrow> JNull | Some s \<Rightarrow> JStr s),
                     sw_compressed = compressed sp\<rparr>,
      sp_path = Some \<lparr>pw_index = JInt (fst path), pw_siblings = snd path\<rparr>\<rparr>"

lemma served_state_accepted:
  assumes H: "\<forall>x. length (H x) = 32" and ok: "state_ok st"
    and key: "contractStateKey H chain network idx skey = Inr k"
    and stored: "map_of (contract_state st) k = map_option utf8 val"
    and sp: "smt_prove H (table_smt H (contract_state st)) (Buf k) = Inr sp"
    and path: "stateRootProof H (sub_roots H st) ''contract_state_root'' = Some (Inr path)"
    and root: "stateRoot H (sub_roots H st) = Some r"
  shows "verifyContractStateProof H (Some (served_state H st idx skey val sp path)) (hex_encode r)
      chain network None = \<lparr>verified = True, amount = val, reason = None\<rparr>"
proof -
  let ?p = "served_state H st idx skey val sp path"
  let ?lf = "case leaf_value sp of None \<Rightarrow> JNull | Some s \<Rightarrow> JStr s"
  have k: "length k = 32" using smtKey_length [OF H] key by (auto simp: contractStateKey_def)
  have t4: "state_tables st ! 4 = contract_state st" by (simp add: state_tables_def)
  have four: "(4 :: nat) < 5" by simp
  have srv: "pkey sp = hex_encode k" "leaf_value sp = map_option (\<lambda>a. hex_encode (leafHash H (utf8 a))) val"
    "verifyClaimedLeaf H (smt_rootHex H (table_smt H (contract_state st))) k ?lf (compressed sp) = Inr True"
    using served_leaf_checks [OF H ok k four, of val sp, unfolded t4, OF stored sp] by blast+
  have rt: "fst path = 4" "verifyFixedMerkleProof H (Hex (hex_encode r))
      (Hex (smt_rootHex H (table_smt H (contract_state st)))) 4 (map Hex (snd path))"
    using state_root_path [of 4 H st r path] root path unfolding t4 by (simp_all add: STATE_SUBTREES_def)
  have "checkStateLeaf H ?p (the (sp_smt ?p)) (the (sp_path ?p)) (hex_encode r) k =
      Inr \<lparr>verified = True, amount = val, reason = None\<rparr>"
    using srv rt
    by (cases val) (simp_all add: checkStateLeaf_def served_state_def is_nullish_def STATE_SUBTREES_def Let_def)
  then show ?thesis
    using key by (simp add: verifyContractStateProof_def served_state_def expectedMismatch_def)
qed

section \<open>A leaf sent as an array\<close>

text \<open>
  An array of one text compares equal to that text, but as a buffer it is the single byte 0. When the
  digest stored at a left child starts with that byte, or the one stored at a right child ends with it,
  the rest of it can be moved into the sibling.
\<close>

lemma array_leaf_readings:
  assumes "\<not> all_digits (js_trim s)"
  shows "lowerHex (JArr [JStr s]) = ascii_lower s" "wire_buf (JArr [JStr s]) = Inr [0]"
  using assms by (simp_all add: lowerHex_def js_text_def is_nullish_def wire_buf_def byte_of_js_def Let_def)

lemma verifyLoop_cong:
  "take n sibs = take n sibs' \<Longrightarrow> n \<le> length sibs \<Longrightarrow> n \<le> length sibs' \<Longrightarrow>
   verifyLoop H k sibs n node = verifyLoop H k sibs' n node"
  by (simp add: verifyLoop_climb)

definition splits_zero :: "byte \<Rightarrow> bytes \<Rightarrow> bytes \<Rightarrow> bool" where
  "splits_zero side digest xs \<longleftrightarrow> digest = (if side = 0 then 0 # xs else xs @ [0])"

lemma array_leaf_forgery_step:
  assumes t: "smt_wf t" and k: "length k = 32" and z: "splits_zero (bitAt k 255) digest xs"
    and stored: "map_of t (hex_encode k) = Some (hex_encode digest)"
    and s: "\<not> all_digits (js_trim s)"
  shows "\<exists>c. verifyClaimedLeaf H (smt_rootHex H t) k (JArr [JStr s]) c = Inr True"
proof -
  let ?join = "\<lambda>sib. if bitAt k 255 = 0 then xs @ sib else sib @ xs"
  obtain p where p: "smt_prove H t (Buf k) = Inr p" "siblings p = proveLoop H k (smt_entries t) 0"
    "leaf_value p = map_of t (hex_encode k)"
    using smt_prove_Inr [of H t "Buf k"] by auto
  have len: "length (siblings p) = 256" using p prove_siblings_length by (simp add: SMT_DEPTH_def)
  define forged where "forged = (siblings p)[255 := hex_encode (?join (hex_decode (siblings p ! 255)))]"
  have f: "length forged = SMT_DEPTH" "take 255 forged = take 255 (siblings p)"
    "forged ! 255 = hex_encode (?join (hex_decode (siblings p ! 255)))"
    using len by (simp_all add: forged_def SMT_DEPTH_def)
  have hexs: "\<forall>s\<in>set forged. hex_encode (hex_decode s) = s"
  proof
    fix u assume "u \<in> set forged"
    then have "u \<in> set (siblings p) \<or> u = hex_encode (?join (hex_decode (siblings p ! 255)))"
      unfolding forged_def by (meson insert_iff set_update_subset_insert subsetD)
    then show "hex_encode (hex_decode u) = u" using prove_siblings_hex p(2) by auto
  qed
  have step: "verifyLoop H k sibs 256 node = verifyLoop H k sibs 255
      (if bitAt k 255 = 0 then nodeHash H node (sibs ! 255) else nodeHash H (sibs ! 255) node)" for sibs node
  proof -
    have "(256 :: nat) = Suc 255" by simp
    then show ?thesis by (simp only: verifyLoop.simps)
  qed
  have "verifySmtProof H (Hex (smt_rootHex H t)) (Buf k) (Some (Hex (hex_encode digest))) (map Hex (siblings p))"
    using prove_verifies [OF t k p(1)] p(3) stored by simp
  then have honest: "hex_encode (verifyLoop H k (map hex_decode (siblings p)) 256 digest) = smt_rootHex H t"
    using len by (simp del: hex_encode.simps add: verifySmtProof_def SMT_DEPTH_def comp_def)
  have "(if bitAt k 255 = 0 then nodeHash H [0] (map hex_decode forged ! 255)
        else nodeHash H (map hex_decode forged ! 255) [0])
      = (if bitAt k 255 = 0 then nodeHash H digest (map hex_decode (siblings p) ! 255)
        else nodeHash H (map hex_decode (siblings p) ! 255) digest)" (is "_ = ?node")
    using f(1,3) len z by (simp add: nodeHash_def nodePre_def SMT_DEPTH_def splits_zero_def)
  then have "verifyLoop H k (map hex_decode forged) 256 [0] = verifyLoop H k (map hex_decode forged) 255 ?node"
    unfolding step by simp
  also have "\<dots> = verifyLoop H k (map hex_decode (siblings p)) 256 digest"
    unfolding step using f len by (intro verifyLoop_cong) (simp_all add: take_map SMT_DEPTH_def)
  finally have loop: "hex_encode (verifyLoop H k (map hex_decode forged) 256 [0]) = smt_rootHex H t"
    using honest by simp
  obtain c where c: "compressSmtProof H forged = Inr c"
    using f(1) by (auto simp: compressSmtProof_def case_prod_beta)
  have d: "decompressSmtProof H c = Inr (map Some forged)"
    using compress_roundtrip [OF f(1) hexs c] .
  have "verifyCompressedSmtProof H (Hex (smt_rootHex H t)) (Buf k) (Some (Buf [0])) c = Inr True"
    using d loop f(1) by (auto simp: verifyCompressedSmtProof_def verifySmtProof_def comp_def SMT_DEPTH_def)
  then show ?thesis
    using d array_leaf_readings [OF s] by (intro exI [of _ c]) (simp add: verifyClaimedLeaf_def is_nullish_def)
qed

section \<open>A concrete state for witnesses\<close>

lemma state_path_exists:
  assumes "i < 5"
  shows "\<exists>path. stateRootProof H (sub_roots H st) (STATE_SUBTREES ! i) = Some (Inr path)"
proof -
  let ?lv = "subRootLeaves H (sub_roots H st)"
  have len: "length ?lv \<le> 2 ^ 30" "i < length ?lv"
    using assms by (simp_all add: subRootLeaves_state state_tables_def)
  from assms have "i \<in> {0, 1, 2, 3, 4}" by auto
  then have idx: "index_of (STATE_SUBTREES ! i) STATE_SUBTREES = int i"
    by (auto simp: STATE_SUBTREES_def Let_def)
  from len obtain root sibs where "fixedMerkleProof H ?lv (int i) = Some (Inr (int i, sibs))"
    by (rule fixed_proof_verifies)
  then show ?thesis using idx by (simp add: stateRootProof_def)
qed

lemma served_balance_exists:
  assumes "\<forall>x. length (H x) = 32" "state_ok st"
    and "balanceKey H chain network (JStr address) (JStr tick) = Inr k"
    and "map_of (balances st) k = map_option utf8 am"
    and "canonicalAmount (JStr (case am of None \<Rightarrow> zero_amount | Some a \<Rightarrow> a)) =
         Inr (case am of None \<Rightarrow> zero_amount | Some a \<Rightarrow> a)"
  shows "\<exists>r sp path. stateRoot H (sub_roots H st) = Some r \<and>
    smt_prove H (table_smt H (balances st)) (Buf k) = Inr sp \<and>
    stateRootProof H (sub_roots H st) ''balances_root'' = Some (Inr path) \<and>
    verifyBalanceProof H
      (Some (served_balance H st address tick (case am of None \<Rightarrow> zero_amount | Some a \<Rightarrow> a) h sp path))
      (hex_encode r) chain network (Some [(''address'', JStr address), (''tick'', JStr tick)]) =
      accepted (case am of None \<Rightarrow> zero_amount | Some a \<Rightarrow> a)"
proof -
  obtain sp where sp: "smt_prove H (table_smt H (balances st)) (Buf k) = Inr sp"
    using smt_prove_Inr by blast
  obtain path where path: "stateRootProof H (sub_roots H st) ''balances_root'' = Some (Inr path)"
    using state_path_exists [of 0 H st] by (auto simp: STATE_SUBTREES_def)
  show ?thesis
    using served_balance_accepted [OF assms(1-5) refl sp path stateRoot_tree] sp path stateRoot_tree by blast
qed

definition pad_digest :: "bytes \<Rightarrow> bytes" where
  "pad_digest x = take 32 (x @ replicate 32 0)"

lemma length_pad_digest: "\<forall>x. length (pad_digest x) = 32"
  by (auto simp: pad_digest_def min_def)

definition demo_key :: bytes where
  "demo_key = pad_digest (utf8 ''XCHAIN_BAL'' @ [0] @ utf8 ''BTC'' @ [0] @ utf8 ''mainnet'' @ [0] @
     utf8 ''bc1q'' @ [0] @ utf8 ''XCP'')"

definition demo_state :: committed_state where
  "demo_state = \<lparr>balances = [(demo_key, utf8 ''1.500000000000000000'')], stakes = [], ownership = [],
     tokens = [], contract_state = []\<rparr>"

lemma demo_balanceKey:
  "balanceKey pad_digest (JStr ''BTC'') (JStr ''mainnet'') (JStr ''bc1q'') (JStr ''XCP'') = Inr demo_key"
  unfolding demo_key_def by code_simp

lemma demo_state_ok: "state_ok demo_state"
  by (simp add: state_ok_def state_tables_def demo_state_def table_ok_def demo_key_def length_pad_digest)

lemma demo_canonical:
  "canonicalAmount (JStr ''1.500000000000000000'') = Inr ''1.500000000000000000''"
  by code_simp

lemma demo_served:
  "\<exists>r sp path. stateRoot pad_digest (sub_roots pad_digest demo_state) = Some r \<and>
    smt_prove pad_digest (table_smt pad_digest (balances demo_state)) (Buf demo_key) = Inr sp \<and>
    stateRootProof pad_digest (sub_roots pad_digest demo_state) ''balances_root'' = Some (Inr path) \<and>
    verifyBalanceProof pad_digest
      (Some (served_balance pad_digest demo_state ''bc1q'' ''XCP'' ''1.500000000000000000'' (JInt 900000) sp path))
      (hex_encode r) (JStr ''BTC'') (JStr ''mainnet'')
      (Some [(''address'', JStr ''bc1q''), (''tick'', JStr ''XCP'')]) = accepted ''1.500000000000000000''"
  using served_balance_exists [OF length_pad_digest demo_state_ok demo_balanceKey,
      of "Some ''1.500000000000000000''" "JInt 900000"] demo_canonical
  by (simp add: demo_state_def)

section \<open>Properties\<close>

lemma balance_proof_committed:
  assumes "\<forall>x. length (H x) = 32" "state_ok st" "stateRoot H (sub_roots H st) = Some r"
    and "leaf_is_text (bp_smt p)"
    and "verified (verifyBalanceProof H (Some p) (hex_encode r) chain network expected)"
  shows "\<exists>amt k. verifyBalanceProof H (Some p) (hex_encode r) chain network expected = accepted amt \<and>
    balanceKey H chain network (bp_address p) (bp_tick p) = Inr k \<and>
    (utf8 amt = committed_amount (balances st) k \<or> breaks H (balance_pres H p k amt) (mpres H (state_tree st)))"
proof -
  obtain smt path k v where a: "bp_smt p = Some smt" "bp_path p = Some path"
    "balanceKey H chain network (bp_address p) (bp_tick p) = Inr k"
    "checkBalanceLeaf H p smt path (hex_encode r) k = Inr v" "verified v"
    "verifyBalanceProof H (Some p) (hex_encode r) chain network expected = v"
    using verifyBalanceProof_accepts [OF assms(5)] by blast
  have k: "length k = 32" using smtKey_length [OF assms(1)] a(3) by (auto simp: balanceKey_def)
  show ?thesis
    using checkBalanceLeaf_sound [OF assms(1,2) refl assms(3) a(1,2) assms(4) k a(4,5)] a(3,6) by auto
qed

text \<open>
  Soundness of the balance verifier. If a served balance proof is accepted against the root of a
  committed state, then the amount it reports is the amount that state holds for the key derived from
  the trusted chain and network and the reported address and tick (zero where nothing is held), or
  the verifier hashed a preimage that collides with a different preimage of the committed tree. The
  claimed leaf is taken to be a text or absent; the number of sub-root siblings, which the code does
  not check, is not assumed.
\<close>

theorem balance_proof_sound:
  assumes "\<forall>x. length (H x) = 32" "state_ok st" "stateRoot H (sub_roots H st) = Some r"
    and "leaf_is_text (bp_smt p)"
    and "verified (verifyBalanceProof H (Some p) (hex_encode r) chain network expected)"
  shows "\<exists>amt k. verifyBalanceProof H (Some p) (hex_encode r) chain network expected = accepted amt \<and>
    balanceKey H chain network (bp_address p) (bp_tick p) = Inr k \<and>
    (utf8 amt = committed_amount (balances st) k \<or> breaks H (balance_pres H p k amt) (mpres H (state_tree st)))"
  using assms by (rule balance_proof_committed)

theorem balance_proof_sound_witness:
  "\<exists>p r amt. verifyBalanceProof pad_digest (Some p) (hex_encode r) (JStr ''BTC'') (JStr ''mainnet'')
       (Some [(''address'', JStr ''bc1q''), (''tick'', JStr ''XCP'')]) = accepted amt \<and>
     (utf8 amt = committed_amount (balances demo_state) demo_key \<or>
      breaks pad_digest (balance_pres pad_digest p demo_key amt) (mpres pad_digest (state_tree demo_state)))"
proof -
  obtain r sp path where s: "stateRoot pad_digest (sub_roots pad_digest demo_state) = Some r"
    "smt_prove pad_digest (table_smt pad_digest (balances demo_state)) (Buf demo_key) = Inr sp"
    "verifyBalanceProof pad_digest
      (Some (served_balance pad_digest demo_state ''bc1q'' ''XCP'' ''1.500000000000000000'' (JInt 900000) sp path))
      (hex_encode r) (JStr ''BTC'') (JStr ''mainnet'')
      (Some [(''address'', JStr ''bc1q''), (''tick'', JStr ''XCP'')]) = accepted ''1.500000000000000000''"
    using demo_served by blast
  let ?p = "served_balance pad_digest demo_state ''bc1q'' ''XCP'' ''1.500000000000000000'' (JInt 900000) sp path"
  have p: "bp_address ?p = JStr ''bc1q''" "bp_tick ?p = JStr ''XCP''" "leaf_is_text (bp_smt ?p)"
    by (auto simp: served_balance_def leaf_is_text_def is_nullish_def split: option.splits)
  show ?thesis
    using balance_proof_sound [OF length_pad_digest demo_state_ok s(1) p(3), of "JStr ''BTC''" "JStr ''mainnet''"
        "Some [(''address'', JStr ''bc1q''), (''tick'', JStr ''XCP'')]"] s(3) p(1,2) demo_balanceKey
    by (fastforce simp: accepted_def)
qed

text \<open>
  Completeness of the balance verifier. The proof an honest server builds from the committed
  tables, for a stored balance as well as for an absent one, is accepted against the state root with
  exactly that amount, also when the caller binds it to the address and tick it asked for.
\<close>

theorem balance_proof_complete:
  assumes "\<forall>x. length (H x) = 32" "state_ok st"
    and "balanceKey H chain network (JStr address) (JStr tick) = Inr k"
    and "map_of (balances st) k = map_option utf8 am"
    and "canonicalAmount (JStr (case am of None \<Rightarrow> zero_amount | Some a \<Rightarrow> a)) =
         Inr (case am of None \<Rightarrow> zero_amount | Some a \<Rightarrow> a)"
  shows "\<exists>r sp path. stateRoot H (sub_roots H st) = Some r \<and>
    smt_prove H (table_smt H (balances st)) (Buf k) = Inr sp \<and>
    stateRootProof H (sub_roots H st) ''balances_root'' = Some (Inr path) \<and>
    verifyBalanceProof H
      (Some (served_balance H st address tick (case am of None \<Rightarrow> zero_amount | Some a \<Rightarrow> a) h sp path))
      (hex_encode r) chain network (Some [(''address'', JStr address), (''tick'', JStr tick)]) =
      accepted (case am of None \<Rightarrow> zero_amount | Some a \<Rightarrow> a)"
  using assms by (rule served_balance_exists)

theorem balance_proof_complete_witness:
  "\<exists>r sp path. verifyBalanceProof pad_digest
      (Some (served_balance pad_digest demo_state ''bc1q'' ''XCP'' ''1.500000000000000000'' (JInt 900000) sp path))
      (hex_encode r) (JStr ''BTC'') (JStr ''mainnet'')
      (Some [(''address'', JStr ''bc1q''), (''tick'', JStr ''XCP'')]) = accepted ''1.500000000000000000''"
  using balance_proof_complete [OF length_pad_digest demo_state_ok demo_balanceKey,
      of "Some ''1.500000000000000000''" "JInt 900000"] demo_canonical
  by (auto simp: demo_state_def)

lemma locked_proof_committed:
  assumes "\<forall>x. length (H x) = 32" "state_ok st" "stateRoot H (sub_roots H st) = Some r"
    and "leaf_is_text (bp_smt p)"
    and "verified (verifyLockedBalanceProof H (Some p) (hex_encode r) chain network expected height)"
  shows "\<exists>amt k. verifyLockedBalanceProof H (Some p) (hex_encode r) chain network expected height = accepted amt \<and>
    escrowKey H chain network (bp_address p) (bp_tick p) = Inr k \<and>
    (utf8 amt = committed_amount (balances st) k \<or> breaks H (balance_pres H p k amt) (mpres H (state_tree st)))"
proof -
  obtain smt path k v where a: "bp_smt p = Some smt" "bp_path p = Some path"
    "escrowKey H chain network (bp_address p) (bp_tick p) = Inr k"
    "checkBalanceLeaf H p smt path (hex_encode r) k = Inr v" "verified v"
    "verifyLockedBalanceProof H (Some p) (hex_encode r) chain network expected height = v"
    using verifyLockedBalanceProof_accepts [OF assms(5)] by blast
  have k: "length k = 32" using smtKey_length [OF assms(1)] a(3) by (auto simp: escrowKey_def)
  show ?thesis
    using checkBalanceLeaf_sound [OF assms(1,2) refl assms(3) a(1,2) assms(4) k a(4,5)] a(3,6) by auto
qed

text \<open>
  Soundness of the locked-balance verifier: an accepted amount is the one the committed balances
  table holds under the escrow key of the reported address and tick, or a collision is exhibited.
\<close>

theorem locked_proof_sound:
  assumes "\<forall>x. length (H x) = 32" "state_ok st" "stateRoot H (sub_roots H st) = Some r"
    and "leaf_is_text (bp_smt p)"
    and "verified (verifyLockedBalanceProof H (Some p) (hex_encode r) chain network expected height)"
  shows "\<exists>amt k. verifyLockedBalanceProof H (Some p) (hex_encode r) chain network expected height = accepted amt \<and>
    escrowKey H chain network (bp_address p) (bp_tick p) = Inr k \<and>
    (utf8 amt = committed_amount (balances st) k \<or> breaks H (balance_pres H p k amt) (mpres H (state_tree st)))"
  using assms by (rule locked_proof_committed)

definition demo_locked_key :: bytes where
  "demo_locked_key = pad_digest (utf8 ''XCHAIN_ESC'' @ [0] @ utf8 ''BTC'' @ [0] @ utf8 ''testnet'' @ [0] @
     utf8 ''bc1q'' @ [0] @ utf8 ''XCP'')"

lemma demo_locked:
  "\<exists>r sp path. stateRoot pad_digest (sub_roots pad_digest demo_state) = Some r \<and>
    verifyLockedBalanceProof pad_digest
      (Some (served_balance pad_digest demo_state ''bc1q'' ''XCP'' zero_amount (JInt 5) sp path))
      (hex_encode r) (JStr ''BTC'') (JStr ''testnet'')
      (Some [(''address'', JStr ''bc1q''), (''tick'', JStr ''XCP'')]) (JInt 5) = accepted zero_amount"
proof -
  have key: "escrowKey pad_digest (JStr ''BTC'') (JStr ''testnet'') (JStr ''bc1q'') (JStr ''XCP'') = Inr demo_locked_key"
    unfolding demo_locked_key_def by code_simp
  have "demo_locked_key \<noteq> demo_key" by code_simp
  then have st: "map_of (balances demo_state) demo_locked_key = map_option utf8 None"
    by (simp add: demo_state_def)
  have c: "canonicalAmount (JStr (case None of None \<Rightarrow> zero_amount | Some a \<Rightarrow> a)) = Inr zero_amount" by code_simp
  have z: "zero_amount = (case None of None \<Rightarrow> zero_amount | Some a \<Rightarrow> a)" by simp
  have h: "(0 :: int) \<le> 5" "5 \<le> MAX_SAFE_INTEGER" by (simp_all add: MAX_SAFE_INTEGER_def)
  have act: "isEscrowLockedLeafActive (JInt 5) (JStr ''testnet'') (JStr ''BTC'')" by code_simp
  obtain sp where sp: "smt_prove pad_digest (table_smt pad_digest (balances demo_state)) (Buf demo_locked_key) = Inr sp"
    using smt_prove_Inr by blast
  obtain path where path: "stateRootProof pad_digest (sub_roots pad_digest demo_state) ''balances_root'' = Some (Inr path)"
    using state_path_exists [of 0 pad_digest demo_state] by (auto simp: STATE_SUBTREES_def)
  show ?thesis
    using served_locked_accepted [OF length_pad_digest demo_state_ok key st c z sp path stateRoot_tree h act]
      stateRoot_tree by blast
qed

theorem locked_proof_sound_witness:
  "\<exists>p r amt k. verifyLockedBalanceProof pad_digest (Some p) (hex_encode r) (JStr ''BTC'') (JStr ''testnet'')
       (Some [(''address'', JStr ''bc1q''), (''tick'', JStr ''XCP'')]) (JInt 5) = accepted amt \<and>
     (utf8 amt = committed_amount (balances demo_state) k \<or>
      breaks pad_digest (balance_pres pad_digest p k amt) (mpres pad_digest (state_tree demo_state)))"
proof -
  obtain r sp path where s: "stateRoot pad_digest (sub_roots pad_digest demo_state) = Some r"
    "verifyLockedBalanceProof pad_digest
      (Some (served_balance pad_digest demo_state ''bc1q'' ''XCP'' zero_amount (JInt 5) sp path))
      (hex_encode r) (JStr ''BTC'') (JStr ''testnet'')
      (Some [(''address'', JStr ''bc1q''), (''tick'', JStr ''XCP'')]) (JInt 5) = accepted zero_amount"
    using demo_locked by blast
  have p: "leaf_is_text (bp_smt (served_balance pad_digest demo_state ''bc1q'' ''XCP'' zero_amount (JInt 5) sp path))"
    by (auto simp: served_balance_def leaf_is_text_def is_nullish_def split: option.splits)
  show ?thesis
    using locked_proof_sound [OF length_pad_digest demo_state_ok s(1) p, of "JStr ''BTC''" "JStr ''testnet''"
        "Some [(''address'', JStr ''bc1q''), (''tick'', JStr ''XCP'')]" "JInt 5"] s(2)
    by (auto simp: accepted_def)
qed

lemma locked_leaf_armed:
  assumes "verified (verifyLockedBalanceProof H (Some p) trusted chain network expected height)"
  shows "if is_nullish height \<or> height = JStr []
    then \<forall>b h. strictHeight b = Some h \<longrightarrow> isEscrowLockedLeafActive b network chain
    else \<exists>h. toWireIndex height = Some h \<and> toWireIndex (bp_height p) = Some h \<and>
           isEscrowLockedLeafActive (JInt h) network chain"
proof (cases "is_nullish height \<or> height = JStr []")
  case True
  then have "isEscrowLockedLeafActive (JInt 0) network chain"
    using assms by (auto simp: verifyLockedBalanceProof_def verified_catch try_bind_Inr Let_def gateHeight_def
        MAX_SAFE_INTEGER_def split: option.splits if_splits)
  then show ?thesis using True atOrAfter_zero by (auto simp: isEscrowLockedLeafActive_def)
next
  case False
  obtain h where h: "toWireIndex (bp_height p) = Some h" "sameWireIndex (JBig h) height"
    "isEscrowLockedLeafActive (gateHeight h) network chain"
    using assms False by (auto simp: verifyLockedBalanceProof_def verified_catch try_bind_Inr Let_def
        split: option.splits if_splits)
  have "gateHeight h = JInt h"
    using h(3) by (auto simp: gateHeight_def isEscrowLockedLeafActive_def atOrAfter_def strictHeight_def
        split: if_splits)
  then show ?thesis using h False by (auto simp: sameWireIndex_iff toWireIndex_def split: if_splits)
qed

text \<open>
  The server's height label never arms the locked leaf. An accepted locked-balance proof was gated
  as active at the trusted height, which its label equals; with no trusted height it was gated at
  height 0, so the leaf is active on that chain at every height.
\<close>

theorem locked_proof_armed:
  assumes "verified (verifyLockedBalanceProof H (Some p) trusted chain network expected height)"
  shows "if is_nullish height \<or> height = JStr []
    then \<forall>b h. strictHeight b = Some h \<longrightarrow> isEscrowLockedLeafActive b network chain
    else \<exists>h. toWireIndex height = Some h \<and> toWireIndex (bp_height p) = Some h \<and>
           isEscrowLockedLeafActive (JInt h) network chain"
  using assms by (rule locked_leaf_armed)

theorem locked_proof_armed_witness:
  "\<exists>h. toWireIndex (JInt 5) = Some h \<and> isEscrowLockedLeafActive (JInt h) (JStr ''testnet'') (JStr ''BTC'')"
proof -
  obtain p r where "verified (verifyLockedBalanceProof pad_digest (Some p) (hex_encode r) (JStr ''BTC'')
      (JStr ''testnet'') (Some [(''address'', JStr ''bc1q''), (''tick'', JStr ''XCP'')]) (JInt 5))"
    using demo_locked by (metis accepted_def verdict.select_convs(1))
  from locked_proof_armed [OF this] show ?thesis by (auto simp: is_nullish_def)
qed

text \<open>
  Soundness of the contract-state verifier: an accepted text is exactly the one committed under
  the key of the trusted chain and network, the contract index and the state key; an accepted absence
  means that nothing is committed there; otherwise a collision is exhibited.
\<close>

theorem contract_state_proof_sound:
  assumes "\<forall>x. length (H x) = 32" "state_ok st" "stateRoot H (sub_roots H st) = Some r"
    and "sp_smt p = Some smt" "sp_path p = Some path" "leaf_is_text (Some smt)"
    and "verified (verifyContractStateProof H (Some p) (hex_encode r) chain network expected)"
  shows "\<exists>v k. verifyContractStateProof H (Some p) (hex_encode r) chain network expected = v \<and>
    contractStateKey H chain network (sp_contract_index p) (sp_state_key p) = Inr k \<and>
    (map_of (contract_state st) k = map_option utf8 (amount v) \<or>
     breaks H (state_pres H 4 k (claimed_pre (sw_leaf smt) (the (amount v))) (sibling_bufs H (sw_compressed smt))
         (map hex_decode (pw_siblings path))) (mpres H (state_tree st)))"
proof -
  obtain k v where a: "contractStateKey H chain network (sp_contract_index p) (sp_state_key p) = Inr k"
    "checkStateLeaf H p smt path (hex_encode r) k = Inr v" "verified v"
    "verifyContractStateProof H (Some p) (hex_encode r) chain network expected = v"
    using verifyContractStateProof_accepts [OF assms(7)] assms(4,5) by auto
  have k: "length k = 32" using smtKey_length [OF assms(1)] a(1) by (auto simp: contractStateKey_def)
  note acc = checkStateLeaf_accepts [OF a(2,3)]
  have lf: "is_nullish (sw_leaf smt) \<or> (\<exists>s. sw_leaf smt = JStr s) \<and>
      lowerHex (sw_leaf smt) = hex_encode (leafHash H (utf8 (the (amount v))))"
    using acc(1) assms(6) by (auto simp: leaf_is_text_def)
  have four: "(4 :: nat) < 5" "int 4 = 4" by simp_all
  have "claimed_pre (sw_leaf smt) (the (amount v)) = table_pre (contract_state st) k \<or>
    breaks H (state_pres H 4 k (claimed_pre (sw_leaf smt) (the (amount v))) (sibling_bufs H (sw_compressed smt))
         (map hex_decode (pw_siblings path))) (mpres H (state_tree st))"
    using accepted_leaf_sound [OF assms(1,2) four(1) refl assms(3) k lf acc(2), unfolded four(2), OF acc(3)]
    by (simp add: state_tables_def)
  then show ?thesis
    using acc(1) a(1,4)
    by (auto simp: claimed_pre_def table_pre_def empty_pre_def split: option.splits if_splits)
qed

theorem contract_state_proof_sound_witness:
  "\<exists>p r k. verified (verifyContractStateProof pad_digest (Some p) (hex_encode r) (JStr ''BTC'') (JStr ''testnet'') None) \<and>
     contractStateKey pad_digest (JStr ''BTC'') (JStr ''testnet'') (JInt 7) (JStr ''owner'') = Inr k"
proof -
  obtain k where key: "contractStateKey pad_digest (JStr ''BTC'') (JStr ''testnet'') (JInt 7) (JStr ''owner'') = Inr k"
  proof -
    have "case contractStateKey pad_digest (JStr ''BTC'') (JStr ''testnet'') (JInt 7) (JStr ''owner'') of
        Inl e \<Rightarrow> False | Inr k \<Rightarrow> True" by code_simp
    then show ?thesis using that by (auto split: sum.splits)
  qed
  have st: "map_of (contract_state demo_state) k = map_option utf8 None" by (simp add: demo_state_def)
  obtain sp where sp: "smt_prove pad_digest (table_smt pad_digest (contract_state demo_state)) (Buf k) = Inr sp"
    using smt_prove_Inr by blast
  obtain path where path: "stateRootProof pad_digest (sub_roots pad_digest demo_state) ''contract_state_root'' = Some (Inr path)"
    using state_path_exists [of 4 pad_digest demo_state] by (auto simp: STATE_SUBTREES_def)
  let ?p = "served_state pad_digest demo_state (JInt 7) (JStr ''owner'') None sp path"
  have acc: "verified (verifyContractStateProof pad_digest (Some ?p)
      (hex_encode (mhash pad_digest (state_tree demo_state))) (JStr ''BTC'') (JStr ''testnet'') None)"
    using served_state_accepted [OF length_pad_digest demo_state_ok key st sp path stateRoot_tree] by simp
  have p: "sp_smt ?p = Some (the (sp_smt ?p))" "sp_path ?p = Some (the (sp_path ?p))"
    "leaf_is_text (Some (the (sp_smt ?p)))" "sp_contract_index ?p = JInt 7" "sp_state_key ?p = JStr ''owner''"
    by (auto simp: served_state_def leaf_is_text_def is_nullish_def split: option.splits)
  show ?thesis
    using contract_state_proof_sound [OF length_pad_digest demo_state_ok stateRoot_tree p(1,2,3) acc] acc p(4,5)
    by (simp only: ex_simps) blast
qed

text \<open>
  The answer is to the question asked. Whenever a balance, locked-balance or contract-state proof
  is accepted, every field of the caller's request that is not \<open>undefined\<close> has the text of the
  proof's own field; a request with a \<open>null\<close> field is never accepted.
\<close>

lemma expectedMismatchLoop_None:
  "expectedMismatchLoop fs actual = Inr None \<Longrightarrow> (f, want) \<in> set fs \<Longrightarrow> want \<noteq> JUndef \<Longrightarrow>
   want \<noteq> JNull \<and> js_string want = js_string (actual f)"
  by (induction fs actual rule: expectedMismatchLoop.induct) (auto split: if_splits)

theorem request_binding:
  assumes "(f, want) \<in> set fs" "want \<noteq> JUndef"
  shows "(verified (verifyBalanceProof H (Some p) trusted chain network (Some fs)) \<longrightarrow>
      want \<noteq> JNull \<and> js_string want = js_string (balance_field p f)) \<and>
    (verified (verifyLockedBalanceProof H (Some p) trusted chain network (Some fs) height) \<longrightarrow>
      want \<noteq> JNull \<and> js_string want = js_string (balance_field p f)) \<and>
    (verified (verifyContractStateProof H (Some q) trusted chain network (Some fs)) \<longrightarrow>
      want \<noteq> JNull \<and> js_string want = js_string (state_field q f))"
  using verifyBalanceProof_accepts [of H p trusted chain network "Some fs"]
    verifyLockedBalanceProof_accepts [of H p trusted chain network "Some fs" height]
    verifyContractStateProof_accepts [of H q trusted chain network "Some fs"]
    expectedMismatchLoop_None [OF _ assms]
  by (auto simp: expectedMismatch_def)

theorem request_binding_witness:
  "\<exists>p r. verified (verifyBalanceProof pad_digest (Some p) (hex_encode r) (JStr ''BTC'') (JStr ''mainnet'')
       (Some [(''address'', JStr ''bc1q''), (''tick'', JStr ''XCP'')])) \<and>
     js_string (JStr ''XCP'') = js_string (balance_field p ''tick'')"
proof -
  obtain p r where "verified (verifyBalanceProof pad_digest (Some p) (hex_encode r) (JStr ''BTC'')
      (JStr ''mainnet'') (Some [(''address'', JStr ''bc1q''), (''tick'', JStr ''XCP'')]))"
    using demo_served by (metis accepted_def verdict.select_convs(1))
  then show ?thesis
    using request_binding [of "''tick''" "JStr ''XCP''" "[(''address'', JStr ''bc1q''), (''tick'', JStr ''XCP'')]"]
    by fastforce
qed


text \<open>A digest that is nowhere a decimal text, for the witness.\<close>

definition af_digest :: "bytes \<Rightarrow> bytes" where
  "af_digest x = replicate 32 175"


end
