(* ===== verification/BlockProof.thy ===== *)
theory BlockProof
  imports LightClient
begin

text \<open>
  The per-block content commitment of \<open>src/merkle.js\<close> (\<open>ledgerLeaf\<close>, \<open>actionsLeaf\<close>, \<open>contractLeaf\<close>,
  \<open>blockMerkleLeaves\<close>, \<open>blockMerkleRoot\<close>) and the verifier of an action in it,
  \<open>verifyActionProof\<close> of \<open>src/protocol/light_client/proof_checks.js\<close>. The rows come from the database,
  so their columns are dynamically typed values.
\<close>

section \<open>Leaves\<close>

record ledger_row =
  lr_action_index :: jsval
  lr_address :: jsval
  lr_tick :: jsval
  lr_amount :: jsval

record action_row =
  ar_action_index :: jsval
  ar_tx_index :: jsval
  ar_action :: jsval

text \<open>The rows of a block; a contract row of any kind is the list of the columns it commits, in order.\<close>

record block_rows =
  credits :: "ledger_row list"
  debits :: "ledger_row list"
  escrows :: "ledger_row list"
  actions :: "action_row list"
  contracts :: "jsval list list"
  contract_states :: "jsval list list"
  executions :: "jsval list list"
  emissions :: "jsval list list"
  deposits :: "jsval list list"
  withdrawals :: "jsval list list"

definition coalesce :: "jsval \<Rightarrow> jsval" where
  "coalesce x = (if is_nullish x then JStr [] else x)"

definition hashFields :: "(bytes \<Rightarrow> bytes) \<Rightarrow> jsval list \<Rightarrow> merkle_error + bytes" where
  "hashFields H fs = try_bind (joinFields fs) (\<lambda>b. Inr (leafHash H b))"

definition ledgerLeaf :: "(bytes \<Rightarrow> bytes) \<Rightarrow> string \<Rightarrow> ledger_row \<Rightarrow> merkle_error + bytes" where
  "ledgerLeaf H kind row =
     hashFields H [JStr ''L'', JStr kind, lr_action_index row, lr_address row, lr_tick row, lr_amount row]"

definition actionsLeaf :: "(bytes \<Rightarrow> bytes) \<Rightarrow> action_row \<Rightarrow> merkle_error + bytes" where
  "actionsLeaf H row =
     hashFields H [JStr ''A'', ar_action_index row, coalesce (ar_tx_index row), ar_action row]"

definition contractLeaf :: "(bytes \<Rightarrow> bytes) \<Rightarrow> string \<Rightarrow> jsval list \<Rightarrow> merkle_error + bytes" where
  "contractLeaf H subTable fs = hashFields H (JStr ''C'' # JStr subTable # fs)"

text \<open>The loops: the first leaf that throws ends the construction.\<close>

fun try_map :: "('a \<Rightarrow> 'e + 'b) \<Rightarrow> 'a list \<Rightarrow> 'e + 'b list" where
  "try_map f [] = Inr []"
| "try_map f (x # xs) = try_bind (f x) (\<lambda>y. try_bind (try_map f xs) (\<lambda>ys. Inr (y # ys)))"

definition ledgerLeaves :: "(bytes \<Rightarrow> bytes) \<Rightarrow> string \<Rightarrow> ledger_row list \<Rightarrow> merkle_error + bytes list" where
  "ledgerLeaves H kind =
     try_map (\<lambda>r. ledgerLeaf H kind (r\<lparr>lr_address := coalesce (lr_address r), lr_tick := coalesce (lr_tick r)\<rparr>))"

text \<open>
  Which columns of a contract row the code coalesces, by position: all of them but the index columns
  and the stored amount.
\<close>

definition contractLeaves ::
    "(bytes \<Rightarrow> bytes) \<Rightarrow> string \<Rightarrow> bool list \<Rightarrow> jsval list list \<Rightarrow> merkle_error + bytes list" where
  "contractLeaves H subTable raw =
     try_map (\<lambda>fs. contractLeaf H subTable (map2 (\<lambda>r x. if r then x else coalesce x) raw fs))"

fun try_concat :: "('e + 'b list) list \<Rightarrow> 'e + 'b list" where
  "try_concat [] = Inr []"
| "try_concat (m # ms) = try_bind m (\<lambda>xs. try_bind (try_concat ms) (\<lambda>ys. Inr (xs @ ys)))"

definition blockMerkleLeaves :: "(bytes \<Rightarrow> bytes) \<Rightarrow> block_rows \<Rightarrow> merkle_error + bytes list" where
  "blockMerkleLeaves H rows =
     try_concat
       [ledgerLeaves H ''credit'' (credits rows),
        ledgerLeaves H ''debit'' (debits rows),
        ledgerLeaves H ''escrow'' (escrows rows),
        try_map (\<lambda>r. actionsLeaf H (r\<lparr>ar_action := coalesce (ar_action r)\<rparr>)) (actions rows),
        contractLeaves H ''contracts'' [True, False, False, False] (contracts rows),
        contractLeaves H ''state'' [True, False, False] (contract_states rows),
        contractLeaves H ''executions'' [True, True, False, False, False, False] (executions rows),
        contractLeaves H ''emissions'' [True, False, True, True] (emissions rows),
        contractLeaves H ''deposits'' [True, True, False, False, True, False] (deposits rows),
        contractLeaves H ''withdrawals'' [True, True, False, False, True, False] (withdrawals rows)]"

definition blockMerkleRoot :: "(bytes \<Rightarrow> bytes) \<Rightarrow> bytes list \<Rightarrow> bytes option" where
  "blockMerkleRoot H orderedLeaves = fixedMerkleRoot H (map Buf orderedLeaves)"

section \<open>Verifying an action\<close>

record action_proof =
  ap_action_index :: jsval
  ap_tx_index :: jsval
  ap_action :: jsval
  ap_leaf :: jsval
  ap_merkle :: "(int \<times> string list) option"

text \<open>\<open>Inl\<close> of the reason is \<open>verified: false\<close>.\<close>

definition verifyActionProof :: "(bytes \<Rightarrow> bytes) \<Rightarrow> action_proof option \<Rightarrow> string \<Rightarrow> string + unit" where
  "verifyActionProof H proof trustedBlockMerkleRoot =
     (case proof of
        None \<Rightarrow> Inl ''MALFORMED_PROOF''
      | Some p \<Rightarrow>
          (case ap_merkle p of
             None \<Rightarrow> Inl ''MALFORMED_PROOF''
           | Some (index, sibs) \<Rightarrow>
               (case actionsLeaf H \<lparr>ar_action_index = ap_action_index p, ar_tx_index = ap_tx_index p,
                                   ar_action = coalesce (ap_action p)\<rparr> of
                  Inl e \<Rightarrow> Inl ''VERIFY_ERROR''
                | Inr lf \<Rightarrow>
                    if lowerHex (ap_leaf p) \<noteq> hex_encode lf then Inl ''LEAF_MISMATCH''
                    else if \<not> verifyFixedMerkleProof H (Hex trustedBlockMerkleRoot) (Buf lf) index (map Hex sibs)
                    then Inl ''MERKLE_PROOF_INVALID''
                    else Inr ())))"

section \<open>The block tree\<close>

text \<open>The field vectors committed by a block, in the order of their leaves.\<close>

definition ledger_fields :: "string \<Rightarrow> ledger_row list \<Rightarrow> jsval list list" where
  "ledger_fields kind = map (\<lambda>r. [JStr ''L'', JStr kind, lr_action_index r, coalesce (lr_address r),
     coalesce (lr_tick r), lr_amount r])"

definition action_fields :: "action_row \<Rightarrow> jsval list" where
  "action_fields r = [JStr ''A'', ar_action_index r, coalesce (ar_tx_index r), coalesce (ar_action r)]"

definition contract_fields :: "string \<Rightarrow> bool list \<Rightarrow> jsval list list \<Rightarrow> jsval list list" where
  "contract_fields sub raw = map (\<lambda>fs. JStr ''C'' # JStr sub # map2 (\<lambda>r x. if r then x else coalesce x) raw fs)"

definition block_fields :: "block_rows \<Rightarrow> jsval list list" where
  "block_fields rows =
     ledger_fields ''credit'' (credits rows) @ ledger_fields ''debit'' (debits rows) @
     ledger_fields ''escrow'' (escrows rows) @ map action_fields (actions rows) @
     contract_fields ''contracts'' [True, False, False, False] (contracts rows) @
     contract_fields ''state'' [True, False, False] (contract_states rows) @
     contract_fields ''executions'' [True, True, False, False, False, False] (executions rows) @
     contract_fields ''emissions'' [True, False, True, True] (emissions rows) @
     contract_fields ''deposits'' [True, True, False, False, True, False] (deposits rows) @
     contract_fields ''withdrawals'' [True, True, False, False, True, False] (withdrawals rows)"

lemma try_map_append:
  "try_map f (xs @ ys) = try_bind (try_map f xs) (\<lambda>a. try_bind (try_map f ys) (\<lambda>b. Inr (a @ b)))"
proof (induction xs)
  case Nil
  then show ?case by (cases "try_map f ys") auto
next
  case (Cons x xs)
  then show ?case by (cases "f x"; cases "try_map f xs"; cases "try_map f ys") auto
qed

lemma try_map_map: "try_map f (map g xs) = try_map (f \<circ> g) xs"
  by (induction xs) simp_all

lemma try_map_Inr: "try_map f xs = Inr ys \<Longrightarrow> length ys = length xs \<and> (\<forall>i<length xs. f (xs ! i) = Inr (ys ! i))"
  by (induction xs arbitrary: ys) (auto simp: try_bind_Inr nth_Cons split: nat.splits)

lemma try_bind_Inr_right [simp]: "try_bind m Inr = m"
  by (cases m) simp_all

lemma blockMerkleLeaves_fields: "blockMerkleLeaves H rows = try_map (hashFields H) (block_fields rows)"
  unfolding blockMerkleLeaves_def block_fields_def try_map_append ledgerLeaves_def contractLeaves_def
    ledger_fields_def contract_fields_def try_map_map
  by (simp add: ledgerLeaf_def actionsLeaf_def contractLeaf_def action_fields_def comp_def)

text \<open>A padded vector of trees, paired up to a single one.\<close>

fun mpair :: "mtree list \<Rightarrow> mtree list" where
  "mpair (a # b # ts) = MNode a b # mpair ts"
| "mpair _ = []"

lemma map_mpair: "map (mhash H) (mpair ts) = pair_up H (map (mhash H) ts)"
  by (induction ts rule: mpair.induct) (simp_all add: nodeHash_def)

lemma length_mpair [simp]: "length (mpair ts) = length ts div 2"
  by (induction ts rule: mpair.induct) auto

lemma mleaves_mpair: "even (length ts) \<Longrightarrow> (\<Union>t\<in>set (mpair ts). mleaves t) = (\<Union>t\<in>set ts. mleaves t)"
  by (induction ts rule: mpair.induct) auto

function mfold :: "mtree list \<Rightarrow> mtree" where
  "mfold ts = (if length ts \<le> 1 then (case ts of [] \<Rightarrow> MLeaf [] | t # _ \<Rightarrow> t) else mfold (mpair ts))"
  by pat_completeness auto
termination by (relation "measure length") auto

declare mfold.simps [simp del]

lemma mfold_tree:
  "length ts = 2 ^ k \<Longrightarrow>
   fixedLoop H (map (mhash H) ts) = [mhash H (mfold ts)] \<and> mleaves (mfold ts) = (\<Union>t\<in>set ts. mleaves t)"
proof (induction k arbitrary: ts)
  case 0
  then obtain t where "ts = [t]" by (auto simp: length_Suc_conv)
  then show ?case by (subst fixedLoop.simps) (simp add: mfold.simps)
next
  case (Suc k)
  have len: "length ts = 2 * 2 ^ k" "(1 :: nat) \<le> 2 ^ k" using Suc.prems by simp_all
  then have long: "1 < length ts" by linarith
  then have "fixedLoop H (map (mhash H) ts) = fixedLoop H (map (mhash H) (mpair ts))"
    by (subst fixedLoop.simps) (simp add: map_mpair)
  moreover have "mfold ts = mfold (mpair ts)" using long by (subst mfold.simps) simp
  moreover have "(\<Union>t\<in>set (mpair ts). mleaves t) = (\<Union>t\<in>set ts. mleaves t)"
    using len(1) by (intro mleaves_mpair) simp
  ultimately show ?case using Suc.IH [of "mpair ts"] len(1) by simp
qed

text \<open>
  The committed tree of a block: its leaves are the preimages of the block's leaves in their order, padded to
  the next power of two.
\<close>

definition padded_tree :: "bytes list \<Rightarrow> mtree" where
  "padded_tree ps =
     mfold (map MLeaf ps @ replicate (2 ^ (LEAST i. int (length ps) \<le> 2 ^ i) - length ps) (MLeaf empty_pre))"

definition block_pres :: "block_rows \<Rightarrow> bytes list" where
  "block_pres rows = map (\<lambda>fs. 0 # projr (joinFields fs)) (block_fields rows)"

definition block_tree :: "block_rows \<Rightarrow> mtree" where
  "block_tree rows = padded_tree (block_pres rows)"

lemma padded_tree_root:
  assumes "length ps \<le> 2 ^ 30" "ps \<noteq> []" "blockMerkleRoot H (map H ps) = Some r"
  shows "r = mhash H (padded_tree ps)" "mleaves (padded_tree ps) \<subseteq> insert empty_pre (set ps)"
proof -
  have l: "length (map Buf (map H ps)) \<le> 2 ^ 30" using assms(1) by simp
  obtain k where lk: "k = (LEAST i. int (length (map Buf (map H ps))) \<le> 2 ^ i)" and "k \<le> 30"
    and k: "length (map Buf (map H ps)) \<le> 2 ^ k"
    "fixedLayer H (map Buf (map H ps)) =
      Some (map toBuf (map Buf (map H ps)) @ replicate (2 ^ k - length (map Buf (map H ps))) (EMPTY H 0))"
    by (rule fixedLayer_Some [OF l])
  define ts where "ts = map MLeaf ps @ replicate (2 ^ k - length ps) (MLeaf empty_pre)"
  have t: "padded_tree ps = mfold ts" using lk by (simp add: padded_tree_def ts_def)
  have "map toBuf (map Buf (map H ps)) @ replicate (2 ^ k - length (map Buf (map H ps))) (EMPTY H 0) =
      map (mhash H) ts" by (simp add: ts_def comp_def empty_pre_def)
  then have r: "r = hd (fixedLoop H (map (mhash H) ts))"
    using assms(2,3) k(2) by (simp add: blockMerkleRoot_def fixedMerkleRoot_def)
  have len: "length ts = 2 ^ k" using k(1) by (simp add: ts_def)
  from mfold_tree [OF len, of H] r show "r = mhash H (padded_tree ps)" by (simp add: t)
  from mfold_tree [OF len, of H] show "mleaves (padded_tree ps) \<subseteq> insert empty_pre (set ps)"
    by (auto simp: t ts_def split: if_splits)
qed

section \<open>Accepted actions are in the block\<close>

text \<open>The directions a verification takes for any index, also a negative or an oversized one.\<close>

fun word_dirs :: "32 word \<Rightarrow> nat \<Rightarrow> bool list" where
  "word_dirs w 0 = []"
| "word_dirs w (Suc n) = (and w 1 \<noteq> 0) # word_dirs (signed_drop_bit 1 w) n"

lemma verifyFixedLoop_dirs:
  "verifyFixedLoop H node w sibs = climb H nodePre (zip (word_dirs w (length sibs)) sibs) node"
  by (induction H node w sibs rule: verifyFixedLoop.induct) (auto simp: nodeHash_def)

definition action_pres :: "(bytes \<Rightarrow> bytes) \<Rightarrow> bytes \<Rightarrow> int \<Rightarrow> string list \<Rightarrow> bytes set" where
  "action_pres H b index sibs =
     insert (0 # b) (set (climb_pres H nodePre
       (zip (word_dirs (word_of_int index) (length sibs)) (map hex_decode sibs)) (H (0 # b))))"

lemma follow_mleaves: "follow bs t = Some (MLeaf q) \<Longrightarrow> q \<in> mleaves t"
  by (induction bs t rule: follow.induct) (auto split: if_splits)

lemma block_preimages:
  assumes "blockMerkleLeaves H rows = Inr leaves"
  obtains bs where "leaves = map (\<lambda>b. H (0 # b)) bs" "length bs = length (block_fields rows)"
    "block_pres rows = map ((#) 0) bs" "\<forall>i<length bs. joinFields (block_fields rows ! i) = Inr (bs ! i)"
proof -
  let ?bs = "map (\<lambda>fs. projr (joinFields fs)) (block_fields rows)"
  have m: "length leaves = length (block_fields rows)"
    "\<forall>i<length (block_fields rows). hashFields H (block_fields rows ! i) = Inr (leaves ! i)"
    using assms try_map_Inr [of "hashFields H"] by (simp_all add: blockMerkleLeaves_fields)
  have j: "joinFields (block_fields rows ! i) = Inr (?bs ! i) \<and> leaves ! i = H (0 # ?bs ! i)"
    if "i < length (block_fields rows)" for i
    using m(2) that by (auto simp: hashFields_def try_bind_Inr leafHash_def)
  show ?thesis
    by (rule that [of ?bs]) (use j m(1) in \<open>auto simp: block_pres_def intro: nth_equalityI\<close>)
qed

lemma block_fields_action:
  assumes "fs \<in> set (block_fields rows)" "js_string (hd fs) = ''A''"
  shows "\<exists>row\<in>set (actions rows). fs = action_fields row"
  using assms by (auto simp: block_fields_def ledger_fields_def contract_fields_def)

lemma action_sound:
  assumes H: "\<forall>x. length (H x) = 32" and lv: "blockMerkleLeaves H rows = Inr leaves"
    and len: "leaves \<noteq> []" "length leaves \<le> 2 ^ 30" and root: "blockMerkleRoot H leaves = Some r"
    and mp: "ap_merkle p = Some (index, sibs)"
    and acc: "verifyActionProof H (Some p) (hex_encode r) = Inr ()"
  shows "mhash H (block_tree rows) = r \<and>
    (\<exists>b. joinFields [JStr ''A'', ap_action_index p, coalesce (ap_tx_index p), coalesce (ap_action p)] = Inr b \<and>
    ((\<exists>row\<in>set (actions rows). map js_string (action_fields row) =
        map js_string [JStr ''A'', ap_action_index p, coalesce (ap_tx_index p), coalesce (ap_action p)]) \<or>
     breaks H (action_pres H b index sibs) (mpres H (block_tree rows))))"
proof -
  let ?fs = "[JStr ''A'', ap_action_index p, coalesce (ap_tx_index p), coalesce (ap_action p)]"
  obtain lf where lf: "hashFields H ?fs = Inr lf"
    "verifyFixedMerkleProof H (Hex (hex_encode r)) (Buf lf) index (map Hex sibs)"
    using acc mp by (auto simp: verifyActionProof_def actionsLeaf_def split: sum.splits if_splits)
  then obtain b where b: "joinFields ?fs = Inr b" "lf = H (0 # b)"
    by (auto simp: hashFields_def try_bind_Inr leafHash_def)
  obtain bs where bs: "leaves = map (\<lambda>b. H (0 # b)) bs" "length bs = length (block_fields rows)"
    and pres: "block_pres rows = map ((#) 0) bs"
    and bs_at: "\<forall>i<length bs. joinFields (block_fields rows ! i) = Inr (bs ! i)"
    using block_preimages [OF lv] by blast
  have ps: "length (map ((#) 0) bs) \<le> 2 ^ 30" "map ((#) 0) bs \<noteq> []"
    "blockMerkleRoot H (map H (map ((#) 0) bs)) = Some r"
    using len root bs(1) by (simp_all add: comp_def)
  let ?t = "block_tree rows"
  have t: "r = mhash H ?t" "mleaves ?t \<subseteq> insert empty_pre (set (map ((#) 0) bs))"
    using padded_tree_root [OF ps] by (simp_all add: block_tree_def pres)
  have lp: "leaf_pre (0 # b)" "\<forall>q\<in>mleaves ?t. leaf_pre q"
    using t(2) by (auto simp: leaf_pre_def empty_pre_def)
  have "climb H nodePre (zip (word_dirs (word_of_int index) (length sibs)) (map hex_decode sibs)) (H (0 # b)) = mhash H ?t"
    using lf(2) b(2) t(1) by (simp add: verifyFixedMerkleProof_def verifyFixedLoop_dirs comp_def)
  from climb_follow [OF H lp this]
  consider (leaf) "0 # b \<in> mleaves ?t" | (break) "breaks H (action_pres H b index sibs) (mpres H ?t)"
    using follow_mleaves unfolding action_pres_def by blast
  then show ?thesis
  proof cases
    case leaf
    then have "b \<in> set bs" using t(2) by (auto simp: empty_pre_def)
    then obtain i where i: "i < length bs" "joinFields (block_fields rows ! i) = Inr b"
      using bs_at by (metis in_set_conv_nth)
    let ?g = "block_fields rows ! i"
    have g: "?g \<in> set (block_fields rows)" using i bs(2) by simp
    then have "?g \<noteq> []" by (auto simp: block_fields_def ledger_fields_def action_fields_def contract_fields_def)
    then have eq: "map js_string ?g = map js_string ?fs"
      using joinFields_inject [OF i(2) b(1)] by simp
    then have "js_string (hd ?g) = ''A''" using \<open>?g \<noteq> []\<close> by (cases ?g) auto
    then show ?thesis using block_fields_action [OF g] eq b(1) t(1) by metis
  next
    case break
    then show ?thesis using b(1) t(1) by blast
  qed
qed

section \<open>Properties\<close>

text \<open>
  Soundness of the action verifier. An action accepted against the root of a block's content is
  one of the block's actions, with the same action index, transaction index and action text; a
  ledger or contract row cannot pass for it. Otherwise the verifier hashed a preimage that collides
  with a different one of the block's tree. The index and the number of siblings are arbitrary.
\<close>

theorem action_proof_sound:
  assumes "\<forall>x. length (H x) = 32" "blockMerkleLeaves H rows = Inr leaves"
    and "leaves \<noteq> []" "length leaves \<le> 2 ^ 30" "blockMerkleRoot H leaves = Some r"
    and "ap_merkle p = Some (index, sibs)"
    and "verifyActionProof H (Some p) (hex_encode r) = Inr ()"
  shows "mhash H (block_tree rows) = r \<and>
    (\<exists>b. joinFields [JStr ''A'', ap_action_index p, coalesce (ap_tx_index p), coalesce (ap_action p)] = Inr b \<and>
    ((\<exists>row\<in>set (actions rows). map js_string (action_fields row) =
        map js_string [JStr ''A'', ap_action_index p, coalesce (ap_tx_index p), coalesce (ap_action p)]) \<or>
     breaks H (action_pres H b index sibs) (mpres H (block_tree rows))))"
  using assms by (rule action_sound)

text \<open>
  Completeness of the action verifier: for every action row of a block, at the position the
  block's leaf order gives it (after all ledger rows), the generated inclusion proof is accepted.
\<close>

theorem action_proof_complete:
  assumes "blockMerkleLeaves H rows = Inr leaves" "length leaves \<le> 2 ^ 30" "j < length (actions rows)"
    and "i = length (credits rows) + length (debits rows) + length (escrows rows) + j"
  shows "\<exists>r sibs. blockMerkleRoot H leaves = Some r \<and>
    fixedMerkleProof H (map Buf leaves) (int i) = Some (Inr (int i, sibs)) \<and>
    verifyActionProof H
      (Some \<lparr>ap_action_index = ar_action_index (actions rows ! j), ap_tx_index = ar_tx_index (actions rows ! j),
             ap_action = ar_action (actions rows ! j), ap_leaf = JStr (hex_encode (leaves ! i)),
             ap_merkle = Some (int i, sibs)\<rparr>) (hex_encode r) = Inr ()"
proof -
  have f: "length leaves = length (block_fields rows)"
    "\<forall>i<length (block_fields rows). hashFields H (block_fields rows ! i) = Inr (leaves ! i)"
    using assms(1) try_map_Inr [of "hashFields H"] by (simp_all add: blockMerkleLeaves_fields)
  have bi: "i < length (block_fields rows)" "block_fields rows ! i = action_fields (actions rows ! j)"
    using assms(3,4) by (simp_all add: block_fields_def ledger_fields_def nth_append)
  have lf: "hashFields H (action_fields (actions rows ! j)) = Inr (leaves ! i)" using f(2) bi by metis
  have il: "length (map Buf leaves) \<le> 2 ^ 30" "i < length (map Buf leaves)" using assms(2) f(1) bi(1) by simp_all
  obtain r sibs where p: "fixedMerkleRoot H (map Buf leaves) = Some r"
    "fixedMerkleProof H (map Buf leaves) (int i) = Some (Inr (int i, sibs))"
    "verifyFixedMerkleProof H (Buf r) (map Buf leaves ! i) (int i) (map Hex sibs)"
    by (rule fixed_proof_verifies [OF il])
  then have "verifyFixedMerkleProof H (Hex (hex_encode r)) (Buf (leaves ! i)) (int i) (map Hex sibs)"
    using il(2) by (simp add: verifyFixedMerkleProof_def)
  then show ?thesis
    using p lf
    by (intro exI [of _ r] exI [of _ sibs])
       (simp add: blockMerkleRoot_def verifyActionProof_def actionsLeaf_def action_fields_def)
qed

definition demo_rows :: block_rows where
  "demo_rows = \<lparr>credits = [\<lparr>lr_action_index = JInt 1, lr_address = JStr ''a'', lr_tick = JStr ''T'', lr_amount = JStr ''5''\<rparr>],
     debits = [], escrows = [],
     actions = [\<lparr>ar_action_index = JInt 1, ar_tx_index = JNull, ar_action = JStr ''SEND''\<rparr>],
     contracts = [], contract_states = [], executions = [], emissions = [], deposits = [], withdrawals = []\<rparr>"

definition demo_leaves :: "bytes list" where
  "demo_leaves = projr (blockMerkleLeaves pad_digest demo_rows)"

lemma demo_leaves: "blockMerkleLeaves pad_digest demo_rows = Inr demo_leaves" "length demo_leaves = 2"
proof -
  have "case blockMerkleLeaves pad_digest demo_rows of Inl e \<Rightarrow> False | Inr l \<Rightarrow> length l = 2" by code_simp
  then show "blockMerkleLeaves pad_digest demo_rows = Inr demo_leaves" "length demo_leaves = 2"
    by (auto simp: demo_leaves_def split: sum.splits)
qed

theorem action_proof_complete_witness:
  "\<exists>r sibs. blockMerkleRoot pad_digest demo_leaves = Some r \<and>
    verifyActionProof pad_digest
      (Some \<lparr>ap_action_index = JInt 1, ap_tx_index = JNull, ap_action = JStr ''SEND'',
             ap_leaf = JStr (hex_encode (demo_leaves ! 1)), ap_merkle = Some (1, sibs)\<rparr>) (hex_encode r) = Inr ()"
  using action_proof_complete [OF demo_leaves(1), of 0 1] demo_leaves(2) by (auto simp: demo_rows_def)

lemma demo_action_accepted:
  "\<exists>r sibs. blockMerkleRoot pad_digest demo_leaves = Some r \<and>
    verifyActionProof pad_digest
      (Some \<lparr>ap_action_index = JInt 1, ap_tx_index = JNull, ap_action = JStr ''SEND'',
             ap_leaf = JStr (hex_encode (demo_leaves ! 1)), ap_merkle = Some (1, sibs)\<rparr>) (hex_encode r) = Inr ()"
proof -
  have il: "length (map Buf demo_leaves) \<le> 2 ^ 30" "1 < length (map Buf demo_leaves)" by (simp_all add: demo_leaves(2))
  obtain r sibs where p: "fixedMerkleRoot pad_digest (map Buf demo_leaves) = Some r"
    "verifyFixedMerkleProof pad_digest (Buf r) (map Buf demo_leaves ! 1) (int 1) (map Hex sibs)"
    by (rule fixed_proof_verifies [OF il])
  have "hashFields pad_digest [JStr ''A'', JInt 1, JStr [], JStr ''SEND''] = Inr (demo_leaves ! 1)"
    using try_map_Inr [of "hashFields pad_digest" "block_fields demo_rows" demo_leaves] demo_leaves
    by (auto simp: blockMerkleLeaves_fields block_fields_def demo_rows_def ledger_fields_def action_fields_def
        contract_fields_def coalesce_def is_nullish_def)
  then show ?thesis
    using p il(2)
    by (intro exI [of _ r] exI [of _ sibs])
       (simp add: blockMerkleRoot_def verifyActionProof_def actionsLeaf_def coalesce_def is_nullish_def
         verifyFixedMerkleProof_def)
qed

theorem action_proof_sound_witness:
  "\<exists>p r. verifyActionProof pad_digest (Some p) (hex_encode r) = Inr () \<and> mhash pad_digest (block_tree demo_rows) = r"
proof -
  obtain r sibs where a: "blockMerkleRoot pad_digest demo_leaves = Some r"
    "verifyActionProof pad_digest
      (Some \<lparr>ap_action_index = JInt 1, ap_tx_index = JNull, ap_action = JStr ''SEND'',
             ap_leaf = JStr (hex_encode (demo_leaves ! 1)), ap_merkle = Some (1, sibs)\<rparr>) (hex_encode r) = Inr ()"
    using demo_action_accepted by blast
  have "demo_leaves \<noteq> []" "length demo_leaves \<le> 2 ^ 30" using demo_leaves(2) by auto
  from action_proof_sound [OF length_pad_digest demo_leaves(1) this a(1) _ a(2)] a(2) show ?thesis by auto
qed

end
