(* ===== verification/JsValues.thy ===== *)
theory JsValues
  imports Complex_Main Prelude
begin

text \<open>
  The coercions of dynamically typed values: truthiness, property reads and \<open>Number(v)\<close>.

  \<open>Number\<close> of a text is its exact decimal value rounded to the nearest double, ties to even
  (\<open>js_round\<close>), with overflow to the infinities. A double is its exact rational value; the two zeros
  are not told apart, since no code of the development divides by one.
\<close>

section \<open>Truthiness and properties\<close>

fun js_truthy :: "jsval \<Rightarrow> bool" where
  "js_truthy JUndef = False"
| "js_truthy JNull = False"
| "js_truthy (JBool b) = b"
| "js_truthy (JInt i) = (i \<noteq> 0)"
| "js_truthy (JBig i) = (i \<noteq> 0)"
| "js_truthy (JFloat s) = (s \<noteq> ''NaN'')"
| "js_truthy (JStr s) = (s \<noteq> [])"
| "js_truthy _ = True"

text \<open>
  \<open>v.k\<close> of a value already known not to be \<open>null\<close> or \<open>undefined\<close>; a primitive or an array has none of
  the properties the code reads.
\<close>

definition js_prop :: "jsval \<Rightarrow> string \<Rightarrow> jsval" where
  "js_prop v k = (case v of JObj kvs \<Rightarrow> get_prop kvs k | _ \<Rightarrow> JUndef)"

text \<open>\<open>v && v.k || ''\<close>\<close>

definition prop_or_empty :: "jsval \<Rightarrow> string \<Rightarrow> jsval" where
  "prop_or_empty v k = (if js_truthy v \<and> js_truthy (js_prop v k) then js_prop v k else JStr [])"

lemma js_prop_obj [simp]: "js_prop (JObj kvs) k = get_prop kvs k"
  by (simp add: js_prop_def)

section \<open>Decimal texts\<close>

text \<open>\<open>\d+\.?\d*|\.\d+\<close>: the digits as one integer, and how many of them follow the point.\<close>

definition dec_mant :: "string \<Rightarrow> (nat \<times> nat) option" where
  "dec_mant s =
     (case split_on (CHR ''.'') s of
        [i] \<Rightarrow> if all_digits i then Some (nat_of_digits i, 0) else None
      | [i, f] \<Rightarrow>
          if list_all is_digit i \<and> list_all is_digit f \<and> (i \<noteq> [] \<or> f \<noteq> [])
          then Some (nat_of_digits (i @ f), length f) else None
      | _ \<Rightarrow> None)"

definition strip_sign :: "string \<Rightarrow> bool \<times> string" where
  "strip_sign s =
     (if take 1 s = ''-'' then (True, tl s) else if take 1 s = ''+'' then (False, tl s) else (False, s))"

definition signed :: "bool \<Rightarrow> rat \<Rightarrow> rat" where
  "signed neg q = (if neg then - q else q)"

text \<open>The value of a text of the form \<open>[+-]?(\d+\.?\d*|\.\d+)\<close>.\<close>

definition dec_value :: "string \<Rightarrow> rat option" where
  "dec_value s =
     (case strip_sign s of (neg, t) \<Rightarrow>
        map_option (\<lambda>(m, k). signed neg (of_nat m / 10 ^ k)) (dec_mant t))"

lemma dec_value_digits: "all_digits s \<Longrightarrow> dec_value s = Some (of_nat (nat_of_digits s))"
proof -
  assume d: "all_digits s"
  have n: "\<not> is_digit (CHR ''.'')" "\<not> is_digit (CHR ''-'')" "\<not> is_digit (CHR ''+'')"
    by (simp_all add: is_digit_def)
  obtain a t where s: "s = a # t" "is_digit a" and "list_all is_digit s"
    using d by (cases s) (auto simp: all_digits_def)
  then have "CHR ''.'' \<notin> set s" using n(1) by (metis list_all_iff)
  then have "split_on (CHR ''.'') s = [s]" by (rule split_on_no_sep)
  moreover have "a \<noteq> CHR ''-''" "a \<noteq> CHR ''+''" using s(2) n by blast+
  then have "strip_sign s = (False, s)" by (simp only: strip_sign_def s) simp
  ultimately show ?thesis using d by (simp only: dec_value_def dec_mant_def signed_def) simp
qed

section \<open>Numbers\<close>

datatype jsnum = NaN | NegInf | PosInf | Num rat

function bit_len :: "int \<Rightarrow> int" where
  "bit_len n = (if n \<le> 0 then 0 else 1 + bit_len (n div 2))"
  by pat_completeness auto
termination by (relation "measure nat") auto

declare bit_len.simps [simp del]

definition pow2 :: "int \<Rightarrow> rat" where
  "pow2 e = (if e \<ge> 0 then 2 ^ nat e else 1 / 2 ^ nat (- e))"

definition pow10 :: "int \<Rightarrow> rat" where
  "pow10 e = (if e \<ge> 0 then 10 ^ nat e else 1 / 10 ^ nat (- e))"

text \<open>The integer nearest to a number, ties to even.\<close>

definition round_even :: "rat \<Rightarrow> int" where
  "round_even q =
     (let r = \<lfloor>q\<rfloor>; d = q - of_int r in
      if d < 1 / 2 \<or> (d = 1 / 2 \<and> even r) then r else r + 1)"

text \<open>
  The exponent of the last bit of a positive number's 53-bit significand, at least that of the
  subnormals.
\<close>

definition ulp_exp :: "rat \<Rightarrow> int" where
  "ulp_exp q =
     (case quotient_of q of (n, d) \<Rightarrow>
        let e = bit_len n - bit_len d - 53 in
        max (if q / pow2 e \<ge> 2 ^ 53 then e + 1 else e) (- 1074))"

definition js_round :: "rat \<Rightarrow> jsnum" where
  "js_round q =
     (if q = 0 then Num 0
      else
        (let e = ulp_exp \<bar>q\<bar>; r = of_int (round_even (\<bar>q\<bar> / pow2 e)) * pow2 e in
         if r \<ge> 2 ^ 1024 then (if q < 0 then NegInf else PosInf)
         else Num (signed (q < 0) r)))"

definition exp_value :: "string \<Rightarrow> int option" where
  "exp_value s =
     (case strip_sign s of (neg, t) \<Rightarrow>
        if all_digits t then Some (if neg then - int (nat_of_digits t) else int (nat_of_digits t)) else None)"

text \<open>\<open>Number(s)\<close> of a text.\<close>

definition radix_value :: "nat \<Rightarrow> string \<Rightarrow> jsnum" where
  "radix_value b s =
     (let ds = map (\<lambda>c. let n = of_char c :: nat in
                if 48 \<le> n \<and> n \<le> 57 then n - 48
                else if 65 \<le> n \<and> n \<le> 70 then n - 55
                else if 97 \<le> n \<and> n \<le> 102 then n - 87 else b) s in
      if s \<noteq> [] \<and> list_all (\<lambda>d. d < b) ds
      then js_round (of_nat (foldl (\<lambda>acc d. b * acc + d) 0 ds)) else NaN)"

definition num_text :: "string \<Rightarrow> jsnum" where
  "num_text s =
     (let t = js_trim s; pre = ascii_lower (take 2 t) in
      if t = [] then Num 0
      else if pre = ''0x'' then radix_value 16 (drop 2 t)
      else if pre = ''0o'' then radix_value 8 (drop 2 t)
      else if pre = ''0b'' then radix_value 2 (drop 2 t)
      else if snd (strip_sign t) = ''Infinity'' then (if fst (strip_sign t) then NegInf else PosInf)
      else
        (let m = takeWhile (\<lambda>c. c \<noteq> CHR ''e'' \<and> c \<noteq> CHR ''E'') t; x = drop (length m) t in
         case (dec_value m, if x = [] then Some 0 else exp_value (tl x)) of
           (Some q, Some e) \<Rightarrow> js_round (q * pow10 e)
         | _ \<Rightarrow> NaN))"

text \<open>\<open>Number(v)\<close>.\<close>

definition js_Number :: "jsval \<Rightarrow> jsnum" where
  "js_Number v =
     (case v of
        JUndef \<Rightarrow> NaN
      | JNull \<Rightarrow> Num 0
      | JBool b \<Rightarrow> Num (if b then 1 else 0)
      | JInt i \<Rightarrow> Num (of_int i)
      | JBig i \<Rightarrow> js_round (of_int i)
      | JFloat s \<Rightarrow> num_text s
      | JRegex s \<Rightarrow> NaN
      | JStr s \<Rightarrow> num_text s
      | JArr xs \<Rightarrow> num_text (js_string v)
      | JObj kvs \<Rightarrow> NaN)"

fun num_le :: "jsnum \<Rightarrow> jsnum \<Rightarrow> bool" where
  "num_le NaN b = False"
| "num_le a NaN = False"
| "num_le NegInf b = True"
| "num_le a PosInf = True"
| "num_le (Num a) (Num b) = (a \<le> b)"
| "num_le a b = False"

fun num_lt :: "jsnum \<Rightarrow> jsnum \<Rightarrow> bool" where
  "num_lt NaN b = False"
| "num_lt a NaN = False"
| "num_lt a b = (\<not> num_le b a)"

definition js_isFinite :: "jsnum \<Rightarrow> bool" where
  "js_isFinite n = (case n of Num q \<Rightarrow> True | _ \<Rightarrow> False)"

lemma num_lt_Num [simp]: "num_lt (Num a) (Num b) \<longleftrightarrow> a < b"
  by auto

lemma num_lt_trans: "num_lt a b \<Longrightarrow> num_lt b c \<Longrightarrow> num_lt a c"
  by (cases a; cases b; cases c) auto

lemma num_lt_irrefl [simp]: "\<not> num_lt a a"
  by (cases a) auto

lemma js_isFinite_iff: "js_isFinite n \<longleftrightarrow> (\<exists>q. n = Num q)"
  by (cases n) (auto simp: js_isFinite_def)

text \<open>Integers of the safe range are doubles.\<close>

lemma pow2_neg: "e \<le> 0 \<Longrightarrow> q / pow2 e = q * 2 ^ nat (- e)"
  by (auto simp: pow2_def)

lemma bit_len_le: "n < 2 ^ k \<Longrightarrow> bit_len n \<le> int k"
proof (induction k arbitrary: n)
  case 0
  then show ?case by (subst bit_len.simps) simp
next
  case (Suc k)
  then have "n div 2 < 2 ^ k" by simp
  from Suc.IH [OF this] show ?case by (subst bit_len.simps) simp
qed

lemma round_even_int [simp]: "round_even (of_int i) = i"
  by (simp add: round_even_def)

lemma js_round_int:
  assumes "\<bar>i\<bar> < 2 ^ 53"
  shows "js_round (of_int i) = Num (of_int i)"
proof (cases "i = 0")
  case False
  let ?n = "\<bar>i\<bar>" and ?e = "ulp_exp \<bar>of_int i\<bar>"
  have "quotient_of \<bar>of_int i\<bar> = (?n, 1)" using quotient_of_int [of ?n] by (simp add: Rat.of_int_def)
  moreover have "bit_len 1 = 1" by (subst bit_len.simps, subst bit_len.simps) simp
  moreover have "bit_len ?n \<le> 53" using bit_len_le [of ?n 53] assms by simp
  ultimately have e: "?e \<le> 0" by (simp add: ulp_exp_def Let_def max_def)
  have q: "\<bar>of_int i\<bar> / pow2 ?e = of_int (?n * 2 ^ nat (- ?e))" by (simp add: pow2_neg [OF e])
  have r: "of_int (?n * 2 ^ nat (- ?e)) * pow2 ?e = of_int ?n"
    using e by (auto simp: pow2_def)
  have "of_int ?n < (2 ^ 53 :: rat)" using assms by (metis of_int_less_iff of_int_numeral of_int_power)
  also have "\<dots> < 2 ^ 1024" by (rule power_strict_increasing) simp_all
  finally have "\<not> of_int ?n \<ge> (2 ^ 1024 :: rat)" by (simp only: not_le)
  then have "js_round (of_int i) = Num (signed (of_int i < (0 :: rat)) (of_int ?n))"
    using False by (simp only: js_round_def Let_def q round_even_int r of_int_eq_0_iff if_False)
  then show ?thesis by (simp add: signed_def)
qed (simp add: js_round_def)

end
