(* ===== verification/GateRows.thy ===== *)
theory GateRows
  imports Prelude
begin

text \<open>
  The activation rows of \<open>src/consensus/gate_registry/shared_rows_1.js\<close> to \<open>shared_rows_5.js\<close> and the
  arming rules of \<open>shared_rows.js\<close>, as data: each row is its key, its unit and its table, in the order
  the files queue them. \<open>UNARMED\<close> is written out as 9999999999 and \<open>UNPINNED\<close> is \<open>JNull\<close>.
\<close>

type_synonym gate_call = "string \<times> string \<times> jsval"

section \<open>The queued rows\<close>

definition rows_1a :: "gate_call list" where
  "rows_1a =
    [
     (''anchor_bundle_order_activation.ANCHOR_BUNDLE_ORDER_ACTIVATION'', ''height'',
      JObj [(''mainnet'', JInt 9999999999), (''BTC:testnet'', JInt 155001), (''LTC:testnet'',
        JInt 4906040), (''DOGE:testnet'', JInt 67962387), (''testnet'', JInt 9999999999),
        (''regtest'', JInt 0)]),
     (''anchor_reward_activation.ANCHOR_REWARD_ACTIVATION'', ''height'',
      JObj [(''mainnet'', JInt 961000), (''testnet'', JInt 0), (''regtest'', JInt 0)]),
     (''anchor_reward_activation.ANCHOR_REWARD_AMOUNT'', ''constant'',
      JStr ''10.00000000''),
     (''anchor_reward_activation.ARCHIVE_REWARD_ACTIVATION'', ''height'',
      JObj [(''mainnet'', JInt 963000), (''testnet'', JInt 0), (''regtest'', JInt 0)]),
     (''anchor_reward_activation.ARCHIVE_REWARD_AMOUNT'', ''constant'',
      JStr ''10.00000000'')]"

definition rows_1b :: "gate_call list" where
  "rows_1b =
    [
     (''anchor_reward_activation.ANCHOR_REWARD_DERIVE_ACTIVATION'', ''height'',
      JObj [(''mainnet'', JInt 0), (''testnet'', JInt 0), (''regtest'', JInt 0)])]"

definition rows_1c :: "gate_call list" where
  "rows_1c =
    [
     (''anchor_reward_activation.ANCHOR_REWARD_MIRROR_MATURITY'', ''constant'',
      JInt 144),
     (''anchor_reward_activation.ANCHOR_REWARD_DOGE_MIN_CONFIRMATIONS'', ''constant'',
      JInt 60),
     (''anchor_reward_activation.ANCHOR_ATTEST_ARRIVAL_MARGIN_S'', ''constant'',
      JInt 64800),
     (''anchor_reward_activation.ANCHOR_ATTEST_BARRIER_ACTIVATION'', ''height'',
      JObj [(''mainnet'', JNull), (''testnet'', JInt 154291), (''regtest'', JNull)]),
     (''archive_rollback_author_scope_activation.ARCHIVE_ROLLBACK_AUTHOR_SCOPE_ACTIVATION'', ''height'',
      JObj [(''mainnet'', JInt 0), (''testnet'', JInt 67915000), (''regtest'', JInt 9999999999)]),
     (''archive_rollback_author_scope_activation.ARCHIVE_AUTHOR_SCOPE_JOIN_SQL'', ''constant'',
      JStr ''JOIN actions         pact ON pact.action_index = p.action_index JOIN index_addresses padr ON padr.id = pact.source_id JOIN actions         cact ON cact.action_index = c.action_index JOIN index_addresses cadr ON cadr.id = cact.source_id AND cadr.address = padr.address ''),
     (''attest_relay_activation.ATTEST_RELAY_ACTIVATION'', ''height'',
      JObj [(''mainnet'', JInt 963000), (''testnet'', JInt 0), (''regtest'', JInt 0)]),
     (''attest_response_mirror_activation.ATTEST_RESPONSE_MIRROR_ACTIVATION'', ''height'',
      JObj [(''mainnet'', JNull), (''testnet'', JInt 151324), (''regtest'', JInt 0)]),
     (''attest_responsible_widening_activation.ATTEST_RESPONSIBLE_WIDENING_ACTIVATION'', ''height'',
      JObj [(''mainnet'', JInt 0), (''testnet'', JInt 150780), (''regtest'', JInt 0)])]"

definition rows_1d :: "gate_call list" where
  "rows_1d =
    [
     (''attest_responsible_widening_activation.ATTEST_RESPONSIBLE_WIDENING'', ''constant'',
      JObj [(''confirmations'', JInt 3), (''maxSlots'', JInt 2)])]"

definition rows_2a :: "gate_call list" where
  "rows_2a =
    [
     (''attest_responsible_widening_activation.ATTEST_RESPONSIBLE_WIDENING_V2'', ''constant'',
      JObj [(''startOffset'', JInt 0), (''headroom'', JInt 1), (''maxSlots'', JInt 2)]),
     (''attest_zero_conf_activation.ATTEST_ZERO_CONF_ACTIVATION'', ''height'',
      JObj [(''mainnet'', JNull), (''testnet'', JInt 151800), (''regtest'', JInt 0)]),
     (''checkpoint_commitment_activation.CHECKPOINT_COMMITMENT_ACTIVATION'', ''height'',
      JObj [(''mainnet'', JInt 961000), (''testnet'', JInt 146000), (''regtest'', JInt 0)]),
     (''cross_chain_royalty_activation.CROSS_CHAIN_ROYALTY_ACTIVATION'', ''height'',
      JObj [(''mainnet'', JInt 961000), (''testnet'', JInt 0), (''regtest'', JInt 0)]),
     (''equivocation_header.EQUIV_HEADER_ACTIVATION'', ''height'',
      JObj [(''mainnet'', JInt 961000), (''testnet'', JInt 0), (''regtest'', JInt 0)]),
     (''equivocation_header.ENGINE_TAGS'', ''constant'',
      JObj [(''DEX'', JStr ''XDEX''), (''XCALL'', JStr ''XCALL''), (''ATTEST'',
        JStr ''XATTEST''), (''ORACLE'', JStr ''XORACLE''), (''ORACLE_BATCH'',
        JStr ''XORACLEB''), (''CHECKPOINT'', JStr ''XCHECKPOINT''), (''CONFIG'',
        JStr ''XCONFIG''), (''NODEPROOF'', JStr ''XNODEPROOF''), (''ROLLCALL'',
        JStr ''XROLLCALL''), (''BRIDGE'', JStr ''XBRIDGE''), (''POLICY'', JStr ''XPOLICY''),
        (''LIST_SHARE'', JStr ''XLISTSHARE'')]),
     (''list_edit_resolution_activation.LIST_EDIT_RESOLUTION_ACTIVATION'', ''height'',
      JObj [(''BTC:mainnet'', JInt 963000), (''LTC:mainnet'', JInt 3162000), (''DOGE:mainnet'',
        JInt 6338000), (''BTC:testnet'', JInt 0), (''LTC:testnet'', JInt 0), (''DOGE:testnet'',
        JInt 0), (''regtest'', JInt 0)]),
     (''mirror_admission_activation.ADMIT_MARGIN_BLOCKS'', ''constant'',
      JObj [(''default'', JInt 4), (''attestation_responses'', JInt 1), (''oracle_prices'',
        JInt 1), (''anchor_reward_attestations'', JInt 144)]),
     (''mirror_admission_activation.ADMIT_MIN_FUTURE_BLOCKS'', ''constant'',
      JInt 1)]"

definition rows_2b :: "gate_call list" where
  "rows_2b =
    [
     (''mirror_admission_activation.ADMIT_MAX_FUTURE_BLOCKS'', ''constant'',
      JObj [(''BTC'', JInt 6), (''LTC'', JInt 24), (''DOGE'', JInt 60), (''default'', JInt 6)]),
     (''mirror_admission_activation.MIRROR_ADMISSION_ACTIVATION'', ''height'',
      JObj [(''BTC:mainnet'', JNull), (''LTC:mainnet'', JNull), (''DOGE:mainnet'', JNull),
        (''BTC:testnet'', JInt 154234), (''LTC:testnet'', JInt 4903068), (''DOGE:testnet'',
        JInt 67936053), (''BTC:regtest'', JNull), (''LTC:regtest'', JNull), (''DOGE:regtest'',
        JNull)]),
     (''mirror_admission_activation.MIRROR_ADMISSION_CONSUMER_ACTIVATION'', ''height'',
      JObj [(''BTC:mainnet'', JNull), (''LTC:mainnet'', JNull), (''DOGE:mainnet'', JNull),
        (''BTC:testnet'', JInt 154291), (''LTC:testnet'', JInt 4903291), (''DOGE:testnet'',
        JInt 67936888), (''BTC:regtest'', JNull), (''LTC:regtest'', JNull), (''DOGE:regtest'',
        JNull)]),
     (''mirror_admission_activation.MIRROR_ADMISSION_REGTEST_ENV'', ''constant'',
      JStr ''XC_MIRROR_ADMISSION_ACTIVATION''),
     (''mirror_admission_activation.MIRROR_ADMISSION_REGTEST_ARMED_HEIGHT'', ''constant'',
      JInt 0),
     (''mirror_admission_activation.CHAIN_CODE_RE'', ''constant'',
      JRegex ''/^[A-Z0-9]{1,10}$/''),
     (''mirror_admission_activation.CANONICAL_HEIGHT_RE'', ''constant'',
      JRegex ''/^(?:0|[1-9][0-9]*)$/''),
     (''mirror_admission_activation.ADMIT_COLUMN_CHAINS'', ''constant'',
      JArr [JStr ''BTC'', JStr ''LTC'', JStr ''DOGE'']),
     (''price_pair_activation.PRICE_PAIR_TICKER_MAX_LEGACY'', ''constant'',
      JInt 5),
     (''price_pair_activation.PRICE_PAIR_TICKER_MAX_WIDE'', ''constant'',
      JInt 6),
     (''price_pair_activation.PRICE_PAIR_WIDEN_ACTIVATION'', ''time'',
      JObj [(''mainnet'', JInt 0), (''testnet'', JInt 0), (''regtest'', JInt 0)]),
     (''price_pair_activation.PRICE_PAIR_RE_LEGACY'', ''constant'',
      JRegex ([CHR 0x2f, CHR 0x5e, CHR 0x5b, CHR 0x41, CHR 0x2d, CHR 0x5a, CHR 0x5d, CHR 0x7b, CHR 0x33, CHR 0x2c, CHR 0x35, CHR 0x7d, CHR 0x5c, CHR 0x2f, CHR 0x5b, CHR 0x41, CHR 0x2d, CHR 0x5a, CHR 0x5d, CHR 0x7b, CHR 0x33, CHR 0x2c, CHR 0x35, CHR 0x7d, CHR 0x24, CHR 0x2f])),
     (''price_pair_activation.PRICE_PAIR_RE_WIDE'', ''constant'',
      JRegex ([CHR 0x2f, CHR 0x5e, CHR 0x5b, CHR 0x41, CHR 0x2d, CHR 0x5a, CHR 0x5d, CHR 0x7b, CHR 0x33, CHR 0x2c, CHR 0x36, CHR 0x7d, CHR 0x5c, CHR 0x2f, CHR 0x5b, CHR 0x41, CHR 0x2d, CHR 0x5a, CHR 0x5d, CHR 0x7b, CHR 0x33, CHR 0x2c, CHR 0x35, CHR 0x7d, CHR 0x24, CHR 0x2f])),
     (''price_scale_activation.PRICE_SCALE_MAX_DECIMALS'', ''constant'',
      JInt 8),
     (''price_scale_activation.PRICE_VALUE_RE_LEGACY'', ''constant'',
      JRegex ([CHR 0x2f, CHR 0x5e, CHR 0x5b, CHR 0x30, CHR 0x2d, CHR 0x39, CHR 0x5d, CHR 0x2b, CHR 0x28, CHR 0x5c, CHR 0x2e, CHR 0x5b, CHR 0x30, CHR 0x2d, CHR 0x39, CHR 0x5d, CHR 0x2b, CHR 0x29, CHR 0x3f, CHR 0x24, CHR 0x2f])),
     (''price_scale_activation.PRICE_VALUE_RE_CANONICAL'', ''constant'',
      JRegex ([CHR 0x2f, CHR 0x5e, CHR 0x28, CHR 0x30, CHR 0x7c, CHR 0x5b, CHR 0x31, CHR 0x2d, CHR 0x39, CHR 0x5d, CHR 0x5b, CHR 0x30, CHR 0x2d, CHR 0x39, CHR 0x5d, CHR 0x2a, CHR 0x29, CHR 0x28, CHR 0x5c, CHR 0x2e, CHR 0x5b, CHR 0x30, CHR 0x2d, CHR 0x39, CHR 0x5d, CHR 0x7b, CHR 0x31, CHR 0x2c, CHR 0x38, CHR 0x7d, CHR 0x29, CHR 0x3f, CHR 0x24, CHR 0x2f])),
     (''price_scale_activation.PRICE_V1_CANONICAL_ACTIVATION'', ''time'',
      JObj [(''mainnet'', JInt 9999999999), (''BTC:testnet'', JInt 1791061097),
        (''LTC:testnet'', JInt 1791061097), (''DOGE:testnet'', JInt 1791061097), (''testnet'',
        JInt 9999999999), (''regtest'', JInt 0)]),
     (''price_scale_activation.PRICE_V1_FEE_RE_CANONICAL'', ''constant'',
      JRegex ([CHR 0x2f, CHR 0x5e, CHR 0x28, CHR 0x30, CHR 0x7c, CHR 0x5b, CHR 0x31, CHR 0x2d, CHR 0x39, CHR 0x5d, CHR 0x5b, CHR 0x30, CHR 0x2d, CHR 0x39, CHR 0x5d, CHR 0x2a, CHR 0x29, CHR 0x28, CHR 0x5c, CHR 0x2e, CHR 0x5b, CHR 0x30, CHR 0x2d, CHR 0x39, CHR 0x5d, CHR 0x7b, CHR 0x31, CHR 0x2c, CHR 0x31, CHR 0x38, CHR 0x7d, CHR 0x29, CHR 0x3f, CHR 0x24, CHR 0x2f])),
     (''price_scale_activation.PRICE_V1_VALUE_MAX_LENGTH'', ''constant'',
      JInt 19),
     (''price_scale_activation.PRICE_V1_FEE_MAX_LENGTH'', ''constant'',
      JInt 20)]"

definition rows_2c :: "gate_call list" where
  "rows_2c =
    [
     (''price_sig_tally_activation.PRICE_SIG_TALLY_ACTIVATION'', ''height'',
      JObj [(''mainnet'', JInt 963000), (''testnet'', JInt 0), (''regtest'', JInt 0)]),
     (''retraction_signing_activation.RETRACTION_SIGNING_ACTIVATION'', ''height'',
      JObj [(''mainnet'', JInt 963000), (''testnet'', JInt 0), (''regtest'', JInt 0)]),
     (''price_fee_batch_landed_activation.PRICE_LANDING_CHAINS'', ''constant'',
      JObj [(''mainnet'', JArr [JStr ''DOGE'']), (''testnet'', JArr [JStr ''DOGE'']),
        (''regtest'', JArr [JStr ''DOGE''])])]"

definition rows_3a :: "gate_call list" where
  "rows_3a =
    [
     (''rollcall_activation.ROLLCALL_ACTIVATION'', ''epoch'',
      JObj [(''mainnet'', JInt 0), (''testnet'', JInt 151200), (''regtest'', JNull)]),
     (''rollcall_activation.ROLLCALL_REGTEST_ARMED_HEIGHT'', ''constant'',
      JInt 0),
     (''rollcall_activation.ROLLCALL_REGTEST_ENV'', ''constant'',
      JStr ''XC_ROLLCALL_REGTEST_ACTIVATION''),
     (''rollcall_activation.ROLLCALL_INTERVAL_BLOCKS'', ''constant'',
      JObj [(''mainnet'', JInt 1008), (''testnet'', JInt 1008), (''regtest'', JInt 30)]),
     (''rollcall_activation.ROLLCALL_ACCEPT_WINDOW_BLOCKS'', ''constant'',
      JObj [(''mainnet'', JInt 144), (''testnet'', JInt 144), (''regtest'', JInt 12)]),
     (''rollcall_activation.ROLLCALL_PROOF_DELAY_BLOCKS'', ''constant'',
      JObj [(''mainnet'', JInt 36), (''testnet'', JInt 36), (''regtest'', JInt 2)]),
     (''rollcall_activation.ROLLCALL_DOGE_MATURITY'', ''constant'',
      JObj [(''mainnet'', JInt 60), (''testnet'', JInt 60), (''regtest'', JInt 2)]),
     (''rollcall_activation.ROLLCALL_EVICT_MISSES'', ''constant'',
      JInt 2),
     (''rollcall_activation.ROLLCALL_STREAK_LOOKBACK'', ''constant'',
      JInt 4),
     (''rollcall_activation.ROLLCALL_REWARD_AMOUNT'', ''constant'',
      JStr ''10.00000000''),
     (''rollcall_gates_activation.ROLLCALL_GATES_ACTIVATION'', ''epoch'',
      JObj [(''mainnet'', JNull), (''testnet'', JInt 152208), (''regtest'', JNull)]),
     (''rollcall_gates_activation.ROLLCALL_GATES_REGTEST_ARMED_HEIGHT'', ''constant'',
      JInt 0),
     (''rollcall_gates_activation.ROLLCALL_GATES_REGTEST_ENV'', ''constant'',
      JStr ''XC_ROLLCALL_GATES_REGTEST_ACTIVATION''),
     (''snapshot_reorg_buffer.CANONICAL_REORG_BUFFER'', ''constant'',
      JInt 6),
     (''snapshot_reorg_buffer.SNAPSHOT_BURIAL_ACTIVATION'', ''height'',
      JObj [(''mainnet'', JInt 0), (''testnet'', JInt 0), (''regtest'', JInt 0)]),
     (''stake_weight_collation_activation.STAKE_WEIGHT_COLLATION'', ''constant'',
      JStr ''utf8_bin''),
     (''stake_weight_collation_activation.STAKE_WEIGHT_COLLATION_ACTIVATION'', ''height'',
      JObj [(''BTC:mainnet'', JInt 0), (''LTC:mainnet'', JInt 0), (''DOGE:mainnet'', JInt 0),
        (''BTC:testnet'', JInt 155001), (''LTC:testnet'', JInt 4906040), (''DOGE:testnet'',
        JInt 67962387), (''regtest'', JInt 0)]),
     (''stake_weight_collation_activation.STAKE_WEIGHT_ORDERING_COLUMNS'', ''constant'',
      JArr [JObj [(''table'', JStr ''index_addresses''), (''column'', JStr ''address''),
        (''charset'', JStr ''utf8''), (''collation'', JStr ''utf8_general_ci'')],
        JObj [(''table'', JStr ''index_pubkeys''), (''column'', JStr ''pubkey''), (''charset'',
        JStr ''utf8''), (''collation'', JStr ''utf8_general_ci'')]])]"

definition rows_3b :: "gate_call list" where
  "rows_3b =
    [
     (''stake_weighted_quorum.STAKE_WEIGHTED_QUORUM_ACTIVATION'', ''height'',
      JObj [(''mainnet'', JInt 961000), (''testnet'', JInt 0), (''regtest'', JInt 0)]),
     (''stateHash.STATE_HASH_VERSION'', ''constant'',
      JInt 1),
     (''stateHash.DEACTIVATION_TABLES'', ''constant'',
      JArr [JStr ''stakes'', JStr ''delegations'', JStr ''contract_stakes'',
        JStr ''contract_delegations'']),
     (''stateHash.SLASH_SPECS'', ''constant'',
      JArr [JObj [(''table'', JStr ''stakes''), (''debits'', JStr ''capability_slash_debits''),
        (''target'', JStr ''stakes'')], JObj [(''table'', JStr ''unstakes''), (''debits'',
        JStr ''capability_slash_debits''), (''target'', JStr ''unstakes'')], JObj [(''table'',
        JStr ''contract_stakes''), (''debits'', JStr ''contract_slash_debits''), (''target'',
        JStr ''contract_stakes'')], JObj [(''table'', JStr ''contract_unstakes''), (''debits'',
        JStr ''contract_slash_debits''), (''target'', JStr ''contract_unstakes'')]]),
     (''stateHash.REQUEST_STATUS_TABLES'', ''constant'',
      JArr [JStr ''attests'', JStr ''xcalls'']),
     (''stateHash.COOLDOWN_TABLES'', ''constant'',
      JArr [JStr ''unstakes'', JStr ''contract_unstakes'']),
     (''stateHash.POLL_FINALIZE_STATE_HASH_ACTIVATION'', ''height'',
      JObj [(''BTC:mainnet'', JInt 958500), (''LTC:mainnet'', JInt 3143000), (''DOGE:mainnet'',
        JInt 6291000), (''BTC:testnet'', JInt 145000), (''LTC:testnet'', JInt 4805000),
        (''DOGE:testnet'', JInt 67000000), (''regtest'', JInt 0)]),
     (''stateHash.TOKEN_SUPPLY_STATE_HASH_ACTIVATION'', ''height'',
      JObj [(''BTC:mainnet'', JInt 958500), (''LTC:mainnet'', JInt 3143000), (''DOGE:mainnet'',
        JInt 6291000), (''BTC:testnet'', JInt 145000), (''LTC:testnet'', JInt 4805000),
        (''DOGE:testnet'', JInt 67000000), (''regtest'', JInt 0)]),
     (''stateHash.BET_STATUS_STATE_HASH_ACTIVATION'', ''height'',
      JObj [(''BTC:mainnet'', JInt 963000), (''LTC:mainnet'', JInt 3162000), (''DOGE:mainnet'',
        JInt 6338000), (''BTC:testnet'', JInt 0), (''LTC:testnet'', JInt 0), (''DOGE:testnet'',
        JInt 0), (''regtest'', JInt 0)]),
     (''stateHash.ARCHIVE_HEAD_VERSIONS'', ''constant'',
      JArr [JInt 1]),
     (''stateHash.ARCHIVE_HEAD_VERSIONS_SQL'', ''constant'',
      JStr ''IN (1)'')]"

definition rows_4a :: "gate_call list" where
  "rows_4a =
    [
     (''stateHash.ARCHIVE_INVALID_HEIGHT_KEY_ACTIVATION'', ''height'',
      JObj [(''BTC:mainnet'', JInt 0), (''LTC:mainnet'', JInt 0), (''DOGE:mainnet'', JInt 0),
        (''BTC:testnet'', JInt 155000), (''LTC:testnet'', JInt 4896000), (''DOGE:testnet'',
        JInt 67915000), (''regtest'', JInt 0)]),
     (''stateHash.ARCHIVE_CHUNK_HEIGHT_COL'', ''constant'',
      JStr ''c.block_index_doge''),
     (''stateHash.ARCHIVE_CHUNK_HEIGHT_COL_LEGACY'', ''constant'',
      JStr ''c.block_index''),
     (''state_commitment_activation.STATE_COMMITMENT_ACTIVATION'', ''height'',
      JObj [(''BTC:mainnet'', JInt 958500), (''LTC:mainnet'', JInt 3143000), (''DOGE:mainnet'',
        JInt 6291000), (''BTC:testnet'', JInt 145000), (''LTC:testnet'', JInt 4805000),
        (''DOGE:testnet'', JInt 67000000), (''regtest'', JInt 0)]),
     (''state_key_collation_activation.STATE_KEY_COLLATION_ACTIVATION'', ''height'',
      JObj [(''BTC:mainnet'', JInt 962500), (''LTC:mainnet'', JInt 3160000), (''DOGE:mainnet'',
        JInt 6335000), (''BTC:testnet'', JInt 0), (''LTC:testnet'', JInt 0), (''DOGE:testnet'',
        JInt 0), (''regtest'', JInt 0)]),
     (''state_subtree_activation.RESERVED_SUBTREES'', ''constant'',
      JArr [JStr ''ownership_root'', JStr ''tokens_root'', JStr ''contract_state_root''])]"

definition rows_4b :: "gate_call list" where
  "rows_4b =
    [
     (''state_subtree_activation.STATE_SUBTREE_ACTIVATION'', ''constant'',
      JObj [(''ownership_root'', JObj []), (''tokens_root'', JObj []),
        (''contract_state_root'', JObj [(''BTC:regtest'', JInt 10000), (''BTC:testnet'',
        JInt 0), (''LTC:testnet'', JInt 0), (''DOGE:testnet'', JInt 0)])]),
     (''state_subtree_activation.STATE_SUBTREE_SHADOW'', ''constant'',
      JObj [(''ownership_root'', JObj []), (''tokens_root'', JObj []),
        (''contract_state_root'', JObj [])]),
     (''state_subtree_activation.ESCROW_LOCKED_LEAF_ACTIVATION'', ''height'',
      JObj [(''BTC:regtest'', JInt 11200), (''BTC:testnet'', JInt 0), (''LTC:testnet'',
        JInt 0), (''DOGE:testnet'', JInt 0)])]"

definition rows_4c :: "gate_call list" where
  "rows_4c =
    [
     (''state_subtree_activation.ESCROW_LOCKED_LEAF_SHADOW'', ''height'',
      JObj []),
     (''swq_source_cap_activation.STAKE_WEIGHT_MAX_SOURCES'', ''constant'',
      JInt 1000),
     (''swq_source_cap_activation.STAKE_WEIGHT_MAX_KEYS_PER_SOURCE'', ''constant'',
      JInt 64),
     (''swq_source_cap_activation.SWQ_SOURCE_CAP_ACTIVATION'', ''height'',
      JObj [(''BTC:mainnet'', JInt 960000), (''LTC:mainnet'', JInt 3143000), (''DOGE:mainnet'',
        JInt 6291000), (''BTC:testnet'', JInt 0), (''LTC:testnet'', JInt 0), (''DOGE:testnet'',
        JInt 0), (''regtest'', JInt 0)]),
     (''token_bridge_activation.TOKEN_BRIDGE_ACTIVATION'', ''height'',
      JObj [(''mainnet'', JInt 9999999999), (''BTC:testnet'', JInt 154567), (''LTC:testnet'',
        JInt 4903068), (''DOGE:testnet'', JInt 67951140), (''testnet'', JInt 9999999999),
        (''regtest'', JInt 0)])]"

definition rows_5a :: "gate_call list" where
  "rows_5a =
    [
     (''token_policy_activation.TOKEN_POLICY_INHERITANCE_ACTIVATION'', ''height'',
      JObj [(''mainnet'', JInt 9999999999), (''BTC:testnet'', JInt 154567), (''LTC:testnet'',
        JInt 4903068), (''DOGE:testnet'', JInt 67951140), (''testnet'', JInt 9999999999),
        (''regtest'', JInt 0)]),
     (''train_activation.TRAIN_ACTIVATION'', ''ruleset'',
      JObj [(''1.0.0'', JObj [(''mainnet'', JInt 0), (''testnet'', JInt 0), (''regtest'',
        JInt 0)]), (''0.19.0'', JObj [(''mainnet'', JInt 9999999999), (''testnet'',
        JInt 152787), (''regtest'', JInt 0)]), (''0.20.0'', JObj [(''mainnet'',
        JInt 9999999999), (''testnet'', JInt 154074), (''regtest'', JInt 0)]), (''0.21.0'',
        JObj [(''mainnet'', JInt 9999999999), (''testnet'', JInt 154566), (''regtest'',
        JInt 0)])]),
     (''xchain_bridge_activation.XCHAIN_BRIDGE_ACTIVATION'', ''height'',
      JObj [(''BTC:mainnet'', JInt 9999999999), (''LTC:mainnet'', JInt 9999999999),
        (''DOGE:mainnet'', JInt 9999999999), (''mainnet'', JInt 9999999999), (''BTC:testnet'',
        JInt 152929), (''LTC:testnet'', JInt 4887898), (''DOGE:testnet'', JInt 67902062),
        (''testnet'', JInt 9999999999), (''regtest'', JInt 0)]),
     (''anchor_empty_fold_reject_activation.ANCHOR_EMPTY_FOLD_REJECT_ACTIVATION'', ''height'',
      JObj [(''mainnet'', JInt 9999999999), (''BTC:testnet'', JInt 156230), (''LTC:testnet'',
        JInt 4912984), (''DOGE:testnet'', JInt 67989993), (''testnet'', JInt 9999999999),
        (''regtest'', JInt 0)])]"

definition rows_5b :: "gate_call list" where
  "rows_5b =
    [
     (''cooldown_maturity_escrow_reversal_activation.COOLDOWN_MATURITY_ESCROW_REVERSAL_ACTIVATION'', ''height'',
      JObj [(''mainnet'', JInt 9999999999), (''BTC:testnet'', JInt 156230), (''LTC:testnet'',
        JInt 4912984), (''DOGE:testnet'', JInt 67989993), (''testnet'', JInt 9999999999),
        (''regtest'', JInt 0)]),
     (''dispenser_refill_policy_activation.DISPENSER_REFILL_POLICY_ACTIVATION'', ''height'',
      JObj [(''mainnet'', JInt 9999999999), (''BTC:testnet'', JInt 156230), (''LTC:testnet'',
        JInt 4912984), (''DOGE:testnet'', JInt 67989993), (''testnet'', JInt 9999999999),
        (''regtest'', JInt 0)]),
     (''anchor_fold_activation.ANCHOR_FOLD_ACTIVATION'', ''height'',
      JObj [(''mainnet'', JInt 9999999999), (''BTC:testnet'', JInt 155001), (''LTC:testnet'',
        JInt 4906040), (''DOGE:testnet'', JInt 67962387), (''testnet'', JInt 9999999999),
        (''regtest'', JNull)]),
     (''archive_rollcall_presence_activation.ARCHIVE_ROLLCALL_PRESENCE_ACTIVATION'', ''height'',
      JObj [(''mainnet'', JNull), (''BTC:testnet'', JInt 158557), (''LTC:testnet'',
        JInt 4949697), (''DOGE:testnet'', JInt 68035864), (''testnet'', JInt 9999999999),
        (''regtest'', JInt 0)]),
     (''archive_section_verdict_activation.ARCHIVE_SECTION_VERDICT_STATE_HASH_ACTIVATION'', ''height'',
      JObj [(''mainnet'', JInt 9999999999), (''BTC:testnet'', JInt 155001), (''LTC:testnet'',
        JInt 4906040), (''DOGE:testnet'', JInt 67962387), (''testnet'', JInt 9999999999),
        (''regtest'', JNull)]),
     (''attest_relay_response_deadline_activation.ATTEST_RELAY_RESPONSE_DEADLINE_ACTIVATION'', ''time'',
      JObj [(''mainnet'', JInt 9999999999), (''BTC:testnet'', JInt 1791804379),
        (''LTC:testnet'', JInt 1791804379), (''DOGE:testnet'', JInt 1791804379), (''testnet'',
        JInt 1791804379), (''regtest'', JInt 0)]),
     (''bridge_row_fields_terminal_activation.BRIDGE_ROW_FIELDS_TERMINAL_ACTIVATION'', ''height'',
      JObj [(''mainnet'', JInt 9999999999), (''BTC:testnet'', JInt 156230), (''LTC:testnet'',
        JInt 4912984), (''DOGE:testnet'', JInt 67989993), (''testnet'', JInt 9999999999),
        (''regtest'', JInt 0)]),
     (''checkpoint_supersede_activation.CHECKPOINT_SUPERSEDE_ACTIVATION'', ''height'',
      JObj [(''mainnet'', JNull), (''BTC:testnet'', JInt 158557), (''LTC:testnet'',
        JInt 4949697), (''DOGE:testnet'', JInt 68035864), (''testnet'', JInt 9999999999),
        (''regtest'', JInt 0)]),
     (''list_share_producer_activation.LIST_SHARE_PRODUCER_ACTIVATION'', ''height'',
      JObj [(''mainnet'', JInt 9999999999), (''testnet'', JInt 154777), (''regtest'', JInt 0)]),
     (''list_share_consumer_activation.LIST_SHARE_CONSUMER_ACTIVATION'', ''height'',
      JObj [(''mainnet'', JInt 9999999999), (''testnet'', JInt 9999999999), (''BTC:testnet'',
        JInt 154777), (''LTC:testnet'', JInt 4905004), (''DOGE:testnet'', JInt 67956922),
        (''regtest'', JInt 0)]),
     (''list_meta_activation.LIST_META_ACTIVATION'', ''height'',
      JObj [(''mainnet'', JInt 9999999999), (''testnet'', JInt 9999999999), (''BTC:testnet'',
        JInt 155001), (''LTC:testnet'', JInt 4906040), (''DOGE:testnet'', JInt 67962387),
        (''regtest'', JInt 0)]),
     (''mirror_admission_margin_activation.ADMIT_CHAIN_MARGIN_BLOCKS'', ''constant'',
      JObj [(''DOGE'', JObj [(''bridge_transfers'', JInt 14), (''cross_chain_calls'', JInt 14),
        (''cross_chain_matches'', JInt 14), (''list_snapshots'', JInt 14),
        (''policy_snapshots'', JInt 14), (''price_snapshots'', JInt 16),
        (''remote_token_snapshots'', JInt 14)]), (''LTC'', JObj [(''bridge_transfers'',
        JInt 14), (''cross_chain_calls'', JInt 14), (''cross_chain_matches'', JInt 14),
        (''list_snapshots'', JInt 14), (''policy_snapshots'', JInt 14), (''price_snapshots'',
        JInt 17), (''remote_token_snapshots'', JInt 14)])]),
     (''mirror_admission_margin_activation.ADMIT_CHAIN_MARGIN_ACTIVATION'', ''height'',
      JObj [(''mainnet'', JNull), (''DOGE:mainnet'', JNull), (''DOGE:testnet'', JInt 67989993),
        (''LTC:mainnet'', JNull), (''LTC:testnet'', JInt 4949697), (''regtest'', JInt 0)]),
     (''oracle_price_age_hourly_activation.ORACLE_PRICE_AGE_HOURLY_ACTIVATION'', ''height'',
      JObj [(''mainnet'', JInt 9999999999), (''testnet'', JInt 9999999999), (''BTC:testnet'',
        JInt 154778), (''LTC:testnet'', JInt 4905005), (''DOGE:testnet'', JInt 67956923),
        (''regtest'', JInt 0)]),
     (''oracle_hourly_window_activation.ORACLE_HOURLY_WINDOW_FIRST_ROUND'', ''constant'',
      JObj [(''mainnet'', JInt 9999999999), (''testnet'', JInt 5082), (''regtest'', JInt 0)])]"

definition rows_5c :: "gate_call list" where
  "rows_5c =
    [
     (''oracle_round_time_activation.ORACLE_ROUND_TIME_ACTIVATION'', ''height'',
      JObj [(''mainnet'', JInt 9999999999), (''testnet'', JInt 9999999999), (''BTC:testnet'',
        JInt 155158), (''LTC:testnet'', JInt 4907593), (''DOGE:testnet'', JInt 67966647),
        (''regtest'', JInt 0)]),
     (''order_match_price_cross_activation.ORDER_MATCH_PRICE_CROSS_ACTIVATION'', ''height'',
      JObj [(''mainnet'', JInt 9999999999), (''BTC:testnet'', JInt 156908), (''LTC:testnet'',
        JInt 4927400), (''DOGE:testnet'', JInt 68005165), (''testnet'', JInt 156908),
        (''regtest'', JInt 0)]),
     (''remote_token_admission_activation.REMOTE_TOKEN_ADMISSION_ACTIVATION'', ''height'',
      JObj [(''mainnet'', JInt 9999999999), (''BTC:testnet'', JInt 156908), (''LTC:testnet'',
        JInt 4927400), (''DOGE:testnet'', JInt 68005165), (''testnet'', JInt 156908),
        (''regtest'', JNull)]),
     (''stateHash.ATTEST_BATCH_HEAD_STATE_HASH_ACTIVATION'', ''height'',
      JObj [(''mainnet'', JInt 9999999999), (''BTC:testnet'', JInt 156230), (''LTC:testnet'',
        JInt 4912984), (''DOGE:testnet'', JInt 67989993), (''testnet'', JInt 9999999999),
        (''regtest'', JInt 0)])]"

definition queued :: "gate_call list" where
  "queued = rows_1a @ rows_1b @ rows_1c @ rows_1d @ rows_2a @ rows_2b @ rows_2c @ rows_3a @ rows_3b @ rows_4a @ rows_4b @ rows_4c @ rows_5a @ rows_5b @ rows_5c"

lemmas queued_rows = rows_1a_def rows_1b_def rows_1c_def rows_1d_def rows_2a_def rows_2b_def rows_2c_def rows_3a_def rows_3b_def rows_4a_def rows_4b_def rows_4c_def rows_5a_def rows_5b_def rows_5c_def

section \<open>Regtest arming\<close>

record arming_rule =
  ar_env :: string
  ar_label :: string
  ar_height :: int
  ar_keys :: "string list"

definition REGTEST_ARMING :: "(string \<times> arming_rule) list" where
  "REGTEST_ARMING =
    [
     (''anchor_fold_activation.ANCHOR_FOLD_ACTIVATION'',
      \<lparr>ar_env = ''XC_ANCHOR_FOLD_REGTEST_ACTIVATION'', ar_label = ''ANCHOR FOLD'', ar_height = 0,
       ar_keys = [''regtest'']\<rparr>),
     (''archive_section_verdict_activation.ARCHIVE_SECTION_VERDICT_STATE_HASH_ACTIVATION'',
      \<lparr>ar_env = ''XC_ANCHOR_FOLD_REGTEST_ACTIVATION'', ar_label = ''ANCHOR FOLD'', ar_height = 0,
       ar_keys = [''regtest'']\<rparr>),
     (''anchor_bundle_order_activation.ANCHOR_BUNDLE_ORDER_ACTIVATION'',
      \<lparr>ar_env = ''XC_ANCHOR_STAKE_REGTEST_ACTIVATION'', ar_label = ''ANCHOR STAKE'', ar_height = 0,
       ar_keys = [''regtest'']\<rparr>),
     (''archive_match_count_activation.ARCHIVE_MATCH_COUNT_ACTIVATION'',
      \<lparr>ar_env = ''XC_ANCHOR_STAKE_REGTEST_ACTIVATION'', ar_label = ''ANCHOR STAKE'', ar_height = 0,
       ar_keys = [''regtest'']\<rparr>),
     (''stake_weight_collation_activation.STAKE_WEIGHT_COLLATION_ACTIVATION'',
      \<lparr>ar_env = ''XC_ANCHOR_STAKE_REGTEST_ACTIVATION'', ar_label = ''ANCHOR STAKE'', ar_height = 0,
       ar_keys = [''regtest'']\<rparr>),
     (''slash_grid_activation.SLASH_GRID_ACTIVATION'',
      \<lparr>ar_env = ''XC_ANCHOR_SLASH_REGTEST_ACTIVATION'', ar_label = ''ANCHOR SLASH'', ar_height = 0,
       ar_keys = [''regtest'']\<rparr>),
     (''slash_ledger_consolidation_activation.SLASH_LEDGER_CONSOLIDATION_ACTIVATION'',
      \<lparr>ar_env = ''XC_ANCHOR_SLASH_REGTEST_ACTIVATION'', ar_label = ''ANCHOR SLASH'', ar_height = 0,
       ar_keys = [''regtest'']\<rparr>),
     (''rollcall_activation.ROLLCALL_ACTIVATION'',
      \<lparr>ar_env = ''XC_ROLLCALL_REGTEST_ACTIVATION'', ar_label = ''ROLLCALL'', ar_height = 0,
       ar_keys = [''regtest'']\<rparr>),
     (''rollcall_gates_activation.ROLLCALL_GATES_ACTIVATION'',
      \<lparr>ar_env = ''XC_ROLLCALL_GATES_REGTEST_ACTIVATION'', ar_label = ''ROLLCALL gates'', ar_height = 0,
       ar_keys = [''regtest'']\<rparr>),
     (''mirror_admission_activation.MIRROR_ADMISSION_ACTIVATION'',
      \<lparr>ar_env = ''XC_MIRROR_ADMISSION_ACTIVATION'', ar_label = ''MIRROR ADMISSION'', ar_height = 0,
       ar_keys = [''BTC:regtest'', ''LTC:regtest'', ''DOGE:regtest'']\<rparr>),
     (''mirror_admission_activation.MIRROR_ADMISSION_CONSUMER_ACTIVATION'',
      \<lparr>ar_env = ''XC_MIRROR_ADMISSION_ACTIVATION'', ar_label = ''MIRROR ADMISSION'', ar_height = 0,
       ar_keys = [''BTC:regtest'', ''LTC:regtest'', ''DOGE:regtest'']\<rparr>),
     (''anchor_reward_activation.ANCHOR_ATTEST_BARRIER_ACTIVATION'',
      \<lparr>ar_env = ''XC_MIRROR_ADMISSION_ACTIVATION'', ar_label = ''MIRROR ADMISSION'', ar_height = 0,
       ar_keys = [''regtest'']\<rparr>),
     (''dispenser_send_amount_compare_activation.DISPENSER_SEND_AMOUNT_COMPARE_ACTIVATION'',
      \<lparr>ar_env = ''XC_AMOUNTS_PRICE_REGTEST_ACTIVATION'', ar_label = ''AMOUNTS PRICE'', ar_height = 0,
       ar_keys = [''regtest'']\<rparr>),
     (''price_fee_batch_landed_activation.PRICE_FEE_BATCH_LANDED_ACTIVATION'',
      \<lparr>ar_env = ''XC_AMOUNTS_PRICE_REGTEST_ACTIVATION'', ar_label = ''AMOUNTS PRICE'', ar_height = 0,
       ar_keys = [''regtest'']\<rparr>),
     (''amount_representability_activation.AMOUNT_REPRESENTABILITY_ACTIVATION'',
      \<lparr>ar_env = ''XC_AMOUNTS_PRICE_REGTEST_TIME'', ar_label = ''AMOUNTS PRICE TIME'', ar_height = 0,
       ar_keys = [''regtest'']\<rparr>),
     (''vote_callback_binding_activation.VOTE_CALLBACK_BINDING_REQUIRES_USABLE_METHOD'',
      \<lparr>ar_env = ''XC_CONTRACTS_REGTEST_ACTIVATION'', ar_label = ''CONTRACTS'', ar_height = 0,
       ar_keys = [''regtest'']\<rparr>),
     (''list_owner_activation.LIST_OWNER_ACTIVATION'',
      \<lparr>ar_env = ''XC_LISTS_MARKET_REGTEST_ACTIVATION'', ar_label = ''LISTS MARKET'', ar_height = 0,
       ar_keys = [''regtest'']\<rparr>),
     (''empty_allow_list_denies_activation.EMPTY_ALLOW_LIST_DENIES'',
      \<lparr>ar_env = ''XC_LISTS_MARKET_REGTEST_ACTIVATION'', ar_label = ''LISTS MARKET'', ar_height = 0,
       ar_keys = [''regtest'']\<rparr>),
     (''swap_edit_rematch_activation.SWAP_EDIT_REMATCH_ACTIVATION'',
      \<lparr>ar_env = ''XC_LISTS_MARKET_REGTEST_ACTIVATION'', ar_label = ''LISTS MARKET'', ar_height = 0,
       ar_keys = [''regtest'']\<rparr>),
     (''token_gate_list_at_block.TOKEN_GATE_LIST_AT_BLOCK'',
      \<lparr>ar_env = ''XC_LISTS_MARKET_REGTEST_ACTIVATION'', ar_label = ''LISTS MARKET'', ar_height = 0,
       ar_keys = [''regtest'']\<rparr>),
     (''list_reference_validity_activation.LIST_REFERENCE_REQUIRES_VALID_LIST'',
      \<lparr>ar_env = ''XC_LISTS_MARKET_REGTEST_ACTIVATION'', ar_label = ''LISTS MARKET'', ar_height = 0,
       ar_keys = [''regtest'']\<rparr>),
     (''list_head_follows_edit_chain.LIST_HEAD_FOLLOWS_EDIT_CHAIN'',
      \<lparr>ar_env = ''XC_LISTS_MARKET_REGTEST_ACTIVATION'', ar_label = ''LISTS MARKET'', ar_height = 0,
       ar_keys = [''regtest'']\<rparr>),
     (''order_swap_maker_policy_admission.ORDER_SWAP_MAKER_POLICY_ADMISSION'',
      \<lparr>ar_env = ''XC_LISTS_MARKET_REGTEST_ACTIVATION'', ar_label = ''LISTS MARKET'', ar_height = 0,
       ar_keys = [''regtest'']\<rparr>),
     (''order_swap_payout_policy_activation.ORDER_SWAP_PAYOUT_POLICY_PER_TOKEN'',
      \<lparr>ar_env = ''XC_LISTS_MARKET_REGTEST_ACTIVATION'', ar_label = ''LISTS MARKET'', ar_height = 0,
       ar_keys = [''regtest'']\<rparr>),
     (''issue_policy_list_detach.ISSUE_POLICY_LIST_DETACH'',
      \<lparr>ar_env = ''XC_LISTS_MARKET_REGTEST_ACTIVATION'', ar_label = ''LISTS MARKET'', ar_height = 0,
       ar_keys = [''regtest'']\<rparr>),
     (''bridge_policy_detach_activation.BRIDGE_POLICY_DETACH'',
      \<lparr>ar_env = ''XC_LISTS_MARKET_REGTEST_ACTIVATION'', ar_label = ''LISTS MARKET'', ar_height = 0,
       ar_keys = [''regtest'']\<rparr>),
     (''callback_compensation_activation.CALLBACK_COMPENSATES_EVERY_DEBITED_HOLDER'',
      \<lparr>ar_env = ''XC_LISTS_MARKET_REGTEST_ACTIVATION'', ar_label = ''LISTS MARKET'', ar_height = 0,
       ar_keys = [''regtest'']\<rparr>),
     (''dispenser_settlement_price_activation.DISPENSER_SETTLEMENT_PRICE_ACTIVATION'',
      \<lparr>ar_env = ''XC_LISTS_MARKET_REGTEST_TIME'', ar_label = ''LISTS MARKET TIME'', ar_height = 0,
       ar_keys = [''regtest'']\<rparr>),
     (''dispenser_freshness_proven_use_activation.DISPENSER_FRESHNESS_PROVEN_USE_ACTIVATION'',
      \<lparr>ar_env = ''XC_LISTS_MARKET_REGTEST_TIME'', ar_label = ''LISTS MARKET TIME'', ar_height = 0,
       ar_keys = [''regtest'']\<rparr>),
     (''list_edit_remove_activation.LIST_EDIT_REMOVE_ACTIVATION'',
      \<lparr>ar_env = ''XC_LISTS_MARKET_REGTEST_TIME'', ar_label = ''LISTS MARKET TIME'', ar_height = 0,
       ar_keys = [''regtest'']\<rparr>),
     (''remote_token_admission_activation.REMOTE_TOKEN_ADMISSION_ACTIVATION'',
      \<lparr>ar_env = ''XC_REMOTE_TOKEN_ADMISSION_REGTEST_ACTIVATION'', ar_label = ''REMOTE TOKEN ADMISSION'', ar_height = 0,
       ar_keys = [''regtest'']\<rparr>),
     (''pass_progress_retirement_activation.PASS_PROGRESS_RETIREMENT_ACTIVATION'',
      \<lparr>ar_env = ''XC_PASS_PROGRESS_RETIREMENT_REGTEST_ACTIVATION'', ar_label = ''PASS PROGRESS RETIREMENT'', ar_height = 0,
       ar_keys = [''regtest'']\<rparr>),
     (''slash_historical_set_activation.SLASH_HISTORICAL_SET_ACTIVATION'',
      \<lparr>ar_env = ''XC_SLASH_HISTORICAL_SET_REGTEST_ACTIVATION'', ar_label = ''SLASH HISTORICAL SET'', ar_height = 0,
       ar_keys = [''regtest'']\<rparr>),
     (''anchor_reward_copy_selection_activation.ANCHOR_REWARD_COPY_SELECTION_ACTIVATION'',
      \<lparr>ar_env = ''XC_ANCHOR_REWARD_COPY_SELECTION_REGTEST_ACTIVATION'', ar_label = ''ANCHOR REWARD COPY SELECTION'', ar_height = 0,
       ar_keys = [''regtest'']\<rparr>),
     (''token_supply_representation_activation.TOKEN_SUPPLY_REPRESENTATION_ACTIVATION'',
      \<lparr>ar_env = ''XC_TOKEN_SUPPLY_REPRESENTATION_REGTEST_ACTIVATION'', ar_label = ''TOKEN SUPPLY REPRESENTATION'', ar_height = 0,
       ar_keys = [''regtest'']\<rparr>),
     (''dispenser_fiat_pricing_activation.DISPENSER_FIAT_PRICING_ACTIVATION'',
      \<lparr>ar_env = ''XC_DISPENSER_FIAT_PRICING_REGTEST_ACTIVATION'', ar_label = ''DISPENSER FIAT PRICING'', ar_height = 0,
       ar_keys = [''regtest'']\<rparr>),
     (''bridge_policy_apply_order_activation.BRIDGE_POLICY_APPLY_ORDER_ACTIVATION'',
      \<lparr>ar_env = ''XC_BRIDGE_POLICY_APPLY_ORDER_REGTEST_ACTIVATION'', ar_label = ''BRIDGE POLICY APPLY ORDER'', ar_height = 0,
       ar_keys = [''regtest'']\<rparr>),
     (''vm_emission_amount_format_activation.VM_EMISSION_AMOUNT_FORMAT_ACTIVATION'',
      \<lparr>ar_env = ''XC_VM_EMISSION_AMOUNT_FORMAT_REGTEST_ACTIVATION'', ar_label = ''VM EMISSION AMOUNT FORMAT'', ar_height = 0,
       ar_keys = [''regtest'']\<rparr>),
     (''execute_fee_cap_activation.EXECUTE_FEE_CAP_ACTIVATION'',
      \<lparr>ar_env = ''XC_EXECUTE_FEE_CAP_REGTEST_ACTIVATION'', ar_label = ''EXECUTE FEE CAP'', ar_height = 0,
       ar_keys = [''regtest'']\<rparr>),
     (''vote_v3_tick_existence_activation.VOTE_V3_TICK_EXISTENCE_ACTIVATION'',
      \<lparr>ar_env = ''XC_VOTE_V3_TICK_EXISTENCE_REGTEST_ACTIVATION'', ar_label = ''VOTE V3 TICK EXISTENCE'', ar_height = 0,
       ar_keys = [''regtest'']\<rparr>),
     (''match_origin_open_activation.MATCH_ORIGIN_OPEN_ACTIVATION'',
      \<lparr>ar_env = ''XC_MATCH_ORIGIN_OPEN_REGTEST_ACTIVATION'', ar_label = ''MATCH ORIGIN OPEN'', ar_height = 0,
       ar_keys = [''regtest'']\<rparr>),
     (''match_equal_price_oldest_first_activation.MATCH_EQUAL_PRICE_OLDEST_FIRST'',
      \<lparr>ar_env = ''XC_MATCH_EQUAL_PRICE_OLDEST_FIRST_REGTEST_ACTIVATION'', ar_label = ''MATCH EQUAL PRICE OLDEST FIRST'', ar_height = 0,
       ar_keys = [''regtest'']\<rparr>),
     (''reassemble_chunk_parent_status_activation.REASSEMBLE_CHUNK_PARENT_STATUS_ACTIVATION'',
      \<lparr>ar_env = ''XC_REASSEMBLE_CHUNK_PARENT_STATUS_REGTEST_ACTIVATION'', ar_label = ''REASSEMBLE CHUNK PARENT STATUS'', ar_height = 0,
       ar_keys = [''regtest'']\<rparr>),
     (''unstake_delegated_row_journal_activation.UNSTAKE_DELEGATED_ROW_JOURNAL_ACTIVATION'',
      \<lparr>ar_env = ''XC_UNSTAKE_DELEGATED_ROW_JOURNAL_REGTEST_ACTIVATION'', ar_label = ''UNSTAKE DELEGATED ROW JOURNAL'', ar_height = 0,
       ar_keys = [''regtest'']\<rparr>),
     (''anchor_checkpoint_seq_bind_activation.ANCHOR_CHECKPOINT_SEQ_BIND_ACTIVATION'',
      \<lparr>ar_env = ''XC_ANCHOR_CHECKPOINT_SEQ_BIND_REGTEST_ACTIVATION'', ar_label = ''ANCHOR CHECKPOINT SEQ BIND'', ar_height = 0,
       ar_keys = [''regtest'']\<rparr>),
     (''dividend_empty_allow_list_denies_activation.DIVIDEND_EMPTY_ALLOW_LIST_DENIES_ACTIVATION'',
      \<lparr>ar_env = ''XC_DIVIDEND_EMPTY_ALLOW_LIST_DENIES_REGTEST_ACTIVATION'', ar_label = ''DIVIDEND EMPTY ALLOW LIST DENIES'', ar_height = 0,
       ar_keys = [''regtest'']\<rparr>),
     (''airdrop_zero_legs_omitted_activation.AIRDROP_ZERO_LEGS_OMITTED_ACTIVATION'',
      \<lparr>ar_env = ''XC_AIRDROP_ZERO_LEGS_OMITTED_REGTEST_ACTIVATION'', ar_label = ''AIRDROP ZERO LEGS OMITTED'', ar_height = 0,
       ar_keys = [''regtest'']\<rparr>),
     (''tick_normalize_activation.TICK_NORMALIZE_ACTIVATION'',
      \<lparr>ar_env = ''XC_TICK_NORMALIZE_REGTEST_ACTIVATION'', ar_label = ''TICK NORMALIZE'', ar_height = 0,
       ar_keys = [''regtest'']\<rparr>)]"

text \<open>The variables that have a reader; each reader reads the variable of its own name.\<close>

definition ENV_READERS :: "string list" where
  "ENV_READERS =
    [''XC_ANCHOR_FOLD_REGTEST_ACTIVATION'',
     ''XC_ANCHOR_STAKE_REGTEST_ACTIVATION'',
     ''XC_ANCHOR_SLASH_REGTEST_ACTIVATION'',
     ''XC_ROLLCALL_REGTEST_ACTIVATION'',
     ''XC_ROLLCALL_GATES_REGTEST_ACTIVATION'',
     ''XC_MIRROR_ADMISSION_ACTIVATION'',
     ''XC_AMOUNTS_PRICE_REGTEST_ACTIVATION'',
     ''XC_AMOUNTS_PRICE_REGTEST_TIME'',
     ''XC_CONTRACTS_REGTEST_ACTIVATION'',
     ''XC_LISTS_MARKET_REGTEST_ACTIVATION'',
     ''XC_LISTS_MARKET_REGTEST_TIME'',
     ''XC_REMOTE_TOKEN_ADMISSION_REGTEST_ACTIVATION'',
     ''XC_PASS_PROGRESS_RETIREMENT_REGTEST_ACTIVATION'',
     ''XC_SLASH_HISTORICAL_SET_REGTEST_ACTIVATION'',
     ''XC_ANCHOR_REWARD_COPY_SELECTION_REGTEST_ACTIVATION'',
     ''XC_TOKEN_SUPPLY_REPRESENTATION_REGTEST_ACTIVATION'',
     ''XC_DISPENSER_FIAT_PRICING_REGTEST_ACTIVATION'',
     ''XC_BRIDGE_POLICY_APPLY_ORDER_REGTEST_ACTIVATION'',
     ''XC_VM_EMISSION_AMOUNT_FORMAT_REGTEST_ACTIVATION'',
     ''XC_EXECUTE_FEE_CAP_REGTEST_ACTIVATION'',
     ''XC_VOTE_V3_TICK_EXISTENCE_REGTEST_ACTIVATION'',
     ''XC_MATCH_ORIGIN_OPEN_REGTEST_ACTIVATION'',
     ''XC_MATCH_EQUAL_PRICE_OLDEST_FIRST_REGTEST_ACTIVATION'',
     ''XC_REASSEMBLE_CHUNK_PARENT_STATUS_REGTEST_ACTIVATION'',
     ''XC_UNSTAKE_DELEGATED_ROW_JOURNAL_REGTEST_ACTIVATION'',
     ''XC_ANCHOR_CHECKPOINT_SEQ_BIND_REGTEST_ACTIVATION'',
     ''XC_DIVIDEND_EMPTY_ALLOW_LIST_DENIES_REGTEST_ACTIVATION'',
     ''XC_AIRDROP_ZERO_LEGS_OMITTED_REGTEST_ACTIVATION'',
     ''XC_TICK_NORMALIZE_REGTEST_ACTIVATION'']"

end
