(* ===== verification/GateRegistry.thy ===== *)
theory GateRegistry
  imports GateRows Wire
begin

text \<open>
  The activation registry: \<open>src/consensus/gate_registry/core.js\<close> (registration checks, reads through
  the overlay, \<open>activeAt\<close>), the regtest arming of \<open>regtest_env.js\<close> and \<open>shared_rows.js\<close>, and the entry
  \<open>src/consensus/gate_registry.js\<close> that registers the shipped rows.

  The environment is a function from variable names to raw values (\<open>JUndef\<close> when unset), given at
  every read because the code reads it at every read. Process warnings are not modelled.
\<close>

section \<open>Registration\<close>

datatype reg_error =
    BadKey
  | DuplicateKey
  | BadUnit
  | BadTable
  | BadValue
  | RegistryMiss
  | UnsupportedUnit
  | NoReader

definition UNITS :: "string list" where
  "UNITS = [''height'', ''time'', ''epoch'', ''ruleset'', ''constant'']"

record gate_row =
  g_unit :: string
  g_value :: jsval

type_synonym gate_entries = "(string \<times> gate_row) list"

text \<open>The key grammar \<open>/^[A-Za-z0-9_/-]+(\.[A-Za-z0-9_]+)+$/\<close>.\<close>

definition is_word_char :: "char \<Rightarrow> bool" where
  "is_word_char c = (let n = of_char c :: nat in
     (48 \<le> n \<and> n \<le> 57) \<or> (65 \<le> n \<and> n \<le> 90) \<or> (97 \<le> n \<and> n \<le> 122) \<or> n = 95)"

lemma is_word_char_code [code]:
  "is_word_char (Char b0 b1 b2 b3 b4 b5 b6 b7) =
    (\<not> b7 \<and> (if b6 then (b0 \<or> b1 \<or> b2 \<or> b3 \<or> b4) \<and> \<not> (b4 \<and> b3 \<and> (b2 \<or> (b1 \<and> b0))) \<or>
                          (b0 \<and> b1 \<and> b2 \<and> b3 \<and> b4 \<and> \<not> b5)
              else b5 \<and> b4 \<and> \<not> (b3 \<and> (b2 \<or> b1))))"
  by (cases b0; cases b1; cases b2; cases b3; cases b4; cases b5; cases b6; cases b7)
     (simp_all add: is_word_char_def of_char_def horner_sum_bit_eq_take_bit of_bool_def)

definition checkKey :: "string \<Rightarrow> bool" where
  "checkKey k =
     (case split_on (CHR ''.'') k of
        stem # rest \<Rightarrow>
          stem \<noteq> [] \<and> list_all (\<lambda>c. is_word_char c \<or> c = CHR ''/'' \<or> c = CHR ''-'') stem \<and>
          rest \<noteq> [] \<and> list_all (\<lambda>p. p \<noteq> [] \<and> list_all is_word_char p) rest
      | [] \<Rightarrow> False)"

fun finite_number :: "jsval \<Rightarrow> bool" where
  "finite_number (JInt i) = True"
| "finite_number (JFloat s) = (s \<notin> {''NaN'', ''Infinity'', ''-Infinity''})"
| "finite_number _ = False"

text \<open>A table of thresholds: a finite number or \<open>UNPI2ED\<close> per network.\<close>

fun leaf_ok :: "jsval \<Rightarrow> bool" where
  "leaf_ok (JObj kvs) = list_all (\<lambda>(network, v). v = JNull \<or> finite_number v) kvs"
| "leaf_ok _ = False"

fun checkTable :: "string \<Rightarrow> jsval \<Rightarrow> bool" where
  "checkTable u (JObj kvs) =
     list_all leaf_ok (if u = ''ruleset'' then map snd kvs else [JObj kvs])"
| "checkTable u _ = False"

text \<open>What the fingerprint can serialise: no BigInt, no non-finite number, no \<open>undefined\<close> but as a property.\<close>

fun checkValue :: "jsval \<Rightarrow> bool" and checkValues :: "jsval list \<Rightarrow> bool"
  and checkProps :: "(string \<times> jsval) list \<Rightarrow> bool" where
  "checkValue JNull = True"
| "checkValue (JBool b) = True"
| "checkValue (JStr s) = True"
| "checkValue (JInt i) = True"
| "checkValue (JFloat s) = finite_number (JFloat s)"
| "checkValue (JRegex r) = True"
| "checkValue (JArr xs) = checkValues xs"
| "checkValue (JObj kvs) = checkProps kvs"
| "checkValue JUndef = False"
| "checkValue (JBig i) = False"
| "checkValues [] = True"
| "checkValues (x # xs) = (checkValue x \<and> checkValues xs)"
| "checkProps [] = True"
| "checkProps ((k, v) # kvs) = ((v = JUndef \<or> checkValue v) \<and> checkProps kvs)"

definition addGate :: "gate_entries \<Rightarrow> gate_call \<Rightarrow> reg_error + gate_entries" where
  "addGate es c =
     (case c of (k, u, t) \<Rightarrow>
        if \<not> checkKey k then Inl BadKey
        else if map_of es k \<noteq> None then Inl DuplicateKey
        else if u \<notin> set UNITS then Inl BadUnit
        else if u \<noteq> ''constant'' \<and> \<not> checkTable u t then Inl BadTable
        else if \<not> checkValue t then Inl BadValue
        else Inr (es @ [(k, \<lparr>g_unit = u, g_value = t\<rparr>)]))"

fun addGates :: "gate_entries \<Rightarrow> gate_call list \<Rightarrow> reg_error + gate_entries" where
  "addGates es [] = Inr es"
| "addGates es (c # cs) = try_bind (addGate es c) (\<lambda>es'. addGates es' cs)"

text \<open>\<open>registerRows\<close>: the queued rows, in order; the overlay it installs is \<open>armAtRead\<close> below.\<close>

definition registerRows :: "reg_error + gate_entries" where
  "registerRows = addGates [] queued"

section \<open>Regtest arming\<close>

definition regtestHeight :: "jsval \<Rightarrow> int \<Rightarrow> int option" where
  "regtestHeight raw armedHeight =
     (if is_nullish raw then None
      else
        (let s = ascii_lower (js_trim (js_string raw)) in
         if s \<in> set [[], ''off'', ''inert'', ''false'', ''no'', ''none''] then None
         else if s \<in> set [''armed'', ''genesis'', ''on'', ''true'', ''yes''] then Some armedHeight
         else if all_digits s then Some (int (nat_of_digits s))
         else None))"

definition readRuleEnv :: "arming_rule \<Rightarrow> (string \<Rightarrow> jsval) \<Rightarrow> reg_error + jsval" where
  "readRuleEnv rule env = (if ar_env rule \<in> set ENV_READERS then Inr (env (ar_env rule)) else Inl NoReader)"

text \<open>\<open>Object.assign({}, table)\<close> of a value that is not an object is the empty object.\<close>

definition obj_props :: "jsval \<Rightarrow> (string \<times> jsval) list" where
  "obj_props v = (case v of JObj kvs \<Rightarrow> kvs | _ \<Rightarrow> [])"

definition armed :: "arming_rule \<Rightarrow> jsval \<Rightarrow> jsval \<Rightarrow> jsval" where
  "armed rule table raw =
     (case regtestHeight raw (ar_height rule) of
        None \<Rightarrow> table
      | Some height \<Rightarrow> JObj (fold (\<lambda>k kvs. AList.update k (JInt height) kvs) (ar_keys rule) (obj_props table)))"

text \<open>The overlay, with its cache of the last raw value and the table armed from it, per key.\<close>

type_synonym arm_cache = "(string \<times> (jsval \<times> jsval)) list"

definition armAtRead ::
    "arm_cache \<Rightarrow> (string \<Rightarrow> jsval) \<Rightarrow> string \<Rightarrow> jsval \<Rightarrow> reg_error + (jsval \<times> arm_cache)" where
  "armAtRead cache env key table =
     (case map_of REGTEST_ARMING key of
        None \<Rightarrow> Inr (table, cache)
      | Some rule \<Rightarrow>
          try_bind (readRuleEnv rule env) (\<lambda>raw.
            case map_of cache key of
              Some (r, v) \<Rightarrow>
                if r = raw then Inr (v, cache)
                else (let v' = armed rule table raw in Inr (v', AList.update key (raw, v') cache))
            | None \<Rightarrow> (let v' = armed rule table raw in Inr (v', AList.update key (raw, v') cache))))"

definition readGate ::
    "gate_entries \<Rightarrow> arm_cache \<Rightarrow> (string \<Rightarrow> jsval) \<Rightarrow> string \<Rightarrow> reg_error + (jsval \<times> arm_cache)" where
  "readGate es cache env key =
     (case map_of es key of
        None \<Rightarrow> Inl RegistryMiss
      | Some row \<Rightarrow> armAtRead cache env key (g_value row))"

section \<open>The predicate\<close>

text \<open>
  \<open>parseInt(v)\<close> without a radix, on the text of \<open>v\<close>: leading white space and a sign, then \<open>0x\<close> and hex
  digits or decimal digits up to the first character that is none; \<open>NaN\<close> is \<open>None\<close>.
\<close>

definition hex_of_text :: "string \<Rightarrow> nat" where
  "hex_of_text s = foldl (\<lambda>acc c. 16 * acc +
     (let n = of_char c :: nat in if n \<le> 57 then n - 48 else if n \<le> 70 then n - 55 else n - 87)) 0 s"

definition is_hex_char :: "char \<Rightarrow> bool" where
  "is_hex_char c = (let n = of_char c :: nat in
     (48 \<le> n \<and> n \<le> 57) \<or> (65 \<le> n \<and> n \<le> 70) \<or> (97 \<le> n \<and> n \<le> 102))"

definition parse_unsigned :: "string \<Rightarrow> nat option" where
  "parse_unsigned s =
     (if take 2 s = ''0x'' \<or> take 2 s = ''0X''
      then (let d = takeWhile is_hex_char (drop 2 s) in if d = [] then None else Some (hex_of_text d))
      else (let d = takeWhile is_digit s in if d = [] then None else Some (nat_of_digits d)))"

definition js_parseInt :: "jsval \<Rightarrow> int option" where
  "js_parseInt v =
     (let s = dropWhile is_ws (js_string v) in
      case s of
        CHR ''-'' # t \<Rightarrow> map_option (\<lambda>n. - int n) (parse_unsigned t)
      | CHR ''+'' # t \<Rightarrow> map_option int (parse_unsigned t)
      | _ \<Rightarrow> map_option int (parse_unsigned s))"

definition resolveThreshold :: "(string \<times> jsval) list \<Rightarrow> string \<Rightarrow> jsval \<Rightarrow> jsval" where
  "resolveThreshold table network coin =
     (case (if is_nullish coin then None else map_of table (js_string coin @ '':'' @ network)) of
        Some v \<Rightarrow> v
      | None \<Rightarrow> get_prop table network)"

text \<open>No row has a threshold that is not an integer; such a number is read as never reached.\<close>

definition reached :: "jsval \<Rightarrow> jsval \<Rightarrow> bool" where
  "reached th clock =
     (case js_parseInt clock of
        None \<Rightarrow> False
      | Some c \<Rightarrow> (case th of JInt t \<Rightarrow> c \<ge> t | _ \<Rightarrow> False))"

definition activeAt ::
    "gate_entries \<Rightarrow> arm_cache \<Rightarrow> (string \<Rightarrow> jsval) \<Rightarrow> string \<Rightarrow> jsval \<Rightarrow> jsval \<Rightarrow> jsval \<Rightarrow> jsval \<Rightarrow>
     reg_error + bool" where
  "activeAt es cache env key network coin height time =
     (case map_of es key of
        None \<Rightarrow> Inl RegistryMiss
      | Some row \<Rightarrow>
          if g_unit row \<notin> {''height'', ''epoch'', ''time''} then Inl UnsupportedUnit
          else
            (case network of
               JStr n \<Rightarrow>
                 try_bind (readGate es cache env key) (\<lambda>(table, cache').
                   Inr (reached (resolveThreshold (obj_props table) n coin)
                          (if g_unit row = ''time'' then time else height)))
             | _ \<Rightarrow> Inr False))"

section \<open>The shipped rows register\<close>

definition row_ok :: "gate_call \<Rightarrow> bool" where
  "row_ok c = (case c of (k, u, t) \<Rightarrow>
     checkKey k \<and> u \<in> set UNITS \<and> (u \<noteq> ''constant'' \<longrightarrow> checkTable u t) \<and> checkValue t)"

definition entry_of :: "gate_call \<Rightarrow> string \<times> gate_row" where
  "entry_of c = (case c of (k, u, t) \<Rightarrow> (k, \<lparr>g_unit = u, g_value = t\<rparr>))"

lemma addGates_ok:
  "distinct (map fst es @ map fst cs) \<Longrightarrow> list_all row_ok cs \<Longrightarrow> addGates es cs = Inr (es @ map entry_of cs)"
proof (induction cs arbitrary: es)
  case (Cons c cs)
  obtain k u t where c: "c = (k, u, t)" by (cases c)
  have "map_of es k = None" using Cons.prems(1) c by (simp add: map_of_eq_None_iff)
  then have "addGate es c = Inr (es @ [entry_of c])"
    using Cons.prems(2) c by (auto simp: addGate_def row_ok_def entry_of_def)
  then show ?case using Cons.IH [of "es @ [entry_of c]"] Cons.prems c by (simp add: entry_of_def)
qed simp

text \<open>Whatever registers passed every check.\<close>

lemma addGates_Inr:
  "addGates es cs = Inr es' \<Longrightarrow> distinct (map fst es) \<Longrightarrow>
   list_all row_ok cs \<and> es' = es @ map entry_of cs"
proof (induction cs arbitrary: es)
  case (Cons c cs)
  obtain k u t where c: "c = (k, u, t)" by (cases c)
  obtain e1 where e1: "addGate es c = Inr e1" "addGates e1 cs = Inr es'"
    using Cons.prems(1) by (auto simp: try_bind_Inr)
  have "row_ok c" "e1 = es @ [entry_of c]" "k \<notin> fst ` set es"
    using e1(1) c by (auto simp: addGate_def row_ok_def entry_of_def map_of_eq_None_iff split: if_splits)
  moreover have "distinct (map fst e1)" using calculation Cons.prems(2) c by (simp add: entry_of_def)
  ultimately show ?case using Cons.IH [OF e1(2)] by auto
qed simp

lemma rows_checked:
  "list_all row_ok rows_1a"
  "list_all row_ok rows_1b"
  "list_all row_ok rows_1c"
  "list_all row_ok rows_1d"
  "list_all row_ok rows_2a"
  "list_all row_ok rows_2b"
  "list_all row_ok rows_2c"
  "list_all row_ok rows_3a"
  "list_all row_ok rows_3b"
  "list_all row_ok rows_4a"
  "list_all row_ok rows_4b"
  "list_all row_ok rows_4c"
  "list_all row_ok rows_5a"
  "list_all row_ok rows_5b"
  "list_all row_ok rows_5c"
  by code_simp+

lemma queued_ok: "list_all row_ok queued"
  by (simp only: queued_def list_all_append rows_checked simp_thms)

text \<open>Three characters and the length of a key tell the shipped keys apart.\<close>

definition key_mark :: "string \<Rightarrow> char \<times> char \<times> char \<times> nat" where
  "key_mark k = (hd (drop 11 k @ '' ''), hd (drop 35 k @ '' ''), hd (drop 45 k @ '' ''), length k)"

lemma queued_marks: "distinct (map key_mark (map fst queued))"
  by code_simp

lemma queued_distinct: "distinct (map fst queued)"
  using queued_marks distinct_map by blast

definition shipped :: gate_entries where
  "shipped = map entry_of queued"

lemma shipped_keys: "map fst shipped = map fst queued"
  by (simp add: shipped_def entry_of_def comp_def case_prod_beta)

lemma shipped_row: "(k, u, t) \<in> set queued \<Longrightarrow> map_of shipped k = Some \<lparr>g_unit = u, g_value = t\<rparr>"
proof (rule map_of_is_SomeI)
  show "distinct (map fst shipped)" unfolding shipped_keys by (rule queued_distinct)
  assume "(k, u, t) \<in> set queued"
  then show "(k, \<lparr>g_unit = u, g_value = t\<rparr>) \<in> set shipped"
    by (force simp: shipped_def entry_of_def)
qed

lemma registerRows_shipped: "registerRows = Inr shipped"
  using addGates_ok [of "[]" queued] queued_ok queued_distinct
  by (simp add: registerRows_def shipped_def)

lemma arming_covered: "list_all (\<lambda>(k, r). ar_env r \<in> set ENV_READERS) REGTEST_ARMING"
  by code_simp

text \<open>The row used by the witnesses.\<close>

lemma commitment_row:
  "map_of shipped ''checkpoint_commitment_activation.CHECKPOINT_COMMITMENT_ACTIVATION'' =
    Some \<lparr>g_unit = ''height'', g_value = JObj [(''mainnet'', JInt 961000), (''testnet'', JInt 146000), (''regtest'', JInt 0)]\<rparr>"
proof (rule shipped_row)
  let ?c = "(''checkpoint_commitment_activation.CHECKPOINT_COMMITMENT_ACTIVATION'', ''height'',
    JObj [(''mainnet'', JInt 961000), (''testnet'', JInt 146000), (''regtest'', JInt 0)])"
  have "rows_2a ! 2 = ?c" "2 < length rows_2a" by (simp_all add: rows_2a_def)
  then have "?c \<in> set rows_2a" by (metis nth_mem)
  then show "?c \<in> set queued" by (simp add: queued_def)
qed

section \<open>The overlay\<close>

text \<open>The overlay without its cache.\<close>

definition overlay :: "(string \<Rightarrow> jsval) \<Rightarrow> string \<Rightarrow> jsval \<Rightarrow> jsval" where
  "overlay env key table =
     (case map_of REGTEST_ARMING key of
        None \<Rightarrow> table
      | Some rule \<Rightarrow> armed rule table (env (ar_env rule)))"

definition cache_ok :: "gate_entries \<Rightarrow> arm_cache \<Rightarrow> bool" where
  "cache_ok es cache \<longleftrightarrow> (\<forall>key rule row r v.
     map_of REGTEST_ARMING key = Some rule \<and> map_of es key = Some row \<and> map_of cache key = Some (r, v) \<longrightarrow>
     v = armed rule (g_value row) r)"

lemma arming_reader: "map_of REGTEST_ARMING key = Some rule \<Longrightarrow> ar_env rule \<in> set ENV_READERS"
  using arming_covered by (auto simp: list_all_iff dest!: map_of_SomeD)

lemma cache_ok_empty: "cache_ok es []"
  by (simp add: cache_ok_def)

lemma cache_ok_update:
  assumes "cache_ok es cache" "map_of es key = Some row" "map_of REGTEST_ARMING key = Some rule"
  shows "cache_ok es (AList.update key (raw, armed rule (g_value row) raw) cache)"
  using assms by (auto simp: cache_ok_def update_conv')

lemma armAtRead_overlay:
  assumes "cache_ok es cache" "map_of es key = Some row"
  shows "\<exists>cache'. armAtRead cache env key (g_value row) = Inr (overlay env key (g_value row), cache') \<and>
    cache_ok es cache'"
proof (cases "map_of REGTEST_ARMING key")
  case None
  then show ?thesis using assms(1) by (simp add: armAtRead_def overlay_def)
next
  case (Some rule)
  note reader = arming_reader [OF Some]
  let ?raw = "env (ar_env rule)"
  note upd = cache_ok_update [OF assms Some, of ?raw]
  show ?thesis
  proof (cases "map_of cache key")
    case None
    then show ?thesis using Some reader upd
      by (auto simp: armAtRead_def overlay_def readRuleEnv_def Let_def)
  next
    case hit: (Some rv)
    obtain r v where rv: "rv = (r, v)" by (cases rv)
    have "v = armed rule (g_value row) r" using assms Some hit rv by (auto simp: cache_ok_def)
    then show ?thesis using Some reader upd hit rv assms(1)
      by (cases "r = ?raw") (auto simp: armAtRead_def overlay_def readRuleEnv_def Let_def)
  qed
qed

text \<open>A sequence of reads, each with the environment of its moment, through one cache.\<close>

fun readAll :: "gate_entries \<Rightarrow> arm_cache \<Rightarrow> ((string \<Rightarrow> jsval) \<times> string) list \<Rightarrow> (reg_error + jsval) list" where
  "readAll es cache [] = []"
| "readAll es cache ((env, key) # rs) =
     (case readGate es cache env key of
        Inl e \<Rightarrow> Inl e # readAll es cache rs
      | Inr (v, cache') \<Rightarrow> Inr v # readAll es cache' rs)"

lemma readAll_overlay:
  "cache_ok es cache \<Longrightarrow>
   readAll es cache rs = map (\<lambda>(env, key). case map_of es key of
      None \<Rightarrow> Inl RegistryMiss | Some row \<Rightarrow> Inr (overlay env key (g_value row))) rs"
proof (induction rs arbitrary: cache)
  case (Cons r rs)
  obtain env key where r: "r = (env, key)" by (cases r)
  show ?case
  proof (cases "map_of es key")
    case None
    then show ?thesis using Cons r by (simp add: readGate_def)
  next
    case (Some row)
    then show ?thesis
      using armAtRead_overlay [OF Cons.prems Some, of env] Cons.IH r by (auto simp: readGate_def)
  qed
qed simp

text \<open>Arming writes regtest entries only.\<close>

definition regtest_key :: "string \<Rightarrow> bool" where
  "regtest_key k \<longleftrightarrow> k \<in> set [''regtest'', ''BTC:regtest'', ''LTC:regtest'', ''DOGE:regtest'']"

lemma arming_keys_regtest:
  "map_of REGTEST_ARMING key = Some rule \<Longrightarrow> list_all regtest_key (ar_keys rule)"
proof -
  have "list_all (\<lambda>(k, r). list_all regtest_key (ar_keys r)) REGTEST_ARMING" by code_simp
  then show "map_of REGTEST_ARMING key = Some rule \<Longrightarrow> list_all regtest_key (ar_keys rule)"
    by (auto simp: list_all_iff dest!: map_of_SomeD)
qed

lemma fold_update_other:
  "k \<notin> set ks \<Longrightarrow> map_of (fold (\<lambda>k kvs. AList.update k v kvs) ks kvs) k = map_of kvs k"
  by (induction ks arbitrary: kvs) (auto simp: update_conv')

lemma overlay_other_network:
  assumes "\<not> regtest_key k"
  shows "map_of (obj_props (overlay env key table)) k = map_of (obj_props table) k"
proof (cases "map_of REGTEST_ARMING key")
  case None
  then show ?thesis by (simp add: overlay_def)
next
  case (Some rule)
  have "k \<notin> set (ar_keys rule)" using arming_keys_regtest [OF Some] assms by (auto simp: list_all_iff)
  then show ?thesis using Some
    by (auto simp: overlay_def armed_def obj_props_def fold_update_other split: option.splits jsval.splits)
qed

lemma regtest_key_suffix: "regtest_key k \<Longrightarrow> drop (length k - 7) k = ''regtest''"
  by (auto simp: regtest_key_def)

lemma coin_key_not_regtest: "n \<in> {''mainnet'', ''testnet''} \<Longrightarrow> \<not> regtest_key (c @ '':'' @ n) \<and> \<not> regtest_key n"
  using regtest_key_suffix [of "c @ '':'' @ n"] regtest_key_suffix [of n] by auto

lemma resolve_overlay:
  assumes "n \<in> {''mainnet'', ''testnet''}"
  shows "resolveThreshold (obj_props (overlay env key table)) n coin = resolveThreshold (obj_props table) n coin"
proof -
  have "map_of (obj_props (overlay env key table)) k = map_of (obj_props table) k"
    if "k = js_string coin @ '':'' @ n \<or> k = n" for k
    using coin_key_not_regtest [OF assms, of "js_string coin"] that by (intro overlay_other_network) auto
  then show ?thesis by (simp only: resolveThreshold_def get_prop_def simp_thms)
qed

lemma activeAt_eq:
  assumes "cache_ok es cache" "map_of es key = Some row" "g_unit row \<in> {''height'', ''epoch'', ''time''}"
  shows "activeAt es cache env key (JStr n) coin height time =
    Inr (reached (resolveThreshold (obj_props (overlay env key (g_value row))) n coin)
      (if g_unit row = ''time'' then time else height))"
  using assms armAtRead_overlay [OF assms(1,2), of env] by (auto simp: activeAt_def readGate_def)

lemma reached_mono:
  assumes "reached t a" "js_parseInt a = Some x" "js_parseInt b = Some y" "x \<le> y"
  shows "reached t b"
  using assms by (auto simp: reached_def split: jsval.splits)

section \<open>Properties\<close>

text \<open>
  The shipped activation block loads: every queued row passes the registry's checks and no key
  repeats, so \<open>registerRows\<close> never throws and a lookup of a queued key gives its row; every arming rule
  names a variable that has a reader, so no read throws for want of one.
\<close>

theorem registry_loads:
  "\<exists>es. registerRows = Inr es \<and> map fst es = map fst queued \<and> distinct (map fst es) \<and>
     list_all (\<lambda>(k, u, t). map_of es k = Some \<lparr>g_unit = u, g_value = t\<rparr>) queued \<and>
     list_all (\<lambda>(k, r). ar_env r \<in> set ENV_READERS) REGTEST_ARMING"
  using registerRows_shipped arming_covered queued_distinct shipped_keys shipped_row
  by (auto simp: list_all_iff)

text \<open>
  The cache of the read overlay is invisible: whatever sequence of rows is read while the
  environment changes between reads, each read yields what arming the committed row from the
  environment of that moment yields.
\<close>

theorem overlay_cache_transparent:
  "readAll shipped [] rs = map (\<lambda>(env, key). case map_of shipped key of
     None \<Rightarrow> Inl RegistryMiss | Some row \<Rightarrow> Inr (overlay env key (g_value row))) rs"
  by (rule readAll_overlay) (rule cache_ok_empty)

text \<open>
  C25: No environment moves a public network's activation: on mainnet and testnet, for every row, coin,
  height and time, and after any earlier reads, \<open>activeAt\<close> answers from the committed row alone.
\<close>

theorem environment_isolation:
  assumes "cache_ok shipped cache" "map_of shipped key = Some row"
    and "g_unit row \<in> {''height'', ''epoch'', ''time''}" "n \<in> {''mainnet'', ''testnet''}"
  shows "activeAt shipped cache env key (JStr n) coin height time =
    Inr (reached (resolveThreshold (obj_props (g_value row)) n coin) (if g_unit row = ''time'' then time else height))"
  using activeAt_eq [OF assms(1-3)] resolve_overlay [OF assms(4)] by simp

theorem environment_isolation_witness:
  "activeAt shipped [] (\<lambda>_. JStr ''armed'') ''checkpoint_commitment_activation.CHECKPOINT_COMMITMENT_ACTIVATION''
     (JStr ''mainnet'') JNull (JInt 5) JNull = Inr False"
proof -
  let ?k = "''checkpoint_commitment_activation.CHECKPOINT_COMMITMENT_ACTIVATION''"
  let ?row = "\<lparr>g_unit = ''height'', g_value = JObj [(''mainnet'', JInt 961000), (''testnet'', JInt 146000), (''regtest'', JInt 0)]\<rparr>"
  have "map_of shipped ?k = Some ?row" by (rule commitment_row)
  from environment_isolation [OF cache_ok_empty this, of "''mainnet''" "\<lambda>_. JStr ''armed''" JNull "JInt 5" JNull]
  have "activeAt shipped [] (\<lambda>_. JStr ''armed'') ?k (JStr ''mainnet'') JNull (JInt 5) JNull =
      Inr (reached (JInt 961000) (JInt 5))"
    by (simp add: resolveThreshold_def obj_props_def get_prop_def is_nullish_def)
  moreover have "\<not> reached (JInt 961000) (JInt 5)" by code_simp
  ultimately show ?thesis by simp
qed

text \<open>
  A gate never switches off again: active at one height and time, it is active at every later one.
  A clock that does not parse reads as inactive, as does an \<open>UNPI2ED\<close> or unknown network.
\<close>

theorem activation_monotone:
  assumes "cache_ok es cache" "map_of es key = Some row" "g_unit row \<in> {''height'', ''epoch'', ''time''}"
    and "activeAt es cache env key (JStr n) coin h t = Inr True"
    and "js_parseInt h = Some x" "js_parseInt h' = Some x'" "x \<le> x'"
    and "js_parseInt t = Some y" "js_parseInt t' = Some y'" "y \<le> y'"
  shows "activeAt es cache env key (JStr n) coin h' t' = Inr True \<and>
    (js_parseInt u = None \<longrightarrow> activeAt es cache env key (JStr n) coin u u = Inr False)"
  using assms(4-) reached_mono [of _ h x h' x'] reached_mono [of _ t y t' y']
  unfolding activeAt_eq [OF assms(1-3)] by (auto simp: reached_def split: if_splits)

theorem activation_monotone_witness:
  "activeAt shipped [] (\<lambda>_. JUndef) ''checkpoint_commitment_activation.CHECKPOINT_COMMITMENT_ACTIVATION''
     (JStr ''regtest'') JNull (JStr ''12'') (JInt 1) = Inr True"
proof -
  let ?k = "''checkpoint_commitment_activation.CHECKPOINT_COMMITMENT_ACTIVATION''"
  let ?row = "\<lparr>g_unit = ''height'', g_value = JObj [(''mainnet'', JInt 961000), (''testnet'', JInt 146000), (''regtest'', JInt 0)]\<rparr>"
  have row: "map_of shipped ?k = Some ?row" by (rule commitment_row)
  have "map_of REGTEST_ARMING ?k = None" by code_simp
  moreover have "reached (JInt 0) (JInt 0)" by code_simp
  ultimately have act: "activeAt shipped [] (\<lambda>_. JUndef) ?k (JStr ''regtest'') JNull (JInt 0) (JInt 1) = Inr True"
    using activeAt_eq [OF cache_ok_empty row] by (simp add: overlay_def resolveThreshold_def obj_props_def
      get_prop_def is_nullish_def)
  have p: "js_parseInt (JInt 0) = Some 0" "js_parseInt (JStr ''12'') = Some 12" "js_parseInt (JInt 1) = Some 1"
    by code_simp+
  show ?thesis
    using activation_monotone [OF cache_ok_empty row _ act p(1,2) _ p(3,3)] by simp
qed

end
