(* ===== verification/StakeQuorum.thy ===== *)
theory StakeQuorum
  imports JsValues GateRegistry
begin

text \<open>
  The stake-weighted quorum predicate (\<open>src/consensus/stake_weighted_quorum.js\<close>) and the height gates
  that go with it (\<open>snapshot_reorg_buffer.js\<close>, \<open>equivocation_header.js\<close>).

  mathjs bignumbers are decimal floats with 64 significant digits. A bignumber is its exact value, a
  \<open>rat\<close>; the constructor and the comparisons are exact, and the result of \<open>add\<close> and \<open>multiply\<close> goes
  through the rounding \<open>rnd\<close>, a parameter of every definition that calculates. What is used of it is
  that a value that needs no more than 64 digits is returned unchanged (\<open>exact64\<close>).

  A snapshot is the array of its rows and its \<open>truncated\<close> mark; \<open>null\<close> behaves as the empty array.
  A \<open>Map\<close> is the association list of its entries in insertion order.
\<close>

section \<open>Gates\<close>

definition gate_table :: "string \<Rightarrow> (string \<times> jsval) list" where
  "gate_table key = (case map_of shipped key of Some row \<Rightarrow> obj_props (g_value row) | None \<Rightarrow> [])"

definition STAKE_WEIGHTED_QUORUM_ACTIVATION :: "(string \<times> jsval) list" where
  "STAKE_WEIGHTED_QUORUM_ACTIVATION = gate_table ''stake_weighted_quorum.STAKE_WEIGHTED_QUORUM_ACTIVATION''"

definition EQUIV_HEADER_ACTIVATION :: "(string \<times> jsval) list" where
  "EQUIV_HEADER_ACTIVATION = gate_table ''equivocation_header.EQUIV_HEADER_ACTIVATION''"

definition SNAPSHOT_BURIAL_ACTIVATION :: "(string \<times> jsval) list" where
  "SNAPSHOT_BURIAL_ACTIVATION = gate_table ''snapshot_reorg_buffer.SNAPSHOT_BURIAL_ACTIVATION''"

definition CANONICAL_REORG_BUFFER :: int where
  "CANONICAL_REORG_BUFFER = 6"

text \<open>\<open>sb >= threshold\<close>, a \<open>null\<close> threshold counting as 0 and anything but a number as \<open>NaN\<close>.\<close>

definition at_threshold :: "rat \<Rightarrow> jsval \<Rightarrow> bool" where
  "at_threshold sb th = (case th of JInt t \<Rightarrow> of_int t \<le> sb | JNull \<Rightarrow> 0 \<le> sb | _ \<Rightarrow> False)"

definition isStakeWeightedQuorumActive :: "jsval \<Rightarrow> jsval \<Rightarrow> bool" where
  "isStakeWeightedQuorumActive snapshotBlock network =
     (case js_parseInt snapshotBlock of
        None \<Rightarrow> False
      | Some sb \<Rightarrow> at_threshold (of_int sb) (get_prop STAKE_WEIGHTED_QUORUM_ACTIVATION (js_string network)))"

definition isEquivHeaderActive :: "jsval \<Rightarrow> jsval \<Rightarrow> bool" where
  "isEquivHeaderActive snapshotBlock network =
     (case js_parseInt snapshotBlock of
        None \<Rightarrow> False
      | Some sb \<Rightarrow> at_threshold (of_int sb) (get_prop EQUIV_HEADER_ACTIVATION (js_string network)))"

definition isSnapshotBurialActive :: "jsval \<Rightarrow> jsval \<Rightarrow> bool" where
  "isSnapshotBurialActive snapshotBlock network =
     (if is_nullish snapshotBlock \<or> snapshotBlock = JStr [] \<or> (case snapshotBlock of JBool b \<Rightarrow> True | _ \<Rightarrow> False)
      then False
      else
        (case js_Number snapshotBlock of
           Num sb \<Rightarrow>
             (let th = get_prop SNAPSHOT_BURIAL_ACTIVATION (js_string network) in
              \<not> is_nullish th \<and> at_threshold sb th)
         | _ \<Rightarrow> False))"

definition buriedSnapshotBlock :: "jsval \<Rightarrow> jsval \<Rightarrow> jsval" where
  "buriedSnapshotBlock snapshotBlock network =
     (if \<not> isSnapshotBurialActive snapshotBlock network then snapshotBlock
      else
        (case js_Number snapshotBlock of
           Num sb \<Rightarrow> JInt (max 0 (\<lfloor>sb\<rfloor> - CANONICAL_REORG_BUFFER))
         | _ \<Rightarrow> snapshotBlock))"

section \<open>The equivocation header\<close>

definition equivKey :: "string \<Rightarrow> string \<Rightarrow> string \<Rightarrow> string" where
  "equivKey engineTag roundId view = engineTag @ ''|'' @ roundId @ ''|'' @ view"

definition equivPrefix :: "string \<Rightarrow> string" where
  "equivPrefix k = ''EQUIV|'' @ k @ ''||''"

definition buildEquivCanonical :: "string \<Rightarrow> string \<Rightarrow> string \<Rightarrow> string \<Rightarrow> string" where
  "buildEquivCanonical engineTag roundId view content =
     equivPrefix (equivKey engineTag roundId view) @ content"

section \<open>Stake totals\<close>

datatype quorum_error =
    TruncatedSnapshot
  | BlankSource
  | MissingWeight
  | NonnumericWeight
  | NegativeWeight

record snapshot =
  sn_rows :: "jsval list"
  sn_truncated :: bool

definition bcnum :: "jsval \<Rightarrow> rat" where
  "bcnum v =
     (let s = (if is_nullish v then ''0'' else js_trim (js_string v)) in
      case dec_value s of Some q \<Rightarrow> q | None \<Rightarrow> 0)"

definition blank_source :: "jsval \<Rightarrow> bool" where
  "blank_source v \<longleftrightarrow>
     \<not> js_truthy v \<or> is_nullish (js_prop v ''source'') \<or> js_trim (js_string (js_prop v ''source'')) = []"

definition source_of :: "jsval \<Rightarrow> string" where
  "source_of v = js_string (js_prop v ''source'')"

definition pubkey_of :: "jsval \<Rightarrow> string" where
  "pubkey_of v = ascii_lower (js_string (js_prop v ''pubkey''))"

definition weight_text :: "jsval \<Rightarrow> quorum_error + string" where
  "weight_text v =
     (if is_nullish (js_prop v ''weight'') then Inl MissingWeight
      else
        (let ws = js_trim (js_string (js_prop v ''weight'')) in
         if ws = [] \<or> dec_value ws = None then Inl NonnumericWeight else Inr ws))"

fun weightLoop :: "(string \<times> string) list \<Rightarrow> jsval list \<Rightarrow> quorum_error + (string \<times> string) list" where
  "weightLoop weightBySource [] = Inr weightBySource"
| "weightLoop weightBySource (v # vs) =
     (if blank_source v then Inl BlankSource
      else if source_of v \<in> fst ` set weightBySource then weightLoop weightBySource vs
      else try_bind (weight_text v) (\<lambda>ws. weightLoop (weightBySource @ [(source_of v, ws)]) vs))"

fun sumWeights :: "(rat \<Rightarrow> rat) \<Rightarrow> rat \<Rightarrow> (string \<times> string) list \<Rightarrow> quorum_error + rat" where
  "sumWeights rnd S [] = Inr S"
| "sumWeights rnd S ((src, w) # ws) =
     (if bcnum (JStr w) < 0 then Inl NegativeWeight
      else sumWeights rnd (rnd (S + bcnum (JStr w))) ws)"

definition totalStake :: "(rat \<Rightarrow> rat) \<Rightarrow> snapshot \<Rightarrow> quorum_error + rat" where
  "totalStake rnd sn =
     (if sn_truncated sn then Inl TruncatedSnapshot
      else try_bind (weightLoop [] (sn_rows sn)) (sumWeights rnd 0))"

section \<open>The threshold\<close>

record stake_index =
  weightBySource :: "(string \<times> string) list"
  pubkeyToSource :: "(string \<times> string) list"

fun indexLoop :: "stake_index \<Rightarrow> jsval list \<Rightarrow> stake_index option" where
  "indexLoop ix [] = Some ix"
| "indexLoop ix (v # vs) =
     (if blank_source v then None
      else
        (let ix1 = ix\<lparr>pubkeyToSource := AList.update (pubkey_of v) (source_of v) (pubkeyToSource ix)\<rparr> in
         if source_of v \<in> fst ` set (weightBySource ix) then indexLoop ix1 vs
         else
           (case weight_text v of
              Inl e \<Rightarrow> None
            | Inr ws \<Rightarrow> indexLoop (ix1\<lparr>weightBySource := weightBySource ix @ [(source_of v, ws)]\<rparr>) vs)))"

definition indexStakeSources :: "jsval list \<Rightarrow> stake_index option" where
  "indexStakeSources validators = indexLoop \<lparr>weightBySource = [], pubkeyToSource = []\<rparr> validators"

definition sumStakeWeights :: "(rat \<Rightarrow> rat) \<Rightarrow> (string \<times> string) list \<Rightarrow> rat option" where
  "sumStakeWeights rnd ws =
     (case sumWeights rnd 0 ws of
        Inl e \<Rightarrow> None
      | Inr S \<Rightarrow> if S \<le> 0 then None else Some S)"

fun signerLoop ::
    "(rat \<Rightarrow> rat) \<Rightarrow> stake_index \<Rightarrow> string list \<Rightarrow> string list \<Rightarrow> rat \<Rightarrow> jsval list \<Rightarrow> rat" where
  "signerLoop rnd ix seen counted tally [] = tally"
| "signerLoop rnd ix seen counted tally (pk # pks) =
     (let lpk = ascii_lower (js_string pk) in
      if lpk \<in> set seen then signerLoop rnd ix seen counted tally pks
      else
        (case map_of (pubkeyToSource ix) lpk of
           None \<Rightarrow> signerLoop rnd ix (lpk # seen) counted tally pks
         | Some src \<Rightarrow>
             if src \<in> set counted then signerLoop rnd ix (lpk # seen) counted tally pks
             else
               signerLoop rnd ix (lpk # seen) (src # counted)
                 (rnd (tally + bcnum (case map_of (weightBySource ix) src of Some w \<Rightarrow> JStr w | None \<Rightarrow> JUndef)))
                 pks))"

definition sumSignerStake :: "(rat \<Rightarrow> rat) \<Rightarrow> stake_index \<Rightarrow> jsval list \<Rightarrow> rat" where
  "sumSignerStake rnd ix signerPubkeys = signerLoop rnd ix [] [] 0 signerPubkeys"

definition meetsStakeThreshold :: "(rat \<Rightarrow> rat) \<Rightarrow> snapshot \<Rightarrow> jsval list \<Rightarrow> bool" where
  "meetsStakeThreshold rnd sn signerPubkeys =
     (if sn_truncated sn then False
      else
        (case indexStakeSources (sn_rows sn) of
           None \<Rightarrow> False
         | Some ix \<Rightarrow>
             (case sumStakeWeights rnd (weightBySource ix) of
                None \<Rightarrow> False
              | Some S \<Rightarrow> rnd (2 * S) < rnd (3 * sumSignerStake rnd ix signerPubkeys))))"

section \<open>The specification: first rows, owners, stake\<close>

text \<open>The first row of every source, in order; the weight of a source is the weight of that row.\<close>

fun first_rows :: "string list \<Rightarrow> jsval list \<Rightarrow> jsval list" where
  "first_rows known [] = []"
| "first_rows known (v # vs) =
     (if source_of v \<in> set known then first_rows known vs
      else v # first_rows (source_of v # known) vs)"

definition row_text :: "jsval \<Rightarrow> string" where
  "row_text v = js_trim (js_string (js_prop v ''weight''))"

definition row_weight :: "jsval \<Rightarrow> rat" where
  "row_weight v = bcnum (JStr (row_text v))"

definition numeric_row :: "jsval \<Rightarrow> bool" where
  "numeric_row v \<longleftrightarrow> \<not> is_nullish (js_prop v ''weight'') \<and> dec_value (row_text v) \<noteq> None"

text \<open>The source a public key signs for: that of its last row.\<close>

definition owner :: "jsval list \<Rightarrow> string \<Rightarrow> string option" where
  "owner rows = map_of (rev (map (\<lambda>v. (pubkey_of v, source_of v)) rows))"

definition stake :: "jsval list \<Rightarrow> rat" where
  "stake vs = sum_list (map row_weight vs)"

definition signed_rows :: "jsval list \<Rightarrow> jsval list \<Rightarrow> jsval list" where
  "signed_rows rows signers =
     filter (\<lambda>v. list_ex (\<lambda>pk. owner rows (ascii_lower (js_string pk)) = Some (source_of v)) signers)
       (first_rows [] rows)"

text \<open>What the code demands of a snapshot before it counts anything.\<close>

definition well_formed :: "snapshot \<Rightarrow> bool" where
  "well_formed sn \<longleftrightarrow>
     \<not> sn_truncated sn \<and> list_all (\<lambda>v. \<not> blank_source v) (sn_rows sn) \<and>
     list_all (\<lambda>v. numeric_row v \<and> 0 \<le> row_weight v) (first_rows [] (sn_rows sn))"

text \<open>The arithmetic stays within 64 digits: weights are multiples of \<open>10^-18\<close>, the total is below \<open>10^45\<close>.\<close>

definition exact64 :: "(rat \<Rightarrow> rat) \<Rightarrow> bool" where
  "exact64 rnd \<longleftrightarrow> (\<forall>k e. \<bar>k\<bar> < 10 ^ 64 \<and> e \<le> 64 \<longrightarrow> rnd (of_int k / 10 ^ e) = of_int k / 10 ^ e)"

definition atto :: "rat \<Rightarrow> bool" where
  "atto q \<longleftrightarrow> snd (quotient_of (q * 10 ^ 18)) = 1"

definition small_stakes :: "jsval list \<Rightarrow> bool" where
  "small_stakes rows \<longleftrightarrow>
     list_all (\<lambda>v. atto (row_weight v)) (first_rows [] rows) \<and>
     sum_list (map (\<lambda>v. \<bar>row_weight v\<bar>) (first_rows [] rows)) < 10 ^ 45"

subsection \<open>First rows\<close>

lemma first_rows_subset: "set (first_rows known vs) \<subseteq> set vs"
  by (induction known vs rule: first_rows.induct) auto

lemma first_rows_fresh: "v \<in> set (first_rows known vs) \<Longrightarrow> source_of v \<notin> set known"
  by (induction known vs rule: first_rows.induct) (auto split: if_splits)

lemma first_rows_distinct: "distinct (map source_of (first_rows known vs))"
proof (induction known vs rule: first_rows.induct)
  case (2 known v vs)
  then show ?case using first_rows_fresh [of _ "source_of v # known" vs] by force
qed simp

lemma first_rows_sources: "source_of ` set (first_rows known vs) = source_of ` set vs - set known"
  by (induction known vs rule: first_rows.induct) auto

lemma first_rows_cong: "set known = set known' \<Longrightarrow> first_rows known vs = first_rows known' vs"
proof (induction vs arbitrary: known known')
  case (Cons v vs)
  then have "set (source_of v # known) = set (source_of v # known')" by simp
  from Cons.IH [OF this] Cons.IH [OF Cons.prems] Cons.prems show ?case by simp
qed simp

lemma first_rows_snoc [simp]: "first_rows (ks @ [k]) vs = first_rows (k # ks) vs"
  by (rule first_rows_cong) simp

lemma first_rows_inj: "inj_on source_of (set (first_rows known vs))"
  using first_rows_distinct by (simp add: distinct_map)

subsection \<open>The loops\<close>

lemma dec_value_Nil [simp]: "dec_value [] = None"
  by (simp add: dec_value_def strip_sign_def dec_mant_def all_digits_def)

lemma weight_text_numeric:
  "numeric_row v \<Longrightarrow> weight_text v = Inr (row_text v)"
  "\<not> numeric_row v \<Longrightarrow> \<exists>e. weight_text v = Inl e"
  by (auto simp: numeric_row_def weight_text_def row_text_def Let_def)

lemma indexLoop_eq:
  "indexLoop ix vs =
     (if list_all (\<lambda>v. \<not> blank_source v) vs \<and>
         list_all numeric_row (first_rows (map fst (weightBySource ix)) vs)
      then Some \<lparr>weightBySource = weightBySource ix @
                   map (\<lambda>v. (source_of v, row_text v)) (first_rows (map fst (weightBySource ix)) vs),
                 pubkeyToSource = fold (\<lambda>v. AList.update (pubkey_of v) (source_of v)) vs (pubkeyToSource ix)\<rparr>
      else None)"
proof (induction vs arbitrary: ix)
  case (Cons v vs)
  show ?case
    using weight_text_numeric [of v]
    by (cases "numeric_row v") (auto simp: Cons.IH Let_def)
qed simp

lemma weightLoop_ok:
  "list_all (\<lambda>v. \<not> blank_source v) vs \<Longrightarrow> list_all numeric_row (first_rows (map fst ws) vs) \<Longrightarrow>
   weightLoop ws vs = Inr (ws @ map (\<lambda>v. (source_of v, row_text v)) (first_rows (map fst ws) vs))"
proof (induction vs arbitrary: ws)
  case (Cons v vs)
  show ?case using Cons.prems Cons.IH [of ws] Cons.IH [of "ws @ [(source_of v, row_text v)]"]
      weight_text_numeric(1) [of v]
    by (auto split: if_splits)
qed simp

lemma weightLoop_Inr:
  "weightLoop ws vs = Inr r \<Longrightarrow>
   list_all (\<lambda>v. \<not> blank_source v) vs \<and> list_all numeric_row (first_rows (map fst ws) vs)"
proof (induction vs arbitrary: ws)
  case (Cons v vs)
  show ?case using Cons.prems Cons.IH [of ws] Cons.IH [of "ws @ [(source_of v, row_text v)]"]
      weight_text_numeric [of v]
    by (cases "numeric_row v") (auto split: if_splits)
qed simp

lemma owner_fold:
  "map_of (fold (\<lambda>v. AList.update (pubkey_of v) (source_of v)) vs m) = map_of m ++ owner vs"
proof (induction vs arbitrary: m)
  case (Cons v vs)
  show ?case
    by (rule ext) (simp add: Cons.IH owner_def update_conv' map_add_def split: option.split)
qed (simp add: owner_def)

lemma owner_source: "owner rows pk = Some src \<Longrightarrow> src \<in> source_of ` set rows"
  by (auto simp: owner_def dest!: map_of_SomeD)

subsection \<open>Exact arithmetic\<close>

lemma atto_iff: "atto q \<longleftrightarrow> (\<exists>k. q = of_int k / 10 ^ 18)"
proof
  assume a: "atto q"
  obtain n d where nd: "quotient_of (q * 10 ^ 18) = (n, d)" by force
  with a have "q * 10 ^ 18 = of_int n" using quotient_of_div [OF nd] by (simp add: atto_def)
  then show "\<exists>k. q = of_int k / 10 ^ 18" by (intro exI [of _ n]) (simp add: field_simps)
next
  assume "\<exists>k. q = of_int k / 10 ^ 18"
  then obtain k where "q * 10 ^ 18 = of_int k" by auto
  then show "atto q" using quotient_of_int [of k] by (simp add: atto_def Rat.of_int_def)
qed

lemma atto_0 [simp]: "atto 0"
  by (auto simp: atto_iff intro: exI [of _ 0])

lemma atto_add: "atto a \<Longrightarrow> atto b \<Longrightarrow> atto (a + b)"
  unfolding atto_iff by (metis add_divide_distrib of_int_add)

lemma atto_scale: "atto a \<Longrightarrow> atto (of_int n * a)"
  unfolding atto_iff by (metis of_int_mult times_divide_eq_right)

lemma atto_sum: "(\<And>x. x \<in> A \<Longrightarrow> atto (f x)) \<Longrightarrow> atto (sum f A)"
  by (induction A rule: infinite_finite_induct) (auto intro: atto_add)

lemma rnd_atto:
  assumes "exact64 rnd" "atto q" "\<bar>q\<bar> < 10 ^ 46"
  shows "rnd q = q"
proof -
  obtain k where k: "q = of_int k / 10 ^ 18" using assms(2) by (auto simp: atto_iff)
  have "of_int \<bar>k\<bar> = \<bar>q\<bar> * 10 ^ 18" by (simp add: k)
  also have "\<dots> < 10 ^ 46 * 10 ^ 18" using assms(3) by (intro mult_strict_right_mono) simp_all
  finally have "\<bar>k\<bar> < 10 ^ 64"
    by (metis (mono_tags) of_int_less_iff of_int_numeral of_int_power power_add numeral_plus_numeral
        add_num_simps)
  then have "rnd (of_int k / 10 ^ 18) = of_int k / 10 ^ 18"
    using assms(1) [unfolded exact64_def, rule_format, of k 18] by simp
  then show ?thesis by (simp only: k)
qed

lemma rnd_small:
  assumes "exact64 rnd" "atto q" "0 \<le> q" "q < 10 ^ 45"
  shows "rnd q = q" "rnd (2 * q) = 2 * q" "rnd (3 * q) = 3 * q"
proof -
  have b: "(10 :: rat) ^ 46 = 10 * 10 ^ 45" by simp
  have "atto (of_int n * q)" for n by (rule atto_scale [OF assms(2)])
  from this [of 1] this [of 2] this [of 3]
  show "rnd q = q" "rnd (2 * q) = 2 * q" "rnd (3 * q) = 3 * q"
    using assms(3,4) by (auto intro!: rnd_atto [OF assms(1)] simp: abs_of_nonneg b simp del: power_numeral)
qed

lemma sumWeights_exact:
  assumes "exact64 rnd"
  shows "list_all (\<lambda>v. 0 \<le> row_weight v \<and> atto (row_weight v)) vs \<Longrightarrow> 0 \<le> S \<Longrightarrow> atto S \<Longrightarrow>
    S + stake vs < 10 ^ 45 \<Longrightarrow>
    sumWeights rnd S (map (\<lambda>v. (source_of v, row_text v)) vs) = Inr (S + stake vs)"
proof (induction vs arbitrary: S)
  case (Cons v vs)
  have w: "0 \<le> row_weight v" "atto (row_weight v)" "bcnum (JStr (row_text v)) = row_weight v"
    using Cons.prems by (simp_all add: row_weight_def)
  have n: "0 \<le> stake vs" using Cons.prems by (auto simp: stake_def list_all_iff intro!: sum_list_nonneg)
  have a: "atto (S + row_weight v)" using Cons.prems w by (simp add: atto_add)
  have "S + row_weight v < 10 ^ 45" using Cons.prems(4) n by (simp add: stake_def)
  then have "rnd (S + row_weight v) = S + row_weight v"
    using Cons.prems w by (intro rnd_small [OF assms a]) simp_all
  then show ?case using Cons w a by (simp add: stake_def add.assoc)
qed (simp add: stake_def)

lemma sumWeights_Inr:
  "sumWeights rnd S (map (\<lambda>v. (source_of v, row_text v)) vs) = Inr r \<Longrightarrow> list_all (\<lambda>v. 0 \<le> row_weight v) vs"
  by (induction vs arbitrary: S) (auto simp: row_weight_def split: if_splits)

lemma signerLoop_exact:
  fixes F :: "jsval list"
  defines "P \<equiv> \<lambda>C. {v \<in> set F. source_of v \<in> C}"
  assumes rnd: "exact64 rnd" and inj: "inj_on source_of (set F)"
    and ix: "\<And>v. v \<in> set F \<Longrightarrow> map_of (weightBySource ix) (source_of v) = Some (row_text v)"
    and own: "\<And>pk src. map_of (pubkeyToSource ix) pk = Some src \<Longrightarrow> src \<in> source_of ` set F"
    and w: "\<And>v. v \<in> set F \<Longrightarrow> 0 \<le> row_weight v \<and> atto (row_weight v)"
    and small: "sum row_weight (set F) < 10 ^ 45"
  shows "\<forall>l\<in>set seen. \<forall>src. map_of (pubkeyToSource ix) l = Some src \<longrightarrow> src \<in> set counted \<Longrightarrow>
    signerLoop rnd ix seen counted (sum row_weight (P (set counted))) pks =
      sum row_weight (P (set counted \<union>
        {src. \<exists>pk\<in>set pks. map_of (pubkeyToSource ix) (ascii_lower (js_string pk)) = Some src}))"
proof (induction pks arbitrary: seen counted)
  case (Cons pk pks)
  let ?l = "ascii_lower (js_string pk)" and ?o = "map_of (pubkeyToSource ix)"
  let ?T = "{src. \<exists>pk\<in>set pks. ?o (ascii_lower (js_string pk)) = Some src}"
  have T: "{src. \<exists>p\<in>set (pk # pks). ?o (ascii_lower (js_string p)) = Some src} =
      (case ?o ?l of None \<Rightarrow> {} | Some s \<Rightarrow> {s}) \<union> ?T"
    by (auto split: option.splits)
  show ?case
  proof (cases "?o ?l")
    case None
    then show ?thesis unfolding T using Cons.IH [of seen counted] Cons.IH [of "?l # seen" counted] Cons.prems
      by (simp add: Let_def)
  next
    case (Some s)
    show ?thesis
    proof (cases "?l \<in> set seen \<or> s \<in> set counted")
      case True
      then have "s \<in> set counted" using Cons.prems Some by blast
      then have "set counted \<union> ({s} \<union> ?T) = set counted \<union> ?T" by blast
      then show ?thesis unfolding T
        using Cons.IH [of seen counted] Cons.IH [of "?l # seen" counted] Cons.prems Some \<open>s \<in> set counted\<close>
        by (simp add: Let_def)
    next
      case False
      obtain v where v: "v \<in> set F" "s = source_of v" using own [OF Some] by blast
      have P: "P (set (s # counted)) = insert v (P (set counted))" "v \<notin> P (set counted)"
        using v False inj by (auto simp: P_def inj_on_def)
      have fin: "finite (P C)" for C by (simp add: P_def)
      have sum: "sum row_weight (P (set (s # counted))) = sum row_weight (P (set counted)) + row_weight v"
        using P fin by (simp add: sum.insert)
      have at: "atto (sum row_weight (P (set (s # counted))))" using w by (intro atto_sum) (simp add: P_def)
      have ge: "0 \<le> sum row_weight (P (set (s # counted)))" using w by (intro sum_nonneg) (simp add: P_def)
      have "sum row_weight (P (set (s # counted))) \<le> sum row_weight (set F)"
        using w by (intro sum_mono2) (auto simp: P_def)
      then have "rnd (sum row_weight (P (set (s # counted)))) = sum row_weight (P (set (s # counted)))"
        using ge small by (intro rnd_small [OF rnd at]) (simp_all only: le_less_trans)
      moreover have "bcnum (JStr (row_text v)) = row_weight v" by (simp add: row_weight_def)
      ultimately have "signerLoop rnd ix seen counted (sum row_weight (P (set counted))) (pk # pks) =
          signerLoop rnd ix (?l # seen) (s # counted) (sum row_weight (P (set (s # counted)))) pks"
        using False Some v sum ix [OF v(1)] by (simp add: Let_def)
      moreover have "set (s # counted) \<union> ?T = set counted \<union> ({s} \<union> ?T)" by auto
      ultimately show ?thesis unfolding T
        using Cons.IH [of "?l # seen" "s # counted"] Cons.prems Some by simp
    qed
  qed
qed simp

subsection \<open>The predicate is the threshold\<close>

lemma sum_list_abs: "list_all (\<lambda>x. 0 \<le> f x) xs \<Longrightarrow> sum_list (map (\<lambda>x. \<bar>f x :: rat\<bar>) xs) = sum_list (map f xs)"
  by (induction xs) auto

lemma stake_set: "stake (filter Q (first_rows [] rows)) = sum row_weight {v \<in> set (first_rows [] rows). Q v}"
proof -
  have "distinct (first_rows [] rows)" using first_rows_distinct by (rule distinct_map [THEN iffD1, THEN conjunct1])
  then show ?thesis by (simp add: stake_def sum_list_distinct_conv_sum_set)
qed

lemma stake_first_set: "stake (first_rows [] rows) = sum row_weight (set (first_rows [] rows))"
  using stake_set [of "\<lambda>_. True"] by simp

lemma well_formed_small:
  assumes "well_formed sn" "small_stakes (sn_rows sn)"
  shows "list_all (\<lambda>v. 0 \<le> row_weight v \<and> atto (row_weight v)) (first_rows [] (sn_rows sn))"
    and "0 \<le> stake (first_rows [] (sn_rows sn))" "stake (first_rows [] (sn_rows sn)) < 10 ^ 45"
    and "atto (stake (first_rows [] (sn_rows sn)))"
proof -
  show w: "list_all (\<lambda>v. 0 \<le> row_weight v \<and> atto (row_weight v)) (first_rows [] (sn_rows sn))"
    using assms by (auto simp: well_formed_def small_stakes_def list_all_iff)
  then show "0 \<le> stake (first_rows [] (sn_rows sn))"
    by (auto simp: stake_def list_all_iff intro!: sum_list_nonneg)
  from w have "list_all (\<lambda>v. 0 \<le> row_weight v) (first_rows [] (sn_rows sn))" by (auto simp: list_all_iff)
  from sum_list_abs [OF this] assms(2)
  show "stake (first_rows [] (sn_rows sn)) < 10 ^ 45"
    by (simp only: small_stakes_def stake_def)
  show "atto (stake (first_rows [] (sn_rows sn)))"
    unfolding stake_first_set using w by (intro atto_sum) (auto simp: list_all_iff)
qed

lemma meets_well_formed: "meetsStakeThreshold rnd sn signers \<Longrightarrow> well_formed sn"
  by (auto simp: meetsStakeThreshold_def indexStakeSources_def indexLoop_eq sumStakeWeights_def well_formed_def
      list_all_iff dest!: sumWeights_Inr split: if_splits option.splits sum.splits)

lemma owner_first: "owner rows pk = Some src \<Longrightarrow> src \<in> source_of ` set (first_rows [] rows)"
  using owner_source [of rows pk src] first_rows_sources [of "[]" rows] by simp

lemma index_weight:
  "v \<in> set (first_rows [] rows) \<Longrightarrow>
   map_of (map (\<lambda>v. (source_of v, row_text v)) (first_rows [] rows)) (source_of v) = Some (row_text v)"
  by (rule map_of_is_SomeI) (use first_rows_distinct [of "[]" rows] in \<open>auto simp: comp_def\<close>)

lemma meets_exact:
  assumes rnd: "exact64 rnd" and small: "small_stakes (sn_rows sn)" and wf: "well_formed sn"
  shows "meetsStakeThreshold rnd sn signers \<longleftrightarrow>
    2 * stake (first_rows [] (sn_rows sn)) < 3 * stake (signed_rows (sn_rows sn) signers)"
proof -
  let ?rows = "sn_rows sn" and ?F = "first_rows [] (sn_rows sn)"
  define ix where "ix = \<lparr>weightBySource = map (\<lambda>v. (source_of v, row_text v)) ?F,
    pubkeyToSource = fold (\<lambda>v. AList.update (pubkey_of v) (source_of v)) ?rows []\<rparr>"
  note w = well_formed_small [OF wf small]
  have own: "map_of (pubkeyToSource ix) = owner ?rows" by (simp add: ix_def owner_fold)
  have index: "indexStakeSources ?rows = Some ix"
    using wf by (simp add: indexStakeSources_def indexLoop_eq ix_def well_formed_def list_all_iff)
  have total: "sumWeights rnd 0 (weightBySource ix) = Inr (stake ?F)"
    using sumWeights_exact [OF rnd w(1), of 0] w by (simp add: ix_def)
  have "sumSignerStake rnd ix signers =
      sum row_weight {v \<in> set ?F. source_of v \<in> {src. \<exists>pk\<in>set signers. owner ?rows (ascii_lower (js_string pk)) = Some src}}"
    using signerLoop_exact [of rnd ?F ix "[]" "[]" signers, OF rnd first_rows_inj] owner_first w index_weight
    by (simp add: own sumSignerStake_def stake_first_set list_all_iff ix_def [THEN arg_cong [of _ _ weightBySource]])
  also have "\<dots> = stake (signed_rows ?rows signers)"
    by (simp add: signed_rows_def stake_set list_ex_iff)
  finally have tally: "sumSignerStake rnd ix signers = stake (signed_rows ?rows signers)" .
  let ?T = "stake (signed_rows ?rows signers)"
  have T: "0 \<le> ?T" "?T \<le> stake ?F" "atto ?T"
    using w(1) unfolding signed_rows_def stake_set stake_first_set
    by (auto simp: list_all_iff intro!: sum_nonneg sum_mono2 atto_sum)
  have r2: "rnd (2 * stake ?F) = 2 * stake ?F" using rnd_small(2) [OF rnd w(4,2,3)] .
  have r3: "rnd (3 * ?T) = 3 * ?T" using rnd_small(3) [OF rnd T(3,1)] T(2) w(3) by simp
  show ?thesis
    using wf T w(2) by (auto simp: meetsStakeThreshold_def well_formed_def index sumStakeWeights_def total tally r2 r3)
qed

lemma signs_subset:
  assumes "g ` set A \<subseteq> g ` set B" "list_ex (\<lambda>pk. f (g pk) = x) A"
  shows "list_ex (\<lambda>pk. f (g pk) = x) B"
proof -
  obtain p where p: "p \<in> set A" "f (g p) = x" using assms(2) by (auto simp: list_ex_iff)
  then have "g p \<in> g ` set B" using assms(1) by blast
  then obtain q where "q \<in> set B" "g q = g p" by auto
  with p show ?thesis by (auto simp: list_ex_iff intro!: bexI [of _ q])
qed

lemma signed_rows_mono:
  "(\<lambda>pk. ascii_lower (js_string pk)) ` set A \<subseteq> (\<lambda>pk. ascii_lower (js_string pk)) ` set B \<Longrightarrow>
   stake (signed_rows rows A) \<le> stake (signed_rows rows B) \<or> (\<exists>v\<in>set (first_rows [] rows). row_weight v < 0)"
proof (rule disjCI)
  assume sub: "(\<lambda>pk. ascii_lower (js_string pk)) ` set A \<subseteq> (\<lambda>pk. ascii_lower (js_string pk)) ` set B"
    and "\<not> (\<exists>v\<in>set (first_rows [] rows). row_weight v < 0)"
  then have w: "0 \<le> row_weight v" if "v \<in> set (first_rows [] rows)" for v
    using that by (meson not_le)
  show "stake (signed_rows rows A) \<le> stake (signed_rows rows B)"
    unfolding signed_rows_def stake_set
  proof (rule sum_mono2)
    show "{v \<in> set (first_rows [] rows). list_ex (\<lambda>pk. owner rows (ascii_lower (js_string pk)) = Some (source_of v)) A}
      \<subseteq> {v \<in> set (first_rows [] rows). list_ex (\<lambda>pk. owner rows (ascii_lower (js_string pk)) = Some (source_of v)) B}"
      using signs_subset [OF sub, of "owner rows"] by auto
  qed (use w in auto)
qed

lemma stake_overlap:
  "list_all (\<lambda>v. 0 \<le> row_weight v) F \<Longrightarrow>
   stake (filter P F) + stake (filter Q F) \<le> stake F + stake (filter (\<lambda>v. P v \<and> Q v) F)"
  by (induction F) (auto simp: stake_def)

subsection \<open>A snapshot for the witnesses\<close>

definition demo_row :: "string \<Rightarrow> string \<Rightarrow> string \<Rightarrow> jsval" where
  "demo_row pk src w = JObj [(''pubkey'', JStr pk), (''source'', JStr src), (''weight'', JStr w)]"

definition demo_snapshot :: snapshot where
  "demo_snapshot = \<lparr>sn_rows = [demo_row ''aa'' ''s1'' ''5'', demo_row ''ab'' ''s1'' ''5'',
     demo_row ''bb'' ''s2'' ''4.5'', demo_row ''cc'' ''s3'' ''2''], sn_truncated = False\<rparr>"

lemma demo_mants:
  "dec_mant ''5'' = Some (5, 0)" "dec_mant ''4.5'' = Some (45, 1)" "dec_mant ''2'' = Some (2, 0)"
  by code_simp+

lemma demo_trims: "js_trim ''5'' = ''5''" "js_trim ''4.5'' = ''4.5''" "js_trim ''2'' = ''2''"
  by code_simp+

lemma demo_values:
  "dec_value ''5'' = Some 5" "dec_value ''4.5'' = Some (9 / 2)" "dec_value ''2'' = Some 2"
  by (simp_all add: dec_value_def strip_sign_def demo_mants signed_def)

lemma demo_rows:
  "first_rows [] (sn_rows demo_snapshot) =
    [demo_row ''aa'' ''s1'' ''5'', demo_row ''bb'' ''s2'' ''4.5'', demo_row ''cc'' ''s3'' ''2'']"
  by code_simp

lemma demo_weights:
  "row_weight (demo_row ''aa'' ''s1'' ''5'') = 5" "row_weight (demo_row ''bb'' ''s2'' ''4.5'') = 9 / 2"
  "row_weight (demo_row ''cc'' ''s3'' ''2'') = 2"
  by (simp_all add: row_weight_def row_text_def bcnum_def demo_row_def get_prop_def is_nullish_def demo_values demo_trims)

lemma demo_small: "small_stakes (sn_rows demo_snapshot)"
proof -
  have "atto 5" "atto (9 / 2)" "atto 2"
    unfolding atto_iff
    by (rule exI [of _ "5 * 10 ^ 18"], simp, rule exI [of _ "45 * 10 ^ 17"], simp, rule exI [of _ "2 * 10 ^ 18"], simp)
  then show ?thesis by (simp add: small_stakes_def demo_rows demo_weights)
qed

lemma demo_well_formed: "well_formed demo_snapshot"
proof -
  have "list_all (\<lambda>v. \<not> blank_source v) (sn_rows demo_snapshot)"
    "list_all numeric_row (first_rows [] (sn_rows demo_snapshot))" "\<not> sn_truncated demo_snapshot"
    by code_simp+
  then show ?thesis by (simp add: well_formed_def demo_rows demo_weights)
qed

lemma exact64_id: "exact64 (\<lambda>q. q)"
  by (simp add: exact64_def)

section \<open>Properties\<close>

text \<open>
  C29: The predicate is exactly the two-thirds rule over distinct sources: it holds if and only if the
  snapshot is well formed (not truncated, no blank source, every first row's weight numeric and not
  negative) and three times the stake of the sources that own a signing key exceeds twice the total.
\<close>

theorem threshold_exact:
  assumes "exact64 rnd" "small_stakes (sn_rows sn)"
  shows "meetsStakeThreshold rnd sn signers \<longleftrightarrow>
    well_formed sn \<and> 2 * stake (first_rows [] (sn_rows sn)) < 3 * stake (signed_rows (sn_rows sn) signers)"
  using meets_exact [OF assms] meets_well_formed by blast

theorem threshold_exact_witness:
  "meetsStakeThreshold (\<lambda>q. q) demo_snapshot [JStr ''AA'', JStr ''bb''] \<longleftrightarrow>
    well_formed demo_snapshot \<and> 2 * stake (first_rows [] (sn_rows demo_snapshot)) <
      3 * stake (signed_rows (sn_rows demo_snapshot) [JStr ''AA'', JStr ''bb''])"
  by (rule threshold_exact [OF exact64_id demo_small])

text \<open>
  A snapshot the code cannot read never reaches the threshold, whatever the rounding and whoever
  signs: truncation, a blank source, a missing or non-numeric weight and a negative weight each refuse.
\<close>

theorem threshold_fails_closed:
  assumes "sn_truncated sn \<or> list_ex blank_source (sn_rows sn) \<or>
    list_ex (\<lambda>v. \<not> numeric_row v \<or> row_weight v < 0) (first_rows [] (sn_rows sn))"
  shows "\<not> meetsStakeThreshold rnd sn signers"
  using assms meets_well_formed by (fastforce simp: well_formed_def list_ex_iff list_all_iff)

theorem threshold_fails_closed_witness:
  "\<not> meetsStakeThreshold (\<lambda>q. q) (demo_snapshot\<lparr>sn_truncated := True\<rparr>) [JStr ''aa'', JStr ''bb'', JStr ''cc'']"
  by (rule threshold_fails_closed) simp

text \<open>
  Quorum intersection: two signer sets that both reach the threshold share sources holding more than
  a third of the total stake, so with less than a third of it dishonest an honest source signed both.
\<close>

theorem quorum_intersection:
  assumes "exact64 rnd" "small_stakes (sn_rows sn)"
    and "meetsStakeThreshold rnd sn A" "meetsStakeThreshold rnd sn B"
  shows "stake (first_rows [] (sn_rows sn)) <
    3 * stake (filter (\<lambda>v. v \<in> set (signed_rows (sn_rows sn) A) \<and> v \<in> set (signed_rows (sn_rows sn) B))
                 (first_rows [] (sn_rows sn)))"
proof -
  let ?F = "first_rows [] (sn_rows sn)"
  have wf: "well_formed sn" by (rule meets_well_formed [OF assms(3)])
  have f: "filter (\<lambda>v. v \<in> set (signed_rows (sn_rows sn) S)) ?F = signed_rows (sn_rows sn) S" for S
    unfolding signed_rows_def by (rule filter_cong) auto
  have "stake (signed_rows (sn_rows sn) A) + stake (signed_rows (sn_rows sn) B) \<le>
      stake ?F + stake (filter (\<lambda>v. v \<in> set (signed_rows (sn_rows sn) A) \<and> v \<in> set (signed_rows (sn_rows sn) B)) ?F)"
    using stake_overlap [of ?F "\<lambda>v. v \<in> set (signed_rows (sn_rows sn) A)" "\<lambda>v. v \<in> set (signed_rows (sn_rows sn) B)"]
      well_formed_small(1) [OF wf assms(2)] by (auto simp: f list_all_iff)
  then show ?thesis using assms(3,4) meets_exact [OF assms(1,2) wf] by auto
qed

lemma demo_meets: "meetsStakeThreshold (\<lambda>q. q) demo_snapshot [JStr ''AA'', JStr ''bb'']"
proof -
  have "signed_rows (sn_rows demo_snapshot) [JStr ''AA'', JStr ''bb''] =
      [demo_row ''aa'' ''s1'' ''5'', demo_row ''bb'' ''s2'' ''4.5'']" by code_simp
  then show ?thesis
    by (simp add: meets_exact [OF exact64_id demo_small demo_well_formed] demo_rows demo_weights stake_def)
qed

theorem quorum_intersection_witness:
  "stake (first_rows [] (sn_rows demo_snapshot)) <
    3 * stake (filter (\<lambda>v. v \<in> set (signed_rows (sn_rows demo_snapshot) [JStr ''AA'', JStr ''bb'']) \<and>
                           v \<in> set (signed_rows (sn_rows demo_snapshot) [JStr ''AA'', JStr ''bb'']))
                 (first_rows [] (sn_rows demo_snapshot)))"
  by (rule quorum_intersection [OF exact64_id demo_small demo_meets demo_meets])

text \<open>
  The signers count as a set of lower-cased keys: more signers never lose the threshold, and order,
  repetition and letter case of the signer list do not matter.
\<close>

theorem threshold_monotone:
  assumes "exact64 rnd" "small_stakes (sn_rows sn)"
    and "(\<lambda>pk. ascii_lower (js_string pk)) ` set A \<subseteq> (\<lambda>pk. ascii_lower (js_string pk)) ` set B"
    and "meetsStakeThreshold rnd sn A"
  shows "meetsStakeThreshold rnd sn B"
  using signed_rows_mono [OF assms(3), of "sn_rows sn"] meets_well_formed [OF assms(4)] assms(4)
    meets_exact [OF assms(1,2)] by (fastforce simp: well_formed_def list_all_iff)

theorem threshold_monotone_witness:
  "meetsStakeThreshold (\<lambda>q. q) demo_snapshot [JStr ''cc'', JStr ''bb'', JStr ''bb'', JStr ''aA'']"
  by (rule threshold_monotone [OF exact64_id demo_small _ demo_meets]) code_simp

text \<open>
  \<open>totalStake\<close> agrees with the threshold on what a readable snapshot is: it returns the exact total over
  distinct sources for a well-formed snapshot and throws for every other one.
\<close>

theorem total_stake_exact:
  assumes "exact64 rnd" "small_stakes (sn_rows sn)"
  shows "totalStake rnd sn = Inr S \<longleftrightarrow> well_formed sn \<and> S = stake (first_rows [] (sn_rows sn))"
proof (cases "well_formed sn")
  case True
  note w = well_formed_small [OF this assms(2)]
  have "weightLoop [] (sn_rows sn) = Inr (map (\<lambda>v. (source_of v, row_text v)) (first_rows [] (sn_rows sn)))"
    using weightLoop_ok [of "sn_rows sn" "[]"] True by (simp add: well_formed_def list_all_iff)
  then show ?thesis
    using sumWeights_exact [OF assms(1) w(1), of 0] w True by (auto simp: totalStake_def well_formed_def)
next
  case False
  have "totalStake rnd sn \<noteq> Inr S"
  proof
    assume t: "totalStake rnd sn = Inr S"
    then obtain ws where ws: "weightLoop [] (sn_rows sn) = Inr ws" "sumWeights rnd 0 ws = Inr S"
      by (auto simp: totalStake_def try_bind_Inr split: if_splits)
    note ok = weightLoop_Inr [OF ws(1)]
    with ws have "sumWeights rnd 0 (map (\<lambda>v. (source_of v, row_text v)) (first_rows [] (sn_rows sn))) = Inr S"
      using weightLoop_ok [of "sn_rows sn" "[]"] by simp
    from sumWeights_Inr [OF this] ok t have "well_formed sn"
      by (auto simp: well_formed_def list_all_iff totalStake_def split: if_splits)
    with False show False by simp
  qed
  with False show ?thesis by simp
qed

theorem total_stake_exact_witness:
  "totalStake (\<lambda>q. q) demo_snapshot = Inr (23 / 2) \<longleftrightarrow>
    well_formed demo_snapshot \<and> 23 / 2 = stake (first_rows [] (sn_rows demo_snapshot))"
  by (rule total_stake_exact [OF exact64_id demo_small])

end
