(* ===== verification/Checkpoint.thy ===== *)
theory Checkpoint
  imports StakeQuorum MerklePrims
begin

text \<open>
  Quorum-signed state checkpoints: \<open>src/checkpoint.js\<close>, with the supersession suffix of
  \<open>src/protocol/light_client/supersede_suffix.js\<close> and \<open>checkpoint_supersession.js\<close>.

  Node's Ed25519 verification is the parameter \<open>ed\<close>: key in DER form, message, signature; it is
  \<open>False\<close> where the library throws. \<open>JSON.parse\<close> is the parameter \<open>jparse\<close>, \<open>None\<close> where it throws.
  Console warnings are not modelled.
\<close>

section \<open>Checkpoints\<close>

record checkpoint =
  cp_chain :: jsval
  cp_network :: jsval
  cp_block_index :: jsval
  cp_block_hash :: jsval
  cp_ledger_hash :: jsval
  cp_actions_hash :: jsval
  cp_contract_hash :: jsval
  cp_checkpoint_seq :: jsval
  cp_snapshot_block :: jsval
  cp_state_root :: jsval
  cp_block_merkle_root :: jsval
  cp_state_root_version :: jsval
  cp_block_merkle_version :: jsval
  cp_supersedes_from :: jsval
  cp_rules_digest :: jsval
  cp_superseded_by_seq :: jsval
  cp_fold_archive :: jsval
  cp_validator_signatures :: jsval

datatype cp_error =
    CheckpointRequired
  | SupersedeIncomplete
  | BadSupersedesFrom
  | BadRulesDigest

section \<open>Gates of a checkpoint\<close>

definition isCheckpointCommitmentActive :: "jsval \<Rightarrow> jsval \<Rightarrow> bool" where
  "isCheckpointCommitmentActive snapshotBlock network =
     (activeAt shipped [] (\<lambda>_. JUndef) ''checkpoint_commitment_activation.CHECKPOINT_COMMITMENT_ACTIVATION''
        network JNull snapshotBlock JNull = Inr True)"

definition isCheckpointSupersedeActive :: "jsval \<Rightarrow> jsval \<Rightarrow> bool" where
  "isCheckpointSupersedeActive snapshotBlock network =
     (activeAt shipped [] (\<lambda>_. JUndef) ''checkpoint_supersede_activation.CHECKPOINT_SUPERSEDE_ACTIVATION''
        network (JStr ''BTC'') snapshotBlock JNull = Inr True)"

section \<open>Supersession\<close>

definition hasSupersedeFields :: "checkpoint option \<Rightarrow> bool" where
  "hasSupersedeFields cp =
     (case cp of None \<Rightarrow> False
      | Some c \<Rightarrow> \<not> is_nullish (cp_supersedes_from c) \<or> \<not> is_nullish (cp_rules_digest c))"

definition hex_text :: "nat \<Rightarrow> string \<Rightarrow> bool" where
  "hex_text n s \<longleftrightarrow> length s = n \<and> list_all is_hex_char s"

definition safe_integer :: "jsnum \<Rightarrow> int option" where
  "safe_integer n =
     (case n of
        Num q \<Rightarrow> if of_int \<lfloor>q\<rfloor> = q \<and> \<bar>\<lfloor>q\<rfloor>\<bar> \<le> MAX_SAFE_INTEGER then Some \<lfloor>q\<rfloor> else None
      | _ \<Rightarrow> None)"

definition supersedeSuffix :: "checkpoint \<Rightarrow> cp_error + string" where
  "supersedeSuffix cp =
     (let hasFrom = (\<not> is_nullish (cp_supersedes_from cp)); hasDigest = (\<not> is_nullish (cp_rules_digest cp)) in
      if \<not> hasFrom \<and> \<not> hasDigest then Inr []
      else if \<not> hasFrom \<or> \<not> hasDigest then Inl SupersedeIncomplete
      else
        (case safe_integer (js_Number (cp_supersedes_from cp)) of
           None \<Rightarrow> Inl BadSupersedesFrom
         | Some from \<Rightarrow>
             if from < 0 then Inl BadSupersedesFrom
             else
               (case cp_rules_digest cp of
                  JStr d \<Rightarrow>
                    if hex_text 64 d then Inr (''|SUPERSEDE|'' @ int_str from @ ''|'' @ ascii_lower d)
                    else Inl BadRulesDigest
                | _ \<Rightarrow> Inl BadRulesDigest)))"

definition nullableNumber :: "jsval \<Rightarrow> jsnum option" where
  "nullableNumber v = (if is_nullish v then None else Some (js_Number v))"

record supersession =
  ss_from :: "jsnum option"
  ss_digest :: "string option"
  ss_by_seq :: "jsnum option"

definition supersessionFields :: "checkpoint option \<Rightarrow> supersession" where
  "supersessionFields row =
     (case row of
        None \<Rightarrow> \<lparr>ss_from = None, ss_digest = None, ss_by_seq = None\<rparr>
      | Some c \<Rightarrow>
          \<lparr>ss_from = nullableNumber (cp_supersedes_from c),
           ss_digest = (if is_nullish (cp_rules_digest c) then None
                        else Some (ascii_lower (js_string (cp_rules_digest c)))),
           ss_by_seq = nullableNumber (cp_superseded_by_seq c)\<rparr>)"

text \<open>\<open>None\<close> is no refusal; a refusal carries the superseding sequence number.\<close>

definition refuseSuperseded :: "checkpoint option \<Rightarrow> bool \<Rightarrow> jsnum option" where
  "refuseSuperseded row allowSuperseded =
     (case ss_by_seq (supersessionFields row) of
        None \<Rightarrow> None
      | Some s \<Rightarrow> if allowSuperseded then None else Some s)"

section \<open>The canonical signing string\<close>

definition base_fields :: "checkpoint \<Rightarrow> string list" where
  "base_fields cp =
     [''XCHECKPOINT'', js_text (cp_chain cp), js_text (cp_network cp), js_string (cp_block_index cp),
      js_text (cp_block_hash cp), js_text (cp_ledger_hash cp), js_text (cp_actions_hash cp),
      js_text (cp_contract_hash cp), js_string (cp_checkpoint_seq cp), js_string (cp_snapshot_block cp)]"

definition root_fields :: "checkpoint \<Rightarrow> string list" where
  "root_fields cp =
     [ascii_lower (js_string (cp_state_root cp)), js_string (cp_state_root_version cp),
      ascii_lower (js_string (cp_block_merkle_root cp)), js_string (cp_block_merkle_version cp)]"

definition fold_fields :: "jsval \<Rightarrow> string list" where
  "fold_fields f =
     [js_string (js_prop f ''match_batch_seq''), js_string (js_prop f ''match_count''),
      ascii_lower (js_string (js_prop f ''batch_crc32'')), js_string (js_prop f ''total_chunks'')]"

definition signs_roots :: "checkpoint \<Rightarrow> bool" where
  "signs_roots cp \<longleftrightarrow>
     isCheckpointCommitmentActive (cp_snapshot_block cp) (cp_network cp) \<and>
     \<not> is_nullish (cp_state_root cp) \<and> \<not> is_nullish (cp_block_merkle_root cp) \<and>
     \<not> is_nullish (cp_state_root_version cp) \<and> \<not> is_nullish (cp_block_merkle_version cp)"

definition CHECKPOINT_TAG :: string where
  "CHECKPOINT_TAG = ''XCHECKPOINT''"

definition round_id :: "checkpoint \<Rightarrow> string" where
  "round_id cp =
     js_string (cp_chain cp) @ ''|'' @ js_string (cp_network cp) @ ''|'' @ js_string (cp_block_index cp) @ ''|'' @
     js_string (cp_checkpoint_seq cp) @
     (if is_nullish (cp_fold_archive cp) then []
      else ''|'' @ js_string (js_prop (cp_fold_archive cp) ''match_batch_seq''))"

definition canonicalCheckpoint :: "checkpoint option \<Rightarrow> cp_error + string" where
  "canonicalCheckpoint checkpoint =
     (case checkpoint of
        None \<Rightarrow> Inl CheckpointRequired
      | Some cp \<Rightarrow>
          (let raw = join ''|'' (base_fields cp) @ (if signs_roots cp then ''|'' @ join ''|'' (root_fields cp) else []) in
           try_bind
             (if isCheckpointSupersedeActive (cp_snapshot_block cp) (cp_network cp) \<and> hasSupersedeFields (Some cp)
              then supersedeSuffix cp else Inr [])
             (\<lambda>suffix.
                (let raw1 = raw @ suffix @
                       (if is_nullish (cp_fold_archive cp) then []
                        else ''|'' @ join ''|'' (fold_fields (cp_fold_archive cp))) in
                 if isEquivHeaderActive (cp_snapshot_block cp) (cp_network cp)
                 then Inr (buildEquivCanonical CHECKPOINT_TAG (round_id cp) ''0'' raw1)
                 else Inr raw1))))"

definition tryCanonicalCheckpoint :: "checkpoint option \<Rightarrow> string option" where
  "tryCanonicalCheckpoint cp = (case canonicalCheckpoint cp of Inl e \<Rightarrow> None | Inr s \<Rightarrow> Some s)"

section \<open>Signatures\<close>

definition SPKI_ED25519_PREFIX :: bytes where
  "SPKI_ED25519_PREFIX = hex_decode ''302a300506032b6570032100''"

definition verifySignature :: "(bytes \<Rightarrow> bytes \<Rightarrow> bytes \<Rightarrow> bool) \<Rightarrow> string \<Rightarrow> string \<Rightarrow> string \<Rightarrow> bool" where
  "verifySignature ed payload sigHex pubkeyHex =
     (if payload = [] \<or> sigHex = [] \<or> pubkeyHex = [] then False
      else if \<not> hex_text 64 pubkeyHex then False
      else if \<not> hex_text 128 sigHex then False
      else ed (SPKI_ED25519_PREFIX @ hex_decode pubkeyHex) (utf8 payload) (hex_decode sigHex))"

section \<open>Refusals before any signature is read\<close>

definition commitmentMissing :: "checkpoint option \<Rightarrow> bool" where
  "commitmentMissing cp =
     (case cp of
        None \<Rightarrow> False
      | Some c \<Rightarrow>
          isCheckpointCommitmentActive (cp_snapshot_block c) (cp_network c) \<and>
          (\<not> js_truthy (cp_state_root c) \<or> \<not> js_truthy (cp_block_merkle_root c) \<or>
           is_nullish (cp_state_root_version c) \<or> is_nullish (cp_block_merkle_version c)))"

definition commitmentActive :: "checkpoint option \<Rightarrow> bool" where
  "commitmentActive cp =
     (case cp of None \<Rightarrow> False
      | Some c \<Rightarrow> isCheckpointCommitmentActive (cp_snapshot_block c) (cp_network c))"

definition supersessionDisallowed :: "checkpoint option \<Rightarrow> bool" where
  "supersessionDisallowed cp =
     (case cp of None \<Rightarrow> False
      | Some c \<Rightarrow> hasSupersedeFields cp \<and> \<not> isCheckpointSupersedeActive (cp_snapshot_block c) (cp_network c))"

definition isWeightedEntry :: "jsval \<Rightarrow> bool" where
  "isWeightedEntry v =
     (case v of
        JObj kvs \<Rightarrow>
          \<not> is_nullish (js_prop v ''source'') \<and> js_trim (js_string (js_prop v ''source'')) \<noteq> [] \<and>
          \<not> is_nullish (js_prop v ''weight'') \<and> js_trim (js_string (js_prop v ''weight'')) \<noteq> [] \<and>
          (case js_Number (js_prop v ''weight'') of Num q \<Rightarrow> 0 \<le> q | _ \<Rightarrow> False)
      | _ \<Rightarrow> False)"

section \<open>The verdict\<close>

record cp_verdict =
  cv_valid :: bool
  cv_validSigs :: nat
  cv_quorum :: nat
  cv_weighted :: bool
  cv_canonical :: "string option"

definition qualified_key :: "jsval \<Rightarrow> string" where
  "qualified_key p =
     ascii_lower (js_string (if js_truthy p \<and> js_prop p ''pubkey'' \<noteq> JUndef then js_prop p ''pubkey'' else p))"

definition count_quorum :: "nat \<Rightarrow> nat" where
  "count_quorum n = (if n \<le> 1 then 1 else max (2 * ((n - 1) div 3) + 1) ((n + 2) div 2))"

definition signature_list :: "(string \<Rightarrow> jsval option) \<Rightarrow> jsval \<Rightarrow> jsval list" where
  "signature_list jparse sigs =
     (case (case sigs of JStr s \<Rightarrow> (case jparse s of None \<Rightarrow> JArr [] | Some v \<Rightarrow> v) | v \<Rightarrow> v) of
        JArr xs \<Rightarrow> xs | _ \<Rightarrow> [])"

text \<open>
  The loop over the signature entries: \<open>seen\<close> and \<open>validSigners\<close> of the code always hold the same keys,
  in the order they were accepted, so one list stands for both and \<open>validSigs\<close> is its length.
\<close>

definition sig_pubkey :: "jsval \<Rightarrow> string" where
  "sig_pubkey s = ascii_lower (js_string (prop_or_empty s ''pubkey''))"

definition sig_hex :: "jsval \<Rightarrow> string" where
  "sig_hex s = js_string (prop_or_empty s ''sig'')"

fun sigLoop ::
    "(bytes \<Rightarrow> bytes \<Rightarrow> bytes \<Rightarrow> bool) \<Rightarrow> string \<Rightarrow> (string \<Rightarrow> bool) \<Rightarrow> string list \<Rightarrow> jsval list \<Rightarrow> string list" where
  "sigLoop ed canonical qualified seen [] = seen"
| "sigLoop ed canonical qualified seen (s # sigs) =
     (let pk = sig_pubkey s; sig = sig_hex s in
      if pk = [] \<or> pk \<in> set seen \<or> \<not> qualified pk then sigLoop ed canonical qualified seen sigs
      else if verifySignature ed canonical sig pk then sigLoop ed canonical qualified (seen @ [pk]) sigs
      else sigLoop ed canonical qualified seen sigs)"

definition verifyCheckpoint ::
    "(rat \<Rightarrow> rat) \<Rightarrow> (bytes \<Rightarrow> bytes \<Rightarrow> bytes \<Rightarrow> bool) \<Rightarrow> (string \<Rightarrow> jsval option) \<Rightarrow>
     checkpoint option \<Rightarrow> snapshot \<Rightarrow> cp_verdict" where
  "verifyCheckpoint rnd ed jparse checkpoint validators =
     (let vset = sn_rows validators;
          qualified = map qualified_key vset;
          quorum = count_quorum (card (set qualified));
          weighted = isStakeWeightedQuorumActive (case checkpoint of None \<Rightarrow> JUndef | Some c \<Rightarrow> cp_snapshot_block c)
                       (case checkpoint of None \<Rightarrow> JUndef | Some c \<Rightarrow> cp_network c);
          canonical = tryCanonicalCheckpoint checkpoint in
      case (canonical, checkpoint) of
        (Some text, Some cp) \<Rightarrow>
          if commitmentMissing checkpoint \<or> supersessionDisallowed checkpoint
          then \<lparr>cv_valid = False, cv_validSigs = 0, cv_quorum = quorum, cv_weighted = weighted, cv_canonical = canonical\<rparr>
          else
            (let signers = sigLoop ed text (\<lambda>pk. pk \<in> set qualified) []
                             (signature_list jparse (cp_validator_signatures cp));
                 valid = (if weighted
                          then vset \<noteq> [] \<and> list_all isWeightedEntry vset \<and>
                               meetsStakeThreshold rnd validators (map JStr signers)
                          else qualified \<noteq> [] \<and> quorum \<le> length signers) in
             \<lparr>cv_valid = valid, cv_validSigs = length signers, cv_quorum = quorum, cv_weighted = weighted,
              cv_canonical = canonical\<rparr>)
      | _ \<Rightarrow> \<lparr>cv_valid = False, cv_validSigs = 0, cv_quorum = quorum, cv_weighted = weighted, cv_canonical = canonical\<rparr>)"

section \<open>Served bodies\<close>

datatype supplied_error = ValidatorsNotArray

text \<open>\<open>opts.validators\<close>: absent, an array (a snapshot), or something else.\<close>

datatype validators_opt = NoValidators | ValidatorSet snapshot | OtherValidators

definition suppliedValidators :: "validators_opt option \<Rightarrow> supplied_error + snapshot option" where
  "suppliedValidators opts =
     (case opts of
        None \<Rightarrow> Inr None
      | Some NoValidators \<Rightarrow> Inr None
      | Some (ValidatorSet sn) \<Rightarrow> Inr (Some sn)
      | Some OtherValidators \<Rightarrow> Inl ValidatorsNotArray)"

record served_body =
  sb_checkpoint :: "checkpoint option"
  sb_validators :: "jsval list option"
  sb_snapshot_available :: jsval
  sb_final :: jsval

record served_verdict =
  sv_verdict :: cp_verdict
  sv_snapshotAvailable :: bool
  sv_final :: bool
  sv_validatorSource :: string

definition verifyServedCheckpoint ::
    "(rat \<Rightarrow> rat) \<Rightarrow> (bytes \<Rightarrow> bytes \<Rightarrow> bytes \<Rightarrow> bool) \<Rightarrow> (string \<Rightarrow> jsval option) \<Rightarrow>
     served_body \<Rightarrow> snapshot option \<Rightarrow> served_verdict" where
  "verifyServedCheckpoint rnd ed jparse body supplied =
     (let vset = (case supplied of
                    Some sn \<Rightarrow> sn
                  | None \<Rightarrow> \<lparr>sn_rows = (case sb_validators body of Some rows \<Rightarrow> rows | None \<Rightarrow> []), sn_truncated = False\<rparr>) in
      \<lparr>sv_verdict = verifyCheckpoint rnd ed jparse (sb_checkpoint body) vset,
       sv_snapshotAvailable = js_truthy (sb_snapshot_available body),
       sv_final = (sb_final body = JUndef \<or> sb_final body = JBool True),
       sv_validatorSource = (if supplied \<noteq> None then ''supplied'' else ''explorer'')\<rparr>)"

section \<open>The signature loop counts verified keys\<close>

text \<open>The distinct qualified keys that have some verifying entry.\<close>

definition valid_signers ::
    "(bytes \<Rightarrow> bytes \<Rightarrow> bytes \<Rightarrow> bool) \<Rightarrow> string \<Rightarrow> (string \<Rightarrow> bool) \<Rightarrow> jsval list \<Rightarrow> string set" where
  "valid_signers ed text qualified sigs =
     {pk. qualified pk \<and> (\<exists>s\<in>set sigs. sig_pubkey s = pk \<and> verifySignature ed text (sig_hex s) pk)}"

lemma verifySignature_blank [simp]: "\<not> verifySignature ed text sig []"
  by (simp add: verifySignature_def)

lemma sigLoop_set: "set (sigLoop ed text q seen sigs) = set seen \<union> valid_signers ed text q sigs"
proof (induction sigs arbitrary: seen)
  case (Cons s sigs)
  have v: "valid_signers ed text q (s # sigs) =
      (if q (sig_pubkey s) \<and> verifySignature ed text (sig_hex s) (sig_pubkey s) then {sig_pubkey s} else {}) \<union>
      valid_signers ed text q sigs"
    by (auto simp: valid_signers_def)
  show ?case unfolding v by (auto simp: Cons.IH Let_def)
qed (simp add: valid_signers_def)

lemma sigLoop_distinct: "distinct seen \<Longrightarrow> distinct (sigLoop ed text q seen sigs)"
  by (induction sigs arbitrary: seen) (auto simp: Let_def)

lemma sigLoop_count: "length (sigLoop ed text q [] sigs) = card (valid_signers ed text q sigs)"
  using sigLoop_set [of ed _ q "[]" sigs] sigLoop_distinct [of "[]" ed _ q sigs]
  by (simp add: distinct_card [symmetric])

text \<open>The rows of a snapshot whose source owns a key of a set.\<close>

definition owned_rows :: "jsval list \<Rightarrow> string set \<Rightarrow> jsval list" where
  "owned_rows rows ks =
     filter (\<lambda>v. \<exists>k\<in>ks. owner rows k = Some (source_of v)) (first_rows [] rows)"

lemma lower_char_idem: "lower_char (lower_char c) = lower_char c"
proof -
  have "of_char (lower_char c) < (65 :: nat) \<or> of_char (lower_char c) > (90 :: nat)"
    by (auto simp: lower_char_def Let_def not_le)
  then show ?thesis by (subst (1) lower_char_def) (auto simp: Let_def)
qed

lemma ascii_lower_idem [simp]: "ascii_lower (ascii_lower s) = ascii_lower s"
  by (simp add: ascii_lower_def lower_char_idem)

lemma signed_rows_keys:
  assumes "\<forall>k\<in>set ks. ascii_lower k = k"
  shows "signed_rows rows (map JStr ks) = owned_rows rows (set ks)"
  unfolding signed_rows_def owned_rows_def using assms by (intro filter_cong) (auto simp: list_ex_iff)

lemma sig_pubkey_lower [simp]: "ascii_lower (sig_pubkey s) = sig_pubkey s"
  by (simp add: sig_pubkey_def)

lemma valid_signers_lower: "k \<in> valid_signers ed text q sigs \<Longrightarrow> ascii_lower k = k"
  by (auto simp: valid_signers_def)

section \<open>The canonical string as a joined list\<close>

definition supersede_fields :: "checkpoint \<Rightarrow> string list" where
  "supersede_fields cp =
     [''SUPERSEDE'', int_str (the (safe_integer (js_Number (cp_supersedes_from cp)))),
      ascii_lower (js_string (cp_rules_digest cp))]"

definition signs_supersede :: "checkpoint \<Rightarrow> bool" where
  "signs_supersede cp \<longleftrightarrow>
     isCheckpointSupersedeActive (cp_snapshot_block cp) (cp_network cp) \<and> hasSupersedeFields (Some cp)"

definition folds :: "checkpoint \<Rightarrow> bool" where
  "folds cp \<longleftrightarrow> \<not> is_nullish (cp_fold_archive cp)"

definition wraps :: "checkpoint \<Rightarrow> bool" where
  "wraps cp \<longleftrightarrow> isEquivHeaderActive (cp_snapshot_block cp) (cp_network cp)"

definition header_fields :: "checkpoint \<Rightarrow> string list" where
  "header_fields cp =
     [''EQUIV'', CHECKPOINT_TAG, js_string (cp_chain cp), js_string (cp_network cp),
      js_string (cp_block_index cp), js_string (cp_checkpoint_seq cp)] @
     (if folds cp then [js_string (js_prop (cp_fold_archive cp) ''match_batch_seq'')] else []) @ [''0'', []]"

definition segments :: "checkpoint \<Rightarrow> string list" where
  "segments cp =
     (if wraps cp then header_fields cp else []) @ base_fields cp @
     (if signs_roots cp then root_fields cp else []) @
     (if signs_supersede cp then supersede_fields cp else []) @
     (if folds cp then fold_fields (cp_fold_archive cp) else [])"

text \<open>The parts of the string two checkpoints commit to, independent of what they hold.\<close>

definition same_shape :: "checkpoint \<Rightarrow> checkpoint \<Rightarrow> bool" where
  "same_shape a b \<longleftrightarrow> wraps a = wraps b \<and> signs_roots a = signs_roots b \<and>
     signs_supersede a = signs_supersede b \<and> folds a = folds b"

lemma join_if:
  "xs \<noteq> [] \<Longrightarrow> ys \<noteq> [] \<Longrightarrow>
   join ''|'' xs @ (if p then ''|'' @ join ''|'' ys else []) = join ''|'' (xs @ (if p then ys else []))"
  by (simp add: join_append)

lemma fields_nonempty [simp]:
  "base_fields cp \<noteq> []" "root_fields cp \<noteq> []" "supersede_fields cp \<noteq> []" "fold_fields f \<noteq> []"
  by (simp_all add: base_fields_def root_fields_def supersede_fields_def fold_fields_def)

lemma supersedeSuffix_join:
  assumes "supersedeSuffix cp = Inr s" "hasSupersedeFields (Some cp)"
  shows "s = ''|'' @ join ''|'' (supersede_fields cp)"
  using assms
  by (auto simp: supersedeSuffix_def supersede_fields_def hasSupersedeFields_def Let_def
      split: if_splits option.splits jsval.splits)

lemma wrap_join:
  assumes "xs \<noteq> []"
  shows "buildEquivCanonical CHECKPOINT_TAG (round_id cp) ''0'' (join ''|'' xs) = join ''|'' (header_fields cp @ xs)"
proof -
  have "join ''|'' (header_fields cp @ xs) = join ''|'' (header_fields cp) @ ''|'' @ join ''|'' xs"
    using assms by (intro join_append) (simp_all add: header_fields_def)
  then show ?thesis
    by (simp add: buildEquivCanonical_def equivPrefix_def equivKey_def round_id_def header_fields_def folds_def)
qed

lemma canonical_segments:
  assumes "canonicalCheckpoint (Some cp) = Inr t"
  shows "t = join ''|'' (segments cp)"
proof -
  let ?b = "base_fields cp @ (if signs_roots cp then root_fields cp else [])"
  let ?s = "if signs_supersede cp then supersede_fields cp else []"
  let ?f = "if folds cp then fold_fields (cp_fold_archive cp) else []"
  obtain sx where sx: "(if signs_supersede cp then supersedeSuffix cp else Inr []) = Inr sx"
    and t: "t = (let raw1 = (join ''|'' (base_fields cp) @
                         (if signs_roots cp then ''|'' @ join ''|'' (root_fields cp) else [])) @ sx @
                       (if folds cp then ''|'' @ join ''|'' (fold_fields (cp_fold_archive cp)) else []) in
                 if wraps cp then buildEquivCanonical CHECKPOINT_TAG (round_id cp) ''0'' raw1 else raw1)"
    using assms
    by (auto simp: canonicalCheckpoint_def Let_def try_bind_Inr signs_supersede_def wraps_def folds_def
        split: if_splits)
  have sx': "sx = (if signs_supersede cp then ''|'' @ join ''|'' (supersede_fields cp) else [])"
  proof (cases "signs_supersede cp")
    case True
    then show ?thesis
      using sx supersedeSuffix_join [of cp sx] by (simp only: signs_supersede_def if_True simp_thms)
  qed (use sx in simp)
  have "join ''|'' (base_fields cp) @ (if signs_roots cp then ''|'' @ join ''|'' (root_fields cp) else []) =
      join ''|'' ?b" by (rule join_if) simp_all
  moreover have "join ''|'' ?b @ sx = join ''|'' (?b @ ?s)" unfolding sx' by (rule join_if) simp_all
  moreover have "join ''|'' (?b @ ?s) @ (if folds cp then ''|'' @ join ''|'' (fold_fields (cp_fold_archive cp)) else [])
      = join ''|'' ((?b @ ?s) @ ?f)" by (rule join_if) simp_all
  ultimately have raw: "(join ''|'' (base_fields cp) @
        (if signs_roots cp then ''|'' @ join ''|'' (root_fields cp) else [])) @ sx @
      (if folds cp then ''|'' @ join ''|'' (fold_fields (cp_fold_archive cp)) else []) =
      join ''|'' (?b @ ?s @ ?f)" by (metis append_assoc)
  show ?thesis unfolding t raw Let_def segments_def by (simp add: wrap_join)
qed

lemma canonical_total: "\<not> signs_supersede cp \<Longrightarrow> \<exists>t. canonicalCheckpoint (Some cp) = Inr t"
  by (auto simp: canonicalCheckpoint_def signs_supersede_def Let_def)

lemma segments_nonempty: "segments cp \<noteq> []"
  by (simp add: segments_def base_fields_def)

lemma segments_length:
  "same_shape a b \<Longrightarrow> length (segments a) = length (segments b)"
  by (auto simp: same_shape_def segments_def header_fields_def base_fields_def root_fields_def
      supersede_fields_def fold_fields_def)

section \<open>Gates, evaluated\<close>

lemma commitment_unarmed:
  "map_of REGTEST_ARMING ''checkpoint_commitment_activation.CHECKPOINT_COMMITMENT_ACTIVATION'' = None"
  by code_simp

lemma commitment_active_eq:
  "isCheckpointCommitmentActive sb (JStr n) =
    reached (get_prop [(''mainnet'', JInt 961000), (''testnet'', JInt 146000), (''regtest'', JInt 0)] n) sb"
  by (simp add: isCheckpointCommitmentActive_def activeAt_eq [OF cache_ok_empty commitment_row]
      overlay_def commitment_unarmed resolveThreshold_def is_nullish_def obj_props_def)

lemma root_update_parts:
  "base_fields (cp\<lparr>cp_state_root := r, cp_block_merkle_root := b\<rparr>) = base_fields cp"
  "round_id (cp\<lparr>cp_state_root := r, cp_block_merkle_root := b\<rparr>) = round_id cp"
  "supersedeSuffix (cp\<lparr>cp_state_root := r, cp_block_merkle_root := b\<rparr>) = supersedeSuffix cp"
  "hasSupersedeFields (Some (cp\<lparr>cp_state_root := r, cp_block_merkle_root := b\<rparr>)) = hasSupersedeFields (Some cp)"
  by (simp_all add: base_fields_def round_id_def supersedeSuffix_def hasSupersedeFields_def
        cong: option.case_cong if_cong)

lemma canonical_unsigned_roots:
  assumes "\<not> isCheckpointCommitmentActive (cp_snapshot_block cp) (cp_network cp)"
  shows "canonicalCheckpoint (Some (cp\<lparr>cp_state_root := r, cp_block_merkle_root := b\<rparr>)) = canonicalCheckpoint (Some cp)"
proof -
  have "\<not> signs_roots (cp\<lparr>cp_state_root := r, cp_block_merkle_root := b\<rparr>)" "\<not> signs_roots cp"
    using assms by (simp_all add: signs_roots_def)
  then show ?thesis by (simp add: canonicalCheckpoint_def root_update_parts Let_def cong: if_cong)
qed

section \<open>A checkpoint for the witnesses\<close>

definition demo_cp :: "string \<Rightarrow> checkpoint" where
  "demo_cp net = \<lparr>cp_chain = JStr ''BTC'', cp_network = JStr net, cp_block_index = JInt 7, cp_block_hash = JStr ''aa'',
     cp_ledger_hash = JStr ''bb'', cp_actions_hash = JStr ''cc'', cp_contract_hash = JStr ''dd'',
     cp_checkpoint_seq = JInt 1, cp_snapshot_block = JInt 5, cp_state_root = JStr ''ab'',
     cp_block_merkle_root = JStr ''cd'', cp_state_root_version = JInt 1, cp_block_merkle_version = JInt 1,
     cp_supersedes_from = JNull, cp_rules_digest = JNull, cp_superseded_by_seq = JNull, cp_fold_archive = JNull,
     cp_validator_signatures = JArr []\<rparr>"

lemma demo_gates:
  "isCheckpointCommitmentActive (JInt 5) (JStr ''regtest'')"
  "\<not> isCheckpointCommitmentActive (JInt 5) (JStr ''mainnet'')"
proof -
  have "js_parseInt (JInt 5) = Some 5" by code_simp
  then show "isCheckpointCommitmentActive (JInt 5) (JStr ''regtest'')"
    "\<not> isCheckpointCommitmentActive (JInt 5) (JStr ''mainnet'')"
    by (simp_all add: commitment_active_eq get_prop_def reached_def)
qed

lemma demo_shape: "folds (demo_cp net) = False" "signs_supersede (demo_cp net) = False"
  by (simp_all add: folds_def signs_supersede_def demo_cp_def is_nullish_def hasSupersedeFields_def)

lemma demo_signs_roots: "signs_roots (demo_cp ''regtest'')"
  using demo_gates by (simp add: signs_roots_def demo_cp_def is_nullish_def)

lemma demo_cp_canonical: "\<exists>t. canonicalCheckpoint (Some (demo_cp net)) = Inr t"
  by (simp add: canonicalCheckpoint_def hasSupersedeFields_def demo_cp_def is_nullish_def Let_def)

lemma demo_clean: "\<forall>s\<in>set (segments (demo_cp ''regtest'')). CHR ''|'' \<notin> set s"
proof -
  have "list_all (\<lambda>s. CHR ''|'' \<notin> set s)
      (header_fields (demo_cp ''regtest'') @ base_fields (demo_cp ''regtest'') @ root_fields (demo_cp ''regtest''))"
    by code_simp
  then show ?thesis using demo_shape by (auto simp: segments_def list_all_iff)
qed

section \<open>Properties\<close>

text \<open>
  C30: The verdict is exactly the quorum rule of the checkpoint's regime. A checkpoint that has a canonical
  string and is not refused beforehand is valid precisely when: under the count regime the qualified set
  is not empty and at least \<open>count_quorum\<close> distinct qualified keys have some verifying entry; under the
  weighted regime every entry is weighted, the snapshot is well formed and the sources owning those keys
  hold more than two thirds of the stake. A bad entry never hides a good one, and entries count once.
\<close>

theorem checkpoint_verdict_exact:
  assumes "exact64 rnd" "small_stakes (sn_rows validators)"
    and "canonicalCheckpoint (Some cp) = Inr msg"
    and "\<not> commitmentMissing (Some cp)" "\<not> supersessionDisallowed (Some cp)"
  shows "cv_valid (verifyCheckpoint rnd ed jparse (Some cp) validators) \<longleftrightarrow>
    (let rows = sn_rows validators;
         qualified = set (map qualified_key rows);
         signers = valid_signers ed msg (\<lambda>pk. pk \<in> qualified) (signature_list jparse (cp_validator_signatures cp)) in
     if isStakeWeightedQuorumActive (cp_snapshot_block cp) (cp_network cp)
     then rows \<noteq> [] \<and> list_all isWeightedEntry rows \<and> well_formed validators \<and>
          2 * stake (first_rows [] rows) < 3 * stake (owned_rows rows signers)
     else qualified \<noteq> {} \<and> count_quorum (card qualified) \<le> card signers)"
proof -
  let ?rows = "sn_rows validators"
  let ?q = "\<lambda>pk. pk \<in> set (map qualified_key ?rows)"
  let ?sigs = "signature_list jparse (cp_validator_signatures cp)"
  let ?loop = "sigLoop ed msg ?q [] ?sigs"
  have set: "set ?loop = valid_signers ed msg ?q ?sigs" by (simp add: sigLoop_set)
  have "signed_rows ?rows (map JStr ?loop) = owned_rows ?rows (valid_signers ed msg ?q ?sigs)"
    unfolding set [symmetric] using set valid_signers_lower by (intro signed_rows_keys) blast
  then have "meetsStakeThreshold rnd validators (map JStr ?loop) \<longleftrightarrow> well_formed validators \<and>
      2 * stake (first_rows [] ?rows) < 3 * stake (owned_rows ?rows (valid_signers ed msg ?q ?sigs))"
    using meets_exact [OF assms(1,2)] meets_well_formed by metis
  then show ?thesis using assms(3-5) sigLoop_count [of ed msg ?q ?sigs]
    by (simp add: verifyCheckpoint_def tryCanonicalCheckpoint_def Let_def)
qed

lemma demo_small_set: "small_stakes []"
  by (simp add: small_stakes_def)

theorem checkpoint_verdict_exact_witness:
  "\<exists>msg. cv_valid (verifyCheckpoint (\<lambda>q. q) (\<lambda>k m s. True) (\<lambda>s. None) (Some (demo_cp ''regtest''))
        \<lparr>sn_rows = [], sn_truncated = False\<rparr>) \<longleftrightarrow>
    (let rows = sn_rows \<lparr>sn_rows = [], sn_truncated = False\<rparr>;
         qualified = set (map qualified_key rows);
         signers = valid_signers (\<lambda>k m s. True) msg (\<lambda>pk. pk \<in> qualified)
                     (signature_list (\<lambda>s. None) (cp_validator_signatures (demo_cp ''regtest''))) in
     if isStakeWeightedQuorumActive (cp_snapshot_block (demo_cp ''regtest'')) (cp_network (demo_cp ''regtest''))
     then rows \<noteq> [] \<and> list_all isWeightedEntry rows \<and> well_formed \<lparr>sn_rows = [], sn_truncated = False\<rparr> \<and>
          2 * stake (first_rows [] rows) < 3 * stake (owned_rows rows signers)
     else qualified \<noteq> {} \<and> count_quorum (card qualified) \<le> card signers)"
proof -
  obtain msg where msg: "canonicalCheckpoint (Some (demo_cp ''regtest'')) = Inr msg" using demo_cp_canonical by blast
  have a: "\<not> commitmentMissing (Some (demo_cp ''regtest''))" "\<not> supersessionDisallowed (Some (demo_cp ''regtest''))"
    by (simp_all add: commitmentMissing_def supersessionDisallowed_def hasSupersedeFields_def demo_cp_def is_nullish_def)
  show ?thesis
    by (rule exI [of _ msg], rule checkpoint_verdict_exact [OF exact64_id _ msg a]) (simp add: demo_small_set)
qed

text \<open>
  C31: What the canonical string determines. Let two checkpoints have the same canonical string and the same
  shape (the same of the optional parts: evidence header, committed roots, supersession, fold), and let
  no field of the first contain the separator. Then they agree in every field the string carries, the
  committed roots included, so a signature over it speaks of one row of that shape only. Nothing is claimed
  for rows of different shapes or for fields that contain a separator.
\<close>

theorem canonical_binding:
  assumes "canonicalCheckpoint (Some a) = Inr t" "canonicalCheckpoint (Some b) = Inr t"
    and "same_shape a b" "list_all (\<lambda>s. CHR ''|'' \<notin> set s) (segments a)"
  shows "base_fields a = base_fields b \<and> (signs_roots a \<longrightarrow> root_fields a = root_fields b) \<and>
    (signs_supersede a \<longrightarrow> supersede_fields a = supersede_fields b) \<and>
    (folds a \<longrightarrow> fold_fields (cp_fold_archive a) = fold_fields (cp_fold_archive b))"
proof -
  have "join ''|'' (segments a) = join ''|'' (segments b)"
    using canonical_segments [OF assms(1)] canonical_segments [OF assms(2)] by simp
  then have "segments a = segments b"
    using segments_length [OF assms(3)] assms(4) by (intro join_clean_eq) (simp_all add: list_all_iff)
  then show ?thesis using assms(3)
    by (auto simp: segments_def same_shape_def header_fields_def base_fields_def root_fields_def
        supersede_fields_def fold_fields_def split: if_splits)
qed

theorem canonical_binding_witness:
  "base_fields (demo_cp ''regtest'') = base_fields ((demo_cp ''regtest'')\<lparr>cp_state_root := JStr ''AB''\<rparr>) \<and>
   root_fields (demo_cp ''regtest'') = root_fields ((demo_cp ''regtest'')\<lparr>cp_state_root := JStr ''AB''\<rparr>)"
proof -
  let ?a = "demo_cp ''regtest''" and ?b = "(demo_cp ''regtest'')\<lparr>cp_state_root := JStr ''AB''\<rparr>"
  obtain t where t: "canonicalCheckpoint (Some ?a) = Inr t" using demo_cp_canonical by blast
  have l: "ascii_lower ''ab'' = ''ab''" "ascii_lower ''AB'' = ''ab''" by code_simp+
  have shape: "same_shape ?a ?b"
    using demo_signs_roots
    by (simp add: same_shape_def wraps_def signs_roots_def signs_supersede_def folds_def hasSupersedeFields_def is_nullish_def
        demo_cp_def)
  have "\<not> signs_supersede ?b" using shape demo_shape by (simp add: same_shape_def)
  from canonical_total [OF this] obtain u where u: "canonicalCheckpoint (Some ?b) = Inr u" by blast
  have "header_fields ?b = header_fields ?a" "base_fields ?b = base_fields ?a" "root_fields ?b = root_fields ?a"
    using l by (simp_all add: header_fields_def base_fields_def root_fields_def folds_def demo_cp_def)
  then have "segments ?b = segments ?a" using shape demo_shape by (simp add: segments_def same_shape_def)
  then have "canonicalCheckpoint (Some ?b) = Inr t"
    using u canonical_segments [OF t] canonical_segments [OF u] by simp
  then show ?thesis
    using canonical_binding [OF t _ shape] demo_clean demo_signs_roots by (simp add: list_all_iff)
qed

lemma unsigned_roots_verdict:
  assumes "\<not> isCheckpointCommitmentActive (cp_snapshot_block cp) (cp_network cp)"
  shows "verifyCheckpoint rnd ed jparse (Some (cp\<lparr>cp_state_root := r, cp_block_merkle_root := b\<rparr>)) validators =
    verifyCheckpoint rnd ed jparse (Some cp) validators"
proof -
  let ?cp = "cp\<lparr>cp_state_root := r, cp_block_merkle_root := b\<rparr>"
  have "tryCanonicalCheckpoint (Some ?cp) = tryCanonicalCheckpoint (Some cp)"
    by (simp add: tryCanonicalCheckpoint_def canonical_unsigned_roots [OF assms])
  moreover have "commitmentMissing (Some ?cp) = commitmentMissing (Some cp)"
    using assms by (simp add: commitmentMissing_def)
  moreover have "supersessionDisallowed (Some ?cp) = supersessionDisallowed (Some cp)"
    by (simp add: supersessionDisallowed_def root_update_parts)
  ultimately show ?thesis by (simp add: verifyCheckpoint_def Let_def cong: option.case_cong if_cong)
qed

text \<open>
  Below the commitment flag day the roots are outside every signature: replacing the state root and the
  block root of a checkpoint by any others leaves its verdict as it was.
\<close>

theorem unsigned_roots_free:
  assumes "\<not> isCheckpointCommitmentActive (cp_snapshot_block cp) (cp_network cp)"
  shows "verifyCheckpoint rnd ed jparse (Some (cp\<lparr>cp_state_root := r, cp_block_merkle_root := b\<rparr>)) validators =
    verifyCheckpoint rnd ed jparse (Some cp) validators"
  using assms by (rule unsigned_roots_verdict)

theorem unsigned_roots_free_witness:
  "verifyCheckpoint (\<lambda>q. q) (\<lambda>k m s. True) (\<lambda>s. None)
      (Some ((demo_cp ''mainnet'')\<lparr>cp_state_root := JStr ''ee'', cp_block_merkle_root := JStr ''ff''\<rparr>)) demo_snapshot =
   verifyCheckpoint (\<lambda>q. q) (\<lambda>k m s. True) (\<lambda>s. None) (Some (demo_cp ''mainnet'')) demo_snapshot"
  by (rule unsigned_roots_free) (simp add: demo_cp_def demo_gates)

text \<open>
  The count quorum of \<open>n\<close> validators is reachable, a majority, and at least \<open>2f + 1\<close> for
  \<open>f = (n - 1) div 3\<close>. Two quorums share more than \<open>f\<close> validators exactly when \<open>n mod 3 = 1\<close> or \<open>n\<close> is 2, 3 or 6:
  for the other sizes (5, 8, 9, ...) \<open>f\<close> faulty signers alone can complete two conflicting quorums.
\<close>

theorem count_quorum_bounds:
  "count_quorum (Suc m) \<le> Suc m \<and> Suc m < 2 * count_quorum (Suc m) \<and> 2 * (m div 3) + 1 \<le> count_quorum (Suc m) \<and>
   ((m div 3 + Suc m < 2 * count_quorum (Suc m)) = (Suc m mod 3 = 1 \<or> Suc m \<in> {2, 3, 6}))"
proof -
  have "m \<le> 6 \<or> 6 < m" by linarith
  then show ?thesis
  proof
    assume "m \<le> 6"
    then have "m \<in> {0, 1, 2, 3, 4, 5, 6}" by auto
    then show ?thesis by (auto simp: count_quorum_def)
  next
    assume "6 < m"
    define k r where "k = m div 3" and "r = m mod 3"
    then have m: "m = 3 * k + r" "r < 3" "2 \<le> k" using \<open>6 < m\<close> by auto
    then have "(Suc m + 2) div 2 \<le> 2 * k + 1" by linarith
    then have q: "count_quorum (Suc m) = 2 * k + 1"
      using m by (simp add: count_quorum_def max_def k_def [symmetric])
    have "r = 0 \<or> r = 1 \<or> r = 2" using m(2) by linarith
    then show ?thesis unfolding q k_def [symmetric] using m by (elim disjE) (simp_all, presburger+)
  qed
qed

end
