(* ===== verification/ValidatorSet.thy ===== *)
theory ValidatorSet
  imports LightClient Checkpoint
begin

text \<open>
  Proven validator sets and forward following: \<open>verifyValidatorSetProof\<close> of
  \<open>src/protocol/light_client/proof_checks.js\<close>, \<open>scaled\<close> and \<open>networkContextCoin\<close> of \<open>fetch_helpers.js\<close>,
  and \<open>src/protocol/light_client/validator_set_follow.js\<close>.

  The explorer is a pair of parameters: the answer to the range request and the answer to the
  \<open>n\<close>-th validator-set request at a height, \<open>None\<close> where the request throws (transport failure, or a body
  without a proof). Each request but the last adopts a checkpoint, so \<open>n\<close> is the number adopted so far.
  Everything the explorer answers is untrusted. Served arrays hold objects: a \<open>null\<close> entry makes a
  property read throw, which the verifier turns into a refusal.
\<close>

section \<open>The validator-set proof\<close>

record member_wire =
  vm_pubkey :: jsval
  vm_source :: jsval
  vm_weight :: jsval
  vm_smt :: "smt_wire option"

record cap_wire =
  cw_validators :: "member_wire list"
  cw_total :: jsval
  cw_total_proof :: "smt_wire option"

record vset_proof =
  vp_stakes_root :: string
  vp_path :: "path_wire option"
  vp_capabilities :: "(string \<times> cap_wire) list option"

record proven_cap =
  pc_validators :: "jsval list"
  pc_total :: string

record vset_verdict =
  vv_verified :: bool
  vv_capabilities :: "(string \<times> proven_cap) list"
  vv_reason :: "string option"

definition vset_refused :: "string \<Rightarrow> vset_verdict" where
  "vset_refused r = \<lparr>vv_verified = False, vv_capabilities = [], vv_reason = Some r\<rparr>"

definition proven_row :: "member_wire \<Rightarrow> jsval" where
  "proven_row v =
     JObj [(''pubkey'', JStr (js_string (vm_pubkey v))), (''source'', JStr (js_string (vm_source v))),
           (''weight'', JStr (js_string (vm_weight v)))]"

definition smt_leaf_hex :: "smt_wire option \<Rightarrow> string" where
  "smt_leaf_hex w = (case w of None \<Rightarrow> [] | Some s \<Rightarrow> lowerHex (sw_leaf s))"

text \<open>One member: \<open>None\<close> when it is proven, else the reason of the early return.\<close>

definition checkMember :: "(bytes \<Rightarrow> bytes) \<Rightarrow> string \<Rightarrow> string \<Rightarrow> member_wire \<Rightarrow> merkle_error + string option" where
  "checkMember H stakesRoot cap v =
     try_bind (stakeMemberLeaf H (vm_source v) (vm_weight v)) (\<lambda>want.
       if smt_leaf_hex (vm_smt v) \<noteq> hex_encode want
       then Inr (Some (''MEMBER_LEAF_MISMATCH:'' @ js_string (vm_pubkey v)))
       else
         (case vm_smt v of
            None \<Rightarrow> Inl TypeError
          | Some smt \<Rightarrow>
              try_bind (stakeKey H (JStr (js_string (vm_pubkey v))) (JStr cap)) (\<lambda>k.
              try_bind (verifyClaimedLeaf H stakesRoot k (sw_leaf smt) (sw_compressed smt)) (\<lambda>ok.
                Inr (if ok then None else Some (''MEMBER_PROOF_INVALID:'' @ js_string (vm_pubkey v)))))))"

fun memberLoop ::
    "(bytes \<Rightarrow> bytes) \<Rightarrow> string \<Rightarrow> string \<Rightarrow> jsval list \<Rightarrow> member_wire list \<Rightarrow>
     merkle_error + (string + jsval list)" where
  "memberLoop H stakesRoot cap validators [] = Inr (Inr validators)"
| "memberLoop H stakesRoot cap validators (v # vs) =
     try_bind (checkMember H stakesRoot cap v) (\<lambda>r.
       case r of
         Some why \<Rightarrow> Inr (Inl why)
       | None \<Rightarrow> memberLoop H stakesRoot cap (validators @ [proven_row v]) vs)"

definition checkTotal :: "(bytes \<Rightarrow> bytes) \<Rightarrow> string \<Rightarrow> string \<Rightarrow> cap_wire \<Rightarrow> merkle_error + (string + string)" where
  "checkTotal H stakesRoot cap c =
     (case cw_total_proof c of
        None \<Rightarrow> Inr (Inr ''0'')
      | Some tp \<Rightarrow>
          try_bind (stakeTotalLeaf H (cw_total c)) (\<lambda>want.
            if lowerHex (sw_leaf tp) \<noteq> hex_encode want then Inr (Inl (''TOTAL_LEAF_MISMATCH:'' @ cap))
            else
              try_bind (stakeKey H (JStr STAKE_TOTAL_PUBKEY) (JStr cap)) (\<lambda>k.
              try_bind (verifyClaimedLeaf H stakesRoot k (sw_leaf tp) (sw_compressed tp)) (\<lambda>ok.
                if \<not> ok then Inr (Inl (''TOTAL_PROOF_INVALID:'' @ cap))
                else try_bind (canonicalAmount (JStr (js_string (cw_total c)))) (\<lambda>t. Inr (Inr t))))))"

fun capLoop ::
    "(bytes \<Rightarrow> bytes) \<Rightarrow> string \<Rightarrow> (string \<times> proven_cap) list \<Rightarrow> (string \<times> cap_wire) list \<Rightarrow>
     merkle_error + vset_verdict" where
  "capLoop H stakesRoot out [] = Inr \<lparr>vv_verified = True, vv_capabilities = out, vv_reason = None\<rparr>"
| "capLoop H stakesRoot out ((cap, c) # caps) =
     try_bind (memberLoop H stakesRoot cap [] (cw_validators c)) (\<lambda>r.
       case r of
         Inl why \<Rightarrow> Inr (vset_refused why)
       | Inr validators \<Rightarrow>
           try_bind (checkTotal H stakesRoot cap c) (\<lambda>t.
             case t of
               Inl why \<Rightarrow> Inr (vset_refused why)
             | Inr tot \<Rightarrow>
                 capLoop H stakesRoot (out @ [(cap, \<lparr>pc_validators = validators, pc_total = tot\<rparr>)]) caps))"

definition verifyValidatorSetProof :: "(bytes \<Rightarrow> bytes) \<Rightarrow> vset_proof option \<Rightarrow> string \<Rightarrow> vset_verdict" where
  "verifyValidatorSetProof H proof trustedStateRoot =
     (case proof of
        None \<Rightarrow> vset_refused ''MALFORMED_PROOF''
      | Some p \<Rightarrow>
          (case (vp_path p, vp_capabilities p) of
             (Some path, Some caps) \<Rightarrow>
               if pw_index path \<noteq> JInt (index_of ''stakes_root'' STATE_SUBTREES)
               then vset_refused ''SUBROOT_SLOT_MISMATCH''
               else if \<not> verifyFixedMerkleProof H (Hex trustedStateRoot) (Hex (vp_stakes_root p))
                           (index_of ''stakes_root'' STATE_SUBTREES) (map Hex (pw_siblings path))
               then vset_refused ''SUBROOT_BIND_INVALID''
               else catch_with (capLoop H (vp_stakes_root p) [] caps) (\<lambda>e. vset_refused ''VERIFY_ERROR'')
           | _ \<Rightarrow> vset_refused ''MALFORMED_PROOF''))"

section \<open>A checkpoint judged by a proven set\<close>

text \<open>\<open>scaled\<close> and \<open>exactStakeTotal\<close>; \<open>None\<close> where they throw.\<close>

definition scaled :: "string \<Rightarrow> nat option" where
  "scaled a =
     (case canonicalAmount (JStr a) of
        Inl e \<Rightarrow> None
      | Inr s \<Rightarrow>
          (let parts = split_on (CHR ''.'') s in
           Some (nat_of_digits (parts ! 0) * 1000000000000000000 + nat_of_digits (parts ! 1))))"

fun firstWeights :: "(string \<times> string) list \<Rightarrow> jsval list \<Rightarrow> (string \<times> string) list" where
  "firstWeights m [] = m"
| "firstWeights m (v # vs) =
     (if source_of v \<in> fst ` set m then firstWeights m vs
      else firstWeights (m @ [(source_of v, js_string (js_prop v ''weight''))]) vs)"

definition exactStakeTotal :: "(rat \<Rightarrow> rat) \<Rightarrow> jsval list \<Rightarrow> string option" where
  "exactStakeTotal rnd validators =
     (case totalStake rnd \<lparr>sn_rows = validators, sn_truncated = False\<rparr> of
        Inl e \<Rightarrow> None
      | Inr S \<Rightarrow>
          (case sumCanonicalAmounts (map (JStr \<circ> snd) (firstWeights [] validators)) of
             Inl e \<Rightarrow> None
           | Inr t \<Rightarrow> Some t))"

definition proven_keys :: "jsval list \<Rightarrow> string list" where
  "proven_keys validators =
     map pubkey_of (filter (\<lambda>v. js_truthy v \<and> \<not> is_nullish (js_prop v ''pubkey'')) validators)"

fun provenSigLoop ::
    "(bytes \<Rightarrow> bytes \<Rightarrow> bytes \<Rightarrow> bool) \<Rightarrow> string \<Rightarrow> string list \<Rightarrow> string list \<Rightarrow> jsval list \<Rightarrow> string list" where
  "provenSigLoop ed canonical proven seen [] = seen"
| "provenSigLoop ed canonical proven seen (s # sigs) =
     (if sig_pubkey s \<in> set seen then provenSigLoop ed canonical proven seen sigs
      else if sig_pubkey s \<notin> set proven then provenSigLoop ed canonical proven seen sigs
      else if \<not> verifySignature ed canonical (sig_hex s) (sig_pubkey s)
      then provenSigLoop ed canonical proven seen sigs
      else provenSigLoop ed canonical proven (seen @ [sig_pubkey s]) sigs)"

record proven_verdict =
  pv_valid :: bool
  pv_total :: string

definition proven_refused :: proven_verdict where
  "proven_refused = \<lparr>pv_valid = False, pv_total = ''0''\<rparr>"

definition verifyCheckpointWithProvenSet ::
    "(rat \<Rightarrow> rat) \<Rightarrow> (bytes \<Rightarrow> bytes \<Rightarrow> bytes \<Rightarrow> bool) \<Rightarrow> (string \<Rightarrow> jsval option) \<Rightarrow>
     checkpoint option \<Rightarrow> proven_cap option \<Rightarrow> proven_verdict" where
  "verifyCheckpointWithProvenSet rnd ed jparse checkpoint provenOraclePublish =
     (case checkpoint of
        None \<Rightarrow> proven_refused
      | Some cp \<Rightarrow>
          if \<not> commitmentActive checkpoint then proven_refused
          else if \<not> isStakeWeightedQuorumActive (cp_snapshot_block cp) (cp_network cp) then proven_refused
          else if commitmentMissing checkpoint \<or> supersessionDisallowed checkpoint then proven_refused
          else
            (case tryCanonicalCheckpoint checkpoint of
               None \<Rightarrow> proven_refused
             | Some msg \<Rightarrow>
                 (let validators = (case provenOraclePublish of Some c \<Rightarrow> pc_validators c | None \<Rightarrow> []);
                      signers = provenSigLoop ed msg (proven_keys validators) []
                                  (signature_list jparse (cp_validator_signatures cp)) in
                  if \<not> meetsStakeThreshold rnd \<lparr>sn_rows = validators, sn_truncated = False\<rparr> (map JStr signers)
                  then proven_refused
                  else
                    (case exactStakeTotal rnd validators of
                       None \<Rightarrow> proven_refused
                     | Some tot \<Rightarrow>
                         (case canonicalAmount (JStr
                             (case provenOraclePublish of
                                Some c \<Rightarrow> (if pc_total c = [] then ''0'' else pc_total c) | None \<Rightarrow> ''0'')) of
                            Inl e \<Rightarrow> \<lparr>pv_valid = False, pv_total = tot\<rparr>
                          | Inr committed \<Rightarrow>
                              \<lparr>pv_valid = (scaled tot \<noteq> None \<and> scaled tot = scaled committed),
                               pv_total = tot\<rparr>)))))"

section \<open>Forward following\<close>

datatype follow_error = NeedsTrustedRoot | CoinRequired | Transport

definition networkContextCoin :: "jsval \<Rightarrow> jsval \<Rightarrow> string \<Rightarrow> jsval \<Rightarrow> follow_error + jsval" where
  "networkContextCoin coin optsNetwork mainnetCoin fallbackNetwork =
     (if js_truthy coin then Inr coin
      else
        (let network = (if is_nullish optsNetwork then fallbackNetwork else optsNetwork);
             tier = last (split_on (CHR ''-'') (ascii_lower (if js_truthy network then js_string network else []))) in
         if tier = ''testnet'' \<or> tier = ''regtest'' then Inl CoinRequired else Inr (JStr mainnetCoin)))"

definition bindingMismatch :: "checkpoint \<Rightarrow> checkpoint \<Rightarrow> bool" where
  "bindingMismatch nxt trusted =
     (let want = ascii_upper (if is_nullish (cp_chain trusted) then ''BTC'' else js_string (cp_chain trusted)) in
      if \<not> is_nullish (cp_chain nxt) \<and> ascii_upper (js_string (cp_chain nxt)) \<noteq> want then True
      else \<not> is_nullish (cp_network nxt) \<and> \<not> is_nullish (cp_network trusted) \<and>
           ascii_lower (js_string (cp_network nxt)) \<noteq> ascii_lower (js_string (cp_network trusted)))"

record follow_result =
  fr_trusted :: checkpoint
  fr_adopted :: "checkpoint list"
  fr_reason :: "string option"
  fr_stoppedAt :: jsval

definition stopped :: "checkpoint \<Rightarrow> checkpoint list \<Rightarrow> string \<Rightarrow> checkpoint \<Rightarrow> follow_result" where
  "stopped trusted adopted code nxt =
     \<lparr>fr_trusted = trusted, fr_adopted = adopted, fr_reason = Some (code @ ''@'' @ js_string (cp_block_index nxt)),
      fr_stoppedAt = cp_block_index nxt\<rparr>"

fun followLoop ::
    "(bytes \<Rightarrow> bytes) \<Rightarrow> (rat \<Rightarrow> rat) \<Rightarrow> (bytes \<Rightarrow> bytes \<Rightarrow> bytes \<Rightarrow> bool) \<Rightarrow> (string \<Rightarrow> jsval option) \<Rightarrow>
     (nat \<Rightarrow> jsval \<Rightarrow> vset_proof option) \<Rightarrow> checkpoint \<Rightarrow> checkpoint list \<Rightarrow> checkpoint option list \<Rightarrow>
     follow_error + follow_result" where
  "followLoop H rnd ed jparse fetchSet trusted adopted [] =
     Inr \<lparr>fr_trusted = trusted, fr_adopted = adopted, fr_reason = None, fr_stoppedAt = JNull\<rparr>"
| "followLoop H rnd ed jparse fetchSet trusted adopted (step # steps) =
     (case step of
        None \<Rightarrow> followLoop H rnd ed jparse fetchSet trusted adopted steps
      | Some nxt \<Rightarrow>
          (let height = js_Number (cp_block_index nxt) in
           if \<not> js_isFinite height \<or> num_le height (js_Number (cp_block_index trusted))
           then followLoop H rnd ed jparse fetchSet trusted adopted steps
           else if bindingMismatch nxt trusted
           then Inr (stopped trusted adopted ''CHECKPOINT_BINDING_MISMATCH'' nxt)
           else if \<not> commitmentActive (Some nxt)
           then Inr (stopped trusted adopted ''ROOTS_NOT_SIGNED'' nxt)
           else
             (case fetchSet (length adopted) (buriedSnapshotBlock (cp_snapshot_block nxt) (cp_network nxt)) of
                None \<Rightarrow> Inl Transport
              | Some proof \<Rightarrow>
                  (let vs = verifyValidatorSetProof H (Some proof) (lowerHex (cp_state_root trusted)) in
                   if \<not> vv_verified vs then Inr (stopped trusted adopted ''VALIDATOR_SET_UNVERIFIED'' nxt)
                   else if \<not> pv_valid (verifyCheckpointWithProvenSet rnd ed jparse (Some nxt)
                                (map_of (vv_capabilities vs) ''oracle_publish''))
                   then Inr (stopped trusted adopted ''QUORUM_FAILED'' nxt)
                   else followLoop H rnd ed jparse fetchSet nxt (adopted @ [nxt]) steps))))"

definition num_succ :: "jsnum \<Rightarrow> jsnum" where
  "num_succ n = (case n of Num q \<Rightarrow> js_round (q + 1) | _ \<Rightarrow> n)"

definition followForward ::
    "(bytes \<Rightarrow> bytes) \<Rightarrow> (rat \<Rightarrow> rat) \<Rightarrow> (bytes \<Rightarrow> bytes \<Rightarrow> bytes \<Rightarrow> bool) \<Rightarrow> (string \<Rightarrow> jsval option) \<Rightarrow>
     (nat \<Rightarrow> jsval \<Rightarrow> vset_proof option) \<Rightarrow> (jsnum \<Rightarrow> jsnum \<Rightarrow> checkpoint option list option) \<Rightarrow>
     jsval \<Rightarrow> jsval \<Rightarrow> checkpoint option \<Rightarrow> jsval \<Rightarrow> follow_error + follow_result" where
  "followForward H rnd ed jparse fetchSet fetchRange btcCoin network trustedCheckpoint toHeight =
     (case trustedCheckpoint of
        None \<Rightarrow> Inl NeedsTrustedRoot
      | Some trusted \<Rightarrow>
          if is_nullish (cp_state_root trusted) then Inl NeedsTrustedRoot
          else
            try_bind (networkContextCoin btcCoin network ''BTC'' (cp_network trusted)) (\<lambda>coin.
              let frm = num_succ (js_Number (cp_block_index trusted));
                  til = js_Number (if is_nullish toHeight then cp_block_index trusted else toHeight) in
              if num_le frm til
              then
                (case fetchRange frm til of
                   None \<Rightarrow> Inl Transport
                 | Some steps \<Rightarrow> followLoop H rnd ed jparse fetchSet trusted [] steps)
              else followLoop H rnd ed jparse fetchSet trusted [] []))"

section \<open>The loops, in one piece\<close>

lemma memberLoop_Inr:
  "memberLoop H sroot cap acc vs = Inr (Inr r) \<longleftrightarrow>
   r = acc @ map proven_row vs \<and> list_all (\<lambda>v. checkMember H sroot cap v = Inr None) vs"
  by (induction vs arbitrary: acc) (auto simp: try_bind_Inr split: option.splits)

definition proven_of :: "cap_wire \<Rightarrow> string \<Rightarrow> proven_cap" where
  "proven_of c t = \<lparr>pc_validators = map proven_row (cw_validators c), pc_total = t\<rparr>"

lemma capLoop_verified:
  "capLoop H sroot out caps = Inr r \<Longrightarrow> vv_verified r \<Longrightarrow>
   \<exists>ts. length ts = length caps \<and>
     vv_capabilities r = out @ map (\<lambda>((cap, c), t). (cap, proven_of c t)) (zip caps ts) \<and>
     list_all (\<lambda>((cap, c), t). list_all (\<lambda>v. checkMember H sroot cap v = Inr None) (cw_validators c) \<and>
       checkTotal H sroot cap c = Inr (Inr t)) (zip caps ts)"
proof (induction caps arbitrary: out)
  case (Cons cc caps)
  obtain cap c where cc: "cc = (cap, c)" by (cases cc)
  obtain m where m: "memberLoop H sroot cap [] (cw_validators c) = Inr m"
    using Cons.prems(1) cc by (auto simp: try_bind_Inr)
  then obtain rows where rows: "m = Inr rows"
    using Cons.prems cc by (cases m) (auto simp: vset_refused_def)
  obtain tt where tt: "checkTotal H sroot cap c = Inr tt"
    using Cons.prems(1) cc m rows by (auto simp: try_bind_Inr)
  then obtain t where t: "tt = Inr t" using Cons.prems cc m rows by (cases tt) (auto simp: vset_refused_def)
  have mem: "rows = map proven_row (cw_validators c)"
    "list_all (\<lambda>v. checkMember H sroot cap v = Inr None) (cw_validators c)"
    using m rows memberLoop_Inr [of H sroot cap "[]"] by auto
  have "capLoop H sroot (out @ [(cap, proven_of c t)]) caps = Inr r"
    using Cons.prems(1) cc m rows tt t mem(1) by (simp add: proven_of_def)
  from Cons.IH [OF this Cons.prems(2)] obtain ts where ts: "length ts = length caps"
    "vv_capabilities r = (out @ [(cap, proven_of c t)]) @ map (\<lambda>((cap, c), t). (cap, proven_of c t)) (zip caps ts)"
    "list_all (\<lambda>((cap, c), t). list_all (\<lambda>v. checkMember H sroot cap v = Inr None) (cw_validators c) \<and>
       checkTotal H sroot cap c = Inr (Inr t)) (zip caps ts)" by blast
  then show ?case using cc mem(2) tt t by (intro exI [of _ "t # ts"]) simp
qed auto

lemma verifyValidatorSetProof_verified:
  assumes "vv_verified (verifyValidatorSetProof H (Some p) trusted)"
  shows "\<exists>path caps ts. vp_path p = Some path \<and> vp_capabilities p = Some caps \<and> length ts = length caps \<and>
    verifyFixedMerkleProof H (Hex trusted) (Hex (vp_stakes_root p)) 1 (map Hex (pw_siblings path)) \<and>
    vv_capabilities (verifyValidatorSetProof H (Some p) trusted) =
      map (\<lambda>((cap, c), t). (cap, proven_of c t)) (zip caps ts) \<and>
    list_all (\<lambda>((cap, c), t).
      list_all (\<lambda>v. checkMember H (vp_stakes_root p) cap v = Inr None) (cw_validators c) \<and>
      checkTotal H (vp_stakes_root p) cap c = Inr (Inr t)) (zip caps ts)"
proof -
  obtain path caps where pc: "vp_path p = Some path" "vp_capabilities p = Some caps"
    using assms by (auto simp: verifyValidatorSetProof_def vset_refused_def split: option.splits)
  have idx: "index_of ''stakes_root'' STATE_SUBTREES = 1" by (simp add: STATE_SUBTREES_def)
  have f: "verifyFixedMerkleProof H (Hex trusted) (Hex (vp_stakes_root p)) 1 (map Hex (pw_siblings path))"
    and v: "verifyValidatorSetProof H (Some p) trusted =
      catch_with (capLoop H (vp_stakes_root p) [] caps) (\<lambda>e. vset_refused ''VERIFY_ERROR'')"
    using assms pc by (auto simp: verifyValidatorSetProof_def vset_refused_def idx split: if_splits)
  obtain r where r: "capLoop H (vp_stakes_root p) [] caps = Inr r"
    using assms v by (cases "capLoop H (vp_stakes_root p) [] caps") (auto simp: vset_refused_def)
  then show ?thesis using capLoop_verified [OF r] assms pc f v by auto
qed

section \<open>Proven leaves are committed leaves\<close>

definition field_content :: "string list \<Rightarrow> bytes" where
  "field_content fs = utf8 (join [CHR 0x00] fs)"

text \<open>What the verifier hashed for one leaf of the stakes table.\<close>

definition stake_pres :: "(bytes \<Rightarrow> bytes) \<Rightarrow> path_wire \<Rightarrow> smt_wire \<Rightarrow> bytes \<Rightarrow> string list \<Rightarrow> bytes set" where
  "stake_pres H path smt k fs =
     state_pres H 1 k (0 # field_content fs) (sibling_bufs H (sw_compressed smt)) (map hex_decode (pw_siblings path))"

lemma stake_leaf_sound:
  assumes H: "\<forall>x. length (H x) = 32" and ok: "state_ok st" and root: "stateRoot H (sub_roots H st) = Some r"
    and f: "verifyFixedMerkleProof H (Hex (hex_encode r)) (Hex sub) 1 (map Hex (pw_siblings path))"
    and lt: "leaf_is_text (Some smt)" and k: "length k = 32"
    and lf: "lowerHex (sw_leaf smt) = hex_encode (leafHash H (field_content fs))"
    and c: "verifyClaimedLeaf H sub k (sw_leaf smt) (sw_compressed smt) = Inr True"
  shows "map_of (stakes st) k = Some (field_content fs) \<or>
    breaks H (stake_pres H path smt k fs) (mpres H (state_tree st))"
proof -
  have n: "\<not> is_nullish (sw_leaf smt)"
  proof
    assume "is_nullish (sw_leaf smt)"
    then have "length (hex_encode (leafHash H (field_content fs))) = 0" using lf by (simp add: lowerHex_def js_text_def ascii_lower_def)
    then show False using H by (simp add: leafHash_def)
  qed
  have "is_nullish (sw_leaf smt) \<or> (\<exists>s. sw_leaf smt = JStr s) \<and>
      lowerHex (sw_leaf smt) = hex_encode (leafHash H (utf8 (join [CHR 0x00] fs)))"
    using lt n lf by (simp add: leaf_is_text_def field_content_def)
  moreover have one: "(1 :: nat) < 5" "int 1 = 1" by simp_all
  ultimately have "claimed_pre (sw_leaf smt) (join [CHR 0x00] fs) = table_pre (state_tables st ! 1) k \<or>
    breaks H (state_pres H 1 k (claimed_pre (sw_leaf smt) (join [CHR 0x00] fs)) (sibling_bufs H (sw_compressed smt))
         (map hex_decode (pw_siblings path))) (mpres H (state_tree st))"
    using accepted_leaf_sound [OF H ok one(1) refl root k _ c, unfolded one(2), OF _ f] by blast
  then show ?thesis using n
    by (auto simp: claimed_pre_def table_pre_def state_tables_def stake_pres_def field_content_def empty_pre_def
        split: option.splits)
qed

lemma stakeKey_length: "\<forall>x. length (H x) = 32 \<Longrightarrow> stakeKey H a b = Inr k \<Longrightarrow> length k = 32"
  by (auto simp: stakeKey_def dest: smtKey_length)

lemma checkMember_None:
  assumes "checkMember H sroot cap v = Inr None"
  shows "\<exists>smt k w. vm_smt v = Some smt \<and> stakeKey H (JStr (js_string (vm_pubkey v))) (JStr cap) = Inr k \<and>
    canonicalAmount (vm_weight v) = Inr w \<and>
    lowerHex (sw_leaf smt) = hex_encode (leafHash H (field_content [''STK'', js_string (vm_source v), w])) \<and>
    verifyClaimedLeaf H sroot k (sw_leaf smt) (sw_compressed smt) = Inr True"
  using assms joinFields_Inr
  by (fastforce simp: checkMember_def try_bind_Inr stakeMemberLeaf_def smt_leaf_hex_def field_content_def
      split: if_splits sum.splits option.splits)

lemma checkTotal_Inr:
  assumes "checkTotal H sroot cap c = Inr (Inr t)"
  shows "cw_total_proof c = None \<and> t = ''0'' \<or>
    (\<exists>smt k. cw_total_proof c = Some smt \<and> stakeKey H (JStr STAKE_TOTAL_PUBKEY) (JStr cap) = Inr k \<and>
      canonicalAmount (cw_total c) = Inr t \<and>
      lowerHex (sw_leaf smt) = hex_encode (leafHash H (field_content [''STKTOTAL'', t])) \<and>
      verifyClaimedLeaf H sroot k (sw_leaf smt) (sw_compressed smt) = Inr True)"
proof (cases "cw_total_proof c")
  case None
  then show ?thesis using assms by (simp add: checkTotal_def)
next
  case (Some smt)
  obtain want k where w: "stakeTotalLeaf H (cw_total c) = Inr want" "lowerHex (sw_leaf smt) = hex_encode want"
    "stakeKey H (JStr STAKE_TOTAL_PUBKEY) (JStr cap) = Inr k"
    "verifyClaimedLeaf H sroot k (sw_leaf smt) (sw_compressed smt) = Inr True"
    "canonicalAmount (JStr (js_string (cw_total c))) = Inr t"
    using assms Some by (auto simp: checkTotal_def try_bind_Inr split: if_splits)
  obtain u where u: "canonicalAmount (cw_total c) = Inr u" "want = leafHash H (field_content [''STKTOTAL'', u])"
    using w(1) joinFields_Inr by (fastforce simp: stakeTotalLeaf_def field_content_def split: sum.splits)
  obtain s where "cw_total c = JStr s" using canonicalAmount_Inr [OF u(1)] by blast
  then have "u = t" using u(1) w(5) by simp
  then show ?thesis using Some w u by auto
qed

section \<open>Amount texts as numbers\<close>

lemma digit_head_strip: "is_digit a \<Longrightarrow> strip_sign (a # t) = (False, a # t)"
proof -
  assume "is_digit a"
  moreover have "\<not> is_digit (CHR ''-'')" "\<not> is_digit (CHR ''+'')" by (simp_all add: is_digit_def)
  ultimately have "a \<noteq> CHR ''-''" "a \<noteq> CHR ''+''" by auto
  then show ?thesis by (simp only: strip_sign_def) simp
qed

lemma dec_value_amount:
  assumes "amount_text s"
  shows "dec_value s = Some (of_nat (amount_units s) / 10 ^ 18)"
proof -
  consider i where "split_on (CHR ''.'') s = [i]" "all_digits i"
    | i f where "split_on (CHR ''.'') s = [i, f]" "all_digits i" "all_digits f" "length f \<le> 18"
    using assms by (auto simp: amount_text_def split: list.splits)
  then show ?thesis
  proof cases
    case 1
    then have "s = i" using join_split_on [of "CHR ''.''" s] by simp
    then show ?thesis using 1 dec_value_digits [of s] by (simp add: amount_units_def UNIT_def)
  next
    case 2
    then have s: "s = i @ ''.'' @ f" using join_split_on [of "CHR ''.''" s] by simp
    obtain a t where i: "i = a # t" "is_digit a" using 2(2) by (cases i) (auto simp: all_digits_def)
    have strip: "strip_sign s = (False, s)" using digit_head_strip [OF i(2)] by (simp add: s i(1))
    have m: "dec_mant s = Some (nat_of_digits (i @ f), length f)"
      using 2 by (auto simp: dec_mant_def all_digits_def)
    have p: "(10 :: rat) ^ 18 = 10 ^ length f * 10 ^ (18 - length f)" using 2(4) by (simp flip: power_add)
    have "(of_nat (nat_of_digits i * 10 ^ length f + nat_of_digits f) / 10 ^ length f :: rat) =
        of_nat (nat_of_digits i * UNIT + nat_of_digits f * 10 ^ (18 - length f)) / 10 ^ 18"
      unfolding UNIT_def of_nat_add of_nat_mult of_nat_power of_nat_numeral p by (simp add: field_simps)
    then show ?thesis
      using 2(1) by (simp add: dec_value_def strip m signed_def nat_of_digits_append amount_units_def del: of_nat_add of_nat_mult)
  qed
qed

lemma row_text_trim [simp]: "js_trim (row_text v) = row_text v"
proof -
  have d: "dropWhile is_ws (rev (dropWhile is_ws (rev (dropWhile is_ws s)))) = rev (dropWhile is_ws (rev (dropWhile is_ws s)))" for s
  proof (cases "dropWhile is_ws (rev (dropWhile is_ws s))")
    case (Cons a t)
    let ?u = "dropWhile is_ws s"
    have "?u \<noteq> []" using Cons by (cases ?u) auto
    then have h: "\<not> is_ws (hd ?u)" by (rule hd_dropWhile)
    have "rev (dropWhile is_ws (rev ?u)) = take (length (dropWhile is_ws (rev ?u))) ?u"
      by (metis append_take_drop_id length_rev rev_append rev_rev_ident takeWhile_dropWhile_id
          append_eq_conv_conj)
    then have "hd (rev (dropWhile is_ws (rev ?u))) = hd ?u" using Cons by (metis hd_take list.size(3) gr0I list.distinct(1) length_0_conv)
    with h Cons show ?thesis by (cases "rev (dropWhile is_ws (rev ?u))") auto
  next
    case Nil
    then show ?thesis by (simp only: rev.simps dropWhile.simps)
  qed
  show ?thesis by (simp add: row_text_def js_trim_def d)
qed

lemma row_weight_amount:
  "amount_text (row_text v) \<Longrightarrow> row_weight v = of_nat (amount_units (row_text v)) / 10 ^ 18"
  by (simp add: row_weight_def bcnum_def is_nullish_def dec_value_amount)

lemma firstWeights_rows:
  "firstWeights m vs = m @ map (\<lambda>v. (source_of v, js_string (js_prop v ''weight''))) (first_rows (map fst m) vs)"
  by (induction m vs rule: firstWeights.induct) auto

lemma sum_units_Inr: "sum_units acc as = Inr n \<Longrightarrow> \<forall>a\<in>set as. amount_text (js_trim (js_string a))"
  using sum_units_error by (metis Inl_Inr_False)

text \<open>The exact total of the first rows, all of which hold amount texts.\<close>

definition total_units :: "jsval list \<Rightarrow> nat" where
  "total_units rows = sum_list (map (\<lambda>v. amount_units (row_text v)) (first_rows [] rows))"

lemma exactStakeTotal_Some:
  assumes "exactStakeTotal rnd rows = Some t"
  shows "list_all (\<lambda>v. amount_text (row_text v)) (first_rows [] rows) \<and> t = units_text (total_units rows)"
proof -
  let ?as = "map (JStr \<circ> snd) (firstWeights [] rows)"
  obtain n where n: "sum_units 0 ?as = Inr n" and s: "sumCanonicalAmounts ?as = Inr t"
    using assms by (auto simp: exactStakeTotal_def sumCanonicalAmounts_def split: sum.splits)
  from sum_units_Inr [OF n] have a: "\<forall>a\<in>set ?as. amount_text (js_trim (js_string a))" .
  then have "list_all (\<lambda>v. amount_text (row_text v)) (first_rows [] rows)"
    by (simp add: firstWeights_rows list_all_iff row_text_def)
  moreover have "sum_list (map (\<lambda>a. amount_units (js_trim (js_string a))) ?as) = total_units rows"
    by (simp add: firstWeights_rows total_units_def row_text_def comp_def)
  ultimately show ?thesis using sumCanonicalAmounts_ok [OF a] s by simp
qed

lemma total_units_stake:
  "list_all (\<lambda>v. amount_text (row_text v)) (first_rows [] rows) \<Longrightarrow>
   stake (first_rows [] rows) = of_nat (total_units rows) / 10 ^ 18"
proof -
  have "list_all (\<lambda>v. amount_text (row_text v)) vs \<Longrightarrow>
      sum_list (map row_weight vs) = of_nat (sum_list (map (\<lambda>v. amount_units (row_text v)) vs)) / 10 ^ 18" for vs
    by (induction vs) (simp_all add: row_weight_amount add_divide_distrib)
  then show "list_all (\<lambda>v. amount_text (row_text v)) (first_rows [] rows) \<Longrightarrow> ?thesis"
    by (simp add: stake_def total_units_def)
qed

section \<open>The quorum of a proven set\<close>

lemma provenSigLoop_eq: "provenSigLoop ed msg proven seen sigs = sigLoop ed msg (\<lambda>pk. pk \<in> set proven) seen sigs"
  by (induction sigs arbitrary: seen) (auto simp: Let_def)

lemma small_units:
  assumes "list_all (\<lambda>v. amount_text (row_text v)) (first_rows [] rows)" "total_units rows < 10 ^ 63"
  shows "small_stakes rows"
proof -
  have w: "row_weight v = of_int (int (amount_units (row_text v))) / 10 ^ 18" if "v \<in> set (first_rows [] rows)" for v
    using row_weight_amount assms(1) that by (simp add: list_all_iff)
  then have "list_all (\<lambda>v. atto (row_weight v)) (first_rows [] rows)"
    unfolding list_all_iff atto_iff by blast
  moreover have "0 \<le> row_weight v" if "v \<in> set (first_rows [] rows)" for v unfolding w [OF that] by simp
  then have "list_all (\<lambda>v. 0 \<le> row_weight v) (first_rows [] rows)" by (simp add: list_all_iff)
  then have "sum_list (map (\<lambda>v. \<bar>row_weight v\<bar>) (first_rows [] rows)) = of_nat (total_units rows) / 10 ^ 18"
    using sum_list_abs [of row_weight "first_rows [] rows"] total_units_stake [OF assms(1)] by (simp add: stake_def)
  moreover have "(of_nat (total_units rows) :: rat) < 10 ^ 63"
    using assms(2) by (metis of_nat_less_iff of_nat_numeral of_nat_power)
  then have "(of_nat (total_units rows) / 10 ^ 18 :: rat) < 10 ^ 45" by (simp add: divide_less_eq)
  ultimately show ?thesis by (simp add: small_stakes_def)
qed

lemma proven_valid_parts:
  assumes "pv_valid (verifyCheckpointWithProvenSet rnd ed jparse (Some cp) (Some c))"
  shows "\<exists>msg tot committed. canonicalCheckpoint (Some cp) = Inr msg \<and>
    commitmentActive (Some cp) \<and> \<not> commitmentMissing (Some cp) \<and>
    isStakeWeightedQuorumActive (cp_snapshot_block cp) (cp_network cp) \<and>
    meetsStakeThreshold rnd \<lparr>sn_rows = pc_validators c, sn_truncated = False\<rparr>
      (map JStr (sigLoop ed msg (\<lambda>pk. pk \<in> set (proven_keys (pc_validators c))) []
        (signature_list jparse (cp_validator_signatures cp)))) \<and>
    exactStakeTotal rnd (pc_validators c) = Some tot \<and>
    canonicalAmount (JStr (if pc_total c = [] then ''0'' else pc_total c)) = Inr committed \<and>
    scaled tot = scaled committed"
  using assms
  by (auto simp: verifyCheckpointWithProvenSet_def proven_refused_def tryCanonicalCheckpoint_def Let_def provenSigLoop_eq
      split: if_splits option.splits sum.splits)

lemma scaled_units_text: "scaled (units_text u) = Some u"
proof -
  have "nat_of_digits (nat_str (u div UNIT)) * UNIT + nat_of_digits (pad_start 18 (nat_str (u mod UNIT))) = u"
    using amount_units_units_text [of u] unfolding amount_units_def units_text_split_on
    by (simp add: length_units_frac)
  then show ?thesis
    by (simp add: scaled_def canonicalAmount_units_text units_text_split_on UNIT_def)
qed

lemma committed_units:
  assumes "canonicalAmount (JStr (if t = [] then ''0'' else t)) = Inr committed"
  shows "committed = units_text (amount_units (js_trim t))"
proof (cases "t = []")
  case True
  have "js_trim ''0'' = ''0''" "js_trim [] = []" "split_on (CHR ''.'') ''0'' = [''0'']" by code_simp+
  then show ?thesis using assms True canonicalAmount_Inr by (fastforce simp: amount_units_def nat_of_digits_def)
next
  case False
  then show ?thesis using assms canonicalAmount_Inr by fastforce
qed

lemma proven_quorum:
  assumes rnd: "exact64 rnd" and bound: "amount_units (js_trim (pc_total c)) < 10 ^ 63"
    and valid: "pv_valid (verifyCheckpointWithProvenSet rnd ed jparse (Some cp) (Some c))"
  shows "\<exists>msg. canonicalCheckpoint (Some cp) = Inr msg \<and> signs_roots cp \<and>
    stake (first_rows [] (pc_validators c)) = of_nat (amount_units (js_trim (pc_total c))) / 10 ^ 18 \<and>
    2 * of_nat (amount_units (js_trim (pc_total c))) / 10 ^ 18 <
      3 * stake (owned_rows (pc_validators c)
        (valid_signers ed msg (\<lambda>pk. pk \<in> set (proven_keys (pc_validators c)))
          (signature_list jparse (cp_validator_signatures cp))))"
proof -
  let ?rows = "pc_validators c" and ?sigs = "signature_list jparse (cp_validator_signatures cp)"
  let ?q = "\<lambda>pk. pk \<in> set (proven_keys ?rows)" and ?sn = "\<lparr>sn_rows = pc_validators c, sn_truncated = False\<rparr>"
  obtain msg tot committed where p: "canonicalCheckpoint (Some cp) = Inr msg"
    "commitmentActive (Some cp)" "\<not> commitmentMissing (Some cp)"
    "meetsStakeThreshold rnd ?sn (map JStr (sigLoop ed msg ?q [] ?sigs))"
    "exactStakeTotal rnd ?rows = Some tot"
    "canonicalAmount (JStr (if pc_total c = [] then ''0'' else pc_total c)) = Inr committed"
    "scaled tot = scaled committed"
    using proven_valid_parts [OF valid] by blast
  from exactStakeTotal_Some [OF p(5)] have a: "list_all (\<lambda>v. amount_text (row_text v)) (first_rows [] ?rows)"
    and tot: "tot = units_text (total_units ?rows)" by blast+
  have units: "total_units ?rows = amount_units (js_trim (pc_total c))"
    using p(7) unfolding tot committed_units [OF p(6)] scaled_units_text by simp
  then have small: "small_stakes (sn_rows ?sn)" using small_units [OF a] bound by simp
  have stake: "stake (first_rows [] ?rows) = of_nat (amount_units (js_trim (pc_total c))) / 10 ^ 18"
    using total_units_stake [OF a] units by simp
  have set: "set (sigLoop ed msg ?q [] ?sigs) = valid_signers ed msg ?q ?sigs" by (simp add: sigLoop_set)
  have "signed_rows ?rows (map JStr (sigLoop ed msg ?q [] ?sigs)) = owned_rows ?rows (valid_signers ed msg ?q ?sigs)"
    unfolding set [symmetric] using set valid_signers_lower by (intro signed_rows_keys) blast
  then have "2 * stake (first_rows [] ?rows) < 3 * stake (owned_rows ?rows (valid_signers ed msg ?q ?sigs))"
    using meets_exact [OF rnd small meets_well_formed [OF p(4)], of "map JStr (sigLoop ed msg ?q [] ?sigs)"] p(4) by simp
  moreover have "signs_roots cp"
    using p(2,3) by (auto simp: signs_roots_def commitmentActive_def commitmentMissing_def is_nullish_def)
  ultimately show ?thesis using p(1) stake by auto
qed

section \<open>The chain of trust\<close>

text \<open>The step relation: \<open>nxt\<close> may replace \<open>t\<close> as the trust root after \<open>n\<close> adoptions.\<close>

definition adoptable ::
    "(bytes \<Rightarrow> bytes) \<Rightarrow> (rat \<Rightarrow> rat) \<Rightarrow> (bytes \<Rightarrow> bytes \<Rightarrow> bytes \<Rightarrow> bool) \<Rightarrow> (string \<Rightarrow> jsval option) \<Rightarrow>
     (nat \<Rightarrow> jsval \<Rightarrow> vset_proof option) \<Rightarrow> nat \<Rightarrow> checkpoint \<Rightarrow> checkpoint \<Rightarrow> bool" where
  "adoptable H rnd ed jparse fetchSet n t nxt \<longleftrightarrow>
     js_isFinite (js_Number (cp_block_index nxt)) \<and>
     \<not> num_le (js_Number (cp_block_index nxt)) (js_Number (cp_block_index t)) \<and>
     \<not> bindingMismatch nxt t \<and> commitmentActive (Some nxt) \<and>
     (case fetchSet n (buriedSnapshotBlock (cp_snapshot_block nxt) (cp_network nxt)) of
        None \<Rightarrow> False
      | Some proof \<Rightarrow>
          vv_verified (verifyValidatorSetProof H (Some proof) (lowerHex (cp_state_root t))) \<and>
          pv_valid (verifyCheckpointWithProvenSet rnd ed jparse (Some nxt)
            (map_of (vv_capabilities (verifyValidatorSetProof H (Some proof) (lowerHex (cp_state_root t))))
              ''oracle_publish'')))"

inductive trust_chain ::
    "(nat \<Rightarrow> checkpoint \<Rightarrow> checkpoint \<Rightarrow> bool) \<Rightarrow> nat \<Rightarrow> checkpoint \<Rightarrow> checkpoint list \<Rightarrow> bool"
  for step :: "nat \<Rightarrow> checkpoint \<Rightarrow> checkpoint \<Rightarrow> bool" where
  chain_end: "trust_chain step n t []"
| chain_step: "step n t c \<Longrightarrow> trust_chain step (Suc n) c cs \<Longrightarrow> trust_chain step n t (c # cs)"

inductive_cases trust_chain_ConsE: "trust_chain step n t (c # cs)"

inductive_simps trust_chain_Cons [simp]: "trust_chain step n t (c # cs)"
inductive_simps trust_chain_Nil [simp]: "trust_chain step n t []"

lemma followLoop_refuses:
  "\<not> adoptable H rnd ed jparse fetchSet (length adopted) t nxt \<Longrightarrow>
   followLoop H rnd ed jparse fetchSet t adopted (Some nxt # steps) = followLoop H rnd ed jparse fetchSet t adopted steps \<or>
   (\<exists>code. followLoop H rnd ed jparse fetchSet t adopted (Some nxt # steps) = Inr (stopped t adopted code nxt)) \<or>
   followLoop H rnd ed jparse fetchSet t adopted (Some nxt # steps) = Inl Transport"
  by (auto simp: adoptable_def Let_def split: option.split)

lemma followLoop_chain:
  "followLoop H rnd ed jparse fetchSet t adopted steps = Inr r \<Longrightarrow>
   \<exists>cs. fr_adopted r = adopted @ cs \<and> fr_trusted r = last (t # cs) \<and>
     set (map Some cs) \<subseteq> set steps \<and>
     trust_chain (adoptable H rnd ed jparse fetchSet) (length adopted) t cs"
proof (induction steps arbitrary: t adopted)
  case Nil
  then show ?case by (intro exI [of _ "[]"]) auto
next
  case (Cons step steps)
  have stop: ?case if "followLoop H rnd ed jparse fetchSet t adopted (step # steps) = Inr (stopped t adopted code nxt)" for code nxt
  proof -
    have "r = stopped t adopted code nxt" using that Cons.prems by (simp only: sum.inject)
    then show ?thesis by (intro exI [of _ "[]"]) (simp add: stopped_def)
  qed
  have skip: ?case if "followLoop H rnd ed jparse fetchSet t adopted (step # steps) =
      followLoop H rnd ed jparse fetchSet t adopted steps"
  proof -
    have "followLoop H rnd ed jparse fetchSet t adopted steps = Inr r" using that Cons.prems by simp
    from Cons.IH [OF this] show ?thesis by (elim exE conjE, intro exI conjI) (assumption | force)+
  qed
  show ?case
  proof (cases step)
    case None
    then show ?thesis by (intro skip) simp
  next
    case (Some nxt)
    show ?thesis
    proof (cases "adoptable H rnd ed jparse fetchSet (length adopted) t nxt")
      case True
      then have "followLoop H rnd ed jparse fetchSet t adopted (step # steps) =
          followLoop H rnd ed jparse fetchSet nxt (adopted @ [nxt]) steps"
        by (auto simp: Some adoptable_def Let_def split: option.splits)
      with Cons.prems Cons.IH [of nxt "adopted @ [nxt]"] obtain cs where
        "fr_adopted r = (adopted @ [nxt]) @ cs" "fr_trusted r = last (nxt # cs)" "set (map Some cs) \<subseteq> set steps"
        "trust_chain (adoptable H rnd ed jparse fetchSet) (Suc (length adopted)) nxt cs" by auto
      then show ?thesis using True Some by (intro exI [of _ "nxt # cs"]) auto
    next
      case False
      from followLoop_refuses [OF this, of steps] Cons.prems show ?thesis
        unfolding Some [symmetric] using skip stop by (elim disjE exE) simp_all
    qed
  qed
qed

lemma followLoop_complete:
  "trust_chain (adoptable H rnd ed jparse fetchSet) (length adopted) t cs \<Longrightarrow>
   followLoop H rnd ed jparse fetchSet t adopted (map Some cs) =
     Inr \<lparr>fr_trusted = last (t # cs), fr_adopted = adopted @ cs, fr_reason = None, fr_stoppedAt = JNull\<rparr>"
proof (induction cs arbitrary: t adopted)
  case (Cons c cs)
  have "followLoop H rnd ed jparse fetchSet t adopted (map Some (c # cs)) =
      followLoop H rnd ed jparse fetchSet c (adopted @ [c]) (map Some cs)"
    using Cons.prems by (auto simp: adoptable_def Let_def split: option.splits)
  also have "\<dots> = Inr \<lparr>fr_trusted = last (c # cs), fr_adopted = (adopted @ [c]) @ cs, fr_reason = None, fr_stoppedAt = JNull\<rparr>"
    using Cons.prems by (intro Cons.IH) simp
  finally show ?case by simp
qed simp

lemma followLoop_start:
  "trust_chain (adoptable H rnd ed jparse fetchSet) 0 t cs \<Longrightarrow>
   followLoop H rnd ed jparse fetchSet t [] (map Some cs) =
     Inr \<lparr>fr_trusted = last (t # cs), fr_adopted = cs, fr_reason = None, fr_stoppedAt = JNull\<rparr>"
  using followLoop_complete [of H rnd ed jparse fetchSet "[]" t cs] by simp

lemma adoptable_higher:
  assumes "adoptable H rnd ed jparse fetchSet n t c" "js_isFinite (js_Number (cp_block_index t))"
  shows "num_lt (js_Number (cp_block_index t)) (js_Number (cp_block_index c)) \<and> js_isFinite (js_Number (cp_block_index c))"
  using assms by (auto simp: adoptable_def js_isFinite_iff)

lemma commitment_network: "commitmentActive (Some c) \<Longrightarrow> \<exists>n. cp_network c = JStr n"
  by (auto simp: commitmentActive_def isCheckpointCommitmentActive_def activeAt_def
      split: option.splits if_splits jsval.splits)

lemma adoptable_network:
  assumes "adoptable H rnd ed jparse fetchSet n t c" "\<not> is_nullish (cp_network t)"
  shows "ascii_lower (js_string (cp_network c)) = ascii_lower (js_string (cp_network t)) \<and> \<not> is_nullish (cp_network c)"
proof -
  have "\<not> bindingMismatch c t" "commitmentActive (Some c)" using assms(1) by (simp_all add: adoptable_def)
  then show ?thesis using assms(2) commitment_network [of c]
    by (auto simp: bindingMismatch_def Let_def is_nullish_def split: if_splits)
qed

lemma trust_chain_heights:
  "trust_chain (adoptable H rnd ed jparse fetchSet) n t cs \<Longrightarrow> js_isFinite (js_Number (cp_block_index t)) \<Longrightarrow>
   sorted_wrt num_lt (map (\<lambda>c. js_Number (cp_block_index c)) (t # cs))"
proof (induction rule: trust_chain.induct)
  case (chain_step n t c cs)
  note h = adoptable_higher [OF chain_step(1,4)]
  then have s: "sorted_wrt num_lt (map (\<lambda>c. js_Number (cp_block_index c)) (c # cs))" using chain_step by simp
  then show ?case using h num_lt_trans by auto
qed simp

lemma trust_chain_network:
  "trust_chain (adoptable H rnd ed jparse fetchSet) n t cs \<Longrightarrow> \<not> is_nullish (cp_network t) \<Longrightarrow>
   list_all (\<lambda>c. ascii_lower (js_string (cp_network c)) = ascii_lower (js_string (cp_network t))) cs"
proof (induction rule: trust_chain.induct)
  case (chain_step n t c cs)
  then show ?case using adoptable_network [OF chain_step(1,4)] by auto
qed simp

section \<open>The honest validator-set proof\<close>

definition served_leaf :: "smt_proof \<Rightarrow> smt_wire" where
  "served_leaf sp =
     \<lparr>sw_key = JStr (pkey sp), sw_leaf = (case leaf_value sp of None \<Rightarrow> JNull | Some s \<Rightarrow> JStr s),
      sw_compressed = compressed sp\<rparr>"

text \<open>A committed leaf of the stakes table, and the proof a server builds for it.\<close>

definition stake_leaf :: "(bytes \<Rightarrow> bytes) \<Rightarrow> committed_state \<Rightarrow> string \<Rightarrow> string \<Rightarrow> jsval list \<Rightarrow> smt_wire \<Rightarrow> bool" where
  "stake_leaf H st pk cap fs w \<longleftrightarrow>
     (\<exists>k b sp. stakeKey H (JStr pk) (JStr cap) = Inr k \<and> joinFields fs = Inr b \<and>
       map_of (stakes st) k = Some b \<and>
       smt_prove H (table_smt H (stakes st)) (Buf k) = Inr sp \<and> w = served_leaf sp)"

definition honest_member :: "(bytes \<Rightarrow> bytes) \<Rightarrow> committed_state \<Rightarrow> string \<Rightarrow> member_wire \<Rightarrow> bool" where
  "honest_member H st cap m \<longleftrightarrow>
     (\<exists>pk s w smt. m = \<lparr>vm_pubkey = JStr pk, vm_source = JStr s, vm_weight = JStr w, vm_smt = Some smt\<rparr> \<and>
       canonicalAmount (JStr w) = Inr w \<and> stake_leaf H st pk cap [JStr ''STK'', JStr s, JStr w] smt)"

definition honest_cap :: "(bytes \<Rightarrow> bytes) \<Rightarrow> committed_state \<Rightarrow> string \<times> cap_wire \<Rightarrow> bool" where
  "honest_cap H st cc \<longleftrightarrow>
     list_all (honest_member H st (fst cc)) (cw_validators (snd cc)) \<and>
     (\<exists>t smt. cw_total (snd cc) = JStr t \<and> cw_total_proof (snd cc) = Some smt \<and> canonicalAmount (JStr t) = Inr t \<and>
       stake_leaf H st STAKE_TOTAL_PUBKEY (fst cc) [JStr ''STKTOTAL'', JStr t] smt)"

definition served_vset :: "(bytes \<Rightarrow> bytes) \<Rightarrow> committed_state \<Rightarrow> int \<times> string list \<Rightarrow> (string \<times> cap_wire) list \<Rightarrow> vset_proof" where
  "served_vset H st path caps =
     \<lparr>vp_stakes_root = smt_rootHex H (table_smt H (stakes st)),
      vp_path = Some \<lparr>pw_index = JInt (fst path), pw_siblings = snd path\<rparr>, vp_capabilities = Some caps\<rparr>"

lemma stake_leaf_checks:
  assumes H: "\<forall>x. length (H x) = 32" and ok: "state_ok st" and w: "stake_leaf H st pk cap fs w"
  obtains k b where "stakeKey H (JStr pk) (JStr cap) = Inr k" "joinFields fs = Inr b"
    "lowerHex (sw_leaf w) = hex_encode (leafHash H b)"
    "verifyClaimedLeaf H (smt_rootHex H (table_smt H (stakes st))) k (sw_leaf w) (sw_compressed w) = Inr True"
proof -
  obtain k b sp where a: "stakeKey H (JStr pk) (JStr cap) = Inr k" "joinFields fs = Inr b"
    "map_of (stakes st) k = Some b" "smt_prove H (table_smt H (stakes st)) (Buf k) = Inr sp" "w = served_leaf sp"
    using w by (auto simp: stake_leaf_def)
  have t1: "state_tables st ! 1 = stakes st" by (simp add: state_tables_def)
  have u: "utf8 (join [CHR 0x00] (map js_string fs)) = b" using joinFields_Inr [OF a(2)] by simp
  then have stored: "map_of (stakes st) k = map_option utf8 (Some (join [CHR 0x00] (map js_string fs)))"
    using a(3) by simp
  have one: "(1 :: nat) < 5" by simp
  have lv: "leaf_value sp = Some (hex_encode (leafHash H b))"
    and vf: "verifyClaimedLeaf H (smt_rootHex H (table_smt H (stakes st))) k
      (case leaf_value sp of None \<Rightarrow> JNull | Some s \<Rightarrow> JStr s) (compressed sp) = Inr True"
    using served_leaf_checks [OF H ok stakeKey_length [OF H a(1)] one, unfolded t1, OF stored a(4)] u by auto
  show thesis
    using a(1,2,5) lv vf by (intro that [of k b]) (simp_all add: served_leaf_def lowerHex_hex)
qed

lemma honest_member_ok:
  assumes "\<forall>x. length (H x) = 32" "state_ok st" "honest_member H st cap m"
  shows "checkMember H (smt_rootHex H (table_smt H (stakes st))) cap m = Inr None"
proof -
  obtain pk s w smt where m: "m = \<lparr>vm_pubkey = JStr pk, vm_source = JStr s, vm_weight = JStr w, vm_smt = Some smt\<rparr>"
    "canonicalAmount (JStr w) = Inr w" and l: "stake_leaf H st pk cap [JStr ''STK'', JStr s, JStr w] smt"
    using assms(3) by (auto simp: honest_member_def)
  show ?thesis
    by (rule stake_leaf_checks [OF assms(1,2) l])
       (simp add: m checkMember_def stakeMemberLeaf_def smt_leaf_hex_def)
qed

lemma honest_total_ok:
  assumes "\<forall>x. length (H x) = 32" "state_ok st" "honest_cap H st (cap, c)"
  shows "checkTotal H (smt_rootHex H (table_smt H (stakes st))) cap c = Inr (Inr (js_string (cw_total c)))"
proof -
  obtain t smt where t: "cw_total c = JStr t" "cw_total_proof c = Some smt" "canonicalAmount (JStr t) = Inr t"
    and l: "stake_leaf H st STAKE_TOTAL_PUBKEY cap [JStr ''STKTOTAL'', JStr t] smt"
    using assms(3) by (auto simp: honest_cap_def)
  show ?thesis
    by (rule stake_leaf_checks [OF assms(1,2) l]) (simp add: t checkTotal_def stakeTotalLeaf_def)
qed

lemma honest_capLoop:
  assumes "\<forall>x. length (H x) = 32" "state_ok st"
  shows "list_all (honest_cap H st) caps \<Longrightarrow>
    capLoop H (smt_rootHex H (table_smt H (stakes st))) out caps =
      Inr \<lparr>vv_verified = True,
           vv_capabilities = out @ map (\<lambda>(cap, c). (cap, proven_of c (js_string (cw_total c)))) caps, vv_reason = None\<rparr>"
proof (induction caps arbitrary: out)
  case (Cons cc caps)
  obtain cap c where cc: "cc = (cap, c)" by (cases cc)
  have "list_all (\<lambda>v. checkMember H (smt_rootHex H (table_smt H (stakes st))) cap v = Inr None) (cw_validators c)"
    using Cons.prems cc honest_member_ok [OF assms] by (auto simp: honest_cap_def list_all_iff)
  then have m: "memberLoop H (smt_rootHex H (table_smt H (stakes st))) cap [] (cw_validators c) =
      Inr (Inr (map proven_row (cw_validators c)))"
    by (simp add: memberLoop_Inr)
  have t: "checkTotal H (smt_rootHex H (table_smt H (stakes st))) cap c = Inr (Inr (js_string (cw_total c)))"
    using honest_total_ok [OF assms] Cons.prems cc by simp
  show ?case using Cons.prems by (simp add: cc m t Cons.IH proven_of_def)
qed simp

lemma served_vset_verified:
  assumes "\<forall>x. length (H x) = 32" "state_ok st" "stateRoot H (sub_roots H st) = Some r"
    and "stateRootProof H (sub_roots H st) ''stakes_root'' = Some (Inr path)"
    and "list_all (honest_cap H st) caps"
  shows "verifyValidatorSetProof H (Some (served_vset H st path caps)) (hex_encode r) =
    \<lparr>vv_verified = True,
     vv_capabilities = map (\<lambda>(cap, c). (cap, proven_of c (js_string (cw_total c)))) caps, vv_reason = None\<rparr>"
proof -
  have t1: "state_tables st ! 1 = stakes st" by (simp add: state_tables_def)
  have "fst path = 1" "verifyFixedMerkleProof H (Hex (hex_encode r))
      (Hex (smt_rootHex H (table_smt H (stakes st)))) 1 (map Hex (snd path))"
    using state_root_path [of 1 H st r path] assms(3,4) unfolding t1 by (simp_all add: STATE_SUBTREES_def)
  then show ?thesis
    using honest_capLoop [OF assms(1,2,5), of "[]"]
    by (simp add: verifyValidatorSetProof_def served_vset_def STATE_SUBTREES_def)
qed

section \<open>A stakes table for the witnesses\<close>

definition wit_key :: string where
  "wit_key = replicate 64 (CHR ''a'')"

definition demo_cap :: string where
  "demo_cap = ''oracle_publish''"

definition member_key :: bytes where
  "member_key = pad_digest (utf8 ''XCHAIN_STK'' @ [0] @ utf8 wit_key @ [0] @ utf8 demo_cap)"

definition total_key :: bytes where
  "total_key = pad_digest (utf8 ''XCHAIN_STK'' @ [0] @ utf8 STAKE_TOTAL_PUBKEY @ [0] @ utf8 demo_cap)"

definition demo_amount :: string where
  "demo_amount = ''5.000000000000000000''"

definition demo_stakes :: committed_state where
  "demo_stakes = \<lparr>balances = [], stakes = [(member_key, field_content [''STK'', ''s1'', demo_amount]),
     (total_key, field_content [''STKTOTAL'', demo_amount])], ownership = [], tokens = [], contract_state = []\<rparr>"

lemma demo_keys:
  "stakeKey pad_digest (JStr wit_key) (JStr demo_cap) = Inr member_key"
  "stakeKey pad_digest (JStr STAKE_TOTAL_PUBKEY) (JStr demo_cap) = Inr total_key"
  unfolding member_key_def total_key_def by code_simp+

lemma demo_keys_distinct: "member_key \<noteq> total_key"
  by code_simp

lemma demo_contents:
  "joinFields [JStr ''STK'', JStr ''s1'', JStr demo_amount] = Inr (field_content [''STK'', ''s1'', demo_amount])"
  "joinFields [JStr ''STKTOTAL'', JStr demo_amount] = Inr (field_content [''STKTOTAL'', demo_amount])"
  unfolding field_content_def by code_simp+

lemma demo_amount_canonical: "canonicalAmount (JStr demo_amount) = Inr demo_amount"
  by code_simp

lemma demo_stakes_ok: "state_ok demo_stakes"
  using demo_keys_distinct
  by (simp add: state_ok_def state_tables_def demo_stakes_def table_ok_def member_key_def total_key_def length_pad_digest)

lemma demo_served_vset:
  "\<exists>r path smt tot. stateRoot pad_digest (sub_roots pad_digest demo_stakes) = Some r \<and>
    stateRootProof pad_digest (sub_roots pad_digest demo_stakes) ''stakes_root'' = Some (Inr path) \<and>
    leaf_is_text (Some smt) \<and> leaf_is_text (Some tot) \<and>
    honest_cap pad_digest demo_stakes (demo_cap,
      \<lparr>cw_validators = [\<lparr>vm_pubkey = JStr wit_key, vm_source = JStr ''s1'', vm_weight = JStr demo_amount, vm_smt = Some smt\<rparr>],
       cw_total = JStr demo_amount, cw_total_proof = Some tot\<rparr>)"
proof -
  obtain sp where sp: "smt_prove pad_digest (table_smt pad_digest (stakes demo_stakes)) (Buf member_key) = Inr sp"
    using smt_prove_Inr by blast
  obtain tp where tp: "smt_prove pad_digest (table_smt pad_digest (stakes demo_stakes)) (Buf total_key) = Inr tp"
    using smt_prove_Inr by blast
  obtain path where path: "stateRootProof pad_digest (sub_roots pad_digest demo_stakes) ''stakes_root'' = Some (Inr path)"
    using state_path_exists [of 1 pad_digest demo_stakes] by (auto simp: STATE_SUBTREES_def)
  have m: "map_of (stakes demo_stakes) member_key = Some (field_content [''STK'', ''s1'', demo_amount])"
    "map_of (stakes demo_stakes) total_key = Some (field_content [''STKTOTAL'', demo_amount])"
    using demo_keys_distinct by (simp_all add: demo_stakes_def)
  have t: "leaf_is_text (Some (served_leaf x))" for x
    by (auto simp: leaf_is_text_def served_leaf_def is_nullish_def split: option.split)
  have "stake_leaf pad_digest demo_stakes wit_key demo_cap [JStr ''STK'', JStr ''s1'', JStr demo_amount] (served_leaf sp)"
    "stake_leaf pad_digest demo_stakes STAKE_TOTAL_PUBKEY demo_cap [JStr ''STKTOTAL'', JStr demo_amount] (served_leaf tp)"
    unfolding stake_leaf_def using demo_keys demo_contents m sp tp by blast+
  then have "honest_cap pad_digest demo_stakes (demo_cap,
      \<lparr>cw_validators = [\<lparr>vm_pubkey = JStr wit_key, vm_source = JStr ''s1'', vm_weight = JStr demo_amount,
          vm_smt = Some (served_leaf sp)\<rparr>],
       cw_total = JStr demo_amount, cw_total_proof = Some (served_leaf tp)\<rparr>)"
    by (simp add: honest_cap_def honest_member_def demo_amount_canonical)
  then show ?thesis using path t stateRoot_tree by blast
qed

section \<open>Properties\<close>

text \<open>
  C32: What an accepted validator-set proof shows of a committed state, whatever the server sent. For
  every validator it returns, the state's stakes table holds, under the key of its public key and capability,
  exactly the returned source and the canonical form of the returned weight; or the verifier hashed a preimage
  that collides with one of the committed tree; or the leaf the server claimed for it was no JSON text (the
  hole of the array leaf). The same holds of a returned total that comes with a proof.
\<close>

theorem validator_set_sound:
  assumes "\<forall>x. length (H x) = 32" "state_ok st" "stateRoot H (sub_roots H st) = Some r"
    and "vp_path p = Some path" "vp_capabilities p = Some caps" "(cap, c) \<in> set caps" "v \<in> set (cw_validators c)"
    and "vv_verified (verifyValidatorSetProof H (Some p) (hex_encode r))"
  shows "\<exists>t k w. (cap, \<lparr>pc_validators = map proven_row (cw_validators c), pc_total = t\<rparr>) \<in>
        set (vv_capabilities (verifyValidatorSetProof H (Some p) (hex_encode r))) \<and>
    stakeKey H (JStr (js_string (vm_pubkey v))) (JStr cap) = Inr k \<and> canonicalAmount (vm_weight v) = Inr w \<and>
    (map_of (stakes st) k = Some (field_content [''STK'', js_string (vm_source v), w]) \<or>
     breaks H (stake_pres H path (the (vm_smt v)) k [''STK'', js_string (vm_source v), w]) (mpres H (state_tree st)) \<or>
     \<not> leaf_is_text (vm_smt v)) \<and>
    (cw_total_proof c \<noteq> None \<longrightarrow>
      (\<exists>kt. stakeKey H (JStr STAKE_TOTAL_PUBKEY) (JStr cap) = Inr kt \<and>
        (map_of (stakes st) kt = Some (field_content [''STKTOTAL'', t]) \<or>
         breaks H (stake_pres H path (the (cw_total_proof c)) kt [''STKTOTAL'', t]) (mpres H (state_tree st)) \<or>
         \<not> leaf_is_text (cw_total_proof c))))"
proof -
  obtain ts where ts: "length ts = length caps"
    and f: "verifyFixedMerkleProof H (Hex (hex_encode r)) (Hex (vp_stakes_root p)) 1 (map Hex (pw_siblings path))"
    and out: "vv_capabilities (verifyValidatorSetProof H (Some p) (hex_encode r)) =
      map (\<lambda>((cap, c), t). (cap, proven_of c t)) (zip caps ts)"
    and chk: "list_all (\<lambda>((cap, c), t).
      list_all (\<lambda>v. checkMember H (vp_stakes_root p) cap v = Inr None) (cw_validators c) \<and>
      checkTotal H (vp_stakes_root p) cap c = Inr (Inr t)) (zip caps ts)"
    using verifyValidatorSetProof_verified [OF assms(8)] assms(4,5) by auto
  obtain i where i: "i < length caps" "caps ! i = (cap, c)" using assms(6) by (auto simp: in_set_conv_nth)
  let ?t = "ts ! i"
  have z: "((cap, c), ?t) \<in> set (zip caps ts)"
    using i ts by (metis in_set_conv_nth length_zip min.idem nth_zip)
  then have mem: "checkMember H (vp_stakes_root p) cap v = Inr None"
    and tot: "checkTotal H (vp_stakes_root p) cap c = Inr (Inr ?t)"
    using chk assms(7) by (auto simp: list_all_iff)
  obtain smt k w where m: "vm_smt v = Some smt" "stakeKey H (JStr (js_string (vm_pubkey v))) (JStr cap) = Inr k"
    "canonicalAmount (vm_weight v) = Inr w"
    "lowerHex (sw_leaf smt) = hex_encode (leafHash H (field_content [''STK'', js_string (vm_source v), w]))"
    "verifyClaimedLeaf H (vp_stakes_root p) k (sw_leaf smt) (sw_compressed smt) = Inr True"
    using checkMember_None [OF mem] by blast
  have a: "map_of (stakes st) k = Some (field_content [''STK'', js_string (vm_source v), w]) \<or>
     breaks H (stake_pres H path smt k [''STK'', js_string (vm_source v), w]) (mpres H (state_tree st)) \<or>
     \<not> leaf_is_text (vm_smt v)"
    using stake_leaf_sound [OF assms(1-3) f _ stakeKey_length [OF assms(1) m(2)] m(4,5)] m(1)
    by (cases "leaf_is_text (vm_smt v)") simp_all
  have b: "\<exists>kt. stakeKey H (JStr STAKE_TOTAL_PUBKEY) (JStr cap) = Inr kt \<and>
        (map_of (stakes st) kt = Some (field_content [''STKTOTAL'', ?t]) \<or>
         breaks H (stake_pres H path tp kt [''STKTOTAL'', ?t]) (mpres H (state_tree st)) \<or>
         \<not> leaf_is_text (cw_total_proof c))"
    if tp: "cw_total_proof c = Some tp" for tp
  proof -
    obtain kt where kt: "stakeKey H (JStr STAKE_TOTAL_PUBKEY) (JStr cap) = Inr kt"
      "lowerHex (sw_leaf tp) = hex_encode (leafHash H (field_content [''STKTOTAL'', ?t]))"
      "verifyClaimedLeaf H (vp_stakes_root p) kt (sw_leaf tp) (sw_compressed tp) = Inr True"
      using checkTotal_Inr [OF tot] tp by auto
    show ?thesis
      using stake_leaf_sound [OF assms(1-3) f _ stakeKey_length [OF assms(1) kt(1)] kt(2,3)] tp kt(1)
      by (cases "leaf_is_text (cw_total_proof c)") auto
  qed
  have "(cap, proven_of c ?t) \<in> set (vv_capabilities (verifyValidatorSetProof H (Some p) (hex_encode r)))"
    unfolding out using z by force
  then show ?thesis using m a b by (cases "cw_total_proof c") (auto simp: proven_of_def)
qed

theorem validator_set_sound_witness:
  "\<exists>p r t. (demo_cap, \<lparr>pc_validators = [JObj [(''pubkey'', JStr wit_key), (''source'', JStr ''s1''),
        (''weight'', JStr demo_amount)]], pc_total = t\<rparr>) \<in>
      set (vv_capabilities (verifyValidatorSetProof pad_digest (Some p) (hex_encode r)))"
proof -
  obtain r path smt tot where d: "stateRoot pad_digest (sub_roots pad_digest demo_stakes) = Some r"
    "stateRootProof pad_digest (sub_roots pad_digest demo_stakes) ''stakes_root'' = Some (Inr path)"
    "leaf_is_text (Some smt)" "leaf_is_text (Some tot)"
    "honest_cap pad_digest demo_stakes (demo_cap,
      \<lparr>cw_validators = [\<lparr>vm_pubkey = JStr wit_key, vm_source = JStr ''s1'', vm_weight = JStr demo_amount, vm_smt = Some smt\<rparr>],
       cw_total = JStr demo_amount, cw_total_proof = Some tot\<rparr>)"
    using demo_served_vset by blast
  let ?m = "\<lparr>vm_pubkey = JStr wit_key, vm_source = JStr ''s1'', vm_weight = JStr demo_amount, vm_smt = Some smt\<rparr>"
  let ?c = "\<lparr>cw_validators = [?m], cw_total = JStr demo_amount, cw_total_proof = Some tot\<rparr>"
  let ?p = "served_vset pad_digest demo_stakes path [(demo_cap, ?c)]"
  have v: "vv_verified (verifyValidatorSetProof pad_digest (Some ?p) (hex_encode r))"
    using served_vset_verified [OF length_pad_digest demo_stakes_ok d(1,2), of "[(demo_cap, ?c)]"] d(5) by simp
  have "\<exists>t k w. (demo_cap, \<lparr>pc_validators = map proven_row (cw_validators ?c), pc_total = t\<rparr>) \<in>
        set (vv_capabilities (verifyValidatorSetProof pad_digest (Some ?p) (hex_encode r))) \<and>
      stakeKey pad_digest (JStr (js_string (vm_pubkey ?m))) (JStr demo_cap) = Inr k \<and>
      canonicalAmount (vm_weight ?m) = Inr w"
    using validator_set_sound [OF length_pad_digest demo_stakes_ok d(1) _ _ _ _ v, of _ "[(demo_cap, ?c)]" demo_cap ?c ?m]
    by (fastforce simp: served_vset_def)
  then obtain t where t: "(demo_cap, \<lparr>pc_validators = map proven_row (cw_validators ?c), pc_total = t\<rparr>) \<in>
        set (vv_capabilities (verifyValidatorSetProof pad_digest (Some ?p) (hex_encode r)))" by blast
  show ?thesis
    by (rule exI [of _ ?p], rule exI [of _ r], rule exI [of _ t]) (use t in \<open>simp add: proven_row_def\<close>)
qed

text \<open>
  Completeness of the validator-set proof: the proof a server builds from the committed stakes table is
  accepted against the state root, and returns exactly the served rows and totals.
\<close>

theorem validator_set_complete:
  assumes "\<forall>x. length (H x) = 32" "state_ok st" "stateRoot H (sub_roots H st) = Some r"
    and "stateRootProof H (sub_roots H st) ''stakes_root'' = Some (Inr path)"
    and "list_all (honest_cap H st) caps"
  shows "verifyValidatorSetProof H (Some (served_vset H st path caps)) (hex_encode r) =
    \<lparr>vv_verified = True,
     vv_capabilities = map (\<lambda>(cap, c). (cap, proven_of c (js_string (cw_total c)))) caps, vv_reason = None\<rparr>"
  using assms by (rule served_vset_verified)

theorem validator_set_complete_witness:
  "\<exists>p r. vv_capabilities (verifyValidatorSetProof pad_digest (Some p) (hex_encode r)) =
     [(demo_cap, \<lparr>pc_validators = [JObj [(''pubkey'', JStr wit_key), (''source'', JStr ''s1''), (''weight'', JStr demo_amount)]],
        pc_total = demo_amount\<rparr>)]"
proof -
  obtain r path smt tot where d: "stateRoot pad_digest (sub_roots pad_digest demo_stakes) = Some r"
    "stateRootProof pad_digest (sub_roots pad_digest demo_stakes) ''stakes_root'' = Some (Inr path)"
    "honest_cap pad_digest demo_stakes (demo_cap,
      \<lparr>cw_validators = [\<lparr>vm_pubkey = JStr wit_key, vm_source = JStr ''s1'', vm_weight = JStr demo_amount, vm_smt = Some smt\<rparr>],
       cw_total = JStr demo_amount, cw_total_proof = Some tot\<rparr>)"
    using demo_served_vset by blast
  let ?c = "\<lparr>cw_validators = [\<lparr>vm_pubkey = JStr wit_key, vm_source = JStr ''s1'', vm_weight = JStr demo_amount, vm_smt = Some smt\<rparr>],
       cw_total = JStr demo_amount, cw_total_proof = Some tot\<rparr>"
  have "list_all (honest_cap pad_digest demo_stakes) [(demo_cap, ?c)]" using d(3) by simp
  from validator_set_complete [OF length_pad_digest demo_stakes_ok d(1,2) this] show ?thesis
    by (intro exI [of _ "served_vset pad_digest demo_stakes path [(demo_cap, ?c)]"] exI [of _ r])
       (simp add: proven_of_def proven_row_def)
qed

subsection \<open>A signed step for the witnesses\<close>

definition wit_cp :: "int \<Rightarrow> checkpoint" where
  "wit_cp h = (demo_cp ''regtest'')\<lparr>cp_block_index := JInt h,
     cp_validator_signatures := JArr [JObj [(''pubkey'', JStr wit_key), (''sig'', JStr (replicate 128 (CHR ''b'')))]]\<rparr>"

definition wit_row :: jsval where
  "wit_row = JObj [(''pubkey'', JStr wit_key), (''source'', JStr ''s1''), (''weight'', JStr demo_amount)]"

definition wit_cap :: proven_cap where
  "wit_cap = \<lparr>pc_validators = [wit_row], pc_total = demo_amount\<rparr>"

lemma stake_weighted_row:
  "map_of shipped ''stake_weighted_quorum.STAKE_WEIGHTED_QUORUM_ACTIVATION'' =
    Some \<lparr>g_unit = ''height'', g_value = JObj [(''mainnet'', JInt 961000), (''testnet'', JInt 0), (''regtest'', JInt 0)]\<rparr>"
proof (rule shipped_row)
  let ?c = "(''stake_weighted_quorum.STAKE_WEIGHTED_QUORUM_ACTIVATION'', ''height'',
    JObj [(''mainnet'', JInt 961000), (''testnet'', JInt 0), (''regtest'', JInt 0)])"
  have "rows_3b ! 0 = ?c" "0 < length rows_3b" by (simp_all add: rows_3b_def)
  then have "?c \<in> set rows_3b" by (metis nth_mem)
  then show "?c \<in> set queued" by (simp add: queued_def)
qed

lemma wit_gates:
  "commitmentActive (Some (wit_cp h))" "isStakeWeightedQuorumActive (cp_snapshot_block (wit_cp h)) (cp_network (wit_cp h))"
  "\<not> commitmentMissing (Some (wit_cp h))" "\<not> supersessionDisallowed (Some (wit_cp h))" "\<not> signs_supersede (wit_cp h)"
proof -
  have p: "js_parseInt (JInt 5) = Some 5" by code_simp
  then show "isStakeWeightedQuorumActive (cp_snapshot_block (wit_cp h)) (cp_network (wit_cp h))"
    by (simp add: isStakeWeightedQuorumActive_def wit_cp_def demo_cp_def STAKE_WEIGHTED_QUORUM_ACTIVATION_def gate_table_def
        stake_weighted_row obj_props_def get_prop_def at_threshold_def)
  show "commitmentActive (Some (wit_cp h))" "\<not> commitmentMissing (Some (wit_cp h))"
    "\<not> supersessionDisallowed (Some (wit_cp h))" "\<not> signs_supersede (wit_cp h)"
    using demo_gates(1)
    by (simp_all add: wit_cp_def demo_cp_def commitmentActive_def commitmentMissing_def supersessionDisallowed_def
        signs_supersede_def hasSupersedeFields_def is_nullish_def)
qed

lemma wit_canonical: "\<exists>msg. canonicalCheckpoint (Some (wit_cp h)) = Inr msg \<and> msg \<noteq> []"
proof -
  obtain msg where msg: "canonicalCheckpoint (Some (wit_cp h)) = Inr msg" using canonical_total [OF wit_gates(5)] by blast
  have "''XCHECKPOINT'' \<in> set (segments (wit_cp h))" by (simp add: segments_def base_fields_def)
  from length_join_le [OF this, of "''|''"] have "msg \<noteq> []" using canonical_segments [OF msg] by auto
  with msg show ?thesis by blast
qed

lemma wit_texts:
  "ascii_lower wit_key = wit_key" "hex_text 64 wit_key" "hex_text 128 (replicate 128 (CHR ''b''))" "wit_key \<noteq> []"
  by code_simp+

lemma wit_signers:
  assumes "msg \<noteq> []"
  shows "sigLoop (\<lambda>k m s. True) msg (\<lambda>pk. pk \<in> set (proven_keys [wit_row])) []
    (signature_list (\<lambda>s. None) (cp_validator_signatures (wit_cp h))) = [wit_key]"
proof -
  have k: "proven_keys [wit_row] = [wit_key]"
    by (simp add: proven_keys_def wit_row_def get_prop_def is_nullish_def pubkey_of_def wit_texts)
  have "verifySignature (\<lambda>k m s. True) msg (replicate 128 (CHR ''b'')) wit_key"
    using assms wit_texts by (simp add: verifySignature_def)
  then show ?thesis
    using wit_texts by (simp add: k wit_cp_def demo_cp_def signature_list_def sig_pubkey_def sig_hex_def prop_or_empty_def
        get_prop_def Let_def)
qed

lemma demo_amount_text: "js_trim demo_amount = demo_amount" "amount_text demo_amount"
  by code_simp+

lemma demo_amount_units: "amount_units demo_amount = 5 * 10 ^ 18"
proof -
  have "split_on (CHR ''.'') demo_amount = [''5'', replicate 18 (CHR ''0'')]" by code_simp
  moreover have "nat_of_digits ''5'' = 5" by code_simp
  moreover have "nat_of_digits (replicate 18 (CHR ''0'')) = 0" by (rule nat_of_digits_zeros)
  ultimately show ?thesis by (simp add: amount_units_def UNIT_def)
qed

lemma wit_row_values:
  "\<not> blank_source wit_row" "numeric_row wit_row" "row_text wit_row = demo_amount" "source_of wit_row = ''s1''"
  "pubkey_of wit_row = wit_key" "row_weight wit_row = 5" "js_string (js_prop wit_row ''weight'') = demo_amount"
proof -
  have t: "js_trim ''s1'' = ''s1''" by code_simp
  show r: "row_text wit_row = demo_amount" by (simp add: row_text_def wit_row_def get_prop_def demo_amount_text)
  show "\<not> blank_source wit_row" "source_of wit_row = ''s1''" "pubkey_of wit_row = wit_key"
    "js_string (js_prop wit_row ''weight'') = demo_amount"
    by (simp_all add: blank_source_def wit_row_def get_prop_def is_nullish_def t source_of_def pubkey_of_def wit_texts)
  show "numeric_row wit_row" using dec_value_amount [OF demo_amount_text(2)] r
    by (simp add: numeric_row_def) (simp add: wit_row_def get_prop_def is_nullish_def)
  show "row_weight wit_row = 5" using row_weight_amount [of wit_row] demo_amount_text demo_amount_units r by simp
qed

lemma wit_snapshot:
  "well_formed \<lparr>sn_rows = [wit_row], sn_truncated = False\<rparr>" "small_stakes [wit_row]"
  "owner [wit_row] wit_key = Some ''s1''"
  using wit_row_values demo_amount_text demo_amount_units
  by (simp_all add: well_formed_def owner_def small_units total_units_def)

lemma wit_valid: "pv_valid (verifyCheckpointWithProvenSet (\<lambda>q. q) (\<lambda>k m s. True) (\<lambda>s. None) (Some (wit_cp h)) (Some wit_cap))"
proof -
  obtain msg where msg: "canonicalCheckpoint (Some (wit_cp h)) = Inr msg" "msg \<noteq> []" using wit_canonical by blast
  have s: "signed_rows [wit_row] [JStr wit_key] = [wit_row]"
    using wit_snapshot(3) wit_row_values by (simp add: signed_rows_def wit_texts)
  have m: "meetsStakeThreshold (\<lambda>q. q) \<lparr>sn_rows = [wit_row], sn_truncated = False\<rparr> [JStr wit_key]"
    using meets_exact [OF exact64_id _ wit_snapshot(1), of "[JStr wit_key]"] wit_snapshot(2) wit_row_values s
    by (simp add: stake_def)
  have st: "totalStake (\<lambda>q. q) \<lparr>sn_rows = [wit_row], sn_truncated = False\<rparr> = Inr 5"
    using wit_row_values weight_text_numeric(1) [of wit_row] demo_amount_text demo_amount_units dec_value_amount [of demo_amount]
    by (simp add: totalStake_def bcnum_def is_nullish_def)
  have sc: "sumCanonicalAmounts [JStr demo_amount] = Inr (units_text (amount_units demo_amount))"
    using sumCanonicalAmounts_ok [of "[JStr demo_amount]"] demo_amount_text by simp
  have ex: "exactStakeTotal (\<lambda>q. q) [wit_row] = Some (units_text (amount_units demo_amount))"
    by (simp add: exactStakeTotal_def st sc wit_row_values)
  have ca: "canonicalAmount (JStr demo_amount) = Inr (units_text (amount_units demo_amount))"
    using canonicalAmount_units [of demo_amount] demo_amount_text by simp
  have ne: "demo_amount \<noteq> []" by (simp add: demo_amount_def)
  show ?thesis
    using wit_gates [of h] msg wit_signers [OF msg(2), of h] m ex ca ne
    by (simp add: verifyCheckpointWithProvenSet_def tryCanonicalCheckpoint_def wit_cap_def provenSigLoop_eq Let_def
        scaled_units_text)
qed

text \<open>
  C33: What a proven set certifies: if a checkpoint is judged valid by a proven set, its signed string
  exists and covers its roots, the proven rows add up to exactly the committed total, and the sources
  owning the distinct verified signing keys hold more than two thirds of that committed total.
\<close>

theorem proven_quorum_sound:
  assumes "exact64 rnd" "amount_units (js_trim (pc_total c)) < 10 ^ 63"
    and "pv_valid (verifyCheckpointWithProvenSet rnd ed jparse (Some cp) (Some c))"
  shows "\<exists>msg. canonicalCheckpoint (Some cp) = Inr msg \<and> signs_roots cp \<and>
    stake (first_rows [] (pc_validators c)) = of_nat (amount_units (js_trim (pc_total c))) / 10 ^ 18 \<and>
    2 * of_nat (amount_units (js_trim (pc_total c))) / 10 ^ 18 <
      3 * stake (owned_rows (pc_validators c)
        (valid_signers ed msg (\<lambda>pk. pk \<in> set (proven_keys (pc_validators c)))
          (signature_list jparse (cp_validator_signatures cp))))"
  using assms by (rule proven_quorum)

theorem proven_quorum_sound_witness:
  "\<exists>msg. canonicalCheckpoint (Some (wit_cp 9)) = Inr msg \<and> signs_roots (wit_cp 9) \<and>
    stake (first_rows [] (pc_validators wit_cap)) = of_nat (amount_units (js_trim (pc_total wit_cap))) / 10 ^ 18 \<and>
    2 * of_nat (amount_units (js_trim (pc_total wit_cap))) / 10 ^ 18 <
      3 * stake (owned_rows (pc_validators wit_cap)
        (valid_signers (\<lambda>k m s. True) msg (\<lambda>pk. pk \<in> set (proven_keys (pc_validators wit_cap)))
          (signature_list (\<lambda>s. None) (cp_validator_signatures (wit_cp 9)))))"
proof (rule proven_quorum_sound [OF exact64_id _ wit_valid])
  show "amount_units (js_trim (pc_total wit_cap)) < 10 ^ 63"
    using demo_amount_text demo_amount_units by (simp add: wit_cap_def)
qed

lemma followForward_chain:
  assumes "followForward H rnd ed jparse fetchSet fetchRange btcCoin network (Some trusted) toHeight = Inr r"
  shows "trust_chain (adoptable H rnd ed jparse fetchSet) 0 trusted (fr_adopted r) \<and>
    fr_trusted r = last (trusted # fr_adopted r)"
proof -
  have "\<exists>steps. followLoop H rnd ed jparse fetchSet trusted [] steps = Inr r"
    using assms
    by (auto simp: followForward_def try_bind_Inr Let_def split: if_splits option.splits intro: exI [of _ "[]"])
  then obtain steps where "followLoop H rnd ed jparse fetchSet trusted [] steps = Inr r" by blast
  from followLoop_chain [OF this] show ?thesis by auto
qed

text \<open>
  C34: Forward following only moves along the chain of trust. Whatever the explorer answers, the adopted
  checkpoints are served steps, each adoptable after the one before it: higher, bound to the trusted
  chain and network, with signed roots, and signed by a quorum of a set proven against the previous
  root. The heights rise strictly from the trusted checkpoint on (no rollback), the network never changes,
  and the new trust root is the last one adopted.
\<close>

theorem follow_forward_sound:
  assumes "followForward H rnd ed jparse fetchSet fetchRange btcCoin network (Some trusted) toHeight = Inr r"
    and "js_isFinite (js_Number (cp_block_index trusted))" "\<not> is_nullish (cp_network trusted)"
  shows "trust_chain (adoptable H rnd ed jparse fetchSet) 0 trusted (fr_adopted r) \<and>
    fr_trusted r = last (trusted # fr_adopted r) \<and>
    sorted_wrt num_lt (map (\<lambda>c. js_Number (cp_block_index c)) (trusted # fr_adopted r)) \<and>
    list_all (\<lambda>c. ascii_lower (js_string (cp_network c)) = ascii_lower (js_string (cp_network trusted))) (fr_adopted r)"
proof -
  note c = followForward_chain [OF assms(1)]
  show ?thesis
    using c trust_chain_heights [OF conjunct1 [OF c] assms(2)] trust_chain_network [OF conjunct1 [OF c] assms(3)] by blast
qed

text \<open>
  C35: Forward following reaches the tip: if the range the explorer serves is a chain of trust from the
  trusted checkpoint, all of it is adopted, in order, and nothing stops the walk.
\<close>

theorem follow_forward_complete:
  assumes "\<not> is_nullish (cp_state_root trusted)" "networkContextCoin btcCoin network ''BTC'' (cp_network trusted) = Inr coin"
    and "num_le (num_succ (js_Number (cp_block_index trusted))) (js_Number toHeight)" "\<not> is_nullish toHeight"
    and "fetchRange (num_succ (js_Number (cp_block_index trusted))) (js_Number toHeight) = Some (map Some cs)"
    and "trust_chain (adoptable H rnd ed jparse fetchSet) 0 trusted cs"
  shows "followForward H rnd ed jparse fetchSet fetchRange btcCoin network (Some trusted) toHeight =
    Inr \<lparr>fr_trusted = last (trusted # cs), fr_adopted = cs, fr_reason = None, fr_stoppedAt = JNull\<rparr>"
  using assms(1-5) followLoop_start [OF assms(6)] by (simp add: followForward_def)

subsection \<open>A walk of one step\<close>

definition wit_set :: "vset_proof \<Rightarrow> nat \<Rightarrow> jsval \<Rightarrow> vset_proof option" where
  "wit_set p n h = Some p"

definition wit_range :: "jsnum \<Rightarrow> jsnum \<Rightarrow> checkpoint option list option" where
  "wit_range a b = Some (map Some [wit_cp 9])"

lemma wit_vset:
  "\<exists>r p. verifyValidatorSetProof pad_digest (Some p) (hex_encode r) =
     \<lparr>vv_verified = True, vv_capabilities = [(demo_cap, wit_cap)], vv_reason = None\<rparr>"
proof -
  obtain r path smt tot where d: "stateRoot pad_digest (sub_roots pad_digest demo_stakes) = Some r"
    "stateRootProof pad_digest (sub_roots pad_digest demo_stakes) ''stakes_root'' = Some (Inr path)"
    "honest_cap pad_digest demo_stakes (demo_cap,
      \<lparr>cw_validators = [\<lparr>vm_pubkey = JStr wit_key, vm_source = JStr ''s1'', vm_weight = JStr demo_amount, vm_smt = Some smt\<rparr>],
       cw_total = JStr demo_amount, cw_total_proof = Some tot\<rparr>)"
    using demo_served_vset by blast
  let ?c = "\<lparr>cw_validators = [\<lparr>vm_pubkey = JStr wit_key, vm_source = JStr ''s1'', vm_weight = JStr demo_amount, vm_smt = Some smt\<rparr>],
       cw_total = JStr demo_amount, cw_total_proof = Some tot\<rparr>"
  have "list_all (honest_cap pad_digest demo_stakes) [(demo_cap, ?c)]" using d(3) by simp
  from served_vset_verified [OF length_pad_digest demo_stakes_ok d(1,2) this] show ?thesis
    by (intro exI [of _ r] exI [of _ "served_vset pad_digest demo_stakes path [(demo_cap, ?c)]"])
       (simp add: proven_of_def proven_row_def wit_cap_def wit_row_def)
qed

lemma wit_adoptable:
  assumes "verifyValidatorSetProof pad_digest (Some p) (hex_encode r) =
     \<lparr>vv_verified = True, vv_capabilities = [(demo_cap, wit_cap)], vv_reason = None\<rparr>"
  shows "adoptable pad_digest (\<lambda>q. q) (\<lambda>k m s. True) (\<lambda>s. None) (wit_set p) 0
    ((wit_cp 7)\<lparr>cp_state_root := JStr (hex_encode r)\<rparr>) (wit_cp 9)"
proof -
  have "\<not> bindingMismatch (wit_cp 9) ((wit_cp 7)\<lparr>cp_state_root := JStr (hex_encode r)\<rparr>)"
    by (simp add: bindingMismatch_def wit_cp_def demo_cp_def)
  moreover have "js_Number (cp_block_index (wit_cp h)) = Num (of_int h)" for h by (simp add: wit_cp_def js_Number_def)
  moreover have "cp_block_index ((wit_cp 7)\<lparr>cp_state_root := x\<rparr>) = cp_block_index (wit_cp 7)" for x by simp
  ultimately show ?thesis
    using wit_gates(1) assms wit_valid
    by (simp add: adoptable_def js_isFinite_def wit_set_def lowerHex_hex demo_cap_def)
qed

lemma wit_follow:
  "\<exists>p r. trust_chain (adoptable pad_digest (\<lambda>q. q) (\<lambda>k m s. True) (\<lambda>s. None) (wit_set p)) 0
      ((wit_cp 7)\<lparr>cp_state_root := JStr (hex_encode r)\<rparr>) [wit_cp 9] \<and>
    followLoop pad_digest (\<lambda>q. q) (\<lambda>k m s. True) (\<lambda>s. None) (wit_set p)
      ((wit_cp 7)\<lparr>cp_state_root := JStr (hex_encode r)\<rparr>) [] [Some (wit_cp 9)] =
      Inr \<lparr>fr_trusted = wit_cp 9, fr_adopted = [wit_cp 9], fr_reason = None, fr_stoppedAt = JNull\<rparr>"
proof -
  obtain r p where "verifyValidatorSetProof pad_digest (Some p) (hex_encode r) =
     \<lparr>vv_verified = True, vv_capabilities = [(demo_cap, wit_cap)], vv_reason = None\<rparr>" using wit_vset by blast
  then have c: "trust_chain (adoptable pad_digest (\<lambda>q. q) (\<lambda>k m s. True) (\<lambda>s. None) (wit_set p)) 0
      ((wit_cp 7)\<lparr>cp_state_root := JStr (hex_encode r)\<rparr>) [wit_cp 9]"
    using wit_adoptable by simp
  show ?thesis
    by (rule exI [of _ p], rule exI [of _ r]) (use c followLoop_start [OF c] in \<open>simp del: followLoop.simps trust_chain_Cons\<close>)
qed

lemma wit_forward:
  "js_Number (cp_block_index (wit_cp h)) = Num (of_int h)"
  "num_le (num_succ (Num 7)) (js_Number (JInt 9))"
  "\<not> is_nullish (cp_network (wit_cp h))"
proof -
  have "js_round (of_int 8) = Num (of_int 8)" by (rule js_round_int) simp
  then show "num_le (num_succ (Num 7)) (js_Number (JInt 9))" by (simp add: num_succ_def js_Number_def)
qed (simp_all add: wit_cp_def js_Number_def demo_cp_def is_nullish_def)

theorem follow_forward_complete_witness:
  "\<exists>p trusted. followForward pad_digest (\<lambda>q. q) (\<lambda>k m s. True) (\<lambda>s. None) (wit_set p) wit_range (JStr ''RBTC'') JUndef
      (Some trusted) (JInt 9) =
    Inr \<lparr>fr_trusted = wit_cp 9, fr_adopted = [wit_cp 9], fr_reason = None, fr_stoppedAt = JNull\<rparr>"
proof -
  obtain p r where c: "trust_chain (adoptable pad_digest (\<lambda>q. q) (\<lambda>k m s. True) (\<lambda>s. None) (wit_set p)) 0
      ((wit_cp 7)\<lparr>cp_state_root := JStr (hex_encode r)\<rparr>) [wit_cp 9]" using wit_follow by blast
  have "followForward pad_digest (\<lambda>q. q) (\<lambda>k m s. True) (\<lambda>s. None) (wit_set p) wit_range (JStr ''RBTC'') JUndef
      (Some ((wit_cp 7)\<lparr>cp_state_root := JStr (hex_encode r)\<rparr>)) (JInt 9) =
    Inr \<lparr>fr_trusted = last [(wit_cp 7)\<lparr>cp_state_root := JStr (hex_encode r)\<rparr>, wit_cp 9], fr_adopted = [wit_cp 9],
         fr_reason = None, fr_stoppedAt = JNull\<rparr>"
    by (rule follow_forward_complete [OF _ _ _ _ _ c])
       (simp_all add: wit_range_def wit_forward networkContextCoin_def is_nullish_def)
  then show ?thesis by auto
qed

theorem follow_forward_sound_witness:
  "\<exists>p (r :: follow_result) (t :: checkpoint). fr_adopted r = [wit_cp 9] \<and>
    trust_chain (adoptable pad_digest (\<lambda>q. q) (\<lambda>k m s. True) (\<lambda>s. None) (wit_set p)) 0 t (fr_adopted r) \<and>
    fr_trusted r = last (t # fr_adopted r) \<and>
    sorted_wrt num_lt (map (\<lambda>c. js_Number (cp_block_index c)) (t # fr_adopted r)) \<and>
    list_all (\<lambda>c. ascii_lower (js_string (cp_network c)) = ascii_lower (js_string (cp_network t))) (fr_adopted r)"
proof -
  obtain p rt where f: "followLoop pad_digest (\<lambda>q. q) (\<lambda>k m s. True) (\<lambda>s. None) (wit_set p)
      ((wit_cp 7)\<lparr>cp_state_root := JStr (hex_encode rt)\<rparr>) [] [Some (wit_cp 9)] =
      Inr \<lparr>fr_trusted = wit_cp 9, fr_adopted = [wit_cp 9], fr_reason = None, fr_stoppedAt = JNull\<rparr>"
    using wit_follow by blast
  let ?t = "(wit_cp 7)\<lparr>cp_state_root := JStr (hex_encode rt)\<rparr>"
  have "followForward pad_digest (\<lambda>q. q) (\<lambda>k m s. True) (\<lambda>s. None) (wit_set p) wit_range (JStr ''RBTC'') JUndef
      (Some ?t) (JInt 9) =
    Inr \<lparr>fr_trusted = wit_cp 9, fr_adopted = [wit_cp 9], fr_reason = None, fr_stoppedAt = JNull\<rparr>"
    using f by (simp add: followForward_def wit_range_def wit_forward networkContextCoin_def is_nullish_def
        del: followLoop.simps)
  note h = follow_forward_sound [OF this]
  show ?thesis
    by (rule exI [of _ p],
        rule exI [of _ "\<lparr>fr_trusted = wit_cp 9, fr_adopted = [wit_cp 9], fr_reason = None, fr_stoppedAt = JNull\<rparr>"],
        rule exI [of _ ?t]) (use h wit_forward in \<open>simp add: js_isFinite_def\<close>)
qed

end
