(* ===== verification/Fetch.thy ===== *)
theory Fetch
  imports ValidatorSet
begin

text \<open>
  How the light client asks: the URLs it builds and the replies it reads
  (\<open>src/protocol/light_client/fetch_helpers.js\<close>), and the shipped trust roots of
  \<open>src/protocol/pinned_checkpoints.js\<close>.

  The server is a function from URLs to replies, a parameter of every operation that fetches. A body
  is \<open>Unreadable\<close> where \<open>json()\<close> throws. \<open>followForward\<close>'s own requests stay the parameters of
  \<open>ValidatorSet\<close>.
\<close>

section \<open>URLs\<close>

definition uri_unreserved :: "char \<Rightarrow> bool" where
  "uri_unreserved c \<longleftrightarrow>
     (let n = of_char c :: nat in
      48 \<le> n \<and> n \<le> 57 \<or> 65 \<le> n \<and> n \<le> 90 \<or> 97 \<le> n \<and> n \<le> 122 \<or> c \<in> set ''-_.!~*()'' \<or> n = 39)"

definition hex_upper_char :: "nat \<Rightarrow> char" where
  "hex_upper_char d = char_of (if d < 10 then 48 + d else 55 + d)"

definition encode_char :: "char \<Rightarrow> string" where
  "encode_char c =
     (if uri_unreserved c then [c]
      else [CHR ''%'', hex_upper_char (of_char c div 16), hex_upper_char (of_char c mod 16)])"

definition encodeURIComponent :: "string \<Rightarrow> string" where
  "encodeURIComponent s = concat (map encode_char s)"

fun strip_slashes :: "string \<Rightarrow> string" where
  "strip_slashes [] = []"
| "strip_slashes (c # s) = (if c = CHR ''/'' then strip_slashes s else c # s)"

definition baseUrl :: "jsval \<Rightarrow> string" where
  "baseUrl u = rev (strip_slashes (rev (if js_truthy u then js_string u else [])))"
definition height_query :: "jsval \<Rightarrow> string" where
  "height_query h =
     (if \<not> is_nullish h \<and> h \<noteq> JStr [] then ''?height='' @ encodeURIComponent (js_string h) else [])"

text \<open>The proof routes of \<open>verifyBalance\<close> and \<open>verifyLockedBalance\<close> differ in \<open>route\<close>.\<close>

definition proof_url :: "string \<Rightarrow> jsval \<Rightarrow> jsval \<Rightarrow> jsval \<Rightarrow> jsval \<Rightarrow> jsval \<Rightarrow> string" where
  "proof_url route explorerUrl coin address tick atHeight =
     baseUrl explorerUrl @ ''/'' @ encodeURIComponent (js_string coin) @ ''/api/proof/'' @ route @ ''/'' @
     encodeURIComponent (js_string address) @ ''/'' @ encodeURIComponent (js_string tick) @ height_query atHeight"

definition action_url :: "jsval \<Rightarrow> jsval \<Rightarrow> jsval \<Rightarrow> string" where
  "action_url explorerUrl coin actionIndex =
     baseUrl explorerUrl @ ''/'' @ encodeURIComponent (js_string coin) @ ''/api/proof/action/'' @
     encodeURIComponent (js_string actionIndex)"

section \<open>Replies\<close>

datatype 'a body = Unreadable | Body 'a

text \<open>A fetch that rejects is \<open>NoReply\<close>; otherwise the status and the body.\<close>

datatype 'a http_reply = NoReply | Reply nat "'a body"

datatype fetch_error =
    NetworkFailure
  | BadJson
  | HttpStatus nat "string option"
  | NoProof
  | NoCheckpoint
  | FollowFailed follow_error
  | BadKey merkle_error
  | ValidatorsNotIterable

definition http_ok :: "nat \<Rightarrow> bool" where
  "http_ok status \<longleftrightarrow> 200 \<le> status \<and> status \<le> 299"

definition fetchJson :: "(string \<Rightarrow> 'a http_reply) \<Rightarrow> string \<Rightarrow> fetch_error + 'a" where
  "fetchJson f url =
     (case f url of
        NoReply \<Rightarrow> Inl NetworkFailure
      | Reply status b \<Rightarrow>
          if \<not> http_ok status then Inl (HttpStatus status None)
          else (case b of Unreadable \<Rightarrow> Inl BadJson | Body x \<Rightarrow> Inr x))"

text \<open>\<open>code_of\<close> reads the field \<open>code\<close> of a body: a refusal carries it, a body comes back otherwise.\<close>

definition nonEmpty :: "jsval \<Rightarrow> string option" where
  "nonEmpty x = (case x of JStr s \<Rightarrow> if s \<noteq> [] then Some s else None | _ \<Rightarrow> None)"

definition fetchProofReply :: "('a \<Rightarrow> jsval) \<Rightarrow> (string \<Rightarrow> 'a http_reply) \<Rightarrow> string \<Rightarrow> fetch_error + (string + 'a)" where
  "fetchProofReply code_of f url =
     (case f url of
        NoReply \<Rightarrow> Inl NetworkFailure
      | Reply status b \<Rightarrow>
          if http_ok status then (case b of Unreadable \<Rightarrow> Inl BadJson | Body x \<Rightarrow> Inr (Inr x))
          else
            (let code = (case b of Unreadable \<Rightarrow> None | Body x \<Rightarrow> nonEmpty (code_of x)) in
             case code of
               Some c \<Rightarrow> if status = 409 then Inr (Inl c) else Inl (HttpStatus status code)
             | None \<Rightarrow> Inl (HttpStatus status None)))"

section \<open>Pinned trust roots\<close>

record pinned_entry =
  pe_checkpoint :: "checkpoint option"
  pe_validators :: "snapshot option"

definition pinned_checkpoint :: "string \<Rightarrow> int \<Rightarrow> string \<Rightarrow> checkpoint" where
  "pinned_checkpoint chain height root_hex =
     \<lparr>cp_chain = JStr chain, cp_network = JStr ''testnet'', cp_block_index = JInt height, cp_block_hash = JUndef,
      cp_ledger_hash = JUndef, cp_actions_hash = JUndef, cp_contract_hash = JUndef, cp_checkpoint_seq = JInt 156947,
      cp_snapshot_block = JInt 156947, cp_state_root = JStr root_hex,
      cp_block_merkle_root = JStr ''7d0eefdcd395118b3a5c35e09d967d4c8f3ccc6db2a7ba96fbb4a9689d9151dd'',
      cp_state_root_version = JInt 2, cp_block_merkle_version = JInt 1, cp_supersedes_from = JUndef,
      cp_rules_digest = JUndef, cp_superseded_by_seq = JUndef, cp_fold_archive = JUndef,
      cp_validator_signatures = JUndef\<rparr>"

definition pinned_validator :: "string \<Rightarrow> string \<Rightarrow> jsval" where
  "pinned_validator pubkey source =
     JObj [(''pubkey'', JStr pubkey), (''weight'', JStr ''50000.00000000''), (''source'', JStr source)]"

definition testnet_validators :: "jsval list" where
  "testnet_validators =
     [pinned_validator ''18e4c1d54c8932d51fa54e4bc0164461a0605fb801bfca21cad57fa74495c174''
        ''mverify2tE4RK7QYHRXbpmj6iLabcYtpWY'',
      pinned_validator ''2661bd8f42b910bbb471387b7c28eaa440fc3c99077c160a69f22859f924aa7d''
        ''mverify1Q6YPNqP4UzqLoa1MpDDZUu4ogC'',
      pinned_validator ''72a25832d5f9d30baf704579fc440723f03cba55098cb2aac21063bf71029bad''
        ''mverify4Hoe6uqa7ZJanX7GFXDpZ6dmtyX'',
      pinned_validator ''8a1215431e8143b2ebdc9fed2fe7f655ecc327c4efd66798bc4e5504a5d5b0a8''
        ''mverify3LaXvGitmYx3nHa3y2LMJ1odWVc'',
      pinned_validator ''c1de91459e8bd93de9e3263c26d886058593d3fdae57ad0c1bd48ca3dd22f32a''
        ''mverify5szar1XwwAjqAnPUHbA814kfHh4'']"

definition pinned_testnet :: "string \<Rightarrow> int \<Rightarrow> string \<Rightarrow> pinned_entry" where
  "pinned_testnet chain height root_hex =
     \<lparr>pe_checkpoint = Some (pinned_checkpoint chain height root_hex),
      pe_validators = Some \<lparr>sn_rows = testnet_validators, sn_truncated = False\<rparr>\<rparr>"

definition PINNED :: "(string \<times> pinned_entry option) list" where
  "PINNED =
     [(''BTC'', None),
      (''TBTC'', Some (pinned_testnet ''BTC'' 156941
         ''f22f6b49c3b8cf073dfa2876bd13ba0959093fc54c6bf306fadc0ec4aac8480d'')),
      (''RBTC'', None),
      (''LTC'', None),
      (''TLTC'', Some (pinned_testnet ''LTC'' 4926448
         ''ee4f9c774ddde817cd54ba6206beb8dc348eac475de756ea183115764e1af336'')),
      (''RLTC'', None),
      (''DOGE'', None),
      (''TDOGE'', Some (pinned_testnet ''DOGE'' 68006379
         ''e214754e5203098ad4d132d0682634f50c1fde82c260699ac661c0f0e6f6319c'')),
      (''RDOGE'', None)]"

definition getPinnedCheckpoint :: "jsval \<Rightarrow> pinned_entry option" where
  "getPinnedCheckpoint coin =
     (if is_nullish coin then None
      else (case map_of PINNED (ascii_upper (js_string coin)) of Some (Some e) \<Rightarrow> Some e | _ \<Rightarrow> None))"

definition getPinnedValidators :: "jsval \<Rightarrow> snapshot option" where
  "getPinnedValidators coin =
     (case getPinnedCheckpoint coin of None \<Rightarrow> None | Some e \<Rightarrow> pe_validators e)"

section \<open>Encoded segments\<close>

lemma unreserved_not_special:
  "\<not> uri_unreserved (CHR ''/'')" "\<not> uri_unreserved (CHR ''?'')" "\<not> uri_unreserved (CHR ''%'')"
  by (simp_all add: uri_unreserved_def)

lemma hex_upper_inject:
  assumes "a < 16" "b < 16"
  shows "hex_upper_char a = hex_upper_char b \<longleftrightarrow> a = b"
proof -
  have "list_all (\<lambda>a. list_all (\<lambda>b. (hex_upper_char a = hex_upper_char b) = (a = b)) [0..<16]) [0..<16]" by code_simp
  then show ?thesis using assms by (simp add: list_all_iff)
qed

lemma hex_upper_range: "d < 16 \<Longrightarrow> hex_upper_char d \<noteq> CHR ''/'' \<and> hex_upper_char d \<noteq> CHR ''?''"
proof -
  assume "d < 16"
  then have "d \<in> set [0..<16]" by simp
  moreover have "list_all (\<lambda>d. hex_upper_char d \<noteq> CHR ''/'' \<and> hex_upper_char d \<noteq> CHR ''?'') [0..<16]" by code_simp
  ultimately show ?thesis by (simp add: list_all_iff)
qed

lemma char_div_16: "(of_char c :: nat) div 16 < 16"
  by (rule less_mult_imp_div_less) (use nat_of_char_less_256 [of c] in simp)

lemma encode_char_clean: "CHR ''/'' \<notin> set (encode_char c)" "CHR ''?'' \<notin> set (encode_char c)"
proof -
  show "CHR ''/'' \<notin> set (encode_char c)" "CHR ''?'' \<notin> set (encode_char c)"
    using unreserved_not_special char_div_16 [of c] hex_upper_range [of "of_char c div 16"] hex_upper_range [of "of_char c mod 16"]
    by (auto simp: encode_char_def)
qed

lemma encode_clean: "CHR ''/'' \<notin> set (encodeURIComponent s)" "CHR ''?'' \<notin> set (encodeURIComponent s)"
  using encode_char_clean by (auto simp: encodeURIComponent_def)

lemma encode_char_prefix:
  assumes "encode_char c @ x = encode_char d @ y"
  shows "c = d \<and> x = y"
proof -
  note b = char_div_16 [of c] char_div_16 [of d]
  show ?thesis
  proof (cases "uri_unreserved c \<or> uri_unreserved d")
    case True
    then show ?thesis using assms unreserved_not_special(3) by (auto simp: encode_char_def split: if_splits)
  next
    case False
    then have h: "hex_upper_char (of_char c div 16) = hex_upper_char (of_char d div 16)"
      "hex_upper_char (of_char c mod 16) = hex_upper_char (of_char d mod 16)" "x = y"
      using assms by (simp_all add: encode_char_def)
    then have "(of_char c :: nat) div 16 = of_char d div 16" "(of_char c :: nat) mod 16 = of_char d mod 16"
      using hex_upper_inject b by auto
    then have "(of_char c :: nat) = of_char d" by (metis div_mod_decomp)
    then show ?thesis using h by simp
  qed
qed

lemma encode_inject: "encodeURIComponent s = encodeURIComponent t \<longleftrightarrow> s = t"
proof
  assume "encodeURIComponent s = encodeURIComponent t"
  then show "s = t"
  proof (induction s arbitrary: t)
    case Nil
    then show ?case by (cases t) (auto simp: encodeURIComponent_def encode_char_def split: if_splits)
  next
    case (Cons c s)
    show ?case
    proof (cases t)
      case Nil
      then show ?thesis using Cons.prems by (auto simp: encodeURIComponent_def encode_char_def split: if_splits)
    next
      case (Cons d t')
      have "encode_char c @ encodeURIComponent s = encode_char d @ encodeURIComponent t'"
        using Cons.prems Cons by (simp add: encodeURIComponent_def)
      from encode_char_prefix [OF this] show ?thesis using Cons Cons.IH by blast
    qed
  qed
qed simp

lemma append_sep_inject:
  assumes "c \<notin> set a" "c \<notin> set b"
  shows "a @ c # x = b @ c # y \<longleftrightarrow> a = b \<and> x = y"
  using assms
proof (induction a arbitrary: b)
  case Nil
  then show ?case by (cases b) auto
next
  case (Cons d a)
  then show ?case by (cases b) auto
qed

lemma takeWhile_sep: "c \<notin> set a \<Longrightarrow> q = [] \<or> (\<exists>r. q = c # r) \<Longrightarrow> takeWhile (\<lambda>d. d \<noteq> c) (a @ q) = a"
  by (induction a) auto

lemma height_query_head: "height_query h = [] \<or> (\<exists>q. height_query h = CHR ''?'' # q)"
  by (simp add: height_query_def)

lemma append_query_inject:
  assumes "CHR ''?'' \<notin> set a" "CHR ''?'' \<notin> set b"
  shows "a @ height_query h = b @ height_query g \<longleftrightarrow> a = b \<and> height_query h = height_query g"
proof
  assume e: "a @ height_query h = b @ height_query g"
  have "takeWhile (\<lambda>c. c \<noteq> CHR ''?'') (a @ height_query h) = a"
    "takeWhile (\<lambda>c. c \<noteq> CHR ''?'') (b @ height_query g) = b"
    by (rule takeWhile_sep [OF assms(1) height_query_head], rule takeWhile_sep [OF assms(2) height_query_head])
  then show "a = b \<and> height_query h = height_query g" using e by simp
qed simp

text \<open>
  A request names one question. Two proof requests to the same explorer and route have the same URL only when the coin,
  the address, the tick and the requested height are the same texts, whatever characters they hold.
\<close>

theorem proof_url_inject:
  "proof_url route u coin address tick h = proof_url route u coin' address' tick' h' \<longleftrightarrow>
   js_string coin = js_string coin' \<and> js_string address = js_string address' \<and> js_string tick = js_string tick' \<and>
   height_query h = height_query h'"
proof -
  let ?e = "\<lambda>v. encodeURIComponent (js_string v)"
  let ?p = "''api/proof/'' @ route"
  have url: "proof_url route u c a t h =
      baseUrl u @ CHR ''/'' # ?e c @ CHR ''/'' # ?p @ CHR ''/'' # ?e a @ CHR ''/'' # ?e t @ height_query h" for c a t h
    by (simp add: proof_url_def)
  show ?thesis
    unfolding url
    by (simp only: same_append_eq list.inject simp_thms append_sep_inject [OF encode_clean(1) encode_clean(1)]
        append_query_inject [OF encode_clean(2) encode_clean(2)] encode_inject)
qed

end
