(* ===== verification/QuorumResolution.thy ===== *)
theory QuorumResolution
  imports Fetch
begin

text \<open>
  Which validators decide about a served checkpoint: \<open>src/protocol/light_client/quorum_resolution.js\<close> and
  \<open>pinnedEntry\<close> of \<open>fetch_helpers.js\<close>.

  The module-level cache of explorer sets is a value passed along: its entries in insertion order.
  Requests are answered one after the other, so a cached promise is a settled one and a rejected one has
  already been evicted; the sharing of one request by concurrent callers is not modelled.
\<close>

section \<open>Options\<close>

text \<open>The options of a network call. \<open>vo_pinnedResolver\<close> overrides the shipped registry.\<close>

record call_opts =
  vo_explorerUrl :: jsval
  vo_coin :: jsval
  vo_address :: jsval
  vo_tick :: jsval
  vo_actionIndex :: jsval
  vo_atHeight :: jsval
  vo_validators :: "snapshot option"
  vo_trusted :: "checkpoint option"
  vo_pinnedResolver :: "(jsval \<Rightarrow> pinned_entry option) option"

text \<open>\<open>coin\<close> is \<open>None\<close> where the caller leaves it out.\<close>

definition pinnedEntry :: "call_opts \<Rightarrow> jsval option \<Rightarrow> pinned_entry option" where
  "pinnedEntry opts coin =
     (if vo_validators opts \<noteq> None \<or> vo_trusted opts \<noteq> None then None
      else
        (let resolve = (case vo_pinnedResolver opts of None \<Rightarrow> getPinnedCheckpoint | Some r \<Rightarrow> r) in
         resolve (case coin of None \<Rightarrow> vo_coin opts | Some c \<Rightarrow> if c = JUndef then vo_coin opts else c)))"

section \<open>The explorer's set and its cache\<close>

definition VALIDATOR_SET_CACHE_MAX :: nat where
  "VALIDATOR_SET_CACHE_MAX = 64"

type_synonym set_cache = "(string \<times> jsval) list"

definition clearValidatorSetCache :: "set_cache \<Rightarrow> set_cache" where
  "clearValidatorSetCache cache = []"

record verify_body =
  vb_validators :: jsval
  vb_archive_validators :: jsval

text \<open>
  \<open>Number(v)\<close> as a value again. A fraction is written down to its point, which is all that \<open>parseInt\<close> reads
  of it; the exponent notation of numbers below \<open>10^-6\<close> and from \<open>10^21\<close> on is not produced.
\<close>

definition js_num_val :: "jsval \<Rightarrow> jsval" where
  "js_num_val v =
     (case js_Number v of
        Num q \<Rightarrow>
          if of_int \<lfloor>q\<rfloor> = q then JInt \<lfloor>q\<rfloor>
          else JFloat ((if q < 0 then ''-'' else []) @ nat_str (nat \<lfloor>\<bar>q\<bar>\<rfloor>) @ ''.'')
      | NaN \<Rightarrow> JFloat ''NaN'' | NegInf \<Rightarrow> JFloat ''-Infinity'' | PosInf \<Rightarrow> JFloat ''Infinity'')"

definition usesArchiveSet :: "checkpoint \<Rightarrow> bool" where
  "usesArchiveSet cp \<longleftrightarrow>
     \<not> is_nullish (cp_fold_archive cp) \<and>
     activeAt shipped [] (\<lambda>_. JUndef) ''archive_rollcall_presence_activation.ARCHIVE_ROLLCALL_PRESENCE_ACTIVATION''
       (JStr (js_string (cp_network cp))) (JStr ''BTC'') (js_num_val (cp_snapshot_block cp)) JNull = Inr True \<and>
     isStakeWeightedQuorumActive (js_num_val (cp_snapshot_block cp)) (JStr (js_string (cp_network cp)))"
definition cache_key :: "jsval \<Rightarrow> jsval \<Rightarrow> checkpoint \<Rightarrow> string" where
  "cache_key explorerUrl coin cp =
     baseUrl explorerUrl @ ''|'' @ js_string coin @ ''|'' @ js_string (cp_block_index cp) @
     (if usesArchiveSet cp then ''|archive'' else [])"

definition verify_url :: "jsval \<Rightarrow> jsval \<Rightarrow> checkpoint \<Rightarrow> string" where
  "verify_url explorerUrl coin cp =
     baseUrl explorerUrl @ ''/'' @ encodeURIComponent (js_string coin) @ ''/api/checkpoint/'' @
     encodeURIComponent (js_string (cp_block_index cp)) @ ''/verify''"

text \<open>\<open>(vb && vb[field]) || []\<close>\<close>

definition served_set :: "checkpoint \<Rightarrow> verify_body \<Rightarrow> jsval" where
  "served_set cp vb =
     (let v = (if usesArchiveSet cp then vb_archive_validators vb else vb_validators vb) in
      if js_truthy v then v else JArr [])"

definition cache_put :: "set_cache \<Rightarrow> string \<Rightarrow> jsval \<Rightarrow> set_cache" where
  "cache_put cache k v =
     (if VALIDATOR_SET_CACHE_MAX \<le> length cache then drop 1 cache else cache) @ [(k, v)]"

definition cache_delete :: "set_cache \<Rightarrow> string \<Rightarrow> set_cache" where
  "cache_delete cache k = filter (\<lambda>e. fst e \<noteq> k) cache"

definition explorerValidators ::
    "(string \<Rightarrow> verify_body http_reply) \<Rightarrow> set_cache \<Rightarrow> jsval \<Rightarrow> jsval \<Rightarrow> checkpoint \<Rightarrow>
     set_cache \<times> (fetch_error + jsval)" where
  "explorerValidators f cache explorerUrl coin cp =
     (let k = cache_key explorerUrl coin cp in
      case map_of cache k of
        Some v \<Rightarrow> (cache, Inr v)
      | None \<Rightarrow>
          (case fetchJson f (verify_url explorerUrl coin cp) of
             Inl e \<Rightarrow> (cache_delete (cache_put cache k JUndef) k, Inl e)
           | Inr vb \<Rightarrow> (let v = served_set cp vb in (cache_put cache k v, Inr v))))"

section \<open>The ladder\<close>

record quorum_result =
  qr_valid :: bool
  qr_quorum :: "nat option"
  qr_weighted :: "bool option"

definition quorum_of :: "cp_verdict \<Rightarrow> quorum_result" where
  "quorum_of v = \<lparr>qr_valid = cv_valid v, qr_quorum = Some (cv_quorum v), qr_weighted = Some (cv_weighted v)\<rparr>"

text \<open>\<open>verifyCheckpoint\<close> maps over the set it is given: a value that is not an array throws.\<close>

definition set_of_js :: "jsval \<Rightarrow> fetch_error + snapshot" where
  "set_of_js v =
     (case v of JArr xs \<Rightarrow> Inr \<lparr>sn_rows = xs, sn_truncated = False\<rparr> | _ \<Rightarrow> Inl ValidatorsNotIterable)"

text \<open>The libraries and the remote ends a resolution uses.\<close>

record world =
  w_hash :: "bytes \<Rightarrow> bytes"
  w_round :: "rat \<Rightarrow> rat"
  w_ed :: "bytes \<Rightarrow> bytes \<Rightarrow> bytes \<Rightarrow> bool"
  w_parse :: "string \<Rightarrow> jsval option"
  w_verify :: "string \<Rightarrow> verify_body http_reply"
  w_set :: "nat \<Rightarrow> jsval \<Rightarrow> vset_proof option"
  w_range :: "jsnum \<Rightarrow> jsnum \<Rightarrow> checkpoint option list option"

abbreviation check_cp :: "world \<Rightarrow> checkpoint \<Rightarrow> snapshot \<Rightarrow> cp_verdict" where
  "check_cp w cp \<equiv> verifyCheckpoint (w_round w) (w_ed w) (w_parse w) (Some cp)"

definition verifyQuorum ::
    "world \<Rightarrow> set_cache \<Rightarrow> jsval \<Rightarrow> jsval \<Rightarrow> checkpoint \<Rightarrow> snapshot option \<Rightarrow>
     set_cache \<times> (fetch_error + quorum_result)" where
  "verifyQuorum w cache explorerUrl coin cp supplied =
     (case supplied of
        Some sn \<Rightarrow> (cache, Inr (quorum_of (check_cp w cp sn)))
      | None \<Rightarrow>
          (case explorerValidators (w_verify w) cache explorerUrl coin cp of
             (cache', r) \<Rightarrow>
               (cache', try_bind r (\<lambda>v. try_bind (set_of_js v) (\<lambda>sn. Inr (quorum_of (check_cp w cp sn)))))))"

definition usable_set :: "pinned_entry \<Rightarrow> snapshot option" where
  "usable_set entry =
     (case pe_validators entry of None \<Rightarrow> None | Some sn \<Rightarrow> if sn_rows sn \<noteq> [] then Some sn else None)"

text \<open>Is the step the walk ended on exactly the served checkpoint?\<close>

definition reaches_served :: "checkpoint \<Rightarrow> checkpoint \<Rightarrow> bool" where
  "reaches_served t cp \<longleftrightarrow>
     sameWireIndex (cp_block_index t) (cp_block_index cp) \<and>
     lowerHex (cp_state_root t) = lowerHex (cp_state_root cp) \<and>
     lowerHex (cp_block_merkle_root t) = lowerHex (cp_block_merkle_root cp) \<and>
     tryCanonicalCheckpoint (Some t) \<noteq> None \<and> tryCanonicalCheckpoint (Some cp) \<noteq> None \<and>
     tryCanonicalCheckpoint (Some t) = tryCanonicalCheckpoint (Some cp)"

definition not_reached :: quorum_result where
  "not_reached = \<lparr>qr_valid = False, qr_quorum = None, qr_weighted = None\<rparr>"

definition rollForward :: "world \<Rightarrow> call_opts \<Rightarrow> pinned_entry \<Rightarrow> checkpoint \<Rightarrow> fetch_error + quorum_result" where
  "rollForward w opts entry cp =
     (case pe_checkpoint entry of
        None \<Rightarrow> Inr not_reached
      | Some pcp \<Rightarrow>
          if \<not> is_nullish (cp_state_root pcp) \<and> lowerHex (cp_chain cp) = ''btc'' \<and>
             num_lt (js_Number (cp_block_index pcp)) (js_Number (cp_block_index cp))
          then
            (case followForward (w_hash w) (w_round w) (w_ed w) (w_parse w) (w_set w) (w_range w)
                    (vo_coin opts) JUndef (Some pcp) (js_num_val (cp_block_index cp)) of
               Inl e \<Rightarrow> Inl (FollowFailed e)
             | Inr ff \<Rightarrow>
                 Inr (if reaches_served (fr_trusted ff) cp
                      then \<lparr>qr_valid = True, qr_quorum = None, qr_weighted = None\<rparr> else not_reached))
          else Inr not_reached)"

definition resolveQuorum ::
    "world \<Rightarrow> set_cache \<Rightarrow> call_opts \<Rightarrow> checkpoint \<Rightarrow> set_cache \<times> (fetch_error + quorum_result)" where
  "resolveQuorum w cache opts cp =
     (case vo_validators opts of
        Some sn \<Rightarrow> (cache, Inr (quorum_of (check_cp w cp sn)))
      | None \<Rightarrow>
          (case pinnedEntry opts None of
             None \<Rightarrow> verifyQuorum w cache (vo_explorerUrl opts) (vo_coin opts) cp None
           | Some entry \<Rightarrow>
               (case usable_set entry of
                  Some sn \<Rightarrow>
                    if cv_valid (check_cp w cp sn) then (cache, Inr (quorum_of (check_cp w cp sn)))
                    else (cache, rollForward w opts entry cp)
                | None \<Rightarrow> (cache, rollForward w opts entry cp))))"

text \<open>A set as it comes back: none, one that was supplied or pinned, or whatever the explorer served.\<close>

datatype set_arg = NullSet | GivenSet snapshot | ServedSet jsval

definition resolveValidatorSet ::
    "world \<Rightarrow> set_cache \<Rightarrow> call_opts \<Rightarrow> checkpoint \<Rightarrow> jsval \<Rightarrow> set_cache \<times> (fetch_error + set_arg)" where
  "resolveValidatorSet w cache opts cp coin =
     (case vo_validators opts of
        Some sn \<Rightarrow> (cache, Inr (GivenSet sn))
      | None \<Rightarrow>
          (case pinnedEntry opts (Some coin) of
             Some entry \<Rightarrow>
               (cache, Inr (case usable_set entry of None \<Rightarrow> NullSet | Some sn \<Rightarrow> GivenSet sn))
           | None \<Rightarrow>
               if is_nullish coin \<or> js_string coin = [] then (cache, Inr NullSet)
               else
                 (case explorerValidators (w_verify w) cache (vo_explorerUrl opts) coin cp of
                    (cache', r) \<Rightarrow> (cache', map_sum id ServedSet r))))"

section \<open>The cache\<close>

definition cache_ok_sets :: "set_cache \<Rightarrow> bool" where
  "cache_ok_sets cache \<longleftrightarrow> distinct (map fst cache) \<and> length cache \<le> VALIDATOR_SET_CACHE_MAX"

lemma cache_ok_put:
  assumes "cache_ok_sets cache" "map_of cache k = None"
  shows "cache_ok_sets (cache_put cache k v)"
proof -
  have "set (map fst (drop 1 cache)) \<subseteq> set (map fst cache)" by (auto dest: in_set_dropD)
  then have "k \<notin> set (map fst (drop 1 cache))" "k \<notin> set (map fst cache)"
    using assms(2) by (auto simp: map_of_eq_None_iff)
  moreover have "distinct (map fst (drop 1 cache))" using assms(1) by (simp add: cache_ok_sets_def drop_map [symmetric])
  ultimately show ?thesis using assms(1) by (auto simp: cache_ok_sets_def cache_put_def VALIDATOR_SET_CACHE_MAX_def)
qed

lemma cache_ok_delete: "cache_ok_sets cache \<Longrightarrow> cache_ok_sets (cache_delete cache k)"
  by (auto simp: cache_ok_sets_def cache_delete_def distinct_map_filter intro: le_trans [OF length_filter_le])

lemma explorerValidators_ok:
  "cache_ok_sets cache \<Longrightarrow> cache_ok_sets (fst (explorerValidators f cache u coin cp))"
  by (auto simp: explorerValidators_def Let_def cache_ok_put cache_ok_delete split: option.split sum.split)

text \<open>A question whose parts hold no separator, and the answer the explorer gives to it without any cache.\<close>

definition plain_question :: "jsval \<Rightarrow> jsval \<Rightarrow> checkpoint \<Rightarrow> bool" where
  "plain_question u coin cp \<longleftrightarrow> CHR ''|'' \<notin> set (baseUrl u) \<and> CHR ''|'' \<notin> set (js_string coin) \<and>
     CHR ''|'' \<notin> set (js_string (cp_block_index cp))"

definition fresh_answer :: "(string \<Rightarrow> verify_body http_reply) \<Rightarrow> jsval \<Rightarrow> jsval \<Rightarrow> checkpoint \<Rightarrow> fetch_error + jsval" where
  "fresh_answer f u coin cp = map_sum id (served_set cp) (fetchJson f (verify_url u coin cp))"

lemma cache_key_inject:
  assumes "plain_question u coin cp" "plain_question u' coin' cp'" "cache_key u coin cp = cache_key u' coin' cp'"
  shows "fresh_answer f u coin cp = fresh_answer f u' coin' cp'"
proof -
  let ?t = "\<lambda>cp. if usesArchiveSet cp then ''|archive'' else []"
  have e: "baseUrl u = baseUrl u' \<and> js_string coin = js_string coin' \<and>
      js_string (cp_block_index cp) @ ?t cp = js_string (cp_block_index cp') @ ?t cp'"
    using assms by (simp add: cache_key_def plain_question_def append_sep_inject split del: if_split)
  have t: "takeWhile (\<lambda>c. c \<noteq> CHR ''|'') (js_string (cp_block_index x) @ ?t x) = js_string (cp_block_index x)"
    if "plain_question v d x" for v d x
    by (rule takeWhile_sep) (use that in \<open>auto simp: plain_question_def\<close>)
  have "js_string (cp_block_index cp) = js_string (cp_block_index cp')"
    using t [OF assms(1)] t [OF assms(2)] e by simp
  moreover from this have "usesArchiveSet cp = usesArchiveSet cp'" using e by (auto split: if_splits)
  ultimately show ?thesis using e by (simp add: fresh_answer_def verify_url_def served_set_def [abs_def])
qed

text \<open>A cache that only holds what the explorer answers.\<close>

definition cache_faithful :: "(string \<Rightarrow> verify_body http_reply) \<Rightarrow> set_cache \<Rightarrow> bool" where
  "cache_faithful f cache \<longleftrightarrow>
     (\<forall>(k, v)\<in>set cache. \<forall>u coin cp. plain_question u coin cp \<and> cache_key u coin cp = k \<longrightarrow> fresh_answer f u coin cp = Inr v)"

lemma cache_faithfulD:
  "cache_faithful f cache \<Longrightarrow> (cache_key u coin cp, v) \<in> set cache \<Longrightarrow> plain_question u coin cp \<Longrightarrow>
   fresh_answer f u coin cp = Inr v"
  by (auto simp: cache_faithful_def)

lemma cache_faithful_subset: "cache_faithful f cache \<Longrightarrow> set c \<subseteq> set cache \<Longrightarrow> cache_faithful f c"
  unfolding cache_faithful_def by blast

lemma cache_faithful_put:
  assumes "cache_faithful f cache" "plain_question u coin cp" "fresh_answer f u coin cp = Inr v"
  shows "cache_faithful f (cache_put cache (cache_key u coin cp) v)"
  unfolding cache_faithful_def
proof (intro ballI, clarify)
  fix k x u' coin' cp'
  assume m: "(cache_key u' coin' cp', x) \<in> set (cache_put cache (cache_key u coin cp) v)" and p: "plain_question u' coin' cp'"
  then have "(cache_key u' coin' cp', x) \<in> set cache \<or> cache_key u' coin' cp' = cache_key u coin cp \<and> x = v"
    by (auto simp: cache_put_def dest: in_set_dropD split: if_splits)
  then show "fresh_answer f u' coin' cp' = Inr x"
    using assms(1,3) cache_key_inject [OF p assms(2)] p by (auto simp: cache_faithful_def)
qed

lemma cache_faithful_delete:
  assumes "cache_faithful f cache"
  shows "cache_faithful f (cache_delete (cache_put cache k v) k)"
proof (rule cache_faithful_subset [OF assms])
  show "set (cache_delete (cache_put cache k v) k) \<subseteq> set cache"
    by (auto simp: cache_delete_def cache_put_def dest: in_set_dropD)
qed

lemma explorerValidators_transparent:
  assumes "cache_faithful f cache" "plain_question u coin cp"
  shows "snd (explorerValidators f cache u coin cp) = fresh_answer f u coin cp"
    and "cache_faithful f (fst (explorerValidators f cache u coin cp))"
proof -
  show "snd (explorerValidators f cache u coin cp) = fresh_answer f u coin cp"
  proof (cases "map_of cache (cache_key u coin cp)")
    case None
    then show ?thesis by (simp add: explorerValidators_def Let_def fresh_answer_def split: sum.split)
  next
    case (Some v)
    from cache_faithfulD [OF assms(1) map_of_SomeD [OF Some] assms(2)] Some show ?thesis
      by (simp add: explorerValidators_def Let_def)
  qed
  show "cache_faithful f (fst (explorerValidators f cache u coin cp))"
    using assms cache_faithful_put [OF assms] cache_faithful_delete [OF assms(1)]
    by (simp add: explorerValidators_def Let_def fresh_answer_def split: option.split sum.split)
qed

section \<open>Verdicts of the ladder\<close>

lemma quorum_of_valid [simp]: "qr_valid (quorum_of v) = cv_valid v"
  by (simp add: quorum_of_def)

lemma not_reached_valid [simp]: "\<not> qr_valid not_reached"
  by (simp add: not_reached_def)

text \<open>The walk of proven sets from the pinned checkpoint ends on the served one.\<close>

definition walks_to :: "world \<Rightarrow> pinned_entry \<Rightarrow> checkpoint \<Rightarrow> bool" where
  "walks_to w entry cp \<longleftrightarrow>
    (\<exists>pcp cs. pe_checkpoint entry = Some pcp \<and> reaches_served (last (pcp # cs)) cp \<and>
       num_lt (js_Number (cp_block_index pcp)) (js_Number (cp_block_index cp)) \<and>
       trust_chain (adoptable (w_hash w) (w_round w) (w_ed w) (w_parse w) (w_set w)) 0 pcp cs)"

lemma rollForward_valid:
  assumes "rollForward w opts entry cp = Inr q" "qr_valid q"
  shows "walks_to w entry cp"
proof -
  obtain pcp ff where f: "pe_checkpoint entry = Some pcp"
    "num_lt (js_Number (cp_block_index pcp)) (js_Number (cp_block_index cp))"
    "followForward (w_hash w) (w_round w) (w_ed w) (w_parse w) (w_set w) (w_range w) (vo_coin opts) JUndef (Some pcp)
       (js_num_val (cp_block_index cp)) = Inr ff"
    "reaches_served (fr_trusted ff) cp"
    using assms by (auto simp: rollForward_def split: option.splits if_splits sum.splits)
  from followForward_chain [OF f(3)] f show ?thesis unfolding walks_to_def by metis
qed

lemma resolveQuorum_pinned:
  assumes "vo_validators opts = None" "pinnedEntry opts None = Some entry"
  shows "resolveQuorum w cache opts cp =
    (cache, case usable_set entry of
       Some sn \<Rightarrow> if cv_valid (check_cp w cp sn) then Inr (quorum_of (check_cp w cp sn)) else rollForward w opts entry cp
     | None \<Rightarrow> rollForward w opts entry cp)"
  using assms by (simp add: resolveQuorum_def split: option.split)

lemma resolveQuorum_caches:
  "fst (resolveQuorum w cache opts cp) = cache \<or>
   fst (resolveQuorum w cache opts cp) = fst (explorerValidators (w_verify w) cache (vo_explorerUrl opts) (vo_coin opts) cp)"
  by (auto simp: resolveQuorum_def verifyQuorum_def split: option.split prod.split)

section \<open>Properties\<close>


text \<open>
  The cache of explorer sets is invisible and bounded. However many checkpoints are resolved, it keeps at most
  64 distinct keys; and for a server that answers a URL always alike, a resolution whose key parts hold no
  separator returns exactly what a fresh request would, and leaves the cache faithful again.
\<close>

theorem validator_cache_transparent:
  assumes "cache_ok_sets cache" "cache_faithful f cache" "plain_question u coin cp"
  shows "snd (explorerValidators f cache u coin cp) = fresh_answer f u coin cp \<and>
    cache_faithful f (fst (explorerValidators f cache u coin cp)) \<and>
    cache_ok_sets (fst (explorerValidators f cache u coin cp))"
  using explorerValidators_transparent [OF assms(2,3)] explorerValidators_ok [OF assms(1)] by blast

subsection \<open>Instances\<close>

definition wit_opts :: call_opts where
  "wit_opts = \<lparr>vo_explorerUrl = JStr ''https://e/'', vo_coin = JStr ''tbtc'', vo_address = JStr ''bc1q'',
     vo_tick = JStr ''XCP'', vo_actionIndex = JInt 1, vo_atHeight = JUndef, vo_validators = None, vo_trusted = None,
     vo_pinnedResolver = None\<rparr>"

definition wit_world :: world where
  "wit_world = \<lparr>w_hash = pad_digest, w_round = (\<lambda>q. q), w_ed = (\<lambda>k m s. True), w_parse = (\<lambda>s. None),
     w_verify = (\<lambda>u. NoReply), w_set = (\<lambda>n h. None), w_range = (\<lambda>a b. None)\<rparr>"

lemma wit_pinned:
  "\<exists>entry. pinnedEntry wit_opts None = Some entry \<and>
     usable_set entry = Some \<lparr>sn_rows = testnet_validators, sn_truncated = False\<rparr>"
proof -
  have "ascii_upper ''tbtc'' = ''TBTC''" by code_simp
  then show ?thesis
    by (simp add: pinnedEntry_def wit_opts_def getPinnedCheckpoint_def is_nullish_def PINNED_def pinned_testnet_def
        usable_set_def testnet_validators_def)
qed


theorem validator_cache_transparent_witness:
  "snd (explorerValidators (\<lambda>u. Reply 200 (Body \<lparr>vb_validators = JArr [], vb_archive_validators = JNull\<rparr>)) []
      (JStr ''https://e/'') (JStr ''BTC'') (demo_cp ''regtest'')) =
   fresh_answer (\<lambda>u. Reply 200 (Body \<lparr>vb_validators = JArr [], vb_archive_validators = JNull\<rparr>))
      (JStr ''https://e/'') (JStr ''BTC'') (demo_cp ''regtest'')"
proof -
  have "CHR ''|'' \<notin> set (baseUrl (JStr ''https://e/''))" "CHR ''|'' \<notin> set (js_string (JInt 7))" by code_simp+
  then have "plain_question (JStr ''https://e/'') (JStr ''BTC'') (demo_cp ''regtest'')"
    by (simp add: plain_question_def demo_cp_def)
  moreover have "cache_ok_sets []" "cache_faithful f []" for f
    by (simp_all add: cache_ok_sets_def cache_faithful_def)
  ultimately show ?thesis using validator_cache_transparent by blast
qed

end
