(* ===== verification/Online.thy ===== *)
theory Online
  imports QuorumResolution BlockProof
begin

text \<open>
  The light client's network calls: \<open>src/protocol/light_client/online_verify.js\<close>
  (\<open>verifyBalance\<close>, \<open>verifyLockedBalance\<close>, \<open>verifyAction\<close>). Each asks the explorer for a proof and a
  checkpoint, lets the quorum ladder decide about the checkpoint, binds the proof to checkpoint and request,
  and leaves the decision to the local proof check.

  An answer that is \<open>null\<close> is a body without fields. The set cache is passed along and returned.
\<close>

section \<open>Bodies and results\<close>

record online_proof = balance_proof +
  np_chain :: jsval
  np_network :: jsval

record online_body =
  nb_proof :: "online_proof option"
  nb_checkpoint :: "checkpoint option"
  nb_code :: jsval
  nb_error :: jsval

record action_body =
  ab_proof :: "action_proof option"
  ab_height :: jsval
  ab_checkpoint :: "checkpoint option"

text \<open>\<open>height\<close>, \<open>checkpoint\<close>, \<open>quorum\<close> and \<open>weighted\<close> of a result, which the verdict is extended with.\<close>

record online_base =
  ob_height :: "jsnum option"
  ob_checkpoint :: "checkpoint option"
  ob_quorum :: "nat option"
  ob_weighted :: "bool option"

record online_result = online_base +
  on_verified :: bool
  on_amount :: "string option"
  on_reason :: "string option"

definition base_of :: "checkpoint \<Rightarrow> quorum_result \<Rightarrow> online_base" where
  "base_of cp q =
     \<lparr>ob_height = Some (js_Number (cp_block_index cp)), ob_checkpoint = Some cp, ob_quorum = qr_quorum q,
      ob_weighted = qr_weighted q\<rparr>"

definition on_result :: "online_base \<Rightarrow> bool \<Rightarrow> string option \<Rightarrow> string option \<Rightarrow> online_result" where
  "on_result b v a r =
     \<lparr>ob_height = ob_height b, ob_checkpoint = ob_checkpoint b, ob_quorum = ob_quorum b, ob_weighted = ob_weighted b,
      on_verified = v, on_amount = a, on_reason = r\<rparr>"

abbreviation on_refused :: "online_base \<Rightarrow> string \<Rightarrow> online_result" where
  "on_refused b r \<equiv> on_result b False None (Some r)"

definition has_height :: "jsval \<Rightarrow> bool" where
  "has_height h \<longleftrightarrow> \<not> is_nullish h \<and> h \<noteq> JStr []"

definition trusted_quorum :: quorum_result where
  "trusted_quorum = \<lparr>qr_valid = True, qr_quorum = None, qr_weighted = None\<rparr>"

text \<open>The result for a proof that is not at the height of the caller's own checkpoint.\<close>

definition height_refusal :: "jsval \<Rightarrow> checkpoint \<Rightarrow> online_result" where
  "height_refusal h cp =
     on_refused \<lparr>ob_height = Some (js_Number h), ob_checkpoint = Some cp, ob_quorum = None, ob_weighted = None\<rparr>
       ''PROOF_HEIGHT_MISMATCH''"

text \<open>
  The trust source: the caller's checkpoint if the proof is for its height, the served one otherwise.
  \<open>Inl\<close> of the inner sum is a result to return at once.
\<close>

definition resolveBalanceCheckpoint ::
    "world \<Rightarrow> set_cache \<Rightarrow> call_opts \<Rightarrow> checkpoint option \<Rightarrow> jsval \<Rightarrow>
     set_cache \<times> (fetch_error + (online_result + checkpoint \<times> quorum_result))" where
  "resolveBalanceCheckpoint w cache opts served height =
     (case vo_trusted opts of
        Some cp \<Rightarrow>
          (cache,
           if \<not> sameWireIndex height (cp_block_index cp) then Inr (Inl (height_refusal height cp))
           else Inr (Inr (cp, trusted_quorum)))
      | None \<Rightarrow>
          (case served of
             None \<Rightarrow> (cache, Inl NoCheckpoint)
           | Some cp \<Rightarrow>
               (case resolveQuorum w cache opts cp of
                  (cache', r) \<Rightarrow> (cache', try_bind r (\<lambda>q. Inr (Inr (cp, q)))))))"

section \<open>Balances\<close>

definition proof_key_hex :: "online_proof \<Rightarrow> string option" where
  "proof_key_hex p = map_option (\<lambda>s. lowerHex (sw_key s)) (bp_smt p)"

definition requested :: "call_opts \<Rightarrow> (string \<times> jsval) list" where
  "requested opts =
     [(''address'', JStr (js_string (vo_address opts))), (''tick'', JStr (js_string (vo_tick opts)))]"

text \<open>
  The checks of the two balance calls once the checkpoint is resolved. They differ in the key, the name of the
  query mismatch and the final verifier, given the trusted root.
\<close>

definition judge_balance ::
    "call_opts \<Rightarrow> online_proof \<Rightarrow> checkpoint \<Rightarrow> quorum_result \<Rightarrow> (merkle_error + bytes) \<Rightarrow> string \<Rightarrow>
     (string \<Rightarrow> verdict) \<Rightarrow> fetch_error + online_result" where
  "judge_balance opts p cp q expectedKey mismatch verify =
     (let base = base_of cp q; trusted = lowerHex (cp_state_root cp) in
      if \<not> qr_valid q then Inr (on_refused base ''CHECKPOINT_QUORUM_FAILED'')
      else if \<not> sameWireIndex (bp_height p) (cp_block_index cp)
      then Inr (on_refused base ''PROOF_HEIGHT_MISMATCH'')
      else if has_height (vo_atHeight opts) \<and>
              num_lt (js_Number (cp_block_index cp)) (js_Number (vo_atHeight opts))
      then Inr (on_refused base ''CHECKPOINT_BELOW_ATHEIGHT'')
      else if trusted = [] then Inr (on_refused base ''CHECKPOINT_PRE_COMMITMENT'')
      else if lowerHex (np_chain p) \<noteq> lowerHex (cp_chain cp) \<or> lowerHex (np_network p) \<noteq> lowerHex (cp_network cp)
      then Inr (on_refused base ''PROOF_CHECKPOINT_CHAIN_MISMATCH'')
      else
        (case expectedKey of
           Inl e \<Rightarrow> Inl (BadKey e)
         | Inr k \<Rightarrow>
             if proof_key_hex p \<noteq> Some (hex_encode k) then Inr (on_refused base mismatch)
             else
               (let v = verify trusted in
                Inr (on_result base (verified v) (if verified v then amount v else None) (reason v)))))"

definition verifyBalance ::
    "world \<Rightarrow> (string \<Rightarrow> online_body http_reply) \<Rightarrow> set_cache \<Rightarrow> call_opts \<Rightarrow>
     set_cache \<times> (fetch_error + online_result)" where
  "verifyBalance w f cache opts =
     (case fetchJson f (proof_url ''balance'' (vo_explorerUrl opts) (vo_coin opts) (vo_address opts) (vo_tick opts)
                          (vo_atHeight opts)) of
        Inl e \<Rightarrow> (cache, Inl e)
      | Inr body \<Rightarrow>
          (case nb_proof body of
             None \<Rightarrow> (cache, Inl NoProof)
           | Some p \<Rightarrow>
               (case resolveBalanceCheckpoint w cache opts (nb_checkpoint body) (bp_height p) of
                  (cache', Inl e) \<Rightarrow> (cache', Inl e)
                | (cache', Inr (Inl r)) \<Rightarrow> (cache', Inr r)
                | (cache', Inr (Inr (cp, q))) \<Rightarrow>
                    (cache',
                     judge_balance opts p cp q
                       (balanceKey (w_hash w) (cp_chain cp) (cp_network cp)
                          (JStr (js_string (vo_address opts))) (JStr (js_string (vo_tick opts))))
                       ''BALANCE_QUERY_MISMATCH''
                       (\<lambda>root. verifyBalanceProof (w_hash w) (Some (balance_proof.truncate p)) root
                          (cp_chain cp) (cp_network cp) (Some (requested opts)))))))"

definition locked_refusal :: "string + online_body \<Rightarrow> string option" where
  "locked_refusal reply =
     (case reply of
        Inl code \<Rightarrow> Some code
      | Inr body \<Rightarrow>
          if nb_proof body \<noteq> None then None
          else (case nonEmpty (nb_code body) of Some c \<Rightarrow> Some c | None \<Rightarrow> nonEmpty (nb_error body)))"

definition no_base :: online_base where
  "no_base = \<lparr>ob_height = None, ob_checkpoint = None, ob_quorum = None, ob_weighted = None\<rparr>"

definition verifyLockedBalance ::
    "world \<Rightarrow> (string \<Rightarrow> online_body http_reply) \<Rightarrow> set_cache \<Rightarrow> call_opts \<Rightarrow>
     set_cache \<times> (fetch_error + online_result)" where
  "verifyLockedBalance w f cache opts =
     (case fetchProofReply nb_code f
             (proof_url ''locked-balance'' (vo_explorerUrl opts) (vo_coin opts) (vo_address opts) (vo_tick opts)
                (vo_atHeight opts)) of
        Inl e \<Rightarrow> (cache, Inl e)
      | Inr reply \<Rightarrow>
          (case locked_refusal reply of
             Some code \<Rightarrow> (cache, Inr (on_refused no_base code))
           | None \<Rightarrow>
               (case nb_proof (projr reply) of
                  None \<Rightarrow> (cache, Inl NoProof)
                | Some p \<Rightarrow>
                    (case resolveBalanceCheckpoint w cache opts (nb_checkpoint (projr reply)) (bp_height p) of
                       (cache', Inl e) \<Rightarrow> (cache', Inl e)
                     | (cache', Inr (Inl r)) \<Rightarrow> (cache', Inr r)
                     | (cache', Inr (Inr (cp, q))) \<Rightarrow>
                         (cache',
                          judge_balance opts p cp q
                            (escrowKey (w_hash w) (cp_chain cp) (cp_network cp)
                               (JStr (js_string (vo_address opts))) (JStr (js_string (vo_tick opts))))
                            ''LOCKED_QUERY_MISMATCH''
                            (\<lambda>root. verifyLockedBalanceProof (w_hash w) (Some (balance_proof.truncate p)) root
                               (cp_chain cp) (cp_network cp) (Some (requested opts)) (cp_block_index cp)))))))"

section \<open>Actions\<close>

record action_result = online_result +
  on_action :: jsval
  on_action_index :: jsnum
  on_tx_index :: "jsnum option"

definition act_result :: "action_proof \<Rightarrow> online_result \<Rightarrow> action_result" where
  "act_result p r =
     online_result.extend r
       (action_result.fields (ap_action p) (js_Number (ap_action_index p)) (nullableNumber (ap_tx_index p)))"

definition judge_action ::
    "world \<Rightarrow> call_opts \<Rightarrow> action_proof \<Rightarrow> jsval \<Rightarrow> checkpoint \<Rightarrow> quorum_result \<Rightarrow> online_result" where
  "judge_action w opts p height cp q =
     (let base = base_of cp q; trusted = lowerHex (cp_block_merkle_root cp) in
      if \<not> qr_valid q then on_refused base ''CHECKPOINT_QUORUM_FAILED''
      else if \<not> sameWireIndex height (cp_block_index cp) then on_refused base ''PROOF_HEIGHT_MISMATCH''
      else if trusted = [] then on_refused base ''CHECKPOINT_PRE_COMMITMENT''
      else if \<not> sameWireIndex (ap_action_index p) (vo_actionIndex opts) then on_refused base ''ACTION_INDEX_MISMATCH''
      else
        (case verifyActionProof (w_hash w) (Some p) trusted of
           Inl r \<Rightarrow> on_refused base r
         | Inr _ \<Rightarrow> on_result base True None None))"

definition verifyAction ::
    "world \<Rightarrow> (string \<Rightarrow> action_body http_reply) \<Rightarrow> set_cache \<Rightarrow> call_opts \<Rightarrow>
     set_cache \<times> (fetch_error + action_result)" where
  "verifyAction w f cache opts =
     (case fetchJson f (action_url (vo_explorerUrl opts) (vo_coin opts) (vo_actionIndex opts)) of
        Inl e \<Rightarrow> (cache, Inl e)
      | Inr body \<Rightarrow>
          (case ab_proof body of
             None \<Rightarrow> (cache, Inl NoProof)
           | Some p \<Rightarrow>
               (case resolveBalanceCheckpoint w cache opts (ab_checkpoint body) (ab_height body) of
                  (cache', Inl e) \<Rightarrow> (cache', Inl e)
                | (cache', Inr (Inl r)) \<Rightarrow> (cache', Inr (act_result p r))
                | (cache', Inr (Inr (cp, q))) \<Rightarrow>
                    (cache', Inr (act_result p (judge_action w opts p (ab_height body) cp q))))))"
section \<open>What a verified result rests on\<close>

text \<open>The checkpoint is the caller's own, or one the quorum ladder passes.\<close>

definition trusted_by :: "world \<Rightarrow> set_cache \<Rightarrow> call_opts \<Rightarrow> checkpoint \<Rightarrow> bool" where
  "trusted_by w cache opts cp \<longleftrightarrow>
     vo_trusted opts = Some cp \<or>
     vo_trusted opts = None \<and> (\<exists>q. snd (resolveQuorum w cache opts cp) = Inr q \<and> qr_valid q)"

text \<open>The request's lower bound.\<close>

definition high_enough :: "call_opts \<Rightarrow> checkpoint \<Rightarrow> bool" where
  "high_enough opts cp \<longleftrightarrow>
     \<not> (has_height (vo_atHeight opts) \<and> num_lt (js_Number (cp_block_index cp)) (js_Number (vo_atHeight opts)))"

lemma on_result_fields [simp]:
  "on_verified (on_result b v a r) = v" "on_amount (on_result b v a r) = a"
  "ob_checkpoint (on_result b v a r) = ob_checkpoint b" "on_reason (on_result b v a r) = r"
  "ob_checkpoint (base_of cp q) = Some cp"
  by (simp_all add: on_result_def base_of_def)

lemma height_refusal_unverified [simp]: "\<not> on_verified (height_refusal h cp)"
  by (simp add: height_refusal_def)

lemma resolved_trusted:
  assumes "resolveBalanceCheckpoint w cache opts served h = (cache', Inr (Inr (cp, q)))" "qr_valid q"
  shows "trusted_by w cache opts cp \<and> cache' = fst (resolveBalanceCheckpoint w cache opts served h)"
  using assms
  by (auto simp: resolveBalanceCheckpoint_def trusted_by_def try_bind_Inr split: option.splits if_splits prod.splits)

lemma resolved_refusal:
  "resolveBalanceCheckpoint w cache opts served h = (cache', Inr (Inl r)) \<Longrightarrow> \<not> on_verified r"
  by (auto simp: resolveBalanceCheckpoint_def try_bind_Inr split: option.splits if_splits prod.splits)

lemma judge_balance_verified:
  assumes "judge_balance opts p cp q ek mismatch vf = Inr r" "on_verified r"
  shows "\<exists>k. ek = Inr k \<and> qr_valid q \<and> sameWireIndex (bp_height p) (cp_block_index cp) \<and> high_enough opts cp \<and>
    proof_key_hex p = Some (hex_encode k) \<and> verified (vf (lowerHex (cp_state_root cp))) \<and>
    on_amount r = amount (vf (lowerHex (cp_state_root cp))) \<and> ob_checkpoint r = Some cp"
  using assms by (auto simp: judge_balance_def high_enough_def Let_def split: if_splits sum.splits)

text \<open>The address a balance is asked at.\<close>

definition balance_url :: "call_opts \<Rightarrow> string" where
  "balance_url opts =
     proof_url ''balance'' (vo_explorerUrl opts) (vo_coin opts) (vo_address opts) (vo_tick opts) (vo_atHeight opts)"

lemma verifyBalance_verified:
  assumes "snd (verifyBalance w f cache opts) = Inr res" "on_verified res"
  obtains body p cp where "fetchJson f (balance_url opts) = Inr body" "nb_proof body = Some p"
    "trusted_by w cache opts cp" "ob_checkpoint res = Some cp" "high_enough opts cp"
    "\<exists>k. balanceKey (w_hash w) (cp_chain cp) (cp_network cp) (JStr (js_string (vo_address opts)))
       (JStr (js_string (vo_tick opts))) = Inr k \<and> proof_key_hex p = Some (hex_encode k)"
    "verified (verifyBalanceProof (w_hash w) (Some (balance_proof.truncate p)) (lowerHex (cp_state_root cp))
       (cp_chain cp) (cp_network cp) (Some (requested opts)))"
    "on_amount res = amount (verifyBalanceProof (w_hash w) (Some (balance_proof.truncate p)) (lowerHex (cp_state_root cp))
       (cp_chain cp) (cp_network cp) (Some (requested opts)))"
proof -
  obtain body p where b: "fetchJson f (balance_url opts) = Inr body" "nb_proof body = Some p"
    using assms(1) by (auto simp: verifyBalance_def balance_url_def split: sum.splits option.splits)
  obtain cache' x where x: "resolveBalanceCheckpoint w cache opts (nb_checkpoint body) (bp_height p) = (cache', x)"
    by (cases "resolveBalanceCheckpoint w cache opts (nb_checkpoint body) (bp_height p)")
  obtain cp q where c: "x = Inr (Inr (cp, q))"
    using assms b x resolved_refusal [of w cache opts _ _ cache']
    by (auto simp: verifyBalance_def balance_url_def split: sum.splits)
  from assms(1) b x c have j: "judge_balance opts p cp q
      (balanceKey (w_hash w) (cp_chain cp) (cp_network cp) (JStr (js_string (vo_address opts))) (JStr (js_string (vo_tick opts))))
      ''BALANCE_QUERY_MISMATCH''
      (\<lambda>root. verifyBalanceProof (w_hash w) (Some (balance_proof.truncate p)) root (cp_chain cp) (cp_network cp)
         (Some (requested opts))) = Inr res"
    by (simp add: verifyBalance_def balance_url_def)
  show thesis
    using that b judge_balance_verified [OF j assms(2)] resolved_trusted [OF x [unfolded c]] by blast
qed

lemma verifyLockedBalance_verified:
  assumes "snd (verifyLockedBalance w f cache opts) = Inr res" "on_verified res"
  obtains p cp where "\<exists>body. (\<exists>u s. f u = Reply s (Body body)) \<and> nb_proof body = Some p"
    "trusted_by w cache opts cp" "ob_checkpoint res = Some cp" "high_enough opts cp"
    "\<exists>k. escrowKey (w_hash w) (cp_chain cp) (cp_network cp) (JStr (js_string (vo_address opts)))
       (JStr (js_string (vo_tick opts))) = Inr k \<and> proof_key_hex p = Some (hex_encode k)"
    "sameWireIndex (bp_height p) (cp_block_index cp)"
    "verified (verifyLockedBalanceProof (w_hash w) (Some (balance_proof.truncate p)) (lowerHex (cp_state_root cp))
       (cp_chain cp) (cp_network cp) (Some (requested opts)) (cp_block_index cp))"
    "on_amount res = amount (verifyLockedBalanceProof (w_hash w) (Some (balance_proof.truncate p))
       (lowerHex (cp_state_root cp)) (cp_chain cp) (cp_network cp) (Some (requested opts)) (cp_block_index cp))"
proof -
  let ?u = "proof_url ''locked-balance'' (vo_explorerUrl opts) (vo_coin opts) (vo_address opts) (vo_tick opts)
    (vo_atHeight opts)"
  obtain reply where reply: "fetchProofReply nb_code f ?u = Inr reply" "locked_refusal reply = None"
    using assms by (auto simp: verifyLockedBalance_def split: sum.splits option.splits)
  then obtain body where body: "reply = Inr body" by (cases reply) (auto simp: locked_refusal_def)
  obtain p where p: "nb_proof body = Some p"
    using assms(1) reply body by (auto simp: verifyLockedBalance_def split: option.splits)
  obtain cache' x where x: "resolveBalanceCheckpoint w cache opts (nb_checkpoint body) (bp_height p) = (cache', x)"
    by (cases "resolveBalanceCheckpoint w cache opts (nb_checkpoint body) (bp_height p)")
  obtain cp q where c: "x = Inr (Inr (cp, q))"
    using assms reply body p x resolved_refusal [of w cache opts _ _ cache']
    by (auto simp: verifyLockedBalance_def split: sum.splits)
  from assms(1) reply body p x c have j: "judge_balance opts p cp q
      (escrowKey (w_hash w) (cp_chain cp) (cp_network cp) (JStr (js_string (vo_address opts))) (JStr (js_string (vo_tick opts))))
      ''LOCKED_QUERY_MISMATCH''
      (\<lambda>root. verifyLockedBalanceProof (w_hash w) (Some (balance_proof.truncate p)) root (cp_chain cp) (cp_network cp)
         (Some (requested opts)) (cp_block_index cp)) = Inr res"
    by (simp add: verifyLockedBalance_def)
  have "\<exists>body. (\<exists>u s. f u = Reply s (Body body)) \<and> nb_proof body = Some p"
    using reply(1) p body by (auto simp: fetchProofReply_def Let_def split: http_reply.splits if_splits body.splits option.splits)
  then show thesis
    using that judge_balance_verified [OF j assms(2)] resolved_trusted [OF x [unfolded c]] by blast
qed

lemma truncated_fields [simp]:
  "bp_smt (balance_proof.truncate p) = bp_smt p" "bp_address (balance_proof.truncate p) = bp_address p"
  "bp_tick (balance_proof.truncate p) = bp_tick p" "bp_height (balance_proof.truncate p) = bp_height p"
  by (simp_all add: balance_proof.truncate_def)

text \<open>An accepted leaf is under the key its proof names.\<close>

lemma checkBalanceLeaf_key: "checkBalanceLeaf H p smt path r k = Inr v \<Longrightarrow> verified v \<Longrightarrow> lowerHex (sw_key smt) = hex_encode k"
  by (auto simp: checkBalanceLeaf_def split: if_splits)

lemma checkBalanceLeaf_amount:
  assumes "checkBalanceLeaf H p smt path r k = Inr v" "verified v"
  obtains amt where "amount v = Some amt"
proof -
  have "\<exists>amt. v = accepted amt"
    using assms by (auto simp: checkBalanceLeaf_def try_bind_Inr unverified_def split: if_splits)
  then show thesis using that by (auto simp: accepted_def)
qed

lemma balance_key_named:
  assumes "verified (verifyBalanceProof H (Some p) rt chain network expected)"
    and "map_option (\<lambda>s. lowerHex (sw_key s)) (bp_smt p) = Some (hex_encode k)"
  shows "balanceKey H chain network (bp_address p) (bp_tick p) = Inr k"
  using verifyBalanceProof_accepts [OF assms(1)] checkBalanceLeaf_key assms(2) by fastforce

lemma locked_key_named:
  assumes "verified (verifyLockedBalanceProof H (Some p) rt chain network expected height)"
    and "map_option (\<lambda>s. lowerHex (sw_key s)) (bp_smt p) = Some (hex_encode k)"
  shows "escrowKey H chain network (bp_address p) (bp_tick p) = Inr k"
  using verifyLockedBalanceProof_accepts [OF assms(1)] checkBalanceLeaf_key assms(2) by fastforce

text \<open>Every leaf the server sends is a text or absent.\<close>

definition text_leaves :: "(string \<Rightarrow> online_body http_reply) \<Rightarrow> bool" where
  "text_leaves f \<longleftrightarrow> (\<forall>u s body p. f u = Reply s (Body body) \<longrightarrow> nb_proof body = Some p \<longrightarrow> leaf_is_text (bp_smt p))"

lemma act_result_fields [simp]:
  "on_verified (act_result p r) = on_verified r" "ob_checkpoint (act_result p r) = ob_checkpoint r"
  "on_action (act_result p r) = ap_action p" "on_action_index (act_result p r) = js_Number (ap_action_index p)"
  "on_tx_index (act_result p r) = nullableNumber (ap_tx_index p)"
  by (simp_all add: act_result_def online_result.defs action_result.defs)

lemma judge_action_verified:
  assumes "on_verified (judge_action w opts p h cp q)"
  shows "qr_valid q \<and> sameWireIndex h (cp_block_index cp) \<and> sameWireIndex (ap_action_index p) (vo_actionIndex opts) \<and>
    verifyActionProof (w_hash w) (Some p) (lowerHex (cp_block_merkle_root cp)) = Inr () \<and>
    ob_checkpoint (judge_action w opts p h cp q) = Some cp"
  using assms by (auto simp: judge_action_def Let_def split: if_splits sum.splits)

lemma verifyAction_verified:
  assumes "snd (verifyAction w f cache opts) = Inr res" "on_verified res"
  obtains body p cp where "fetchJson f (action_url (vo_explorerUrl opts) (vo_coin opts) (vo_actionIndex opts)) = Inr body"
    "ab_proof body = Some p" "trusted_by w cache opts cp" "ob_checkpoint res = Some cp"
    "sameWireIndex (ap_action_index p) (vo_actionIndex opts)"
    "verifyActionProof (w_hash w) (Some p) (lowerHex (cp_block_merkle_root cp)) = Inr ()"
    "on_action res = ap_action p" "on_action_index res = js_Number (ap_action_index p)"
    "on_tx_index res = nullableNumber (ap_tx_index p)"
proof -
  obtain body p where b: "fetchJson f (action_url (vo_explorerUrl opts) (vo_coin opts) (vo_actionIndex opts)) = Inr body"
    "ab_proof body = Some p"
    using assms(1) by (auto simp: verifyAction_def split: sum.splits option.splits)
  obtain cache' x where x: "resolveBalanceCheckpoint w cache opts (ab_checkpoint body) (ab_height body) = (cache', x)"
    by (cases "resolveBalanceCheckpoint w cache opts (ab_checkpoint body) (ab_height body)")
  obtain cp q where c: "x = Inr (Inr (cp, q))"
    using assms b x resolved_refusal [of w cache opts _ _ cache']
    by (auto simp: verifyAction_def split: sum.splits)
  have res: "res = act_result p (judge_action w opts p (ab_height body) cp q)"
    using assms(1) b x c by (simp add: verifyAction_def)
  note j = judge_action_verified [of w opts p "ab_height body" cp q, OF assms(2) [unfolded res act_result_fields]]
  then show thesis
    using res b resolved_trusted [OF x [unfolded c]] by (intro that [of body p cp]) simp_all
qed

text \<open>A root of 32 bytes has a text.\<close>

lemma state_root_text:
  assumes "\<forall>x. length (H x) = 32" "stateRoot H (sub_roots H st) = Some r"
  shows "hex_encode r \<noteq> []"
proof -
  have "\<exists>x. r = H x" using assms(2) stateRoot_tree [of H st] by (auto simp: state_tree_def Let_def)
  then have "length r = 32" using assms(1) by blast
  then show ?thesis using length_hex_encode [of r] by force
qed

lemma balance_proof_key:
  "verified (verifyBalanceProof H (Some p) rt chain network expected) \<Longrightarrow>
   balanceKey H chain network (bp_address p) (bp_tick p) = Inr k \<Longrightarrow>
   map_option (\<lambda>s. lowerHex (sw_key s)) (bp_smt p) = Some (hex_encode k)"
  using verifyBalanceProof_accepts [of H p rt chain network expected] checkBalanceLeaf_key by fastforce

text \<open>The body an honest server sends: the committed proof beside the checkpoint.\<close>

definition honest_body :: "balance_proof \<Rightarrow> checkpoint \<Rightarrow> online_body" where
  "honest_body p cp =
     \<lparr>nb_proof = Some (balance_proof.extend p (online_proof.fields (cp_chain cp) (cp_network cp))),
      nb_checkpoint = Some cp, nb_code = JUndef, nb_error = JUndef\<rparr>"

definition amount_or_zero :: "string option \<Rightarrow> string" where
  "amount_or_zero am = (case am of None \<Rightarrow> zero_amount | Some a \<Rightarrow> a)"

lemma judge_balance_accepts:
  assumes "qr_valid q" "sameWireIndex (bp_height p) (cp_block_index cp)" "high_enough opts cp"
    and "lowerHex (cp_state_root cp) \<noteq> []" "np_chain p = cp_chain cp" "np_network p = cp_network cp"
    and "ek = Inr k" "proof_key_hex p = Some (hex_encode k)" "vf (lowerHex (cp_state_root cp)) = accepted a"
  shows "judge_balance opts p cp q ek mismatch vf = Inr (on_result (base_of cp q) True (Some a) None)"
  using assms by (auto simp: judge_balance_def high_enough_def Let_def accepted_def)

lemma extended_fields [simp]:
  "balance_proof.truncate (balance_proof.extend p (online_proof.fields c n)) = balance_proof.truncate p"
  "np_chain (balance_proof.extend p (online_proof.fields c n)) = c"
  "np_network (balance_proof.extend p (online_proof.fields c n)) = n"
  "bp_smt (balance_proof.extend p (online_proof.fields c n)) = bp_smt p"
  "bp_height (balance_proof.extend p (online_proof.fields c n)) = bp_height p"
  by (simp_all add: balance_proof.defs online_proof.defs)

lemma truncate_id [simp]: "balance_proof.truncate p = (p :: balance_proof)"
  by (simp add: balance_proof.defs)

text \<open>The proof of the asked balance that a server holding the committed state builds.\<close>

definition honest_proof ::
    "world \<Rightarrow> committed_state \<Rightarrow> call_opts \<Rightarrow> checkpoint \<Rightarrow> string option \<Rightarrow> smt_proof \<Rightarrow> int \<times> string list \<Rightarrow> balance_proof" where
  "honest_proof w st opts cp am sp path =
     served_balance (w_hash w) st (js_string (vo_address opts)) (js_string (vo_tick opts)) (amount_or_zero am)
       (cp_block_index cp) sp path"

lemma honest_proof_text: "leaf_is_text (bp_smt (honest_proof w st opts cp am sp path))"
  by (auto simp: honest_proof_def served_balance_def leaf_is_text_def is_nullish_def split: option.splits)

lemma honest_reply_verified:
  assumes "\<forall>x. length (w_hash w x) = 32" "state_ok st" "stateRoot (w_hash w) (sub_roots (w_hash w) st) = Some r"
    and "lowerHex (cp_state_root cp) = hex_encode r" "toWireIndex (cp_block_index cp) \<noteq> None" "high_enough opts cp"
    and "vo_trusted opts = None" "snd (resolveQuorum w cache opts cp) = Inr q" "qr_valid q"
    and "balanceKey (w_hash w) (cp_chain cp) (cp_network cp) (JStr (js_string (vo_address opts)))
      (JStr (js_string (vo_tick opts))) = Inr k"
    and "map_of (balances st) k = map_option utf8 am" "canonicalAmount (JStr (amount_or_zero am)) = Inr (amount_or_zero am)"
    and "smt_prove (w_hash w) (table_smt (w_hash w) (balances st)) (Buf k) = Inr sp"
    and "stateRootProof (w_hash w) (sub_roots (w_hash w) st) ''balances_root'' = Some (Inr path)"
  shows "snd (verifyBalance w (\<lambda>u. Reply 200 (Body (honest_body (honest_proof w st opts cp am sp path) cp))) cache opts) =
    Inr (on_result (base_of cp q) True (Some (amount_or_zero am)) None)"
proof -
  let ?a = "js_string (vo_address opts)" and ?t = "js_string (vo_tick opts)"
  let ?p = "honest_proof w st opts cp am sp path"
  have s: "verifyBalanceProof (w_hash w) (Some ?p) (hex_encode r) (cp_chain cp) (cp_network cp) (Some (requested opts))
      = accepted (amount_or_zero am)"
    unfolding requested_def honest_proof_def
    by (rule served_balance_accepted [OF assms(1,2,10,11) _ _ assms(13,14,3)])
       (use assms(12) in \<open>simp_all add: amount_or_zero_def\<close>)
  have "map_option (\<lambda>s. lowerHex (sw_key s)) (bp_smt ?p) = Some (hex_encode k)"
    by (rule balance_proof_key [of "w_hash w" ?p "hex_encode r" "cp_chain cp" "cp_network cp" "Some (requested opts)"])
       (use s assms(10) in \<open>simp_all add: accepted_def honest_proof_def served_balance_def\<close>)
  then have "judge_balance opts (balance_proof.extend ?p (online_proof.fields (cp_chain cp) (cp_network cp))) cp q
      (balanceKey (w_hash w) (cp_chain cp) (cp_network cp) (JStr ?a) (JStr ?t)) ''BALANCE_QUERY_MISMATCH''
      (\<lambda>rt. verifyBalanceProof (w_hash w) (Some ?p) rt (cp_chain cp) (cp_network cp) (Some (requested opts))) =
      Inr (on_result (base_of cp q) True (Some (amount_or_zero am)) None)"
    using s assms(4-6,9,10) state_root_text [OF assms(1,3)]
    by (intro judge_balance_accepts [of _ _ _ _ _ k])
       (auto simp: proof_key_hex_def sameWireIndex_iff honest_proof_def served_balance_def)
  moreover obtain c where "resolveQuorum w cache opts cp = (c, Inr q)"
    using assms(8) by (cases "resolveQuorum w cache opts cp") simp
  ultimately show ?thesis
    using assms(7)
    by (simp add: verifyBalance_def fetchJson_def http_ok_def honest_body_def resolveBalanceCheckpoint_def)
qed

lemma honest_parts:
  obtains sp path where "smt_prove H (table_smt H (balances st)) (Buf k) = Inr sp"
    "stateRootProof H (sub_roots H st) ''balances_root'' = Some (Inr path)"
proof -
  obtain sp where "smt_prove H (table_smt H (balances st)) (Buf k) = Inr sp" using smt_prove_Inr by blast
  moreover obtain path where "stateRootProof H (sub_roots H st) ''balances_root'' = Some (Inr path)"
    using state_path_exists [of 0 H st] by (auto simp: STATE_SUBTREES_def)
  ultimately show thesis by (rule that)
qed

section \<open>Properties\<close>

text \<open>
  C3: What a client may conclude from a verified balance, whatever the explorer sent. The result names a
  checkpoint that the caller supplied or the quorum ladder passes, not below the requested height; and against
  any committed state with that checkpoint's state root, the reported amount is the one the state holds under
  the key of the address and tick the caller asked about; or else the proof in the explorer's answer
  exhibits a hash collision with the committed tree, or its claimed leaf is no JSON text (the hole of the
  array leaf).
\<close>

theorem verify_balance_sound:
  assumes "\<forall>x. length (w_hash w x) = 32" "state_ok st" "stateRoot (w_hash w) (sub_roots (w_hash w) st) = Some r"
    and "snd (verifyBalance w f cache opts) = Inr res" "on_verified res"
    and "\<And>cp. ob_checkpoint res = Some cp \<Longrightarrow> lowerHex (cp_state_root cp) = hex_encode r"
  shows "\<exists>cp k amt body p. ob_checkpoint res = Some cp \<and> trusted_by w cache opts cp \<and> high_enough opts cp \<and>
    balanceKey (w_hash w) (cp_chain cp) (cp_network cp) (JStr (js_string (vo_address opts)))
      (JStr (js_string (vo_tick opts))) = Inr k \<and>
    on_amount res = Some amt \<and> fetchJson f (balance_url opts) = Inr body \<and> nb_proof body = Some p \<and>
    (utf8 amt = committed_amount (balances st) k \<or>
     breaks (w_hash w) (balance_pres (w_hash w) (balance_proof.truncate p) k amt) (mpres (w_hash w) (state_tree st)) \<or>
     \<not> leaf_is_text (bp_smt p))"
proof -
  obtain body p cp where v: "fetchJson f (balance_url opts) = Inr body" "nb_proof body = Some p"
    "trusted_by w cache opts cp" "ob_checkpoint res = Some cp" "high_enough opts cp"
    "\<exists>k. balanceKey (w_hash w) (cp_chain cp) (cp_network cp) (JStr (js_string (vo_address opts)))
       (JStr (js_string (vo_tick opts))) = Inr k \<and> proof_key_hex p = Some (hex_encode k)"
    "verified (verifyBalanceProof (w_hash w) (Some (balance_proof.truncate p)) (lowerHex (cp_state_root cp))
       (cp_chain cp) (cp_network cp) (Some (requested opts)))"
    "on_amount res = amount (verifyBalanceProof (w_hash w) (Some (balance_proof.truncate p)) (lowerHex (cp_state_root cp))
       (cp_chain cp) (cp_network cp) (Some (requested opts)))"
    using verifyBalance_verified [OF assms(4,5)] by metis
  obtain k where k: "balanceKey (w_hash w) (cp_chain cp) (cp_network cp) (JStr (js_string (vo_address opts)))
       (JStr (js_string (vo_tick opts))) = Inr k" "proof_key_hex p = Some (hex_encode k)" using v(6) by blast
  have key: "balanceKey (w_hash w) (cp_chain cp) (cp_network cp) (bp_address p) (bp_tick p) = Inr k"
    using balance_key_named [OF v(7)] k(2) by (simp add: proof_key_hex_def)
  note acc = v(7) [unfolded assms(6) [OF v(4)]]
  obtain amt where amt: "on_amount res = Some amt"
    using verifyBalanceProof_accepts [OF acc] v(8) assms(6) [OF v(4)] by (metis checkBalanceLeaf_amount)
  have "utf8 amt = committed_amount (balances st) k \<or>
     breaks (w_hash w) (balance_pres (w_hash w) (balance_proof.truncate p) k amt) (mpres (w_hash w) (state_tree st))"
    if "leaf_is_text (bp_smt p)"
    using balance_proof_committed [OF assms(1-3) _ acc] that key amt v(8) assms(6) [OF v(4)] by (auto simp: accepted_def)
  then show ?thesis using v(1-5) k(1) amt by blast
qed

text \<open>
  The same for locked balances, of an explorer that sends no leaf but a text: the reported amount is the one committed under the escrow key of the address and tick
  the caller asked about, and the locked leaf was armed at the height of the trusted checkpoint, never at
  one the server merely claims.
\<close>

theorem verify_locked_balance_sound:
  assumes "\<forall>x. length (w_hash w x) = 32" "state_ok st" "stateRoot (w_hash w) (sub_roots (w_hash w) st) = Some r"
    and "text_leaves f" "snd (verifyLockedBalance w f cache opts) = Inr res" "on_verified res"
    and "\<And>cp. ob_checkpoint res = Some cp \<Longrightarrow> lowerHex (cp_state_root cp) = hex_encode r"
  shows "\<exists>cp k amt p h. ob_checkpoint res = Some cp \<and> trusted_by w cache opts cp \<and> high_enough opts cp \<and>
    escrowKey (w_hash w) (cp_chain cp) (cp_network cp) (JStr (js_string (vo_address opts)))
      (JStr (js_string (vo_tick opts))) = Inr k \<and>
    toWireIndex (cp_block_index cp) = Some h \<and> isEscrowLockedLeafActive (JInt h) (cp_network cp) (cp_chain cp) \<and>
    on_amount res = Some amt \<and>
    (utf8 amt = committed_amount (balances st) k \<or>
     breaks (w_hash w) (balance_pres (w_hash w) p k amt) (mpres (w_hash w) (state_tree st)))"
proof -
  let ?v = "\<lambda>p cp. verifyLockedBalanceProof (w_hash w) (Some (balance_proof.truncate p)) (lowerHex (cp_state_root cp))
       (cp_chain cp) (cp_network cp) (Some (requested opts)) (cp_block_index cp)"
  obtain p cp where v: "\<exists>body. (\<exists>u s. f u = Reply s (Body body)) \<and> nb_proof body = Some p"
    "trusted_by w cache opts cp" "ob_checkpoint res = Some cp" "high_enough opts cp"
    "\<exists>k. escrowKey (w_hash w) (cp_chain cp) (cp_network cp) (JStr (js_string (vo_address opts)))
       (JStr (js_string (vo_tick opts))) = Inr k \<and> proof_key_hex p = Some (hex_encode k)"
    "sameWireIndex (bp_height p) (cp_block_index cp)" "verified (?v p cp)" "on_amount res = amount (?v p cp)"
    using verifyLockedBalance_verified [OF assms(5,6)] by metis
  have leaf: "leaf_is_text (bp_smt (balance_proof.truncate p))"
    using v(1) assms(4) by (auto simp: text_leaves_def)
  obtain k where k: "escrowKey (w_hash w) (cp_chain cp) (cp_network cp) (JStr (js_string (vo_address opts)))
       (JStr (js_string (vo_tick opts))) = Inr k" "proof_key_hex p = Some (hex_encode k)" using v(5) by blast
  have "escrowKey (w_hash w) (cp_chain cp) (cp_network cp) (bp_address p) (bp_tick p) = Inr k"
    using locked_key_named [OF v(7)] k(2) by (simp add: proof_key_hex_def)
  moreover note locked_proof_committed [OF assms(1-3) leaf v(7) [unfolded assms(7) [OF v(3)]]]
  ultimately obtain amt where amt: "on_amount res = Some amt" "utf8 amt = committed_amount (balances st) k \<or>
     breaks (w_hash w) (balance_pres (w_hash w) (balance_proof.truncate p) k amt) (mpres (w_hash w) (state_tree st))"
    using v(8) assms(7) [OF v(3)] by (auto simp: accepted_def)
  obtain h where h: "toWireIndex (cp_block_index cp) = Some h" using v(6) by (auto simp: sameWireIndex_iff)
  then have "\<not> is_nullish (cp_block_index cp)" "cp_block_index cp \<noteq> JStr []"
    by (auto simp: is_nullish_def toWireIndex_def js_trim_def all_digits_def)
  then have "isEscrowLockedLeafActive (JInt h) (cp_network cp) (cp_chain cp)"
    using locked_leaf_armed [OF v(7)] h by auto
  then show ?thesis using v(2-4) k(1) amt h by blast
qed

text \<open>
  C20: A verified action is the action asked about. Against any block content with the trusted checkpoint's
  block root: the action index in the explorer's proof is exactly the requested one (as an integer,
  not as a rounded number), the result reports that proof's action, index and transaction index, and the
  block holds an action row with the texts of these three fields; or else the proof's leaf and path
  exhibit a hash collision with the block's own tree.
\<close>

theorem verify_action_sound:
  assumes "\<forall>x. length (w_hash w x) = 32" "blockMerkleLeaves (w_hash w) rows = Inr leaves"
    and "leaves \<noteq> []" "length leaves \<le> 2 ^ 30" "blockMerkleRoot (w_hash w) leaves = Some r"
    and "snd (verifyAction w f cache opts) = Inr res" "on_verified res"
    and "\<And>cp. ob_checkpoint res = Some cp \<Longrightarrow> lowerHex (cp_block_merkle_root cp) = hex_encode r"
  shows "\<exists>cp body p index sibs b. ob_checkpoint res = Some cp \<and> trusted_by w cache opts cp \<and>
    fetchJson f (action_url (vo_explorerUrl opts) (vo_coin opts) (vo_actionIndex opts)) = Inr body \<and>
    ab_proof body = Some p \<and> ap_merkle p = Some (index, sibs) \<and>
    sameWireIndex (ap_action_index p) (vo_actionIndex opts) \<and>
    on_action res = ap_action p \<and> on_action_index res = js_Number (ap_action_index p) \<and>
    on_tx_index res = nullableNumber (ap_tx_index p) \<and>
    joinFields [JStr ''A'', ap_action_index p, coalesce (ap_tx_index p), coalesce (ap_action p)] = Inr b \<and>
    ((\<exists>row\<in>set (actions rows). map js_string (action_fields row) =
        map js_string [JStr ''A'', ap_action_index p, coalesce (ap_tx_index p), coalesce (ap_action p)]) \<or>
     breaks (w_hash w) (action_pres (w_hash w) b index sibs) (mpres (w_hash w) (block_tree rows)))"
proof -
  obtain body p cp where v: "fetchJson f (action_url (vo_explorerUrl opts) (vo_coin opts) (vo_actionIndex opts)) = Inr body"
    "ab_proof body = Some p" "trusted_by w cache opts cp" "ob_checkpoint res = Some cp"
    "sameWireIndex (ap_action_index p) (vo_actionIndex opts)"
    "verifyActionProof (w_hash w) (Some p) (hex_encode r) = Inr ()"
    "on_action res = ap_action p" "on_action_index res = js_Number (ap_action_index p)"
    "on_tx_index res = nullableNumber (ap_tx_index p)"
    using verifyAction_verified [OF assms(6,7)] assms(8) by metis
  then obtain index sibs where m: "ap_merkle p = Some (index, sibs)"
    by (auto simp: verifyActionProof_def split: option.splits)
  from action_sound [OF assms(1-5) m v(6), THEN conjunct2] obtain b where
    b: "joinFields [JStr ''A'', ap_action_index p, coalesce (ap_tx_index p), coalesce (ap_action p)] = Inr b"
    "(\<exists>row\<in>set (actions rows). map js_string (action_fields row) =
        map js_string [JStr ''A'', ap_action_index p, coalesce (ap_tx_index p), coalesce (ap_action p)]) \<or>
     breaks (w_hash w) (action_pres (w_hash w) b index sibs) (mpres (w_hash w) (block_tree rows))"
    by (elim exE conjE)
  show ?thesis
    by (rule exI [of _ cp], rule exI [of _ body], rule exI [of _ p], rule exI [of _ index], rule exI [of _ sibs],
        rule exI [of _ b]) (intro conjI v(1-5,7-9) m b)
qed

text \<open>
  C21: An honest explorer is believed. Let the checkpoint pass the ladder and be high enough, and let the
  explorer answer with it and with the very proof that the tree operations build from the committed state for
  the asked key (the sparse-tree proof, and the path of the balances sub-root). Then the call returns a
  verified result with the committed amount (zero where nothing is stored), the checkpoint's
  height and no reason.
\<close>

theorem verify_balance_complete:
  assumes "\<forall>x. length (w_hash w x) = 32" "state_ok st" "stateRoot (w_hash w) (sub_roots (w_hash w) st) = Some r"
    and "lowerHex (cp_state_root cp) = hex_encode r" "toWireIndex (cp_block_index cp) \<noteq> None" "high_enough opts cp"
    and "vo_trusted opts = None" "snd (resolveQuorum w cache opts cp) = Inr q" "qr_valid q"
    and "balanceKey (w_hash w) (cp_chain cp) (cp_network cp) (JStr (js_string (vo_address opts)))
      (JStr (js_string (vo_tick opts))) = Inr k"
    and "map_of (balances st) k = map_option utf8 am" "canonicalAmount (JStr (amount_or_zero am)) = Inr (amount_or_zero am)"
    and "smt_prove (w_hash w) (table_smt (w_hash w) (balances st)) (Buf k) = Inr sp"
    and "stateRootProof (w_hash w) (sub_roots (w_hash w) st) ''balances_root'' = Some (Inr path)"
  shows "snd (verifyBalance w (\<lambda>u. Reply 200 (Body (honest_body (honest_proof w st opts cp am sp path) cp))) cache opts) =
    Inr (on_result (base_of cp q) True (Some (amount_or_zero am)) None)"
  using assms by (rule honest_reply_verified)

text \<open>
  C18: Below the commitment flag day a verified balance means nothing. Take any checkpoint genuinely signed by the
  caller's own validator set whose snapshot block is below the flag day: for every canonical amount there is
  an answer, that checkpoint with another state root and a proof against it, which \<open>verifyBalance\<close> reports as
  verified with this amount. The call never asks \<open>commitmentActive\<close>, as forward following and the anchored
  cold start do.
\<close>

theorem unsigned_balance_forgery:
  assumes "\<forall>x. length (w_hash w x) = 32"
    and "\<not> isCheckpointCommitmentActive (cp_snapshot_block cp) (cp_network cp)"
    and "vo_validators opts = Some sn" "vo_trusted opts = None" "cv_valid (check_cp w cp sn)"
    and "toWireIndex (cp_block_index cp) \<noteq> None" "high_enough opts cp"
    and "balanceKey (w_hash w) (cp_chain cp) (cp_network cp) (JStr (js_string (vo_address opts)))
      (JStr (js_string (vo_tick opts))) = Inr k"
    and "canonicalAmount (JStr a) = Inr a"
  shows "\<exists>body res. snd (verifyBalance w (\<lambda>u. Reply 200 (Body body)) cache opts) = Inr res \<and>
    on_verified res \<and> on_amount res = Some a"
proof -
  let ?H = "w_hash w"
  let ?st = "\<lparr>balances = [(k, utf8 a)], stakes = [], ownership = [], tokens = [], contract_state = []\<rparr>"
  have k: "length k = 32" using smtKey_length [OF assms(1)] assms(8) by (auto simp: balanceKey_def)
  obtain r where r: "stateRoot ?H (sub_roots ?H ?st) = Some r" using stateRoot_tree by blast
  let ?cp = "cp\<lparr>cp_state_root := JStr (hex_encode r), cp_block_merkle_root := cp_block_merkle_root cp\<rparr>"
  have "cv_valid (check_cp w ?cp sn)" using assms(5) unsigned_roots_verdict [OF assms(2)] by metis
  then have q: "snd (resolveQuorum w cache opts ?cp) = Inr (quorum_of (check_cp w ?cp sn))"
    "qr_valid (quorum_of (check_cp w ?cp sn))"
    using assms(3) by (simp_all add: resolveQuorum_def)
  obtain sp path where sp: "smt_prove ?H (table_smt ?H (balances ?st)) (Buf k) = Inr sp"
    "stateRootProof ?H (sub_roots ?H ?st) ''balances_root'' = Some (Inr path)"
    by (rule honest_parts)
  have "snd (verifyBalance w (\<lambda>u. Reply 200 (Body (honest_body (honest_proof w ?st opts ?cp (Some a) sp path) ?cp))) cache opts) =
      Inr (on_result (base_of ?cp (quorum_of (check_cp w ?cp sn))) True (Some (amount_or_zero (Some a))) None)"
    by (rule honest_reply_verified [OF assms(1) _ r _ _ _ assms(4) q _ _ _ sp])
       (use k assms(6-9) in \<open>simp_all add: state_ok_def state_tables_def table_ok_def amount_or_zero_def high_enough_def\<close>)
  then obtain p where p: "snd (verifyBalance w (\<lambda>u. Reply 200 (Body (honest_body p ?cp))) cache opts) =
      Inr (on_result (base_of ?cp (quorum_of (check_cp w ?cp sn))) True (Some a) None)"
    by (auto simp: amount_or_zero_def)
  show ?thesis by (rule exI, rule exI, rule conjI [OF p]) simp
qed

section \<open>Instances\<close>

definition on_cp :: "jsval \<Rightarrow> checkpoint" where
  "on_cp s = (demo_cp ''mainnet'')\<lparr>cp_state_root := s,
     cp_validator_signatures := JArr [JObj [(''pubkey'', JStr wit_key), (''sig'', JStr (replicate 128 (CHR ''b'')))]]\<rparr>"

definition on_opts :: "snapshot option \<Rightarrow> checkpoint option \<Rightarrow> call_opts" where
  "on_opts vs tr = wit_opts\<lparr>vo_validators := vs, vo_trusted := tr\<rparr>"

definition on_set :: snapshot where
  "on_set = \<lparr>sn_rows = [JStr wit_key], sn_truncated = False\<rparr>"

lemma canonical_nonempty: "canonicalCheckpoint (Some cp) = Inr msg \<Longrightarrow> msg \<noteq> []"
proof -
  assume msg: "canonicalCheckpoint (Some cp) = Inr msg"
  have "''XCHECKPOINT'' \<in> set (segments cp)" by (simp add: segments_def base_fields_def)
  from length_join_le [OF this, of "''|''"] show "msg \<noteq> []" using canonical_segments [OF msg] by auto
qed

lemma on_cp_valid: "cv_valid (check_cp wit_world (on_cp s) on_set)"
proof -
  have p: "js_parseInt (JInt 5) = Some 5" by code_simp
  have g: "\<not> isStakeWeightedQuorumActive (JInt 5) (JStr ''mainnet'')" "\<not> isCheckpointCommitmentActive (JInt 5) (JStr ''mainnet'')"
    using demo_gates(2)
    by (simp_all add: isStakeWeightedQuorumActive_def p STAKE_WEIGHTED_QUORUM_ACTIVATION_def gate_table_def
        stake_weighted_row obj_props_def get_prop_def at_threshold_def)
  obtain msg where msg: "canonicalCheckpoint (Some (on_cp s)) = Inr msg"
    using canonical_total [of "on_cp s"]
    by (auto simp: on_cp_def demo_cp_def signs_supersede_def hasSupersedeFields_def is_nullish_def)
  have v: "verifySignature (\<lambda>k m s. True) msg (replicate 128 (CHR ''b'')) wit_key"
    using canonical_nonempty [OF msg] wit_texts by (simp add: verifySignature_def)
  have "sigLoop (\<lambda>k m s. True) msg (\<lambda>pk. pk \<in> {wit_key}) []
      (signature_list (\<lambda>s. None) (cp_validator_signatures (on_cp s))) = [wit_key]"
    using wit_texts v by (simp add: on_cp_def demo_cp_def signature_list_def sig_pubkey_def sig_hex_def prop_or_empty_def
        get_prop_def Let_def)
  moreover have "map qualified_key [JStr wit_key] = [wit_key]"
    using wit_texts by (simp add: qualified_key_def js_prop_def)
  moreover have "\<not> commitmentMissing (Some (on_cp s))" "\<not> supersessionDisallowed (Some (on_cp s))"
    using g by (simp_all add: commitmentMissing_def supersessionDisallowed_def hasSupersedeFields_def on_cp_def demo_cp_def
        is_nullish_def)
  moreover have "\<not> isStakeWeightedQuorumActive (cp_snapshot_block (on_cp s)) (cp_network (on_cp s))"
    using g(1) by (simp add: on_cp_def demo_cp_def)
  ultimately show ?thesis
    using msg by (simp add: verifyCheckpoint_def tryCanonicalCheckpoint_def Let_def wit_world_def on_set_def count_quorum_def)
qed

lemma world_hash: "w_hash wit_world = pad_digest"
  by (simp add: wit_world_def)

lemma on_facts:
  "\<not> isCheckpointCommitmentActive (cp_snapshot_block (on_cp s)) (cp_network (on_cp s))"
  "toWireIndex (cp_block_index (on_cp s)) \<noteq> None" "high_enough (on_opts vs tr) cp"
  "balanceKey (w_hash wit_world) (cp_chain (on_cp s)) (cp_network (on_cp s)) (JStr (js_string (vo_address (on_opts vs tr))))
     (JStr (js_string (vo_tick (on_opts vs tr)))) = Inr demo_key"
  "\<forall>x. length (w_hash wit_world x) = 32" "vo_validators (on_opts vs tr) = vs" "vo_trusted (on_opts vs tr) = tr"
  using demo_gates(2) demo_balanceKey length_pad_digest
  by (simp_all add: on_cp_def demo_cp_def toWireIndex_def high_enough_def has_height_def on_opts_def wit_opts_def
      wit_world_def is_nullish_def MAX_SAFE_INTEGER_def)

theorem unsigned_balance_forgery_witness:
  "\<exists>body res. snd (verifyBalance wit_world (\<lambda>u. Reply 200 (Body body)) [] (on_opts (Some on_set) None)) = Inr res \<and>
    on_verified res \<and> on_amount res = Some ''1.500000000000000000''"
  by (rule unsigned_balance_forgery [OF on_facts(5) on_facts(1) on_facts(6,7) on_cp_valid on_facts(2,3,4) demo_canonical])

lemma on_resolves:
  "snd (resolveQuorum wit_world [] (on_opts (Some on_set) None) (on_cp s)) = Inr (quorum_of (check_cp wit_world (on_cp s) on_set))"
  "qr_valid (quorum_of (check_cp wit_world (on_cp s) on_set))"
  using on_cp_valid on_facts(6) by (simp_all add: resolveQuorum_def)

lemma demo_held: "map_of (balances demo_state) demo_key = map_option utf8 (Some ''1.500000000000000000'')"
  "canonicalAmount (JStr (amount_or_zero (Some ''1.500000000000000000''))) =
   Inr (amount_or_zero (Some ''1.500000000000000000''))"
  using demo_canonical by (simp_all add: demo_state_def amount_or_zero_def)

theorem verify_balance_complete_witness:
  "\<exists>r sp path. stateRoot pad_digest (sub_roots pad_digest demo_state) = Some r \<and>
    snd (verifyBalance wit_world
      (\<lambda>u. Reply 200 (Body (honest_body (honest_proof wit_world demo_state (on_opts (Some on_set) None)
         (on_cp (JStr (hex_encode r))) (Some ''1.500000000000000000'') sp path) (on_cp (JStr (hex_encode r)))))) []
      (on_opts (Some on_set) None)) =
    Inr (on_result (base_of (on_cp (JStr (hex_encode r))) (quorum_of (check_cp wit_world (on_cp (JStr (hex_encode r))) on_set)))
       True (Some ''1.500000000000000000'') None)"
proof -
  obtain r where r: "stateRoot (w_hash wit_world) (sub_roots (w_hash wit_world) demo_state) = Some r" using stateRoot_tree by blast
  have h: "lowerHex (cp_state_root (on_cp (JStr (hex_encode r)))) = hex_encode r" by (simp add: on_cp_def)
  obtain sp path where sp: "smt_prove (w_hash wit_world) (table_smt (w_hash wit_world) (balances demo_state)) (Buf demo_key) = Inr sp"
    "stateRootProof (w_hash wit_world) (sub_roots (w_hash wit_world) demo_state) ''balances_root'' = Some (Inr path)"
    by (rule honest_parts)
  note v = verify_balance_complete [OF on_facts(5) demo_state_ok r h on_facts(2,3,7) on_resolves on_facts(4) demo_held sp]
  show ?thesis
    by (rule exI [of _ r], rule exI [of _ sp], rule exI [of _ path])
       (use v r in \<open>simp add: amount_or_zero_def world_hash\<close>)
qed

theorem verify_balance_sound_witness:
  "\<exists>f res cp. snd (verifyBalance wit_world f [] (on_opts (Some on_set) None)) = Inr res \<and> on_verified res \<and>
    ob_checkpoint res = Some cp \<and> trusted_by wit_world [] (on_opts (Some on_set) None) cp"
proof -
  obtain r where r: "stateRoot (w_hash wit_world) (sub_roots (w_hash wit_world) demo_state) = Some r" using stateRoot_tree by blast
  let ?cp = "on_cp (JStr (hex_encode r))"
  have h: "lowerHex (cp_state_root ?cp) = hex_encode r" by (simp add: on_cp_def)
  obtain sp path where sp: "smt_prove (w_hash wit_world) (table_smt (w_hash wit_world) (balances demo_state)) (Buf demo_key) = Inr sp"
    "stateRootProof (w_hash wit_world) (sub_roots (w_hash wit_world) demo_state) ''balances_root'' = Some (Inr path)"
    by (rule honest_parts)
  note p = honest_reply_verified [OF on_facts(5) demo_state_ok r h on_facts(2,3,7) on_resolves on_facts(4) demo_held sp]
  have "lowerHex (cp_state_root cp) = hex_encode r"
    if "ob_checkpoint (on_result (base_of ?cp q) True a None) = Some cp" for cp q a
    using that h by simp
  from verify_balance_sound [OF on_facts(5) demo_state_ok r p _ this]
  have "trusted_by wit_world [] (on_opts (Some on_set) None) ?cp" by auto
  note t = conjI [OF p conjI [OF _ conjI [OF _ this]]]
  show ?thesis by (rule exI, rule exI, rule exI, rule t) simp_all
qed

text \<open>The caller's own checkpoint, at the height of the proof.\<close>

definition own_cp :: "string \<Rightarrow> string \<Rightarrow> string \<Rightarrow> checkpoint" where
  "own_cp net s b = (demo_cp net)\<lparr>cp_block_index := JInt 5, cp_state_root := JStr s, cp_block_merkle_root := JStr b\<rparr>"

lemma own_resolves:
  "resolveBalanceCheckpoint wit_world [] (on_opts None (Some cp)) served (JInt 5) =
   ([], if sameWireIndex (JInt 5) (cp_block_index cp) then Inr (Inr (cp, trusted_quorum))
        else Inr (Inl (height_refusal (JInt 5) cp)))"
  by (simp add: resolveBalanceCheckpoint_def on_facts(7))

lemma own_index: "sameWireIndex (JInt 5) (JInt 5)"
  by code_simp

lemma own_locked:
  "\<exists>r p res. stateRoot pad_digest (sub_roots pad_digest demo_state) = Some r \<and> leaf_is_text (bp_smt p) \<and>
    snd (verifyLockedBalance wit_world (\<lambda>u. Reply 200 (Body (honest_body p (own_cp ''testnet'' (hex_encode r) ''cd'')))) []
       (on_opts None (Some (own_cp ''testnet'' (hex_encode r) ''cd'')))) = Inr res \<and> on_verified res \<and>
    ob_checkpoint res = Some (own_cp ''testnet'' (hex_encode r) ''cd'')"
proof -
  obtain r sp path where s: "stateRoot pad_digest (sub_roots pad_digest demo_state) = Some r"
    "verifyLockedBalanceProof pad_digest
      (Some (served_balance pad_digest demo_state ''bc1q'' ''XCP'' zero_amount (JInt 5) sp path))
      (hex_encode r) (JStr ''BTC'') (JStr ''testnet'')
      (Some [(''address'', JStr ''bc1q''), (''tick'', JStr ''XCP'')]) (JInt 5) = accepted zero_amount"
    using demo_locked by blast
  let ?cp = "own_cp ''testnet'' (hex_encode r) ''cd''"
  let ?p = "served_balance pad_digest demo_state ''bc1q'' ''XCP'' zero_amount (JInt 5) sp path"
  have lt: "leaf_is_text (bp_smt ?p)"
    by (auto simp: served_balance_def leaf_is_text_def is_nullish_def split: option.splits)
  have ver: "verified (verifyLockedBalanceProof pad_digest (Some ?p) (hex_encode r) (JStr ''BTC'') (JStr ''testnet'')
      (Some [(''address'', JStr ''bc1q''), (''tick'', JStr ''XCP'')]) (JInt 5))"
    using s(2) by (simp add: accepted_def)
  obtain smt pth k v where a: "bp_smt ?p = Some smt"
    "escrowKey pad_digest (JStr ''BTC'') (JStr ''testnet'') (bp_address ?p) (bp_tick ?p) = Inr k"
    "checkBalanceLeaf pad_digest ?p smt pth (hex_encode r) k = Inr v" "verified v"
    using verifyLockedBalanceProof_accepts [OF ver] by blast
  then have k: "escrowKey pad_digest (JStr ''BTC'') (JStr ''testnet'') (JStr ''bc1q'') (JStr ''XCP'') = Inr k"
    "map_option (\<lambda>s. lowerHex (sw_key s)) (bp_smt ?p) = Some (hex_encode k)"
    using checkBalanceLeaf_key [OF a(3,4)] by (simp_all add: served_balance_def)
  have c: "cp_chain ?cp = JStr ''BTC''" "cp_network ?cp = JStr ''testnet''" "cp_block_index ?cp = JInt 5"
    "lowerHex (cp_state_root ?cp) = hex_encode r" "hex_encode r \<noteq> []"
    using state_root_text [OF length_pad_digest s(1)] by (simp_all add: own_cp_def demo_cp_def)
  have o: "requested (on_opts None (Some ?cp)) = [(''address'', JStr ''bc1q''), (''tick'', JStr ''XCP'')]"
    "js_string (vo_address (on_opts None (Some ?cp))) = ''bc1q''" "js_string (vo_tick (on_opts None (Some ?cp))) = ''XCP''"
    "\<not> has_height (vo_atHeight (on_opts None (Some ?cp)))" "w_hash wit_world = pad_digest"
    by (simp_all add: requested_def on_opts_def wit_opts_def has_height_def is_nullish_def wit_world_def)
  let ?e = "balance_proof.extend ?p (online_proof.fields (cp_chain ?cp) (cp_network ?cp))"
  have "judge_balance (on_opts None (Some ?cp)) ?e ?cp trusted_quorum
      (escrowKey (w_hash wit_world) (cp_chain ?cp) (cp_network ?cp) (JStr ''bc1q'') (JStr ''XCP'')) ''LOCKED_QUERY_MISMATCH''
      (\<lambda>rt. verifyLockedBalanceProof (w_hash wit_world) (Some ?p) rt (cp_chain ?cp) (cp_network ?cp)
         (Some (requested (on_opts None (Some ?cp)))) (cp_block_index ?cp)) =
      Inr (on_result (base_of ?cp trusted_quorum) True (Some zero_amount) None)"
    by (rule judge_balance_accepts [of _ _ _ _ _ k])
       (use own_index k s c o in \<open>simp_all add: trusted_quorum_def high_enough_def proof_key_hex_def served_balance_def\<close>)
  then have v: "snd (verifyLockedBalance wit_world (\<lambda>u. Reply 200 (Body (honest_body ?p ?cp))) [] (on_opts None (Some ?cp))) =
      Inr (on_result (base_of ?cp trusted_quorum) True (Some zero_amount) None)"
    using own_index c(3) o(2,3) by (simp add: verifyLockedBalance_def fetchProofReply_def http_ok_def honest_body_def
        locked_refusal_def own_resolves served_balance_def)
  show ?thesis
    by (rule exI [of _ r], rule exI [of _ ?p], rule exI [of _ "on_result (base_of ?cp trusted_quorum) True (Some zero_amount) None"])
       (use s(1) lt v in simp)
qed

theorem verify_locked_balance_sound_witness:
  "\<exists>f tr res h. snd (verifyLockedBalance wit_world f [] (on_opts None tr)) = Inr res \<and> on_verified res \<and>
    isEscrowLockedLeafActive (JInt h) (JStr ''testnet'') (JStr ''BTC'')"
proof -
  obtain r p and res :: online_result where s: "stateRoot pad_digest (sub_roots pad_digest demo_state) = Some r"
    "leaf_is_text (bp_smt p)"
    "snd (verifyLockedBalance wit_world (\<lambda>u. Reply 200 (Body (honest_body p (own_cp ''testnet'' (hex_encode r) ''cd'')))) []
       (on_opts None (Some (own_cp ''testnet'' (hex_encode r) ''cd'')))) = Inr res"
    "on_verified res" "ob_checkpoint res = Some (own_cp ''testnet'' (hex_encode r) ''cd'')"
    using own_locked by blast
  let ?cp = "own_cp ''testnet'' (hex_encode r) ''cd''"
  have t: "text_leaves (\<lambda>u. Reply 200 (Body (honest_body p ?cp)))"
    using s(2) by (simp add: text_leaves_def honest_body_def)
  have "lowerHex (cp_state_root cp) = hex_encode r" if "ob_checkpoint res = Some cp" for cp
    using that s(5) by (auto simp: own_cp_def)
  from verify_locked_balance_sound [OF on_facts(5) demo_state_ok s(1) [folded world_hash] t s(3,4) this]
  have "\<exists>h. isEscrowLockedLeafActive (JInt h) (JStr ''testnet'') (JStr ''BTC'')"
    using s(5) by (auto simp: own_cp_def demo_cp_def)
  then obtain h where "isEscrowLockedLeafActive (JInt h) (JStr ''testnet'') (JStr ''BTC'')" by blast
  note c = conjI [OF s(3) conjI [OF s(4) this]]
  show ?thesis by (rule exI, rule exI, rule exI, rule exI, rule c)
qed

lemma own_action:
  "\<exists>r sibs. blockMerkleRoot pad_digest demo_leaves = Some r \<and>
    snd (verifyAction wit_world
      (\<lambda>u. Reply 200 (Body \<lparr>ab_proof = Some \<lparr>ap_action_index = JInt 1, ap_tx_index = JNull, ap_action = JStr ''SEND'',
             ap_leaf = JStr (hex_encode (demo_leaves ! 1)), ap_merkle = Some (1, sibs)\<rparr>,
           ab_height = JInt 5, ab_checkpoint = None\<rparr>)) [] (on_opts None (Some (own_cp ''testnet'' ''ab'' (hex_encode r))))) =
    Inr (act_result \<lparr>ap_action_index = JInt 1, ap_tx_index = JNull, ap_action = JStr ''SEND'',
             ap_leaf = JStr (hex_encode (demo_leaves ! 1)), ap_merkle = Some (1, sibs)\<rparr>
          (on_result (base_of (own_cp ''testnet'' ''ab'' (hex_encode r)) trusted_quorum) True None None))"
proof -
  obtain r sibs where a: "blockMerkleRoot pad_digest demo_leaves = Some r"
    "verifyActionProof pad_digest
      (Some \<lparr>ap_action_index = JInt 1, ap_tx_index = JNull, ap_action = JStr ''SEND'',
             ap_leaf = JStr (hex_encode (demo_leaves ! 1)), ap_merkle = Some (1, sibs)\<rparr>) (hex_encode r) = Inr ()"
    using demo_action_accepted by blast
  have "length r = 32"
  proof -
    have "demo_leaves \<noteq> []" "length demo_leaves \<le> 2 ^ 30" using demo_leaves(2) by auto
    then have "\<exists>t. mhash pad_digest t = r"
      using action_sound [OF length_pad_digest demo_leaves(1) _ _ a(1) _ a(2)] by auto
    then obtain t where "mhash pad_digest t = r" by blast
    then show ?thesis using length_pad_digest by (cases t) auto
  qed
  then have ne: "hex_encode r \<noteq> []" using length_hex_encode [of r] by force
  have o: "w_hash wit_world = pad_digest" "sameWireIndex (JInt 1) (vo_actionIndex (on_opts None tr))" for tr
    by (simp add: wit_world_def, simp add: on_opts_def wit_opts_def sameWireIndex_iff toWireIndex_def MAX_SAFE_INTEGER_def)
  have c: "cp_block_index (own_cp ''testnet'' ''ab'' (hex_encode r)) = JInt 5"
    "lowerHex (cp_block_merkle_root (own_cp ''testnet'' ''ab'' (hex_encode r))) = hex_encode r"
    by (simp_all add: own_cp_def)
  show ?thesis
    by (rule exI [of _ r], rule exI [of _ sibs])
       (use own_index a ne o c in \<open>simp add: verifyAction_def fetchJson_def http_ok_def own_resolves judge_action_def
          trusted_quorum_def\<close>)
qed

theorem verify_action_sound_witness:
  "\<exists>f tr res. snd (verifyAction wit_world f [] (on_opts None tr)) = Inr res \<and> on_verified res \<and>
    (\<exists>p :: action_proof. sameWireIndex (ap_action_index p) (JInt 1) \<and> on_action res = ap_action p)"
proof -
  obtain r and f and res :: action_result where a: "blockMerkleRoot (w_hash wit_world) demo_leaves = Some r"
    "snd (verifyAction wit_world f [] (on_opts None (Some (own_cp ''testnet'' ''ab'' (hex_encode r))))) = Inr res"
    "on_verified res" "ob_checkpoint res = Some (own_cp ''testnet'' ''ab'' (hex_encode r))"
    using own_action act_result_fields(1,2) on_result_fields(1,3,5) unfolding world_hash by metis
  have l: "demo_leaves \<noteq> []" "length demo_leaves \<le> 2 ^ 30" using demo_leaves(2) by auto
  have "lowerHex (cp_block_merkle_root cp) = hex_encode r" if "ob_checkpoint res = Some cp" for cp
    using that a(4) by (auto simp: own_cp_def)
  from verify_action_sound [OF on_facts(5) demo_leaves(1) [folded world_hash] l a(1-3) this]
  obtain p :: action_proof where p: "sameWireIndex (ap_action_index p) (vo_actionIndex (on_opts None
      (Some (own_cp ''testnet'' ''ab'' (hex_encode r)))))" "on_action res = ap_action p" by blast
  then have "sameWireIndex (ap_action_index p) (JInt 1)" by (simp add: on_opts_def wit_opts_def)
  then have "\<exists>p :: action_proof. sameWireIndex (ap_action_index p) (JInt 1) \<and> on_action res = ap_action p" using p(2) by blast
  note c = conjI [OF a(2) conjI [OF a(3) this]]
  show ?thesis by (rule exI, rule exI, rule exI, rule c)
qed

end
