(* ===== verification/AnchorParse.thy ===== *)
theory AnchorParse
  imports QuorumResolution
begin

text \<open>
  Reading an on-chain ANCHOR: \<open>parseAnchorV0\<close> and the order rules of
  \<open>protocol/light_client/anchored_checkpoint.js\<close>, their twin in \<open>anchor_bundle_order.js\<close>, and
  \<open>parseAnchorV3\<close> with \<open>anchorBundleSection\<close> of \<open>protocol/light_client.js\<close>.

  A wire is split at its bars once. The cursor of the code is the list of words not yet read, so
  \<open>p[i + k]\<close> is word \<open>k\<close> of it. Messages are constructors, except the two of the order rules, which
  the code writes twice. Texts are compared byte by byte. The environment of the regtest gates is the
  parameter \<open>env\<close>.
\<close>

section \<open>Words\<close>

definition word_at :: "string list \<Rightarrow> nat \<Rightarrow> jsval" where
  "word_at p i = (if i < length p then JStr (p ! i) else JUndef)"

text \<open>\<open>String(p[i] || '')\<close>\<close>

definition text_at :: "string list \<Rightarrow> nat \<Rightarrow> string" where
  "text_at p i = (if i < length p then p ! i else [])"

text \<open>\<open>parseInt(v, 10)\<close>, and a count read with it: a finite number of at least one.\<close>

definition parseInt10 :: "jsval \<Rightarrow> jsnum" where
  "parseInt10 v =
     (case strip_sign (dropWhile is_ws (js_string v)) of (neg, t) \<Rightarrow>
        let d = takeWhile is_digit t in
        if d = [] then NaN else js_round (signed neg (of_nat (nat_of_digits d))))"

definition count_of :: "jsval \<Rightarrow> nat option" where
  "count_of v = (case parseInt10 v of Num q \<Rightarrow> if q < 1 then None else Some (nat \<lfloor>q\<rfloor>) | _ \<Rightarrow> None)"

text \<open>\<open>a < b\<close> of two texts.\<close>

fun str_lt :: "string \<Rightarrow> string \<Rightarrow> bool" where
  "str_lt a [] = False"
| "str_lt [] (y # b) = True"
| "str_lt (x # a) (y # b) = ((of_char x :: nat) < of_char y \<or> x = y \<and> str_lt a b)"

section \<open>Errors and results\<close>

datatype anchor_error =
    NotThisVersion jsval
  | BadSectionCount
  | TruncatedSection nat
  | BadSigCount nat
  | MissingSig nat nat
  | OrderViolation string
  | MissingAttestation nat
  | BadArchiveCount
  | BadWrapperIndex
  | BadAttestCount
  | TrailingFields

type_synonym wire_sig = "string \<times> string"

record anchor_bundle =
  bn_version :: nat
  bn_network :: string
  bn_snapshot_block :: jsval
  bn_section_count :: nat
  bn_sections :: "checkpoint list"
  bn_publisher :: "string option"
  bn_attestations :: "wire_sig list"

record archive =
  ac_wrapper :: nat
  ac_match_batch_seq :: jsval
  ac_match_count :: jsval
  ac_crc32 :: string
  ac_total_chunks :: jsval
  ac_b64 :: string

record fold_bundle = anchor_bundle +
  fb_archive :: "archive option"

definition ANCHOR_BUNDLE_VERSION :: nat where
  "ANCHOR_BUNDLE_VERSION = 0"

definition ANCHOR_FOLD_VERSION :: nat where
  "ANCHOR_FOLD_VERSION = 3"

section \<open>The order rules\<close>

definition bundle_order_key :: string where
  "bundle_order_key = ''anchor_bundle_order_activation.ANCHOR_BUNDLE_ORDER_ACTIVATION''"

definition bundleOrderEnforced :: "(string \<Rightarrow> jsval) \<Rightarrow> string \<Rightarrow> jsval \<Rightarrow> bool" where
  "bundleOrderEnforced env network blockIndex \<longleftrightarrow>
     finite_number blockIndex \<and>
     activeAt shipped [] env bundle_order_key (JStr network) (JStr ''DOGE'') blockIndex JNull = Inr True"

text \<open>Is some text below the one before it?\<close>

fun descends :: "string list \<Rightarrow> bool" where
  "descends (a # b # r) = (str_lt b a \<or> descends (b # r))"
| "descends r = False"

definition sectionsChainOrderReason :: "checkpoint list \<Rightarrow> string option" where
  "sectionsChainOrderReason sections =
     (if descends (map (\<lambda>s. js_string (cp_chain s)) sections)
      then Some ''ANCHOR sections not CHAIN-ascending'' else None)"

definition sig_entries :: "jsval \<Rightarrow> jsval list" where
  "sig_entries v = (case v of JArr xs \<Rightarrow> xs | _ \<Rightarrow> [])"

definition sigsPubkeyOrderReason :: "jsval list \<Rightarrow> string option" where
  "sigsPubkeyOrderReason sigs =
     (if descends (map (\<lambda>s. js_string (js_prop s ''pubkey'')) sigs)
      then Some ''ANCHOR section signatures not PUBKEY-ascending'' else None)"

text \<open>\<open>t.replace(pat, rep)\<close> with a plain text as pattern: the first occurrence.\<close>

fun replace_first :: "string \<Rightarrow> string \<Rightarrow> string \<Rightarrow> string" where
  "replace_first pat rep [] = []"
| "replace_first pat rep (c # t) =
     (if take (length pat) (c # t) = pat then rep @ drop (length pat) (c # t) else c # replace_first pat rep t)"

text \<open>The first section, from number \<open>s\<close> on, whose signatures are out of order: \<open>enforce\<close>'s message and the twin's.\<close>

fun sigs_order_loop :: "nat \<Rightarrow> checkpoint list \<Rightarrow> string option" where
  "sigs_order_loop s [] = None"
| "sigs_order_loop s (x # rest) =
     (case sigsPubkeyOrderReason (sig_entries (cp_validator_signatures x)) of
        Some r \<Rightarrow> Some (''LightClient: '' @ replace_first ''section '' (''section '' @ nat_str s @ '' '') r)
      | None \<Rightarrow> sigs_order_loop (Suc s) rest)"

fun refusal_loop :: "nat \<Rightarrow> checkpoint list \<Rightarrow> string option" where
  "refusal_loop s [] = None"
| "refusal_loop s (x # rest) =
     (if sigsPubkeyOrderReason (sig_entries (cp_validator_signatures x)) \<noteq> None
      then Some (''LightClient: ANCHOR section '' @ nat_str s @ '' signatures not PUBKEY-ascending'')
      else refusal_loop (Suc s) rest)"

definition bundleOrderRefusal :: "checkpoint list \<Rightarrow> string option" where
  "bundleOrderRefusal sections =
     (if sectionsChainOrderReason sections \<noteq> None then Some ''LightClient: ANCHOR sections not CHAIN-ascending''
      else refusal_loop 0 sections)"

definition enforceAnchorBundleOrder ::
    "(string \<Rightarrow> jsval) \<Rightarrow> string \<Rightarrow> jsval \<Rightarrow> checkpoint list \<Rightarrow> anchor_error + unit" where
  "enforceAnchorBundleOrder env network blockIndex sections =
     (if \<not> finite_number blockIndex \<or>
         activeAt shipped [] env bundle_order_key (JStr network) (JStr ''DOGE'') blockIndex JNull \<noteq> Inr True
      then Inr ()
      else
        (case sectionsChainOrderReason sections of
           Some r \<Rightarrow> Inl (OrderViolation (''LightClient: '' @ r))
         | None \<Rightarrow>
             (case sigs_order_loop 0 sections of
                Some m \<Rightarrow> Inl (OrderViolation m)
              | None \<Rightarrow> Inr ())))"

section \<open>Sections\<close>

text \<open>
  \<open>n\<close> pairs of key and signature; \<open>k\<close> counts them for the message. What is left of the words comes back.
\<close>

fun read_sigs :: "nat \<Rightarrow> nat \<Rightarrow> string list \<Rightarrow> nat + (wire_sig list \<times> string list)" where
  "read_sigs 0 k p = Inr ([], p)"
| "read_sigs (Suc n) k p =
     (if text_at p 0 = [] \<or> text_at p 1 = [] then Inl k
      else try_bind (read_sigs n (Suc k) (drop 2 p)) (\<lambda>(ss, rest).
             Inr ((ascii_lower (text_at p 0), ascii_lower (text_at p 1)) # ss, rest)))"

definition sig_object :: "wire_sig \<Rightarrow> jsval" where
  "sig_object s = JObj [(''pubkey'', JStr (fst s)), (''sig'', JStr (snd s))]"

definition section_fields :: "string \<Rightarrow> string list \<Rightarrow> wire_sig list \<Rightarrow> checkpoint" where
  "section_fields network p sigs =
     \<lparr>cp_chain = JStr (ascii_upper (text_at p 0)), cp_network = JStr network,
      cp_block_index = js_num_val (word_at p 1), cp_block_hash = JStr (lowerHex (word_at p 2)),
      cp_ledger_hash = JStr (lowerHex (word_at p 3)), cp_actions_hash = JStr (lowerHex (word_at p 4)),
      cp_contract_hash = JStr (lowerHex (word_at p 5)), cp_checkpoint_seq = js_num_val (word_at p 6),
      cp_snapshot_block = js_num_val (word_at p 7), cp_state_root = JStr (lowerHex (word_at p 8)),
      cp_block_merkle_root = JStr (lowerHex (word_at p 10)), cp_state_root_version = js_num_val (word_at p 9),
      cp_block_merkle_version = js_num_val (word_at p 11), cp_supersedes_from = JUndef, cp_rules_digest = JUndef,
      cp_superseded_by_seq = JUndef, cp_fold_archive = JUndef,
      cp_validator_signatures = JArr (map sig_object sigs)\<rparr>"

definition parse_section :: "nat \<Rightarrow> string \<Rightarrow> string list \<Rightarrow> anchor_error + (checkpoint \<times> string list)" where
  "parse_section s network p =
     (if length p \<le> 12 then Inl (TruncatedSection s)
      else
        (case count_of (word_at p 12) of
           None \<Rightarrow> Inl (BadSigCount s)
         | Some n \<Rightarrow>
             (case read_sigs n 0 (drop 13 p) of
                Inl k \<Rightarrow> Inl (MissingSig s k)
              | Inr (sigs, rest) \<Rightarrow> Inr (section_fields network p sigs, rest))))"

fun parse_sections :: "nat \<Rightarrow> nat \<Rightarrow> string \<Rightarrow> string list \<Rightarrow> anchor_error + (checkpoint list \<times> string list)" where
  "parse_sections 0 s network p = Inr ([], p)"
| "parse_sections (Suc n) s network p =
     try_bind (parse_section s network p) (\<lambda>(x, rest).
       try_bind (parse_sections n (Suc s) network rest) (\<lambda>(xs, rest'). Inr (x # xs, rest')))"

section \<open>Bundles\<close>

text \<open>The words of a wire without a leading ANCHOR, in any case.\<close>

definition anchor_words :: "string \<Rightarrow> string list" where
  "anchor_words wire =
     (let p = split_on (CHR ''|'') wire in if ascii_lower (text_at p 0) = ''anchor'' then drop 1 p else p)"

definition nonempty_text :: "string \<Rightarrow> string option" where
  "nonempty_text s = (if s = [] then None else Some s)"

text \<open>The head both versions read in the same way: the version, the count and the sections.\<close>

definition parse_head ::
    "nat \<Rightarrow> string list \<Rightarrow> anchor_error + (nat \<times> checkpoint list \<times> string list)" where
  "parse_head version p =
     (if text_at p 0 \<noteq> nat_str version then Inl (NotThisVersion (word_at p 0))
      else
        (case count_of (word_at p 3) of
           None \<Rightarrow> Inl BadSectionCount
         | Some n \<Rightarrow>
             try_bind (parse_sections n 0 (text_at p 1) (drop 4 p)) (\<lambda>(xs, rest). Inr (n, xs, rest))))"

definition attestations_v0 :: "string list \<Rightarrow> anchor_error + wire_sig list" where
  "attestations_v0 p =
     (case count_of (word_at p 1) of
        None \<Rightarrow> Inr []
      | Some n \<Rightarrow>
          (case read_sigs n 0 (drop 2 p) of Inl k \<Rightarrow> Inl (MissingAttestation k) | Inr (ss, rest) \<Rightarrow> Inr ss))"

definition parseAnchorV0 :: "(string \<Rightarrow> jsval) \<Rightarrow> string \<Rightarrow> jsval \<Rightarrow> anchor_error + anchor_bundle" where
  "parseAnchorV0 env wire blockIndex =
     (let p = anchor_words wire in
      try_bind (parse_head ANCHOR_BUNDLE_VERSION p) (\<lambda>(n, sections, rest).
      try_bind (enforceAnchorBundleOrder env (text_at p 1) blockIndex sections) (\<lambda>_.
      try_bind (attestations_v0 rest) (\<lambda>atts.
        Inr \<lparr>bn_version = ANCHOR_BUNDLE_VERSION, bn_network = text_at p 1, bn_snapshot_block = js_num_val (word_at p 2),
             bn_section_count = n, bn_sections = sections, bn_publisher = nonempty_text (lowerHex (word_at rest 0)),
             bn_attestations = atts\<rparr>))))"

definition parseAnchorV3Tail :: "string list \<Rightarrow> anchor_error + (string option \<times> wire_sig list)" where
  "parseAnchorV3Tail p =
     (if \<not> all_digits (text_at p 1) then Inl BadAttestCount
      else
        (case read_sigs (nat_of_digits (text_at p 1)) 0 (drop 2 p) of
           Inl k \<Rightarrow> Inl (MissingAttestation k)
         | Inr (ss, rest) \<Rightarrow>
             if rest \<noteq> [] then Inl TrailingFields else Inr (nonempty_text (lowerHex (word_at p 0)), ss)))"

definition fold_object :: "archive \<Rightarrow> jsval" where
  "fold_object a =
     JObj [(''match_batch_seq'', ac_match_batch_seq a), (''match_count'', ac_match_count a),
           (''batch_crc32'', JStr (ac_crc32 a)), (''total_chunks'', ac_total_chunks a)]"

definition parse_archive :: "nat \<Rightarrow> string list \<Rightarrow> anchor_error + (archive option \<times> string list)" where
  "parse_archive sectionCount p =
     (if text_at p 0 = ''0'' then Inr (None, drop 1 p)
      else if text_at p 0 \<noteq> ''1'' then Inl BadArchiveCount
      else if \<not> all_digits (text_at p 1) \<or> sectionCount \<le> nat_of_digits (text_at p 1) then Inl BadWrapperIndex
      else if length p \<le> 6 then Inl BadArchiveCount
      else
        Inr (Some \<lparr>ac_wrapper = nat_of_digits (text_at p 1), ac_match_batch_seq = js_num_val (word_at p 2),
                   ac_match_count = js_num_val (word_at p 3), ac_crc32 = lowerHex (word_at p 4),
                   ac_total_chunks = js_num_val (word_at p 5), ac_b64 = text_at p 6\<rparr>, drop 7 p))"

definition attach_wrapper :: "checkpoint list \<Rightarrow> archive option \<Rightarrow> checkpoint list" where
  "attach_wrapper sections archive =
     (case archive of
        None \<Rightarrow> sections
      | Some a \<Rightarrow> sections[ac_wrapper a := (sections ! ac_wrapper a)\<lparr>cp_fold_archive := fold_object a\<rparr>])"

definition parseAnchorV3 :: "(string \<Rightarrow> jsval) \<Rightarrow> string \<Rightarrow> jsval \<Rightarrow> anchor_error + fold_bundle" where
  "parseAnchorV3 env wire blockIndex =
     (let p = anchor_words wire in
      try_bind (parse_head ANCHOR_FOLD_VERSION p) (\<lambda>(n, sections, rest).
      try_bind (enforceAnchorBundleOrder env (text_at p 1) blockIndex sections) (\<lambda>_.
      try_bind (parse_archive (length sections) rest) (\<lambda>(archive, rest').
      try_bind (parseAnchorV3Tail rest') (\<lambda>(publisher, atts).
        Inr \<lparr>bn_version = ANCHOR_FOLD_VERSION, bn_network = text_at p 1, bn_snapshot_block = js_num_val (word_at p 2),
             bn_section_count = n, bn_sections = attach_wrapper sections archive, bn_publisher = publisher,
             bn_attestations = atts, fb_archive = archive\<rparr>)))))"

text \<open>\<open>anchorBundleSection\<close> of a wire, and of a parsed bundle.\<close>

definition bundle_section :: "checkpoint list \<Rightarrow> jsval \<Rightarrow> checkpoint option" where
  "bundle_section sections chain =
     find (\<lambda>s. ascii_upper (js_string (cp_chain s)) = ascii_upper (if js_truthy chain then js_string chain else []))
       sections"

definition anchorBundleSection :: "(string \<Rightarrow> jsval) \<Rightarrow> string \<Rightarrow> jsval \<Rightarrow> anchor_error + checkpoint option" where
  "anchorBundleSection env wire chain =
     (if text_at (anchor_words wire) 0 = nat_str ANCHOR_FOLD_VERSION
      then try_bind (parseAnchorV3 env wire JUndef) (\<lambda>b. Inr (bundle_section (bn_sections b) chain))
      else try_bind (parseAnchorV0 env wire JUndef) (\<lambda>b. Inr (bundle_section (bn_sections b) chain)))"

section \<open>Texts in order\<close>

lemma str_lt_irrefl [simp]: "\<not> str_lt a a"
  by (induction a) auto

lemma str_lt_trans: "str_lt a b \<Longrightarrow> str_lt b c \<Longrightarrow> str_lt a c"
proof (induction a b arbitrary: c rule: str_lt.induct)
  case (2 y b)
  then show ?case by (cases c) auto
next
  case (3 x a y b)
  then show ?case by (cases c) auto
qed simp

lemma str_lt_total: "\<not> str_lt a b \<Longrightarrow> \<not> str_lt b a \<Longrightarrow> a = b"
proof (induction a b rule: str_lt.induct)
  case (1 a)
  then show ?case by (cases a) auto
next
  case (3 x a y b)
  have "x = y" if "(of_char x :: nat) = of_char y" using that by simp
  with 3 show ?case by (auto simp: not_less_iff_gr_or_eq)
qed simp

definition ascending :: "string list \<Rightarrow> bool" where
  "ascending = sorted_wrt (\<lambda>a b. \<not> str_lt b a)"

lemma not_descends: "\<not> descends xs \<longleftrightarrow> ascending xs"
proof (induction xs rule: descends.induct)
  case (1 a b r)
  have "\<not> str_lt c a" if "\<not> str_lt b a" "\<not> str_lt c b" for c
    using that str_lt_trans str_lt_total by blast
  with 1 show ?case by (auto simp: ascending_def)
qed (simp_all add: ascending_def)

section \<open>The order rules and their twin\<close>

lemma replaced_message:
  "replace_first ''section '' (''section '' @ nat_str s @ '' '') ''ANCHOR section signatures not PUBKEY-ascending'' =
   ''ANCHOR section '' @ nat_str s @ '' signatures not PUBKEY-ascending''"
  by simp

lemma loops_agree: "sigs_order_loop s sections = refusal_loop s sections"
  by (induction s sections rule: sigs_order_loop.induct)
    (auto simp: sigsPubkeyOrderReason_def replaced_message split: option.splits)

text \<open>
  The two copies of the order rule decide alike, message included: enforcing throws exactly where the
  rule is in force and the twin refuses, with the twin's text.
\<close>

theorem order_rules_agree:
  "enforceAnchorBundleOrder env network blockIndex sections =
     (case (if bundleOrderEnforced env network blockIndex then bundleOrderRefusal sections else None) of
        None \<Rightarrow> Inr () | Some m \<Rightarrow> Inl (OrderViolation m))"
  by (auto simp: enforceAnchorBundleOrder_def bundleOrderEnforced_def bundleOrderRefusal_def loops_agree
      sectionsChainOrderReason_def split: option.split)

definition pubkeys :: "checkpoint \<Rightarrow> string list" where
  "pubkeys x = map (\<lambda>s. js_string (js_prop s ''pubkey'')) (sig_entries (cp_validator_signatures x))"

lemma refusal_loop_None: "refusal_loop s sections = None \<longleftrightarrow> (\<forall>x\<in>set sections. ascending (pubkeys x))"
  by (induction s sections rule: refusal_loop.induct)
    (auto simp: sigsPubkeyOrderReason_def not_descends [symmetric] pubkeys_def)

lemma enforced_order:
  assumes "enforceAnchorBundleOrder env network blockIndex sections = Inr u" "bundleOrderEnforced env network blockIndex"
  shows "ascending (map (\<lambda>s. js_string (cp_chain s)) sections) \<and> (\<forall>x\<in>set sections. ascending (pubkeys x))"
  using assms
  by (auto simp: order_rules_agree bundleOrderRefusal_def sectionsChainOrderReason_def not_descends
      refusal_loop_None split: option.splits if_splits)

lemma attach_wrapper_keeps:
  assumes "\<And>x v. f (x\<lparr>cp_fold_archive := v\<rparr>) = f x"
  shows "map f (attach_wrapper sections archive) = map f sections"
proof (cases archive)
  case (Some a)
  have "(map f sections)[i := f (sections ! i)] = map f sections" for i
    by (metis length_map list_update_beyond list_update_id not_le nth_map)
  with Some show ?thesis by (simp add: attach_wrapper_def map_update assms)
qed (simp add: attach_wrapper_def)

lemma parseAnchorV0_Inr:
  assumes "parseAnchorV0 env wire blockIndex = Inr B"
  obtains n rest where "parse_head ANCHOR_BUNDLE_VERSION (anchor_words wire) = Inr (n, bn_sections B, rest)"
    and "enforceAnchorBundleOrder env (bn_network B) blockIndex (bn_sections B) = Inr ()"
  using assms by (fastforce simp: parseAnchorV0_def Let_def try_bind_Inr)

lemma parseAnchorV3_Inr:
  assumes "parseAnchorV3 env wire blockIndex = Inr B"
  obtains n sections rest where "parse_head ANCHOR_FOLD_VERSION (anchor_words wire) = Inr (n, sections, rest)"
    and "enforceAnchorBundleOrder env (bn_network B) blockIndex sections = Inr ()"
    and "bn_sections B = attach_wrapper sections (fb_archive B)"
  using assms by (fastforce simp: parseAnchorV3_def Let_def try_bind_Inr)

definition ordered_sections :: "checkpoint list \<Rightarrow> bool" where
  "ordered_sections sections \<longleftrightarrow>
     ascending (map (\<lambda>s. js_string (cp_chain s)) sections) \<and> (\<forall>x\<in>set sections. ascending (pubkeys x))"

lemma ordered_wrapper: "ordered_sections (attach_wrapper sections archive) = ordered_sections sections"
proof -
  have "map (\<lambda>s. js_string (cp_chain s)) (attach_wrapper sections archive) = map (\<lambda>s. js_string (cp_chain s)) sections"
    "map pubkeys (attach_wrapper sections archive) = map pubkeys sections"
    by (rule attach_wrapper_keeps, simp add: pubkeys_def)+
  moreover have "(\<forall>x\<in>set xs. ascending (pubkeys x)) = list_all ascending (map pubkeys xs)" for xs
    by (simp add: list_all_iff)
  ultimately show ?thesis by (simp only: ordered_sections_def)
qed

text \<open>
  A bundle read at a height where the order rule is in force lists its sections by chain and the signatures of
  every section by key, both ascending; attaching the archive to the wrapper section disturbs neither.
\<close>

theorem parsed_bundle_ordered:
  assumes "bundleOrderEnforced env network blockIndex"
  shows "(\<forall>B. parseAnchorV0 env wire blockIndex = Inr B \<and> bn_network B = network \<longrightarrow> ordered_sections (bn_sections B)) \<and>
    (\<forall>B. parseAnchorV3 env wire blockIndex = Inr B \<and> bn_network B = network \<longrightarrow> ordered_sections (bn_sections B))"
proof (intro conjI allI impI; elim conjE)
  fix B
  assume "parseAnchorV0 env wire blockIndex = Inr B" "bn_network B = network"
  then show "ordered_sections (bn_sections B)"
    using enforced_order assms by (auto elim: parseAnchorV0_Inr simp: ordered_sections_def)
next
  fix B :: fold_bundle
  assume "parseAnchorV3 env wire blockIndex = Inr B" "bn_network B = network"
  then show "ordered_sections (bn_sections B)"
    using enforced_order assms by (auto elim!: parseAnchorV3_Inr simp: ordered_wrapper) (simp add: ordered_sections_def)
qed

section \<open>Numbers as they are written\<close>

lemma digit_facts:
  "is_digit c \<Longrightarrow> c \<noteq> CHR ''|'' \<and> c \<noteq> CHR ''e'' \<and> c \<noteq> CHR ''E'' \<and> c \<noteq> CHR ''-'' \<and> c \<noteq> CHR ''+'' \<and> c \<noteq> CHR ''I'' \<and>
     lower_char c = c \<and> c \<noteq> CHR ''x'' \<and> c \<noteq> CHR ''o'' \<and> c \<noteq> CHR ''b''"
proof -
  have "\<forall>c\<in>set ''0123456789''. c \<noteq> CHR ''|'' \<and> c \<noteq> CHR ''e'' \<and> c \<noteq> CHR ''E'' \<and> c \<noteq> CHR ''-'' \<and> c \<noteq> CHR ''+'' \<and>
     c \<noteq> CHR ''I'' \<and> lower_char c = c \<and> c \<noteq> CHR ''x'' \<and> c \<noteq> CHR ''o'' \<and> c \<noteq> CHR ''b''"
    by code_simp
  then show "is_digit c \<Longrightarrow> c \<noteq> CHR ''|'' \<and> c \<noteq> CHR ''e'' \<and> c \<noteq> CHR ''E'' \<and> c \<noteq> CHR ''-'' \<and> c \<noteq> CHR ''+'' \<and>
     c \<noteq> CHR ''I'' \<and> lower_char c = c \<and> c \<noteq> CHR ''x'' \<and> c \<noteq> CHR ''o'' \<and> c \<noteq> CHR ''b''"
    unfolding is_digit_def by blast
qed

lemma nat_str_chars: "c \<in> set (nat_str n) \<Longrightarrow> is_digit c"
  using nat_str_digits [of n] by (simp add: list_all_iff)

lemma nat_str_trim [simp]: "js_trim (nat_str n) = nat_str n"
  by (rule js_trim_no_ws) (auto dest: nat_str_chars is_digit_not_ws)

lemma nat_str_sign [simp]: "strip_sign (nat_str n) = (False, nat_str n)"
proof -
  obtain c t where c: "nat_str n = c # t" by (cases "nat_str n") auto
  then have "is_digit c" using nat_str_chars [of c n] by simp
  then show ?thesis using digit_facts [of c] by (simp add: strip_sign_def c)
qed

lemma nat_str_prefix:
  "ascii_lower (take 2 (nat_str n)) \<notin> {''0x'', ''0o'', ''0b''}"
proof
  assume "ascii_lower (take 2 (nat_str n)) \<in> {''0x'', ''0o'', ''0b''}"
  moreover have "ascii_lower (take 2 (nat_str n)) = take 2 (nat_str n)"
    unfolding ascii_lower_def by (rule map_idI) (use digit_facts nat_str_chars in_set_takeD in fast)
  ultimately have "CHR ''x'' \<in> set (take 2 (nat_str n)) \<or> CHR ''o'' \<in> set (take 2 (nat_str n)) \<or> CHR ''b'' \<in> set (take 2 (nat_str n))"
    by auto
  then show False by (auto dest!: in_set_takeD nat_str_chars dest: digit_facts)
qed

lemma num_text_nat:
  assumes "n < 2 ^ 53"
  shows "num_text (nat_str n) = Num (of_nat n)"
proof -
  have d: "takeWhile (\<lambda>c. c \<noteq> CHR ''e'' \<and> c \<noteq> CHR ''E'') (nat_str n) = nat_str n"
    by (rule takeWhile_eq_all_conv [THEN iffD2]) (auto dest: nat_str_chars digit_facts)
  have i: "nat_str n \<noteq> ''Infinity''" using nat_str_chars [of "CHR ''I''" n] digit_facts [of "CHR ''I''"] by auto
  have "js_round (of_int (int n)) = Num (of_int (int n))" using assms by (intro js_round_int) simp
  then have r: "js_round (of_nat n) = Num (of_nat n)" by simp
  show ?thesis
    using nat_str_prefix [of n] i r
    by (simp add: num_text_def Let_def d dec_value_digits [OF all_digits_nat_str] pow10_def)
qed

lemma js_num_val_nat: "n < 2 ^ 53 \<Longrightarrow> js_num_val (JStr (nat_str n)) = JInt (int n)"
  by (simp add: js_num_val_def js_Number_def num_text_nat)

lemma count_of_nat:
  assumes "n < 2 ^ 53" "0 < n"
  shows "count_of (JStr (nat_str n)) = Some n"
proof -
  have w: "dropWhile is_ws (nat_str n) = nat_str n"
    using nat_str_chars [of _ n] is_digit_not_ws by (cases "nat_str n") auto
  have d: "takeWhile is_digit (nat_str n) = nat_str n"
    by (rule takeWhile_eq_all_conv [THEN iffD2]) (auto dest: nat_str_chars)
  have "js_round (of_int (int n)) = Num (of_int (int n))" using assms by (intro js_round_int) simp
  then have "parseInt10 (JStr (nat_str n)) = Num (of_nat n)"
    by (simp add: parseInt10_def w d signed_def Let_def)
  then show ?thesis using assms(2) by (simp add: count_of_def)
qed

section \<open>Bundles as they are written\<close>

text \<open>
  The grammar of the comment in \<open>anchored_checkpoint.js\<close>, as a writer: what a bundle's publisher puts on
  the chain for given sections, publisher, attestations and archive.
\<close>

record wire_section =
  ws_chain :: string
  ws_block_index :: nat
  ws_block_hash :: string
  ws_ledger_hash :: string
  ws_actions_hash :: string
  ws_contract_hash :: string
  ws_seq :: nat
  ws_snapshot :: nat
  ws_state_root :: string
  ws_state_version :: nat
  ws_block_root :: string
  ws_block_version :: nat
  ws_sigs :: "wire_sig list"

record wire_archive =
  wa_wrapper :: nat
  wa_seq :: nat
  wa_count :: nat
  wa_crc32 :: string
  wa_chunks :: nat
  wa_b64 :: string

definition sig_words :: "wire_sig list \<Rightarrow> string list" where
  "sig_words ss = concat (map (\<lambda>(k, s). [k, s]) ss)"

definition section_words :: "wire_section \<Rightarrow> string list" where
  "section_words w =
     [ws_chain w, nat_str (ws_block_index w), ws_block_hash w, ws_ledger_hash w, ws_actions_hash w, ws_contract_hash w,
      nat_str (ws_seq w), nat_str (ws_snapshot w), ws_state_root w, nat_str (ws_state_version w), ws_block_root w,
      nat_str (ws_block_version w), nat_str (length (ws_sigs w))] @ sig_words (ws_sigs w)"

definition head_words :: "nat \<Rightarrow> string \<Rightarrow> nat \<Rightarrow> wire_section list \<Rightarrow> string list" where
  "head_words version network snapshot ws =
     [nat_str version, network, nat_str snapshot, nat_str (length ws)] @ concat (map section_words ws)"

definition tail_words :: "string \<Rightarrow> wire_sig list \<Rightarrow> string list" where
  "tail_words publisher atts = [publisher, nat_str (length atts)] @ sig_words atts"

definition archive_words :: "wire_archive option \<Rightarrow> string list" where
  "archive_words wa =
     (case wa of
        None \<Rightarrow> [''0'']
      | Some a \<Rightarrow> [''1'', nat_str (wa_wrapper a), nat_str (wa_seq a), nat_str (wa_count a), wa_crc32 a,
                   nat_str (wa_chunks a), wa_b64 a])"

definition anchor_wire :: "string list \<Rightarrow> string" where
  "anchor_wire ws = join ''|'' (''ANCHOR'' # ws)"

definition section_of :: "string \<Rightarrow> wire_section \<Rightarrow> checkpoint" where
  "section_of network w =
     \<lparr>cp_chain = JStr (ws_chain w), cp_network = JStr network, cp_block_index = JInt (int (ws_block_index w)),
      cp_block_hash = JStr (ws_block_hash w), cp_ledger_hash = JStr (ws_ledger_hash w),
      cp_actions_hash = JStr (ws_actions_hash w), cp_contract_hash = JStr (ws_contract_hash w),
      cp_checkpoint_seq = JInt (int (ws_seq w)), cp_snapshot_block = JInt (int (ws_snapshot w)),
      cp_state_root = JStr (ws_state_root w), cp_block_merkle_root = JStr (ws_block_root w),
      cp_state_root_version = JInt (int (ws_state_version w)), cp_block_merkle_version = JInt (int (ws_block_version w)),
      cp_supersedes_from = JUndef, cp_rules_digest = JUndef, cp_superseded_by_seq = JUndef, cp_fold_archive = JUndef,
      cp_validator_signatures = JArr (map sig_object (ws_sigs w))\<rparr>"

definition archive_of :: "wire_archive \<Rightarrow> archive" where
  "archive_of a =
     \<lparr>ac_wrapper = wa_wrapper a, ac_match_batch_seq = JInt (int (wa_seq a)), ac_match_count = JInt (int (wa_count a)),
      ac_crc32 = wa_crc32 a, ac_total_chunks = JInt (int (wa_chunks a)), ac_b64 = wa_b64 a\<rparr>"

text \<open>What a writer keeps to: no bar in a text, hex and keys in lower case, chains in upper case, safe integers.\<close>

definition bar_free :: "string \<Rightarrow> bool" where
  "bar_free t \<longleftrightarrow> CHR ''|'' \<notin> set t"

definition lower_text :: "string \<Rightarrow> bool" where
  "lower_text t \<longleftrightarrow> bar_free t \<and> ascii_lower t = t"

definition good_sigs :: "wire_sig list \<Rightarrow> bool" where
  "good_sigs ss \<longleftrightarrow> length ss < 2 ^ 53 \<and>
     list_all (\<lambda>(k, s). k \<noteq> [] \<and> s \<noteq> [] \<and> lower_text k \<and> lower_text s) ss"

definition good_section :: "wire_section \<Rightarrow> bool" where
  "good_section w \<longleftrightarrow>
     bar_free (ws_chain w) \<and> ascii_upper (ws_chain w) = ws_chain w \<and>
     list_all lower_text [ws_block_hash w, ws_ledger_hash w, ws_actions_hash w, ws_contract_hash w, ws_state_root w,
       ws_block_root w] \<and>
     list_all (\<lambda>n. n < 2 ^ 53) [ws_block_index w, ws_seq w, ws_snapshot w, ws_state_version w, ws_block_version w] \<and>
     good_sigs (ws_sigs w) \<and> ws_sigs w \<noteq> []"

definition good_archive :: "nat \<Rightarrow> wire_archive \<Rightarrow> bool" where
  "good_archive n a \<longleftrightarrow>
     wa_wrapper a < n \<and> list_all (\<lambda>n. n < 2 ^ 53) [wa_seq a, wa_count a, wa_chunks a] \<and> lower_text (wa_crc32 a) \<and>
     bar_free (wa_b64 a)"

definition good_bundle :: "string \<Rightarrow> nat \<Rightarrow> wire_section list \<Rightarrow> string \<Rightarrow> wire_sig list \<Rightarrow> bool" where
  "good_bundle network snapshot ws publisher atts \<longleftrightarrow>
     bar_free network \<and> snapshot < 2 ^ 53 \<and> ws \<noteq> [] \<and> length ws < 2 ^ 53 \<and> list_all good_section ws \<and>
     lower_text publisher \<and> good_sigs atts"

section \<open>Reading back what was written\<close>

lemma text_at_Cons [simp]: "text_at (x # p) 0 = x" "text_at (x # p) (Suc i) = text_at p i"
  by (simp_all add: text_at_def)

lemma word_at_Cons [simp]: "word_at (x # p) 0 = JStr x" "word_at (x # p) (Suc i) = word_at p i"
  by (simp_all add: word_at_def)

lemma at_Cons_numeral [simp]:
  "text_at (x # p) (numeral v) = text_at p (pred_numeral v)" "word_at (x # p) (numeral v) = word_at p (pred_numeral v)"
  "text_at (x # p) 1 = text_at p 0" "word_at (x # p) 1 = word_at p 0"
  by (simp_all add: numeral_eq_Suc)

lemma lowerHex_text [simp]: "lower_text t \<Longrightarrow> lowerHex (JStr t) = t"
  by (simp add: lowerHex_def js_text_def is_nullish_def lower_text_def)

lemma read_sigs_words:
  "list_all (\<lambda>(k, s). k \<noteq> [] \<and> s \<noteq> [] \<and> lower_text k \<and> lower_text s) ss \<Longrightarrow>
   read_sigs (length ss) k (sig_words ss @ rest) = Inr (ss, rest)"
  by (induction ss arbitrary: k) (auto simp: sig_words_def lower_text_def)

lemma parse_section_words:
  assumes "good_section w"
  shows "parse_section s network (section_words w @ rest) = Inr (section_of network w, rest)"
proof -
  have n: "count_of (JStr (nat_str (length (ws_sigs w)))) = Some (length (ws_sigs w))"
    using assms by (intro count_of_nat) (auto simp: good_section_def good_sigs_def)
  have r: "read_sigs (length (ws_sigs w)) 0 (sig_words (ws_sigs w) @ rest) = Inr (ws_sigs w, rest)"
    using assms by (intro read_sigs_words) (simp add: good_section_def good_sigs_def)
  have "section_fields network (section_words w @ rest) (ws_sigs w) = section_of network w"
    using assms by (simp add: section_fields_def section_words_def section_of_def good_section_def js_num_val_nat)
  moreover have "word_at (section_words w @ rest) 12 = JStr (nat_str (length (ws_sigs w)))"
    "drop 13 (section_words w @ rest) = sig_words (ws_sigs w) @ rest" "\<not> length (section_words w @ rest) \<le> 12"
    by (simp_all add: section_words_def)
  ultimately show ?thesis by (simp add: parse_section_def n r)
qed

lemma parse_sections_words:
  "list_all good_section ws \<Longrightarrow>
   parse_sections (length ws) s network (concat (map section_words ws) @ rest) = Inr (map (section_of network) ws, rest)"
  by (induction ws arbitrary: s) (simp_all add: parse_section_words)

lemma parse_head_words:
  assumes "list_all good_section ws" "ws \<noteq> []" "length ws < 2 ^ 53"
  shows "parse_head version (head_words version network snapshot ws @ rest) =
    Inr (length ws, map (section_of network) ws, rest)"
  using assms count_of_nat [of "length ws"]
  by (simp add: parse_head_def head_words_def parse_sections_words)

lemma sig_words_bar:
  "list_all (\<lambda>(k, s). k \<noteq> [] \<and> s \<noteq> [] \<and> lower_text k \<and> lower_text s) ss \<Longrightarrow> list_all bar_free (sig_words ss)"
  by (induction ss) (auto simp: sig_words_def lower_text_def)

lemma nat_str_bar [simp]: "bar_free (nat_str n)"
  using nat_str_chars [of "CHR ''|''" n] digit_facts [of "CHR ''|''"] by (auto simp: bar_free_def)

lemma digit_bar [simp]: "bar_free ''0''" "bar_free ''1''"
  by (simp_all add: bar_free_def)

lemma section_words_bar: "good_section w \<Longrightarrow> list_all bar_free (section_words w)"
  by (simp add: section_words_def good_section_def good_sigs_def sig_words_bar lower_text_def)

lemma head_words_bar:
  "list_all good_section ws \<Longrightarrow> bar_free network \<Longrightarrow> list_all bar_free (head_words version network snapshot ws)"
  using section_words_bar by (auto simp: head_words_def list_all_iff)

lemma tail_words_bar: "good_sigs atts \<Longrightarrow> bar_free publisher \<Longrightarrow> list_all bar_free (tail_words publisher atts)"
  by (simp add: tail_words_def good_sigs_def sig_words_bar)

lemma archive_words_bar: "\<forall>a. wa = Some a \<longrightarrow> good_archive n a \<Longrightarrow> list_all bar_free (archive_words wa)"
  by (cases wa) (simp_all add: archive_words_def good_archive_def lower_text_def)

lemma anchor_words_wire:
  assumes "list_all bar_free ws"
  shows "anchor_words (anchor_wire ws) = ws"
proof -
  have "split_on (CHR ''|'') (join ''|'' (''ANCHOR'' # ws)) = ''ANCHOR'' # ws"
    using assms by (intro split_on_join) (auto simp: bar_free_def list_all_iff)
  moreover have "ascii_lower ''ANCHOR'' = ''anchor''" by code_simp
  ultimately show ?thesis by (simp add: anchor_words_def anchor_wire_def Let_def)
qed

lemma zero_count: "count_of (JStr (nat_str 0)) = None"
proof -
  have "nat_str 0 = ''0''" by code_simp
  moreover have "count_of (JStr ''0'') = None" by code_simp
  ultimately show ?thesis by simp
qed

lemma attestations_words: "good_sigs atts \<Longrightarrow> attestations_v0 (tail_words publisher atts) = Inr atts"
  using read_sigs_words [of atts 0 "[]"] count_of_nat [of "length atts"]
  by (cases "atts = []") (simp_all add: attestations_v0_def tail_words_def good_sigs_def sig_words_def zero_count)

lemma v3_tail_words:
  "good_sigs atts \<Longrightarrow> lower_text publisher \<Longrightarrow>
   parseAnchorV3Tail (tail_words publisher atts) = Inr (nonempty_text publisher, atts)"
  using read_sigs_words [of atts 0 "[]"]
  by (simp add: parseAnchorV3Tail_def tail_words_def good_sigs_def all_digits_nat_str)

lemma archive_words_read:
  "\<forall>a. wa = Some a \<longrightarrow> good_archive n a \<Longrightarrow>
   parse_archive n (archive_words wa @ rest) = Inr (map_option archive_of wa, rest)"
  by (cases wa) (simp_all add: archive_words_def parse_archive_def archive_of_def good_archive_def all_digits_nat_str
      js_num_val_nat not_le)

section \<open>The round trip\<close>

definition bundle_of :: "string \<Rightarrow> nat \<Rightarrow> wire_section list \<Rightarrow> string \<Rightarrow> wire_sig list \<Rightarrow> anchor_bundle" where
  "bundle_of network snapshot ws publisher atts =
     \<lparr>bn_version = 0, bn_network = network, bn_snapshot_block = JInt (int snapshot), bn_section_count = length ws,
      bn_sections = map (section_of network) ws, bn_publisher = nonempty_text publisher, bn_attestations = atts\<rparr>"

definition fold_bundle_of ::
    "string \<Rightarrow> nat \<Rightarrow> wire_section list \<Rightarrow> wire_archive option \<Rightarrow> string \<Rightarrow> wire_sig list \<Rightarrow> fold_bundle" where
  "fold_bundle_of network snapshot ws wa publisher atts =
     \<lparr>bn_version = 3, bn_network = network, bn_snapshot_block = JInt (int snapshot), bn_section_count = length ws,
      bn_sections = attach_wrapper (map (section_of network) ws) (map_option archive_of wa),
      bn_publisher = nonempty_text publisher, bn_attestations = atts, fb_archive = map_option archive_of wa\<rparr>"

lemma head_word_facts:
  "text_at (head_words v network snapshot ws @ r) 1 = network"
  "snapshot < 2 ^ 53 \<Longrightarrow> js_num_val (word_at (head_words v network snapshot ws @ r) 2) = JInt (int snapshot)"
  by (simp_all add: head_words_def js_num_val_nat)

lemma tail_word_facts: "lower_text publisher \<Longrightarrow> lowerHex (word_at (tail_words publisher atts) 0) = publisher"
  by (simp add: tail_words_def)

lemma wires_read:
  assumes "good_bundle network snapshot ws publisher atts" "\<forall>a. wa = Some a \<longrightarrow> good_archive (length ws) a"
  shows "parseAnchorV0 env (anchor_wire (head_words 0 network snapshot ws @ tail_words publisher atts)) blockIndex =
      try_bind (enforceAnchorBundleOrder env network blockIndex (map (section_of network) ws))
        (\<lambda>_. Inr (bundle_of network snapshot ws publisher atts)) \<and>
    parseAnchorV3 env (anchor_wire (head_words 3 network snapshot ws @ archive_words wa @ tail_words publisher atts))
        blockIndex =
      try_bind (enforceAnchorBundleOrder env network blockIndex (map (section_of network) ws))
        (\<lambda>_. Inr (fold_bundle_of network snapshot ws wa publisher atts))"
proof -
  note g = assms(1) [unfolded good_bundle_def]
  have bars: "list_all bar_free (head_words v network snapshot ws)" "list_all bar_free (tail_words publisher atts)"
    "list_all bar_free (archive_words wa)" for v
    using g head_words_bar tail_words_bar archive_words_bar [OF assms(2)] by (auto simp: lower_text_def)
  have head: "parse_head v (head_words v network snapshot ws @ r) = Inr (length ws, map (section_of network) ws, r)"
    for v r using g by (intro parse_head_words) simp_all
  have tails: "attestations_v0 (tail_words publisher atts) = Inr atts"
    "parseAnchorV3Tail (tail_words publisher atts) = Inr (nonempty_text publisher, atts)"
    "lowerHex (word_at (tail_words publisher atts) 0) = publisher"
    using g attestations_words v3_tail_words tail_word_facts by simp_all
  have facts: "text_at (head_words v network snapshot ws @ r) (Suc 0) = network"
    "js_num_val (word_at (head_words v network snapshot ws @ r) 2) = JInt (int snapshot)" for v r
    using g by (simp_all add: head_word_facts [unfolded One_nat_def])
  have "parseAnchorV0 env (anchor_wire (head_words 0 network snapshot ws @ tail_words publisher atts)) blockIndex =
      try_bind (enforceAnchorBundleOrder env network blockIndex (map (section_of network) ws))
        (\<lambda>_. Inr (bundle_of network snapshot ws publisher atts))"
    by (simp add: parseAnchorV0_def Let_def anchor_words_wire bars head facts tails bundle_of_def ANCHOR_BUNDLE_VERSION_def)
  moreover have "parseAnchorV3 env
        (anchor_wire (head_words 3 network snapshot ws @ archive_words wa @ tail_words publisher atts)) blockIndex =
      try_bind (enforceAnchorBundleOrder env network blockIndex (map (section_of network) ws))
        (\<lambda>_. Inr (fold_bundle_of network snapshot ws wa publisher atts))"
    using archive_words_read [OF assms(2)]
    by (simp add: parseAnchorV3_def Let_def anchor_words_wire bars head facts tails fold_bundle_of_def
        ANCHOR_FOLD_VERSION_def)
  ultimately show ?thesis by blast
qed

text \<open>
  C24: Reading inverts writing. For a bundle written by the grammar, of either version, the parser runs the order
  rule on exactly the written sections and otherwise returns every field that was written: sections in
  order with the header's network, signatures, publisher and attestations, and for the fold version the archive,
  which lands on the wrapper section alone.
\<close>

theorem anchor_wire_roundtrip:
  assumes "good_bundle network snapshot ws publisher atts" "\<forall>a. wa = Some a \<longrightarrow> good_archive (length ws) a"
  shows "parseAnchorV0 env (anchor_wire (head_words 0 network snapshot ws @ tail_words publisher atts)) blockIndex =
      try_bind (enforceAnchorBundleOrder env network blockIndex (map (section_of network) ws))
        (\<lambda>_. Inr (bundle_of network snapshot ws publisher atts)) \<and>
    parseAnchorV3 env (anchor_wire (head_words 3 network snapshot ws @ archive_words wa @ tail_words publisher atts))
        blockIndex =
      try_bind (enforceAnchorBundleOrder env network blockIndex (map (section_of network) ws))
        (\<lambda>_. Inr (fold_bundle_of network snapshot ws wa publisher atts))"
  using assms by (rule wires_read)

section \<open>Witnesses\<close>

definition demo_section :: wire_section where
  "demo_section = \<lparr>ws_chain = ''BTC'', ws_block_index = 7, ws_block_hash = ''aa'', ws_ledger_hash = ''bb'',
     ws_actions_hash = ''cc'', ws_contract_hash = ''dd'', ws_seq = 1, ws_snapshot = 5, ws_state_root = ''ab'',
     ws_state_version = 1, ws_block_root = ''cd'', ws_block_version = 1, ws_sigs = [(''0a'', ''0b'')]\<rparr>"

definition demo_archive :: wire_archive where
  "demo_archive = \<lparr>wa_wrapper = 0, wa_seq = 4, wa_count = 2, wa_crc32 = ''0f'', wa_chunks = 1, wa_b64 = ''QQ''\<rparr>"

lemma demo_good: "good_bundle ''testnet'' 9 [demo_section] ''0c'' []"
  "\<forall>a. Some demo_archive = Some a \<longrightarrow> good_archive (length [demo_section]) a"
proof -
  have "list_all lower_text [''aa'', ''bb'', ''cc'', ''dd'', ''ab'', ''cd'', ''0a'', ''0b'', ''0c'', ''0f'']
      \<and> list_all bar_free [''BTC'', ''testnet'', ''QQ''] \<and> ascii_upper ''BTC'' = ''BTC''"
    by code_simp
  then show "good_bundle ''testnet'' 9 [demo_section] ''0c'' []"
    "\<forall>a. Some demo_archive = Some a \<longrightarrow> good_archive (length [demo_section]) a"
    by (simp_all add: good_bundle_def good_section_def good_sigs_def good_archive_def demo_section_def demo_archive_def)
qed

definition demo_wire :: string where
  "demo_wire = anchor_wire (head_words 3 ''testnet'' 9 [demo_section] @ archive_words (Some demo_archive) @ tail_words ''0c'' [])"

definition demo_bundle :: fold_bundle where
  "demo_bundle = fold_bundle_of ''testnet'' 9 [demo_section] (Some demo_archive) ''0c'' []"

theorem anchor_wire_roundtrip_witness:
  "parseAnchorV3 (\<lambda>_. JUndef) demo_wire JUndef = Inr demo_bundle"
proof -
  have "enforceAnchorBundleOrder (\<lambda>_. JUndef) ''testnet'' JUndef xs = Inr ()" for xs
    by (simp add: enforceAnchorBundleOrder_def)
  then show ?thesis
    using anchor_wire_roundtrip [OF demo_good, THEN conjunct2, of "\<lambda>_. JUndef" JUndef]
    by (simp only: demo_wire_def demo_bundle_def try_bind.simps)
qed

lemma order_row:
  "map_of shipped bundle_order_key =
    Some \<lparr>g_unit = ''height'', g_value = JObj [(''mainnet'', JInt 9999999999), (''BTC:testnet'', JInt 155001),
      (''LTC:testnet'', JInt 4906040), (''DOGE:testnet'', JInt 67962387), (''testnet'', JInt 9999999999),
      (''regtest'', JInt 0)]\<rparr>"
proof (rule shipped_row)
  let ?c = "(bundle_order_key, ''height'', JObj [(''mainnet'', JInt 9999999999), (''BTC:testnet'', JInt 155001),
      (''LTC:testnet'', JInt 4906040), (''DOGE:testnet'', JInt 67962387), (''testnet'', JInt 9999999999),
      (''regtest'', JInt 0)])"
  have "rows_1a ! 0 = ?c" "0 < length rows_1a" by (simp_all add: rows_1a_def bundle_order_key_def)
  then have "?c \<in> set rows_1a" by (metis nth_mem)
  then show "?c \<in> set queued" by (simp add: queued_def)
qed

lemma parse_nat_str: "js_parseInt (JInt (int n)) = Some (int n)"
proof -
  obtain c t where c: "nat_str n = c # t" by (cases "nat_str n") auto
  then have d: "is_digit c" using nat_str_chars [of c n] by simp
  have w: "dropWhile is_ws (nat_str n) = nat_str n" using is_digit_not_ws [OF d] by (simp add: c)
  have x: "take 2 (nat_str n) \<noteq> ''0x''" "take 2 (nat_str n) \<noteq> ''0X''"
  proof -
    have "CHR ''x'' \<notin> set (nat_str n)" "CHR ''X'' \<notin> set (nat_str n)"
      using nat_str_chars [of _ n] digit_facts [of "CHR ''x''"] by (auto simp: is_digit_def)
    then show "take 2 (nat_str n) \<noteq> ''0x''" "take 2 (nat_str n) \<noteq> ''0X''"
      by (metis in_set_takeD list.set_intros)+
  qed
  have t: "takeWhile is_digit (nat_str n) = nat_str n"
    by (rule takeWhile_eq_all_conv [THEN iffD2]) (auto dest: nat_str_chars)
  have u: "parse_unsigned (nat_str n) = Some n" using x by (simp add: parse_unsigned_def t Let_def)
  have "c \<noteq> CHR ''-''" "c \<noteq> CHR ''+''" using digit_facts [OF d] by simp_all
  then have "js_parseInt (JInt (int n)) = map_option int (parse_unsigned (nat_str n))"
    by (simp add: js_parseInt_def Let_def int_str_def w) (simp add: c split: char.split bool.split)
  then show ?thesis by (simp add: u)
qed

lemma demo_enforced: "bundleOrderEnforced (\<lambda>_. JUndef) ''testnet'' (JInt 70000000)"
proof -
  have "reached (JInt 67962387) (JInt 70000000)" using parse_nat_str [of 70000000] by (simp add: reached_def)
  then show ?thesis
    by (simp add: bundleOrderEnforced_def activeAt_eq [OF cache_ok_empty order_row] resolve_overlay)
      (simp add: resolveThreshold_def obj_props_def is_nullish_def)
qed

theorem parsed_bundle_ordered_witness: "ordered_sections (bn_sections demo_bundle)"
proof -
  have "ascending [x]" for x by (simp add: ascending_def)
  then have "enforceAnchorBundleOrder (\<lambda>_. JUndef) ''testnet'' (JInt 70000000) (map (section_of ''testnet'') [demo_section]) = Inr ()"
    by (simp add: enforceAnchorBundleOrder_def sectionsChainOrderReason_def section_of_def demo_section_def
        sigsPubkeyOrderReason_def sig_entries_def)
  then have "parseAnchorV3 (\<lambda>_. JUndef) demo_wire (JInt 70000000) = Inr demo_bundle"
    using wires_read [OF demo_good, THEN conjunct2, of "\<lambda>_. JUndef" "JInt 70000000"]
    by (simp only: demo_wire_def demo_bundle_def try_bind.simps)
  moreover have "bn_network demo_bundle = ''testnet''" by (simp add: demo_bundle_def fold_bundle_of_def)
  ultimately show ?thesis using parsed_bundle_ordered [OF demo_enforced] by blast
qed

end
