(* ===== verification/AnchorVerify.thy ===== *)
theory AnchorVerify
  imports AnchorParse Online
begin

text \<open>
  Starting from nothing: \<open>verifyAnchoredCheckpoint\<close> and \<open>fetchAnchoredCheckpoint\<close> of
  \<open>protocol/light_client/anchored_checkpoint.js\<close> with \<open>fold_archive_attach.js\<close>.

  An explorer's body and its rows are dynamically typed values. The two callbacks of the caller are their
  answers: \<open>fo_getDogeTipHeight\<close> is the height it returns, \<open>fo_getDogeTxHeight\<close> a function of the hash. The
  order \<open>sort\<close> gives rows whose sequence is \<open>NaN\<close> is the engine's own; here they stay where they are.
\<close>

section \<open>Rows\<close>

definition anchor_fold_key :: string where
  "anchor_fold_key = ''anchor_fold_activation.ANCHOR_FOLD_ACTIVATION''"

definition isCheckpointSectionRow :: "(string \<Rightarrow> jsval) \<Rightarrow> jsval \<Rightarrow> jsval \<Rightarrow> bool" where
  "isCheckpointSectionRow env r dogeHeight \<longleftrightarrow>
     (let v = js_Number (js_prop r ''version'') in
      v = Num (of_nat ANCHOR_BUNDLE_VERSION) \<or>
      v = Num (of_nat ANCHOR_FOLD_VERSION) \<and>
        activeAt shipped [] env anchor_fold_key (JStr (js_string (js_prop r ''network''))) (JStr ''DOGE'')
          (js_num_val dogeHeight) JNull = Inr True)"

text \<open>The fields of a row that a checkpoint is read from.\<close>

definition row_checkpoint :: "jsval \<Rightarrow> checkpoint" where
  "row_checkpoint r =
     \<lparr>cp_chain = js_prop r ''chain'', cp_network = js_prop r ''network'', cp_block_index = js_prop r ''block_index'',
      cp_block_hash = js_prop r ''block_hash'', cp_ledger_hash = js_prop r ''ledger_hash'',
      cp_actions_hash = js_prop r ''actions_hash'', cp_contract_hash = js_prop r ''contract_hash'',
      cp_checkpoint_seq = js_prop r ''checkpoint_seq'', cp_snapshot_block = js_prop r ''snapshot_block'',
      cp_state_root = js_prop r ''state_root'', cp_block_merkle_root = js_prop r ''block_merkle_root'',
      cp_state_root_version = js_prop r ''state_root_version'',
      cp_block_merkle_version = js_prop r ''block_merkle_version'', cp_supersedes_from = js_prop r ''supersedes_from'',
      cp_rules_digest = js_prop r ''rules_digest'', cp_superseded_by_seq = js_prop r ''superseded_by_seq'',
      cp_fold_archive = JUndef, cp_validator_signatures = js_prop r ''validator_signatures''\<rparr>"

definition FOLD_FIELDS :: "string list" where
  "FOLD_FIELDS = [''match_batch_seq'', ''match_count'', ''batch_crc32'', ''total_chunks'']"

definition has_fold :: "jsval \<Rightarrow> bool" where
  "has_fold r \<longleftrightarrow> list_all (\<lambda>k. \<not> is_nullish (js_prop r k)) FOLD_FIELDS"

definition row_fold :: "jsval \<Rightarrow> jsval" where
  "row_fold r =
     JObj [(''match_batch_seq'', js_prop r ''match_batch_seq''), (''match_count'', js_prop r ''match_count''),
           (''batch_crc32'', JStr (lowerHex (js_prop r ''batch_crc32''))), (''total_chunks'', js_prop r ''total_chunks'')]"

definition anchorToCheckpoint :: "(string \<Rightarrow> jsval option) \<Rightarrow> jsval \<Rightarrow> checkpoint" where
  "anchorToCheckpoint jparse a =
     (let row = row_checkpoint a in
      row\<lparr>cp_block_index := js_num_val (cp_block_index row), cp_checkpoint_seq := js_num_val (cp_checkpoint_seq row),
          cp_snapshot_block := js_num_val (cp_snapshot_block row),
          cp_supersedes_from := (if is_nullish (cp_supersedes_from row) then JNull else js_num_val (cp_supersedes_from row)),
          cp_rules_digest := (case ss_digest (supersessionFields (Some row)) of None \<Rightarrow> JNull | Some d \<Rightarrow> JStr d),
          cp_superseded_by_seq := JUndef,
          cp_validator_signatures := JArr (signature_list jparse (cp_validator_signatures row)),
          cp_fold_archive :=
            (if js_Number (js_prop a ''version'') = Num (of_nat ANCHOR_FOLD_VERSION) \<and> has_fold a then row_fold a
             else JUndef)\<rparr>)"

text \<open>\<open>Array.isArray(body) ? body : ((body && (body.data || body.results || body.rows)) || [])\<close>\<close>

definition body_rows :: "jsval \<Rightarrow> jsval" where
  "body_rows body =
     (case body of
        JArr xs \<Rightarrow> body
      | _ \<Rightarrow>
          if \<not> js_truthy body then JArr []
          else if js_truthy (js_prop body ''data'') then js_prop body ''data''
          else if js_truthy (js_prop body ''results'') then js_prop body ''results''
          else if js_truthy (js_prop body ''rows'') then js_prop body ''rows''
          else JArr [])"

definition row_seq :: "jsval \<Rightarrow> jsnum" where
  "row_seq r = js_Number (js_prop r ''checkpoint_seq'')"

fun insert_row :: "jsval \<Rightarrow> jsval list \<Rightarrow> jsval list" where
  "insert_row r [] = [r]"
| "insert_row r (x # xs) = (if num_lt (row_seq x) (row_seq r) then r # x # xs else x # insert_row r xs)"

definition sort_rows :: "jsval list \<Rightarrow> jsval list" where
  "sort_rows rows = foldl (\<lambda>acc r. insert_row r acc) [] rows"

definition row_matches :: "(string \<Rightarrow> jsval) \<Rightarrow> jsval \<Rightarrow> jsval \<Rightarrow> bool" where
  "row_matches env targetChain r \<longleftrightarrow>
     js_truthy r \<and> isCheckpointSectionRow env r (js_prop r ''block_index_doge'') \<and>
     js_truthy (js_prop r ''state_root'') \<and>
     ascii_upper (js_string (js_prop r ''chain'')) = ascii_upper (js_string targetChain)"

text \<open>\<open>None\<close> where the rows are no array, which throws.\<close>

definition anchoredCheckpointRows :: "(string \<Rightarrow> jsval) \<Rightarrow> jsval \<Rightarrow> jsval \<Rightarrow> jsval list option" where
  "anchoredCheckpointRows env body targetChain =
     (case body_rows body of
        JArr rows \<Rightarrow> Some (sort_rows (filter (row_matches env targetChain) rows))
      | _ \<Rightarrow> None)"

section \<open>The folded archive\<close>

text \<open>\<open>lowerHex(s && s.k)\<close>\<close>

definition sig_part :: "jsval \<Rightarrow> string \<Rightarrow> string" where
  "sig_part s k = lowerHex (if js_truthy s then js_prop s k else s)"

text \<open>The list of pairs stands for its \<open>JSON.stringify\<close>, which is injective on lists of pairs of texts.\<close>

definition signatureKey :: "(string \<Rightarrow> jsval option) \<Rightarrow> jsval \<Rightarrow> (string \<times> string) list option" where
  "signatureKey jparse sigs =
     (case (case sigs of JStr s \<Rightarrow> jparse s | v \<Rightarrow> Some v) of
        Some (JArr xs) \<Rightarrow>
          if xs = [] then None else Some (map (\<lambda>s. (sig_part s ''pubkey'', sig_part s ''sig'')) xs)
      | _ \<Rightarrow> None)"

definition fold_candidate :: "(string \<Rightarrow> jsval option) \<Rightarrow> checkpoint \<Rightarrow> jsval \<Rightarrow> bool" where
  "fold_candidate jparse cp s \<longleftrightarrow>
     js_truthy s \<and> (is_nullish (js_prop s ''chain'') \<or> js_string (js_prop s ''chain'') = []) \<and> has_fold s \<and>
     signatureKey jparse (js_prop s ''validator_signatures'') = signatureKey jparse (cp_validator_signatures cp)"

definition attachFoldArchive :: "(string \<Rightarrow> jsval option) \<Rightarrow> checkpoint \<Rightarrow> jsval \<Rightarrow> checkpoint" where
  "attachFoldArchive jparse cp sections =
     (if js_truthy (cp_fold_archive cp) \<or> signatureKey jparse (cp_validator_signatures cp) = None then cp
      else
        (case sections of
           JArr xs \<Rightarrow>
             (case filter (fold_candidate jparse cp) xs of
                [a] \<Rightarrow> cp\<lparr>cp_fold_archive := row_fold a\<rparr>
              | _ \<Rightarrow> cp)
         | _ \<Rightarrow> cp))"

text \<open>The sections of the detail record: the body itself, or the record under \<open>data\<close> or \<open>results\<close>.\<close>

definition detail_row :: "jsval \<Rightarrow> jsval" where
  "detail_row body =
     (let row =
        (if js_truthy body \<and> (case js_prop body ''sections'' of JArr xs \<Rightarrow> True | _ \<Rightarrow> False) then body
         else if js_truthy body \<and> js_truthy (js_prop body ''data'') then js_prop body ''data''
         else if js_truthy body \<and> js_truthy (js_prop body ''results'') then js_prop body ''results''
         else JNull) in
      case row of JArr xs \<Rightarrow> (case xs of [] \<Rightarrow> JUndef | x # _ \<Rightarrow> x) | _ \<Rightarrow> row)"

definition anchor_url :: "jsval \<Rightarrow> jsval \<Rightarrow> jsval \<Rightarrow> string" where
  "anchor_url explorerUrl dogeCoin ref =
     baseUrl explorerUrl @ ''/'' @ encodeURIComponent (js_string dogeCoin) @ ''/api/anchor/'' @ encodeURIComponent (js_string ref)"

definition attachFoldArchiveFromExplorer ::
    "(string \<Rightarrow> jsval option) \<Rightarrow> (string \<Rightarrow> jsval http_reply) \<Rightarrow> jsval \<Rightarrow> jsval \<Rightarrow> jsval \<Rightarrow> checkpoint \<Rightarrow> checkpoint" where
  "attachFoldArchiveFromExplorer jparse f explorerUrl dogeCoin rec cp =
     (let ref = (if is_nullish (js_prop rec ''action_index'') then js_prop rec ''tx_hash''
                 else js_prop rec ''action_index'') in
      if is_nullish ref then cp
      else
        (case fetchJson f (anchor_url explorerUrl dogeCoin ref) of
           Inl e \<Rightarrow> cp
         | Inr body \<Rightarrow>
             (let row = detail_row body in
              attachFoldArchive jparse cp (if js_truthy row then js_prop row ''sections'' else row))))"

section \<open>The verdict on an anchored checkpoint\<close>

record anchored_result =
  an_verified :: bool
  an_reason :: "string option"
  an_checkpoint :: "checkpoint option"
  an_confirmations :: jsnum
  an_minDepth :: jsnum
  an_quorum :: "nat option"
  an_weighted :: "bool option"

definition DEFAULT_ANCHOR_MIN_DEPTH :: nat where
  "DEFAULT_ANCHOR_MIN_DEPTH = 60"

definition min_depth :: "jsval \<Rightarrow> jsnum" where
  "min_depth v = (if is_nullish v then Num (of_nat DEFAULT_ANCHOR_MIN_DEPTH) else js_Number v)"

definition no_rows :: snapshot where
  "no_rows = \<lparr>sn_rows = [], sn_truncated = False\<rparr>"

text \<open>\<open>opts.validators || []\<close>; what is no array throws when it is used.\<close>

definition rows_of_set :: "set_arg \<Rightarrow> fetch_error + snapshot" where
  "rows_of_set v =
     (case v of
        NullSet \<Rightarrow> Inr no_rows
      | GivenSet sn \<Rightarrow> Inr sn
      | ServedSet x \<Rightarrow> if js_truthy x then set_of_js x else Inr no_rows)"

definition roots_absent :: "checkpoint \<Rightarrow> bool" where
  "roots_absent cp \<longleftrightarrow>
     is_nullish (cp_state_root cp) \<or> is_nullish (cp_block_merkle_root cp) \<or>
     js_string (cp_state_root cp) = [] \<or> js_string (cp_block_merkle_root cp) = []"

definition anchor_root :: "jsval \<Rightarrow> bool" where
  "anchor_root v = hex_text 64 (js_string v)"

definition anchor_version :: "jsval \<Rightarrow> bool" where
  "anchor_version v = all_digits (js_string v)"

definition judge_anchored ::
    "(rat \<Rightarrow> rat) \<Rightarrow> (bytes \<Rightarrow> bytes \<Rightarrow> bytes \<Rightarrow> bool) \<Rightarrow> (string \<Rightarrow> jsval option) \<Rightarrow> checkpoint option \<Rightarrow> set_arg \<Rightarrow>
     jsnum \<Rightarrow> jsnum \<Rightarrow> fetch_error + anchored_result" where
  "judge_anchored rnd ed jparse checkpoint validators confirmations minDepth =
     (case checkpoint of
        None \<Rightarrow>
          Inr \<lparr>an_verified = False, an_reason = Some ''NO_CHECKPOINT'', an_checkpoint = None, an_confirmations = Num 0,
               an_minDepth = minDepth, an_quorum = None, an_weighted = None\<rparr>
      | Some cp \<Rightarrow>
          (let result = (\<lambda>v r q g. \<lparr>an_verified = v, an_reason = r, an_checkpoint = Some cp,
                   an_confirmations = (if js_isFinite confirmations then confirmations else Num 0),
                   an_minDepth = minDepth, an_quorum = q, an_weighted = g\<rparr>) in
           if roots_absent cp then Inr (result False (Some ''NOT_A_V3_ANCHOR'') None None)
           else if \<not> commitmentActive (Some cp) \<or> \<not> anchor_version (cp_state_root_version cp) \<or>
                   \<not> anchor_version (cp_block_merkle_version cp)
           then Inr (result False (Some ''ROOTS_NOT_SIGNED'') None None)
           else if \<not> anchor_root (cp_state_root cp) \<or> \<not> anchor_root (cp_block_merkle_root cp)
           then Inr (result False (Some ''MALFORMED_ROOT'') None None)
           else
             try_bind (rows_of_set validators) (\<lambda>sn.
               (let q = verifyCheckpoint rnd ed jparse (Some cp) sn;
                    extended = (\<lambda>v r. Inr (result v r (Some (cv_quorum q)) (Some (cv_weighted q)))) in
                if \<not> cv_valid q then extended False (Some ''CHECKPOINT_QUORUM_FAILED'')
                else if \<not> (js_isFinite confirmations \<and> num_le minDepth confirmations)
                then extended False (Some ''INSUFFICIENT_DOGE_DEPTH'')
                else extended True None))))"

definition verifyAnchoredCheckpoint ::
    "(rat \<Rightarrow> rat) \<Rightarrow> (bytes \<Rightarrow> bytes \<Rightarrow> bytes \<Rightarrow> bool) \<Rightarrow> (string \<Rightarrow> jsval option) \<Rightarrow> checkpoint option \<Rightarrow> set_arg \<Rightarrow>
     jsval \<Rightarrow> jsval \<Rightarrow> fetch_error + anchored_result" where
  "verifyAnchoredCheckpoint rnd ed jparse checkpoint validators confirmations minDepth =
     judge_anchored rnd ed jparse checkpoint validators (js_Number confirmations) (min_depth minDepth)"

section \<open>Fetching an anchored checkpoint\<close>

fun num_sub :: "jsnum \<Rightarrow> jsnum \<Rightarrow> jsnum" where
  "num_sub (Num a) (Num b) = js_round (a - b)"
| "num_sub NaN b = NaN"
| "num_sub a NaN = NaN"
| "num_sub PosInf PosInf = NaN"
| "num_sub NegInf NegInf = NaN"
| "num_sub PosInf b = PosInf"
| "num_sub NegInf b = NegInf"
| "num_sub a PosInf = NegInf"
| "num_sub a NegInf = PosInf"

text \<open>\<open>tip - height + 1\<close>\<close>

definition depth_of :: "jsval \<Rightarrow> jsval \<Rightarrow> jsnum" where
  "depth_of tip height =
     (if is_nullish tip \<or> is_nullish height then NaN
      else num_sub (num_sub (js_Number tip) (js_Number height)) (Num (- 1)))"

record fetch_opts = call_opts +
  fo_dogeCoin :: jsval
  fo_network :: jsval
  fo_minDepth :: jsval
  fo_targetChain :: jsval
  fo_targetCoin :: jsval
  fo_allowSuperseded :: bool
  fo_dogeTipHeight :: jsval
  fo_getDogeTipHeight :: "jsval option"
  fo_dogeTxHeight :: jsval
  fo_getDogeTxHeight :: "(jsval \<Rightarrow> jsval) option"
  fo_requireTrustedDepth :: bool

datatype anchored_error = RowsNotArray | AnchorFetch fetch_error

definition anchors_url :: "jsval \<Rightarrow> jsval \<Rightarrow> jsval \<Rightarrow> string" where
  "anchors_url explorerUrl dogeCoin targetChain =
     baseUrl explorerUrl @ ''/'' @ encodeURIComponent (js_string dogeCoin) @ ''/api/anchors/'' @
     encodeURIComponent (js_string targetChain) @ ''/chain''"

text \<open>\<open>v || null\<close>\<close>

definition or_null :: "jsval \<Rightarrow> jsval" where
  "or_null v = (if js_truthy v then v else JNull)"

definition tip_height :: "fetch_opts \<Rightarrow> jsval" where
  "tip_height opts =
     (if is_nullish (fo_dogeTipHeight opts)
      then (case fo_getDogeTipHeight opts of None \<Rightarrow> fo_dogeTipHeight opts | Some v \<Rightarrow> v)
      else fo_dogeTipHeight opts)"

definition caller_height :: "fetch_opts \<Rightarrow> jsval \<Rightarrow> jsval" where
  "caller_height opts rec =
     (if is_nullish (fo_dogeTxHeight opts)
      then (case fo_getDogeTxHeight opts of None \<Rightarrow> fo_dogeTxHeight opts | Some g \<Rightarrow> g (or_null (js_prop rec ''tx_hash'')))
      else fo_dogeTxHeight opts)"

record fetched = anchored_result +
  fx_anchor :: jsval
  fx_dogeTxid :: jsval
  fx_depthSource :: "string option"
  fx_supersession :: "supersession option"

definition with_anchor ::
    "anchored_result \<Rightarrow> jsval \<Rightarrow> string option \<Rightarrow> supersession option \<Rightarrow> fetched" where
  "with_anchor r rec source ss =
     anchored_result.extend r
       (fetched.fields rec (if is_nullish rec then JNull else or_null (js_prop rec ''tx_hash'')) source ss)"

definition unverified_anchor :: "string \<Rightarrow> checkpoint option \<Rightarrow> jsnum \<Rightarrow> anchored_result" where
  "unverified_anchor r cp minDepth =
     \<lparr>an_verified = False, an_reason = Some r, an_checkpoint = cp, an_confirmations = Num 0, an_minDepth = minDepth,
      an_quorum = None, an_weighted = None\<rparr>"

definition depth_refusal :: "(string \<Rightarrow> jsval) \<Rightarrow> fetch_opts \<Rightarrow> jsval \<Rightarrow> string option" where
  "depth_refusal env opts rec =
     (if fo_requireTrustedDepth opts \<and> is_nullish (caller_height opts rec) then Some ''UNTRUSTED_DOGE_DEPTH''
      else if \<not> is_nullish (caller_height opts rec) \<and> \<not> isCheckpointSectionRow env rec (caller_height opts rec)
      then Some ''ANCHOR_FOLD_NOT_ACTIVE''
      else None)"

text \<open>The checkpoint of the row, with the fold of its archive row where the list row carries none.\<close>

definition folded_checkpoint ::
    "(string \<Rightarrow> jsval option) \<Rightarrow> (string \<Rightarrow> jsval http_reply) \<Rightarrow> jsval \<Rightarrow> jsval \<Rightarrow> jsval \<Rightarrow> checkpoint" where
  "folded_checkpoint jparse f explorerUrl dogeCoin rec =
     (let cp = anchorToCheckpoint jparse rec in
      if js_Number (js_prop rec ''version'') = Num (of_nat ANCHOR_FOLD_VERSION) \<and> \<not> js_truthy (cp_fold_archive cp)
      then attachFoldArchiveFromExplorer jparse f explorerUrl dogeCoin rec cp
      else cp)"

definition fetchAnchoredCheckpoint ::
    "world \<Rightarrow> (string \<Rightarrow> jsval) \<Rightarrow> (string \<Rightarrow> jsval http_reply) \<Rightarrow> set_cache \<Rightarrow> fetch_opts \<Rightarrow>
     set_cache \<times> (anchored_error + fetched)" where
  "fetchAnchoredCheckpoint w env f cache opts =
     (case networkContextCoin (fo_dogeCoin opts) (fo_network opts) ''DOGE'' JUndef of
        Inl e \<Rightarrow> (cache, Inl (AnchorFetch (FollowFailed e)))
      | Inr dogeCoin \<Rightarrow>
          (case fetchJson f (anchors_url (vo_explorerUrl opts) dogeCoin (fo_targetChain opts)) of
             Inl e \<Rightarrow> (cache, Inl (AnchorFetch e))
           | Inr body \<Rightarrow>
               (case anchoredCheckpointRows env body (fo_targetChain opts) of
                  None \<Rightarrow> (cache, Inl RowsNotArray)
                | Some [] \<Rightarrow>
                    (cache, Inr (with_anchor (unverified_anchor ''NO_ROOT_ANCHOR'' None (min_depth (fo_minDepth opts)))
                                   JNull None None))
                | Some (rec # _) \<Rightarrow>
                    (let minDepth = min_depth (fo_minDepth opts); cp = anchorToCheckpoint (w_parse w) rec;
                         row = Some (row_checkpoint rec); ss = Some (supersessionFields row) in
                     if refuseSuperseded row (fo_allowSuperseded opts) \<noteq> None
                     then (cache, Inr (with_anchor (unverified_anchor ''CHECKPOINT_SUPERSEDED'' (Some cp) minDepth)
                                         rec None ss))
                     else
                       (let height = caller_height opts rec;
                            source = (if is_nullish height then ''explorer'' else ''caller'') in
                        case depth_refusal env opts rec of
                          Some r \<Rightarrow>
                            (cache, Inr (with_anchor (unverified_anchor r (Some cp) minDepth) rec (Some source) ss))
                        | None \<Rightarrow>
                            (let confirmations = depth_of (tip_height opts)
                                   (if is_nullish height then js_prop rec ''block_index_doge'' else height);
                                 cp' = folded_checkpoint (w_parse w) f (vo_explorerUrl opts) dogeCoin rec;
                                 targetCoin = (if js_text (fo_targetCoin opts) = [] then JNull else fo_targetCoin opts) in
                             case resolveValidatorSet w cache (call_opts.truncate opts) cp' targetCoin of
                               (cache', Inl e) \<Rightarrow> (cache', Inl (AnchorFetch e))
                             | (cache', Inr vs) \<Rightarrow>
                                 (cache',
                                  case judge_anchored (w_round w) (w_ed w) (w_parse w) (Some cp') vs confirmations minDepth of
                                    Inl e \<Rightarrow> Inl (AnchorFetch e)
                                  | Inr r \<Rightarrow> Inr (with_anchor r rec (Some source) ss))))))))"

section \<open>What the verdict says\<close>

lemma anchor_root_present: "anchor_root v \<Longrightarrow> \<not> is_nullish v \<and> js_string v \<noteq> []"
  by (auto simp: anchor_root_def hex_text_def is_nullish_def)

lemma anchor_version_present: "anchor_version v \<Longrightarrow> \<not> is_nullish v"
  by (auto simp: anchor_version_def all_digits_def is_nullish_def is_digit_def)

lemma judge_verified:
  assumes "judge_anchored rnd ed jparse (Some cp) vs conf md = Inr r"
  shows "an_verified r \<longleftrightarrow>
    commitmentActive (Some cp) \<and> anchor_version (cp_state_root_version cp) \<and> anchor_version (cp_block_merkle_version cp) \<and>
    anchor_root (cp_state_root cp) \<and> anchor_root (cp_block_merkle_root cp) \<and>
    (\<exists>sn. rows_of_set vs = Inr sn \<and> cv_valid (verifyCheckpoint rnd ed jparse (Some cp) sn)) \<and>
    js_isFinite conf \<and> num_le md conf"
  using assms anchor_root_present
  by (auto simp: judge_anchored_def Let_def roots_absent_def try_bind_Inr split: if_splits)

lemma active_signs_roots:
  assumes "anchor_version (cp_state_root_version cp)" "anchor_version (cp_block_merkle_version cp)"
    and "anchor_root (cp_state_root cp)" "anchor_root (cp_block_merkle_root cp)"
  shows "commitmentActive (Some cp) = signs_roots cp"
  using assms anchor_root_present anchor_version_present by (simp add: commitmentActive_def signs_roots_def)

text \<open>
  The verdict on an anchored checkpoint. It is verified exactly when both roots are 64 hex digits, both versions
  decimal, all four of them inside the signed text, the checkpoint valid for the given set, and the depth
  a finite number of at least the minimum. So an unsigned root, a missing set and a depth that is not a number all fail closed.
\<close>

theorem anchored_verdict_exact:
  assumes "judge_anchored rnd ed jparse (Some cp) vs conf md = Inr r"
  shows "an_verified r \<longleftrightarrow>
    signs_roots cp \<and> anchor_version (cp_state_root_version cp) \<and> anchor_version (cp_block_merkle_version cp) \<and>
    anchor_root (cp_state_root cp) \<and> anchor_root (cp_block_merkle_root cp) \<and>
    (\<exists>sn. rows_of_set vs = Inr sn \<and> cv_valid (verifyCheckpoint rnd ed jparse (Some cp) sn)) \<and>
    (\<exists>d. conf = Num d \<and> num_le md conf)"
  unfolding judge_verified [OF assms] js_isFinite_iff using active_signs_roots [of cp] by blast

section \<open>Verified roots are signed roots\<close>

lemma commitment_is_weighted:
  assumes "isCheckpointCommitmentActive sb net"
  shows "isStakeWeightedQuorumActive sb net"
proof -
  have "\<exists>n. net = JStr n" using assms
    by (cases net) (simp_all add: isCheckpointCommitmentActive_def activeAt_def commitment_row)
  then obtain n where n: "net = JStr n" by blast
  let ?t = "[(''mainnet'', JInt 961000), (''testnet'', JInt 146000), (''regtest'', JInt 0)]"
  have r: "reached (get_prop ?t n) sb" using assms by (simp add: n commitment_active_eq)
  then obtain c where c: "js_parseInt sb = Some c" by (auto simp: reached_def split: option.splits)
  have "n = ''mainnet'' \<and> 961000 \<le> c \<or> n = ''testnet'' \<and> 146000 \<le> c \<or> n = ''regtest'' \<and> 0 \<le> c"
    using r by (auto simp: reached_def c get_prop_def split: if_splits)
  then show ?thesis
    by (auto simp: isStakeWeightedQuorumActive_def n c STAKE_WEIGHTED_QUORUM_ACTIVATION_def gate_table_def
        stake_weighted_row obj_props_def get_prop_def at_threshold_def)
qed

text \<open>The keys of a set that signed a text, and the stake rows they own.\<close>

definition signing_rows ::
    "(bytes \<Rightarrow> bytes \<Rightarrow> bytes \<Rightarrow> bool) \<Rightarrow> (string \<Rightarrow> jsval option) \<Rightarrow> checkpoint \<Rightarrow> string \<Rightarrow> jsval list \<Rightarrow> jsval list" where
  "signing_rows ed jparse cp t rows =
     owned_rows rows (valid_signers ed t (\<lambda>pk. pk \<in> set (map qualified_key rows))
       (signature_list jparse (cp_validator_signatures cp)))"

lemma weighted_valid:
  assumes "exact64 rnd" "small_stakes (sn_rows sn)" "cv_valid (verifyCheckpoint rnd ed jparse (Some cp) sn)"
    and "isStakeWeightedQuorumActive (cp_snapshot_block cp) (cp_network cp)"
  obtains t where "canonicalCheckpoint (Some cp) = Inr t"
    and "2 * stake (first_rows [] (sn_rows sn)) < 3 * stake (signing_rows ed jparse cp t (sn_rows sn))"
proof -
  obtain t where t: "canonicalCheckpoint (Some cp) = Inr t"
    using assms(3) by (cases "canonicalCheckpoint (Some cp)") (simp_all add: verifyCheckpoint_def tryCanonicalCheckpoint_def Let_def)
  let ?q = "\<lambda>pk. pk \<in> set (map qualified_key (sn_rows sn))"
  let ?sigs = "signature_list jparse (cp_validator_signatures cp)"
  let ?loop = "sigLoop ed t ?q [] ?sigs"
  have set: "set ?loop = valid_signers ed t ?q ?sigs" by (simp add: sigLoop_set)
  have m: "meetsStakeThreshold rnd sn (map JStr ?loop)"
    using assms(3) unfolding verifyCheckpoint_def tryCanonicalCheckpoint_def Let_def t sum.case option.case prod.case
    by (cases "commitmentMissing (Some cp) \<or> supersessionDisallowed (Some cp)") (simp_all add: assms(4))
  have "signed_rows (sn_rows sn) (map JStr ?loop) = signing_rows ed jparse cp t (sn_rows sn)"
    unfolding signing_rows_def set [symmetric] using set valid_signers_lower by (intro signed_rows_keys) blast
  then have "2 * stake (first_rows [] (sn_rows sn)) < 3 * stake (signing_rows ed jparse cp t (sn_rows sn))"
    using meets_exact [OF assms(1,2) meets_well_formed [OF m], THEN iffD1, OF m] by simp
  with t show thesis by (rule that)
qed

abbreviation with_roots :: "checkpoint \<Rightarrow> string \<Rightarrow> string \<Rightarrow> checkpoint" where
  "with_roots cp x y \<equiv> cp\<lparr>cp_state_root := JStr x, cp_block_merkle_root := JStr y\<rparr>"

definition around_roots :: "checkpoint \<Rightarrow> string list \<times> string list" where
  "around_roots cp =
     ((if wraps cp then header_fields cp else []) @ base_fields cp,
      (if signs_supersede cp then supersede_fields cp else []) @ (if folds cp then fold_fields (cp_fold_archive cp) else []))"

lemma segments_around: "signs_roots cp \<Longrightarrow> segments cp = fst (around_roots cp) @ root_fields cp @ snd (around_roots cp)"
  by (simp add: segments_def around_roots_def)

lemma around_with_roots: "around_roots (with_roots cp x y) = around_roots cp"
  by (simp add: around_roots_def root_update_parts wraps_def header_fields_def folds_def signs_supersede_def
      supersede_fields_def)

lemma with_roots_signs: "signs_roots cp \<Longrightarrow> signs_roots (with_roots cp x y)"
  by (simp add: signs_roots_def is_nullish_def)

lemma join_middle:
  assumes "xs \<noteq> []" "ys \<noteq> []" "zs \<noteq> []" "join sep (xs @ ys @ ws) = join sep (xs @ zs @ ws)"
  shows "join sep ys = join sep zs"
proof (cases "ws = []")
  case True
  with assms show ?thesis by (simp add: join_append)
next
  case False
  then have "join sep ys @ sep @ join sep ws = join sep zs @ sep @ join sep ws"
    using assms by (simp add: join_append)
  then show ?thesis by (metis append_same_eq append_assoc)
qed

lemma canonical_roots:
  assumes "signs_roots cp" "canonicalCheckpoint (Some cp) = Inr t" "canonicalCheckpoint (Some (with_roots cp x y)) = Inr t"
    and "length x = length (js_string (cp_state_root cp))" "length y = length (js_string (cp_block_merkle_root cp))"
  shows "ascii_lower x = ascii_lower (js_string (cp_state_root cp)) \<and>
    ascii_lower y = ascii_lower (js_string (cp_block_merkle_root cp))"
proof -
  let ?a = "fst (around_roots cp)" and ?b = "snd (around_roots cp)"
  have "join ''|'' (?a @ root_fields cp @ ?b) = join ''|'' (?a @ root_fields (with_roots cp x y) @ ?b)"
    using canonical_segments [OF assms(2)] canonical_segments [OF assms(3)] segments_around [OF assms(1)]
      segments_around [OF with_roots_signs [OF assms(1), where x = x and y = y]] by (simp add: around_with_roots)
  then have "join ''|'' (root_fields cp) = join ''|'' (root_fields (with_roots cp x y))"
    by (rule join_middle [rotated 3]) (simp_all add: around_roots_def)
  then show ?thesis using assms(4,5) by (simp add: root_fields_def ascii_lower_def)
qed

text \<open>
  C4: Adopting an anchored checkpoint needs two thirds of the stake behind its very roots, whatever the caller's count
  rule: the sources whose keys signed its canonical text own more than two thirds of the deciding set, and no other
  pair of well-formed roots put into the same row gives that text. The republishing of an old signature with new roots,
  which the comment in the code describes, cannot verify.
\<close>

theorem anchored_roots_signed:
  assumes "judge_anchored rnd ed jparse (Some cp) vs conf md = Inr r" "an_verified r" "exact64 rnd"
    and "\<forall>sn. rows_of_set vs = Inr sn \<longrightarrow> small_stakes (sn_rows sn)"
  shows "\<exists>t sn. canonicalCheckpoint (Some cp) = Inr t \<and> rows_of_set vs = Inr sn \<and>
    2 * stake (first_rows [] (sn_rows sn)) < 3 * stake (signing_rows ed jparse cp t (sn_rows sn)) \<and>
    (\<forall>x y. hex_text 64 x \<and> hex_text 64 y \<and> canonicalCheckpoint (Some (with_roots cp x y)) = Inr t \<longrightarrow>
       ascii_lower x = lowerHex (cp_state_root cp) \<and> ascii_lower y = lowerHex (cp_block_merkle_root cp))"
proof -
  note v = judge_verified [OF assms(1), THEN iffD1, OF assms(2)]
  then obtain sn where sn: "rows_of_set vs = Inr sn" "cv_valid (verifyCheckpoint rnd ed jparse (Some cp) sn)" by blast
  have "isStakeWeightedQuorumActive (cp_snapshot_block cp) (cp_network cp)"
    using v by (intro commitment_is_weighted) (simp add: commitmentActive_def)
  with sn assms(3,4) obtain t where t: "canonicalCheckpoint (Some cp) = Inr t"
    "2 * stake (first_rows [] (sn_rows sn)) < 3 * stake (signing_rows ed jparse cp t (sn_rows sn))"
    by (blast elim: weighted_valid)
  have roots: "anchor_root (cp_state_root cp)" "anchor_root (cp_block_merkle_root cp)" using v by blast+
  have signs: "signs_roots cp" using v active_signs_roots by blast
  have "ascii_lower x = lowerHex (cp_state_root cp) \<and> ascii_lower y = lowerHex (cp_block_merkle_root cp)"
    if "hex_text 64 x" "hex_text 64 y" "canonicalCheckpoint (Some (with_roots cp x y)) = Inr t" for x y
  proof -
    have "length x = length (js_string (cp_state_root cp))" "length y = length (js_string (cp_block_merkle_root cp))"
      using that roots by (simp_all add: anchor_root_def hex_text_def)
    from canonical_roots [OF signs t(1) that(3) this] show ?thesis
      using anchor_root_present [OF roots(1)] anchor_root_present [OF roots(2)] by (simp add: lowerHex_def js_text_def)
  qed
  with sn(1) t show ?thesis by blast
qed

section \<open>The latest row\<close>

lemma set_insert_row [simp]: "set (insert_row r rows) = insert r (set rows)"
  by (induction r rows rule: insert_row.induct) auto

lemma set_sort_fold: "set (foldl (\<lambda>acc r. insert_row r acc) acc rows) = set acc \<union> set rows"
  by (induction rows arbitrary: acc) auto

lemma set_sort_rows [simp]: "set (sort_rows rows) = set rows"
  by (simp add: sort_rows_def set_sort_fold)

definition latest_first :: "jsval list \<Rightarrow> bool" where
  "latest_first = sorted_wrt (\<lambda>a b. num_le (row_seq b) (row_seq a))"

lemma num_le_trans: "num_le a b \<Longrightarrow> num_le b c \<Longrightarrow> num_le a c"
  by (cases a; cases b; cases c) auto

lemma num_le_total: "a \<noteq> NaN \<Longrightarrow> b \<noteq> NaN \<Longrightarrow> \<not> num_lt a b \<Longrightarrow> num_le b a"
  by (cases a; cases b) auto

lemma num_lt_le: "num_lt a b \<Longrightarrow> num_le a b"
  by (cases a; cases b) auto

lemma num_le_refl [simp]: "a \<noteq> NaN \<Longrightarrow> num_le a a"
  by (cases a) auto

lemma insert_row_latest:
  assumes "latest_first rows" "\<forall>x\<in>set (r # rows). row_seq x \<noteq> NaN"
  shows "latest_first (insert_row r rows)"
  using assms
proof (induction r rows rule: insert_row.induct)
  case (2 r x xs)
  show ?case
  proof (cases "num_lt (row_seq x) (row_seq r)")
    case True
    then have "num_le (row_seq y) (row_seq r)" if "y \<in> set (x # xs)" for y
      using 2(2) num_lt_le num_le_trans that by (auto simp: latest_first_def)
    with 2(2) True show ?thesis by (auto simp: latest_first_def)
  next
    case False
    then have "num_le (row_seq r) (row_seq x)" using 2(3) by (intro num_le_total) auto
    with 2 False show ?thesis by (auto simp: latest_first_def)
  qed
qed (simp add: latest_first_def)

lemma sort_rows_latest:
  assumes "\<forall>x\<in>set rows. row_seq x \<noteq> NaN"
  shows "latest_first (sort_rows rows)"
proof -
  have "latest_first (foldl (\<lambda>acc r. insert_row r acc) acc rows)"
    if "latest_first acc" "\<forall>x\<in>set acc \<union> set rows. row_seq x \<noteq> NaN" for acc
    using that by (induction rows arbitrary: acc) (auto simp: insert_row_latest)
  from this [of "[]"] assms show ?thesis by (simp add: sort_rows_def latest_first_def)
qed

text \<open>The rows of a body that are checkpoints of the wanted chain.\<close>

definition candidate_rows :: "(string \<Rightarrow> jsval) \<Rightarrow> jsval \<Rightarrow> jsval \<Rightarrow> jsval list" where
  "candidate_rows env body targetChain =
     (case body_rows body of JArr rows \<Rightarrow> filter (row_matches env targetChain) rows | _ \<Rightarrow> [])"

definition latest_row :: "jsval list \<Rightarrow> jsval \<Rightarrow> bool" where
  "latest_row rows r \<longleftrightarrow>
     r \<in> set rows \<and> ((\<forall>x\<in>set rows. row_seq x \<noteq> NaN) \<longrightarrow> (\<forall>x\<in>set rows. num_le (row_seq x) (row_seq r)))"

lemma first_is_latest:
  assumes "anchoredCheckpointRows env body chain = Some (r # rs)"
  shows "latest_row (candidate_rows env body chain) r"
proof -
  let ?c = "candidate_rows env body chain"
  have s: "sort_rows ?c = r # rs"
    using assms by (auto simp: anchoredCheckpointRows_def candidate_rows_def split: jsval.splits)
  then have set: "set ?c = set (r # rs)" using set_sort_rows by metis
  have "num_le (row_seq x) (row_seq r)" if "\<forall>x\<in>set ?c. row_seq x \<noteq> NaN" "x \<in> set ?c" for x
    using sort_rows_latest [OF that(1)] that set by (auto simp: s latest_first_def)
  with set show ?thesis by (auto simp: latest_row_def)
qed

section \<open>What a fetched anchor rests on\<close>

lemma with_anchor_simps [simp]:
  "an_verified (with_anchor r rec src ss) = an_verified r" "an_checkpoint (with_anchor r rec src ss) = an_checkpoint r"
  "an_confirmations (with_anchor r rec src ss) = an_confirmations r" "fx_anchor (with_anchor r rec src ss) = rec"
  "fx_depthSource (with_anchor r rec src ss) = src"
  by (simp_all add: with_anchor_def anchored_result.defs fetched.defs)

lemma unverified_anchor_not [simp]: "\<not> an_verified (unverified_anchor r cp md)"
  by (simp add: unverified_anchor_def)

lemma judge_result:
  assumes "judge_anchored rnd ed jparse (Some cp) vs conf md = Inr r"
  shows "an_checkpoint r = Some cp" "js_isFinite conf \<Longrightarrow> an_confirmations r = conf"
  using assms by (auto simp: judge_anchored_def Let_def try_bind_Inr split: if_splits)

text \<open>Attaching the fold changes nothing else.\<close>

lemma same_fold: "\<exists>v. cp = cp\<lparr>cp_fold_archive := v\<rparr>"
  by (rule exI [of _ "cp_fold_archive cp"]) simp

lemma new_fold: "\<exists>v. cp\<lparr>cp_fold_archive := x\<rparr> = cp\<lparr>cp_fold_archive := v\<rparr>"
  by (rule exI [of _ x]) (rule refl)

lemma attach_is_row: "\<exists>v. attachFoldArchive jparse cp sections = cp\<lparr>cp_fold_archive := v\<rparr>"
proof (cases "js_truthy (cp_fold_archive cp) \<or> signatureKey jparse (cp_validator_signatures cp) = None")
  case True
  then have "attachFoldArchive jparse cp sections = cp" by (simp add: attachFoldArchive_def)
  then show ?thesis using same_fold by simp
next
  case False
  show ?thesis
  proof (cases "\<exists>xs a. sections = JArr xs \<and> filter (fold_candidate jparse cp) xs = [a]")
    case True
    then obtain xs a where "sections = JArr xs" "filter (fold_candidate jparse cp) xs = [a]" by blast
    then have "attachFoldArchive jparse cp sections = cp\<lparr>cp_fold_archive := row_fold a\<rparr>"
      using False by (simp only: attachFoldArchive_def if_False jsval.case list.case)
    then show ?thesis by (simp only: new_fold)
  next
    case other: False
    then have "attachFoldArchive jparse cp sections = cp"
      unfolding attachFoldArchive_def by (cases sections) (simp_all split: list.split)
    then show ?thesis using same_fold by simp
  qed
qed

lemma folded_is_row:
  "\<exists>v. folded_checkpoint jparse f u d rec = (anchorToCheckpoint jparse rec)\<lparr>cp_fold_archive := v\<rparr>"
  unfolding folded_checkpoint_def attachFoldArchiveFromExplorer_def Let_def
  by (auto simp: same_fold attach_is_row split: sum.split)

definition used_height :: "fetch_opts \<Rightarrow> jsval \<Rightarrow> jsval" where
  "used_height opts rec =
     (if is_nullish (caller_height opts rec) then js_prop rec ''block_index_doge'' else caller_height opts rec)"

definition target_coin :: "fetch_opts \<Rightarrow> jsval" where
  "target_coin opts = (if js_text (fo_targetCoin opts) = [] then JNull else fo_targetCoin opts)"

lemma fetch_parts:
  assumes "fetchAnchoredCheckpoint w env f cache opts = (cache', Inr R)" "an_verified R"
  obtains dogeCoin body rec rs vs r cp where
    "networkContextCoin (fo_dogeCoin opts) (fo_network opts) ''DOGE'' JUndef = Inr dogeCoin"
    and "fetchJson f (anchors_url (vo_explorerUrl opts) dogeCoin (fo_targetChain opts)) = Inr body"
    and "anchoredCheckpointRows env body (fo_targetChain opts) = Some (rec # rs)"
    and "refuseSuperseded (Some (row_checkpoint rec)) (fo_allowSuperseded opts) = None"
    and "depth_refusal env opts rec = None"
    and "cp = folded_checkpoint (w_parse w) f (vo_explorerUrl opts) dogeCoin rec"
    and "resolveValidatorSet w cache (call_opts.truncate opts) cp (target_coin opts) = (cache', Inr vs)"
    and "judge_anchored (w_round w) (w_ed w) (w_parse w) (Some cp) vs
           (depth_of (tip_height opts) (used_height opts rec)) (min_depth (fo_minDepth opts)) = Inr r"
    and "R = with_anchor r rec (Some (if is_nullish (caller_height opts rec) then ''explorer'' else ''caller''))
           (Some (supersessionFields (Some (row_checkpoint rec))))"
proof -
  obtain dogeCoin where d: "networkContextCoin (fo_dogeCoin opts) (fo_network opts) ''DOGE'' JUndef = Inr dogeCoin"
    using assms(1) by (cases "networkContextCoin (fo_dogeCoin opts) (fo_network opts) ''DOGE'' JUndef")
      (simp_all add: fetchAnchoredCheckpoint_def)
  obtain body where b: "fetchJson f (anchors_url (vo_explorerUrl opts) dogeCoin (fo_targetChain opts)) = Inr body"
    using assms(1) by (cases "fetchJson f (anchors_url (vo_explorerUrl opts) dogeCoin (fo_targetChain opts))")
      (simp_all add: fetchAnchoredCheckpoint_def d)
  obtain rows where rows: "anchoredCheckpointRows env body (fo_targetChain opts) = Some rows"
    using assms(1) by (cases "anchoredCheckpointRows env body (fo_targetChain opts)")
      (simp_all add: fetchAnchoredCheckpoint_def d b)
  have "rows \<noteq> []" using assms by (auto simp: fetchAnchoredCheckpoint_def d b rows)
  then obtain rec rs where r: "anchoredCheckpointRows env body (fo_targetChain opts) = Some (rec # rs)"
    using rows by (cases rows) auto
  note e = assms(1) [unfolded fetchAnchoredCheckpoint_def d b r sum.case option.case list.case Let_def,
      folded used_height_def target_coin_def]
  have s: "refuseSuperseded (Some (row_checkpoint rec)) (fo_allowSuperseded opts) = None"
    and q: "depth_refusal env opts rec = None"
    using e assms(2) by (auto split: if_splits option.splits)
  let ?cp = "folded_checkpoint (w_parse w) f (vo_explorerUrl opts) dogeCoin rec"
  obtain c2 x where v: "resolveValidatorSet w cache (call_opts.truncate opts) ?cp (target_coin opts) = (c2, x)"
    by (cases "resolveValidatorSet w cache (call_opts.truncate opts) ?cp (target_coin opts)")
  obtain vs where x: "x = Inr vs" using e by (cases x) (simp_all add: s q v)
  have c2: "c2 = cache'" using e by (simp add: s q v x)
  obtain r0 where j: "judge_anchored (w_round w) (w_ed w) (w_parse w) (Some ?cp) vs
      (depth_of (tip_height opts) (used_height opts rec)) (min_depth (fo_minDepth opts)) = Inr r0"
    and R: "R = with_anchor r0 rec (Some (if is_nullish (caller_height opts rec) then ''explorer'' else ''caller''))
           (Some (supersessionFields (Some (row_checkpoint rec))))"
    using e by (auto simp: s q v x split: sum.splits)
  show thesis by (rule that [OF d b r s q refl _ j R]) (simp add: v x c2)
qed

text \<open>
  C23: What a verified fetch rests on, whatever the explorer answers. The row is among the body's checkpoint rows of the
  wanted chain and none of them is later; it is not superseded unless the caller allows it; the checkpoint is the row's,
  with at most the fold attached; the set is the one the ladder resolves and the checkpoint is valid for it with signed
  roots; the depth reaches the minimum. With \<open>requireTrustedDepth\<close> the depth counts from a height of the caller's own
  source, at which the fold gate admits the row.
\<close>

theorem anchored_fetch_sound:
  assumes "fetchAnchoredCheckpoint w env f cache opts = (cache', Inr R)" "an_verified R"
  shows "\<exists>dogeCoin body rec v vs sn.
    networkContextCoin (fo_dogeCoin opts) (fo_network opts) ''DOGE'' JUndef = Inr dogeCoin \<and>
    fetchJson f (anchors_url (vo_explorerUrl opts) dogeCoin (fo_targetChain opts)) = Inr body \<and>
    latest_row (candidate_rows env body (fo_targetChain opts)) rec \<and>
    refuseSuperseded (Some (row_checkpoint rec)) (fo_allowSuperseded opts) = None \<and>
    (let cp = (anchorToCheckpoint (w_parse w) rec)\<lparr>cp_fold_archive := v\<rparr> in
       an_checkpoint R = Some cp \<and> signs_roots cp \<and>
       snd (resolveValidatorSet w cache (call_opts.truncate opts) cp (target_coin opts)) = Inr vs \<and>
       rows_of_set vs = Inr sn \<and> cv_valid (check_cp w cp sn)) \<and>
    an_confirmations R = depth_of (tip_height opts) (used_height opts rec) \<and>
    js_isFinite (an_confirmations R) \<and> num_le (min_depth (fo_minDepth opts)) (an_confirmations R) \<and>
    (fo_requireTrustedDepth opts \<longrightarrow>
       used_height opts rec = caller_height opts rec \<and> isCheckpointSectionRow env rec (caller_height opts rec))"
  using assms
proof (rule fetch_parts)
  fix dogeCoin body rec rs vs r cp
  assume d: "networkContextCoin (fo_dogeCoin opts) (fo_network opts) ''DOGE'' JUndef = Inr dogeCoin"
    and b: "fetchJson f (anchors_url (vo_explorerUrl opts) dogeCoin (fo_targetChain opts)) = Inr body"
    and rows: "anchoredCheckpointRows env body (fo_targetChain opts) = Some (rec # rs)"
    and s: "refuseSuperseded (Some (row_checkpoint rec)) (fo_allowSuperseded opts) = None"
    and q: "depth_refusal env opts rec = None"
    and cp: "cp = folded_checkpoint (w_parse w) f (vo_explorerUrl opts) dogeCoin rec"
    and v: "resolveValidatorSet w cache (call_opts.truncate opts) cp (target_coin opts) = (cache', Inr vs)"
    and j: "judge_anchored (w_round w) (w_ed w) (w_parse w) (Some cp) vs
           (depth_of (tip_height opts) (used_height opts rec)) (min_depth (fo_minDepth opts)) = Inr r"
    and R: "R = with_anchor r rec (Some (if is_nullish (caller_height opts rec) then ''explorer'' else ''caller''))
           (Some (supersessionFields (Some (row_checkpoint rec))))"
  note jv = judge_verified [OF j, THEN iffD1] and jr = judge_result [OF j]
  have ver: "an_verified r" using assms(2) by (simp add: R)
  obtain x where x: "cp = (anchorToCheckpoint (w_parse w) rec)\<lparr>cp_fold_archive := x\<rparr>"
    using folded_is_row cp by blast
  obtain sn where sn: "rows_of_set vs = Inr sn" "cv_valid (check_cp w cp sn)" using jv [OF ver] by blast
  have "signs_roots cp" using jv [OF ver] active_signs_roots by blast
  moreover have "used_height opts rec = caller_height opts rec \<and> isCheckpointSectionRow env rec (caller_height opts rec)"
    if "fo_requireTrustedDepth opts" using q that by (auto simp: depth_refusal_def used_height_def split: if_splits)
  ultimately show ?thesis
    using d b first_is_latest [OF rows] s v x sn jv [OF ver] jr
    by (intro exI [of _ dogeCoin] exI [of _ body] exI [of _ rec] exI [of _ x] exI [of _ vs] exI [of _ sn])
      (simp add: R Let_def)
qed

section \<open>Witnesses\<close>

definition an_root :: string where
  "an_root = replicate 64 (CHR ''a'')"

definition an_fields :: "(string \<times> jsval) list" where
  "an_fields =
     [(''version'', JInt 0), (''chain'', JStr ''BTC''), (''network'', JStr ''regtest''), (''block_index'', JInt 7),
      (''block_hash'', JStr ''aa''), (''ledger_hash'', JStr ''bb''), (''actions_hash'', JStr ''cc''),
      (''contract_hash'', JStr ''dd''), (''checkpoint_seq'', JInt 1), (''snapshot_block'', JInt 5),
      (''state_root'', JStr an_root), (''state_root_version'', JInt 1), (''block_merkle_root'', JStr an_root),
      (''block_merkle_version'', JInt 1), (''block_index_doge'', JInt 100), (''tx_hash'', JStr ''ee''),
      (''validator_signatures'', JArr [JObj [(''pubkey'', JStr wit_key), (''sig'', JStr (replicate 128 (CHR ''b'')))]])]"

definition an_set :: snapshot where
  "an_set = \<lparr>sn_rows = [demo_row wit_key ''s1'' ''5''], sn_truncated = False\<rparr>"

definition an_cp :: checkpoint where
  "an_cp = anchorToCheckpoint (\<lambda>s. None) (JObj an_fields)"

lemma an_cp_eq:
  "an_cp = \<lparr>cp_chain = JStr ''BTC'', cp_network = JStr ''regtest'', cp_block_index = JInt 7, cp_block_hash = JStr ''aa'',
     cp_ledger_hash = JStr ''bb'', cp_actions_hash = JStr ''cc'', cp_contract_hash = JStr ''dd'',
     cp_checkpoint_seq = JInt 1, cp_snapshot_block = JInt 5, cp_state_root = JStr an_root,
     cp_block_merkle_root = JStr an_root, cp_state_root_version = JInt 1, cp_block_merkle_version = JInt 1,
     cp_supersedes_from = JNull, cp_rules_digest = JNull, cp_superseded_by_seq = JUndef, cp_fold_archive = JUndef,
     cp_validator_signatures = JArr [JObj [(''pubkey'', JStr wit_key), (''sig'', JStr (replicate 128 (CHR ''b'')))]]\<rparr>"
  by (simp add: an_cp_def an_fields_def anchorToCheckpoint_def row_checkpoint_def get_prop_def js_num_val_def js_Number_def
      is_nullish_def supersessionFields_def signature_list_def ANCHOR_FOLD_VERSION_def Let_def)

lemma an_set_facts:
  "small_stakes (sn_rows an_set)" "well_formed an_set" "list_all isWeightedEntry (sn_rows an_set)"
  "meetsStakeThreshold (\<lambda>q. q) an_set [JStr wit_key]"
proof -
  have t: "js_trim ''s1'' = ''s1''" "js_trim ''5'' = ''5''" "dec_value ''5'' = Some 5"
    using demo_values by (code_simp, code_simp, simp)
  have n: "nat_str 5 = ''5''" by code_simp
  have num: "num_text ''5'' = Num 5" using num_text_nat [of 5] by (simp add: n)
  have w: "row_weight (demo_row wit_key ''s1'' ''5'') = 5"
    using t by (simp add: row_weight_def row_text_def bcnum_def demo_row_def get_prop_def is_nullish_def)
  have f: "first_rows [] (sn_rows an_set) = [demo_row wit_key ''s1'' ''5'']" by (simp add: an_set_def)
  have "atto 5" unfolding atto_iff by (rule exI [of _ "5 * 10 ^ 18"]) simp
  then show small: "small_stakes (sn_rows an_set)" by (simp add: small_stakes_def f w)
  have "list_all (\<lambda>v. \<not> blank_source v) (sn_rows an_set)"
    "list_all numeric_row (first_rows [] (sn_rows an_set))" "\<not> sn_truncated an_set"
    by code_simp+
  then show wf: "well_formed an_set" by (simp add: well_formed_def f w)
  show "list_all isWeightedEntry (sn_rows an_set)"
    using t num by (simp add: an_set_def isWeightedEntry_def demo_row_def get_prop_def is_nullish_def js_Number_def)
  have "signed_rows (sn_rows an_set) [JStr wit_key] = [demo_row wit_key ''s1'' ''5'']" by code_simp
  then show "meetsStakeThreshold (\<lambda>q. q) an_set [JStr wit_key]"
    by (simp add: meets_exact [OF exact64_id small wf] f w stake_def)
qed

lemma an_commitment: "commitmentActive (Some an_cp)"
  using demo_gates(1) by (simp add: commitmentActive_def an_cp_eq)

lemma an_cp_valid: "cv_valid (check_cp wit_world an_cp an_set)"
proof -
  obtain msg where msg: "canonicalCheckpoint (Some an_cp) = Inr msg"
    using canonical_total [of an_cp]
    by (auto simp: an_cp_eq signs_supersede_def hasSupersedeFields_def is_nullish_def)
  have v: "verifySignature (\<lambda>k m s. True) msg (replicate 128 (CHR ''b'')) wit_key"
    using canonical_nonempty [OF msg] wit_texts by (simp add: verifySignature_def)
  have q: "map qualified_key (sn_rows an_set) = [wit_key]"
    using wit_texts by (simp add: an_set_def demo_row_def qualified_key_def get_prop_def)
  have l: "sigLoop (\<lambda>k m s. True) msg (\<lambda>pk. pk \<in> set (map qualified_key (sn_rows an_set))) []
      (signature_list (\<lambda>s. None) (cp_validator_signatures an_cp)) = [wit_key]"
    using wit_texts v by (simp add: q an_cp_eq signature_list_def sig_pubkey_def sig_hex_def prop_or_empty_def
        get_prop_def Let_def)
  have w: "isStakeWeightedQuorumActive (cp_snapshot_block an_cp) (cp_network an_cp)"
    using an_commitment by (intro commitment_is_weighted) (simp add: commitmentActive_def)
  have "\<not> commitmentMissing (Some an_cp)" "\<not> supersessionDisallowed (Some an_cp)"
    by (simp_all add: commitmentMissing_def supersessionDisallowed_def hasSupersedeFields_def an_cp_eq is_nullish_def an_root_def)
  moreover have "sn_rows an_set \<noteq> []" by (simp add: an_set_def)
  ultimately show ?thesis
    using msg an_set_facts(3,4) w l
    by (simp add: verifyCheckpoint_def tryCanonicalCheckpoint_def Let_def wit_world_def)
qed

lemma an_shapes:
  "anchor_root (JStr an_root)" "anchor_version (JInt 1)"
  by (code_simp, code_simp)

lemma judge_given: "\<exists>r. judge_anchored rnd ed jparse (Some cp) (GivenSet sn) conf md = Inr r"
  by (simp add: judge_anchored_def rows_of_set_def Let_def)

lemma an_judged:
  "\<exists>r. judge_anchored (w_round wit_world) (w_ed wit_world) (w_parse wit_world) (Some an_cp) (GivenSet an_set)
      (Num 101) (Num 60) = Inr r \<and> an_verified r"
proof -
  obtain r where r: "judge_anchored (w_round wit_world) (w_ed wit_world) (w_parse wit_world) (Some an_cp) (GivenSet an_set)
      (Num 101) (Num 60) = Inr r"
    using judge_given by blast
  have "anchor_version (cp_state_root_version an_cp)" "anchor_version (cp_block_merkle_version an_cp)"
    "anchor_root (cp_state_root an_cp)" "anchor_root (cp_block_merkle_root an_cp)"
    using an_shapes by (simp_all add: an_cp_eq)
  moreover have "\<exists>sn. rows_of_set (GivenSet an_set) = Inr sn \<and> cv_valid (check_cp wit_world an_cp sn)"
    using an_cp_valid by (simp add: rows_of_set_def)
  moreover have "js_isFinite (Num 101)" "num_le (Num 60) (Num 101)" by (simp_all add: js_isFinite_def)
  ultimately have "an_verified r" using judge_verified [OF r] an_commitment by blast
  with r show ?thesis by blast
qed

theorem anchored_verdict_exact_witness: "signs_roots an_cp \<and> anchor_root (cp_state_root an_cp)"
proof -
  obtain r where r: "judge_anchored (w_round wit_world) (w_ed wit_world) (w_parse wit_world) (Some an_cp) (GivenSet an_set)
      (Num 101) (Num 60) = Inr r" "an_verified r"
    using an_judged by blast
  from anchored_verdict_exact [OF r(1)] r(2) show ?thesis by blast
qed

theorem anchored_roots_signed_witness:
  "\<exists>t. canonicalCheckpoint (Some an_cp) = Inr t \<and>
     2 * stake (first_rows [] (sn_rows an_set)) < 3 * stake (signing_rows (\<lambda>k m s. True) (\<lambda>s. None) an_cp t (sn_rows an_set))"
proof -
  obtain r where r: "judge_anchored (\<lambda>q. q) (\<lambda>k m s. True) (\<lambda>s. None) (Some an_cp) (GivenSet an_set)
      (Num 101) (Num 60) = Inr r" "an_verified r"
    using an_judged by (auto simp: wit_world_def)
  have g: "rows_of_set (GivenSet an_set) = Inr sn \<longleftrightarrow> sn = an_set" for sn by (auto simp: rows_of_set_def)
  have "\<forall>sn. rows_of_set (GivenSet an_set) = Inr sn \<longrightarrow> small_stakes (sn_rows sn)" using an_set_facts(1) by (simp add: g)
  from anchored_roots_signed [OF r exact64_id this] show ?thesis unfolding g by blast
qed

definition an_opts :: fetch_opts where
  "an_opts = call_opts.extend (wit_opts\<lparr>vo_validators := Some an_set\<rparr>)
     \<lparr>fo_dogeCoin = JUndef, fo_network = JUndef, fo_minDepth = JUndef, fo_targetChain = JStr ''BTC'', fo_targetCoin = JUndef,
      fo_allowSuperseded = False, fo_dogeTipHeight = JInt 200, fo_getDogeTipHeight = None, fo_dogeTxHeight = JInt 100,
      fo_getDogeTxHeight = None, fo_requireTrustedDepth = True\<rparr>"

definition an_body :: jsval where
  "an_body = JArr [JObj an_fields]"

lemma an_row_facts:
  "js_prop (JObj an_fields) ''version'' = JInt 0" "js_prop (JObj an_fields) ''state_root'' = JStr an_root"
  "js_prop (JObj an_fields) ''chain'' = JStr ''BTC''" "js_prop (JObj an_fields) ''superseded_by_seq'' = JUndef"
  by (simp_all add: an_fields_def get_prop_def)

lemma an_section: "isCheckpointSectionRow env (JObj an_fields) h"
  by (simp only: isCheckpointSectionRow_def Let_def an_row_facts ANCHOR_BUNDLE_VERSION_def) (simp add: js_Number_def)

lemma an_rows: "anchoredCheckpointRows env an_body (JStr ''BTC'') = Some [JObj an_fields]"
proof -
  have "row_matches env (JStr ''BTC'') (JObj an_fields)"
    by (simp only: row_matches_def an_section an_row_facts) (simp add: an_root_def)
  then show ?thesis by (simp add: anchoredCheckpointRows_def an_body_def body_rows_def sort_rows_def)
qed

lemma an_opts_facts [simp]:
  "fo_dogeCoin an_opts = JUndef" "fo_network an_opts = JUndef" "fo_minDepth an_opts = JUndef"
  "fo_targetChain an_opts = JStr ''BTC''" "fo_targetCoin an_opts = JUndef" "\<not> fo_allowSuperseded an_opts"
  "tip_height an_opts = JInt 200" "caller_height an_opts rec = JInt 100" "vo_validators an_opts = Some an_set"
  "vo_validators (call_opts.truncate an_opts) = Some an_set"
  by (simp_all add: an_opts_def call_opts.defs tip_height_def caller_height_def is_nullish_def)

lemma an_depth: "depth_of (JInt 200) (JInt 100) = Num 101"
proof -
  have "js_round (of_int 100) = Num (of_int 100)" "js_round (of_int 101) = Num (of_int 101)"
    by (rule js_round_int, simp)+
  then show ?thesis by (simp add: depth_of_def is_nullish_def js_Number_def)
qed

theorem anchored_fetch_sound_witness:
  "\<exists>R rec. fetchAnchoredCheckpoint wit_world (\<lambda>_. JUndef) (\<lambda>u. Reply 200 (Body an_body)) [] an_opts =
     ([], Inr R) \<and> an_verified R \<and> latest_row (candidate_rows (\<lambda>_. JUndef) an_body (JStr ''BTC'')) rec"
proof -
  let ?e = "\<lambda>_ :: string. JUndef"
  let ?f = "\<lambda>u :: string. Reply 200 (Body an_body)"
  have n: "networkContextCoin (fo_dogeCoin an_opts) (fo_network an_opts) ''DOGE'' JUndef = Inr (JStr ''DOGE'')"
    by (simp add: networkContextCoin_def is_nullish_def) code_simp
  have b: "fetchJson ?f u = Inr an_body" for u by (simp add: fetchJson_def http_ok_def)
  have r: "anchoredCheckpointRows ?e an_body (fo_targetChain an_opts) = Some [JObj an_fields]" by (simp add: an_rows)
  have s: "refuseSuperseded (Some (row_checkpoint (JObj an_fields))) False = None"
    by (simp add: refuseSuperseded_def supersessionFields_def row_checkpoint_def nullableNumber_def is_nullish_def
        an_fields_def get_prop_def)
  have q: "depth_refusal ?e an_opts (JObj an_fields) = None" by (simp add: depth_refusal_def an_section is_nullish_def)
  have fc: "folded_checkpoint (w_parse wit_world) ?f (vo_explorerUrl an_opts) (JStr ''DOGE'') (JObj an_fields) = an_cp"
    by (simp add: folded_checkpoint_def an_fields_def get_prop_def js_Number_def ANCHOR_FOLD_VERSION_def)
      (simp add: an_cp_def an_fields_def wit_world_def)
  have v: "resolveValidatorSet wit_world [] (call_opts.truncate an_opts) an_cp c = ([], Inr (GivenSet an_set))" for c
    by (simp add: resolveValidatorSet_def)
  have m: "min_depth JUndef = Num 60" by (simp add: min_depth_def is_nullish_def DEFAULT_ANCHOR_MIN_DEPTH_def)
  obtain r0 where j: "judge_anchored (w_round wit_world) (w_ed wit_world) (w_parse wit_world) (Some an_cp) (GivenSet an_set)
      (Num 101) (Num 60) = Inr r0" "an_verified r0"
    using an_judged by blast
  have "\<exists>R. fetchAnchoredCheckpoint wit_world ?e ?f [] an_opts = ([], Inr R) \<and> an_verified R"
    unfolding fetchAnchoredCheckpoint_def n b r sum.case option.case list.case Let_def
    using j by (simp add: s q fc v m an_depth is_nullish_def)
  then obtain R where R: "fetchAnchoredCheckpoint wit_world ?e ?f [] an_opts = ([], Inr R)" "an_verified R" by blast
  from anchored_fetch_sound [OF R] obtain rec where "latest_row (candidate_rows ?e an_body (JStr ''BTC'')) rec"
    unfolding b by auto
  with R show ?thesis by blast
qed

end
