(* ===== verification/Formats.thy ===== *)
theory Formats
  imports Prelude
begin

text \<open>
  The ACTION format table of the protocol (\<open>protocol/formats.js\<close>) and what
  \<open>protocol/format_selector.js\<close> and its part \<open>repeated_legs.js\<close> read off it.

  \<^item> \<open>formats\<close> is the table as the code writes it: per action the defined versions and, for each,
    the field names joined by \<open>|\<close>. \<open>getFormatFields\<close> splits one entry; reading a version that is not
    in the table throws (the code calls \<open>split\<close> on \<open>undefined\<close>).
  \<^item> \<open>getRepeatedGroup\<close> recovers the per-leg group of a multi-leg format as the longest adjacent
    duplicated block of field names, and refuses a format whose repetitions are of another shape.

  The lemmas show what the search returns for any format line (a group it reports really is the
  block between prefix and suffix, spelled twice) and what it returns on this table.
\<close>

section \<open>The table\<close>

definition formats_1 :: "(string \<times> (nat \<times> string) list) list" where
  "formats_1 = [
    (''ADDRESS'', [(0, ''VERSION|FEE_PREFERENCE|REQUIRE_MEMO|DISPENSER_PREFERENCE|MEMO''),
      (1, ''VERSION|CONTROLLER|ACTION_CLASS|COOLDOWN_BLOCKS|UNBIND|MEMO'')]),
    (''AIRDROP'', [(0, ''VERSION|TICK|AMOUNT|LIST_ACTION_INDEX|MEMO''),
      (1, ''VERSION|LIST_ACTION_INDEX|TICK|AMOUNT|TICK|AMOUNT|MEMO''),
      (2, ''VERSION|TICK|AMOUNT|LIST_ACTION_INDEX|TICK|AMOUNT|LIST_ACTION_INDEX|MEMO''),
      (3, ''VERSION|TICK|AMOUNT|LIST_ACTION_INDEX|MEMO|TICK|AMOUNT|LIST_ACTION_INDEX|MEMO'')]),
    (''BATCH'', [(0, ''VERSION|COMMAND'')]),
    (''BET'', [(0, ''VERSION|LABEL|OUTCOMES|TICK|FEE|DEADLINE|REFUND_WINDOW|MIN_AMOUNT|ALLOW_LIST|BLOCK_LIST|DETAILS|MEMO''),
      (1, ''VERSION|FEED_ACTION_INDEX|MEMO''),
      (2, ''VERSION|FEED_ACTION_INDEX|OUTCOME|AMOUNT|MEMO''),
      (3, ''VERSION|FEED_ACTION_INDEX|OUTCOME|MEMO''),
      (4, ''VERSION|FEED_ACTION_INDEX|ALLOW_LIST|BLOCK_LIST|MEMO'')]),
    (''BROADCAST'', [(0, ''VERSION|MESSAGE|VALUE''),
      (1, ''VERSION|MESSAGE|VALUE|FEE|MEMO''),
      (2, ''VERSION|MESSAGE|FEE|MEMO''),
      (3, ''VERSION|BROADCAST_ACTION_INDEX|VALUE|MEMO'')]),
    (''COLLECT'', [(0, ''VERSION|AMOUNT'')]),
    (''COINPAY'', [(0, ''VERSION|ORDER_MATCH_ACTION_INDEX'')]),
    (''CALLBACK'', [(0, ''VERSION|TICK|MEMO'')]),
    (''DELEGATE'', [(0, ''VERSION|NEW_SIGNING_PUBKEY''),
      (1, ''VERSION|NEW_SIGNING_PUBKEY|TARGET_CONTRACT_INDEX|TICK''),
      (2, ''VERSION|SIGNING_PUBKEY''),
      (3, ''VERSION|SIGNING_PUBKEY|TARGET_CONTRACT_INDEX|TICK'')]),
    (''DEPLOY'', [(0, ''VERSION|CODE_ENCODING|GAS_LIMIT|...CONSTRUCTOR_PARAMS''),
      (1, ''VERSION|CODE_ENCODING|GAS_LIMIT|CONSTRUCTOR_PARAMS|COOLDOWN_BLOCKS|SLASH_DESTINATION''),
      (2, ''VERSION|CODE_HASH|GAS_LIMIT|...CONSTRUCTOR_PARAMS''),
      (3, ''VERSION|CODE_HASH|GAS_LIMIT|CONSTRUCTOR_PARAMS|COOLDOWN_BLOCKS|SLASH_DESTINATION''),
      (4, ''VERSION|CODE_HASH|CHUNK_INDEX|TOTAL_CHUNKS|CODE_PART'')]),
    (''DEPOSIT'', [(0, ''VERSION|CONTRACT_ACTION_INDEX|TICK|QUANTITY'')])]"

definition formats_2 :: "(string \<times> (nat \<times> string) list) list" where
  "formats_2 = [
    (''DESTROY'', [(0, ''VERSION|TICK|AMOUNT|MEMO''),
      (1, ''VERSION|TICK|AMOUNT|TICK|AMOUNT|MEMO''),
      (2, ''VERSION|TICK|AMOUNT|MEMO|TICK|AMOUNT|MEMO'')]),
    (''DISPENSER'', [(0, ''VERSION|GIVE_COIN|GIVE_TICK|GIVE_AMOUNT|GIVE_OWNERSHIP|GIVE_ESCROW|GET_COIN|GET_TICK|GET_AMOUNT|GET_ADDRESS|FIAT_CODE|FIAT_AMOUNT|ORACLE_ADDRESS|EXPIRATION|ALLOW_LIST|BLOCK_LIST|MEMO''),
      (1, ''VERSION|DISPENSER_ACTION_INDEX|MEMO''),
      (2, ''VERSION|DISPENSER_ACTION_INDEX|GIVE_ESCROW|EXPIRATION|ALLOW_LIST|BLOCK_LIST|MEMO'')]),
    (''DIVIDEND'', [(0, ''VERSION|TICK|DIVIDEND_TICK|AMOUNT|MEMO'')]),
    (''EXECUTE'', [(0, ''VERSION|CONTRACT_ACTION_INDEX|METHOD|...PARAMS'')]),
    (''FILE'', [(0, ''VERSION|NAME|TYPE|TITLE|MEMO|GATE_TICKER|ENCRYPTION_METHOD|KEY_HASH|GATE_MIN_AMOUNT|COMPRESSION'')]),
    (''ISSUE'', [(0, ''VERSION|TICK|MAX_SUPPLY|MAX_MINT|DECIMALS|DESCRIPTION|MINT_SUPPLY|TRANSFER|TRANSFER_SUPPLY|LOCK_MAX_SUPPLY|LOCK_MAX_MINT|LOCK_DESCRIPTION|LOCK_SLEEP|LOCK_CALLBACK|CALLBACK_BLOCK|CALLBACK_TICK|CALLBACK_AMOUNT|ALLOW_LIST|BLOCK_LIST|MINT_ADDRESS_MAX|MINT_START_BLOCK|MINT_STOP_BLOCK|LOCK_MINT|LOCK_MINT_SUPPLY|MEMO''),
      (1, ''VERSION|TICK|DESCRIPTION|MEMO''),
      (2, ''VERSION|TICK|MAX_MINT|MINT_SUPPLY|TRANSFER_SUPPLY|MINT_ADDRESS_MAX|MINT_START_BLOCK|MINT_STOP_BLOCK|MEMO''),
      (3, ''VERSION|TICK|LOCK_MAX_SUPPLY|LOCK_MAX_MINT|LOCK_DESCRIPTION|LOCK_SLEEP|LOCK_CALLBACK|LOCK_MINT|LOCK_MINT_SUPPLY|MEMO''),
      (4, ''VERSION|TICK|CALLBACK_BLOCK|CALLBACK_TICK|CALLBACK_AMOUNT|MEMO''),
      (5, ''VERSION|TICK|ALLOW_LIST|BLOCK_LIST|MEMO''),
      (6, ''VERSION|TICK|CONTROLLER|ACTION_CLASS|COOLDOWN_BLOCKS|UNBIND|MEMO''),
      (7, ''VERSION|TICK|BRIDGE_CHAINS|MIN_DEPTH|LOCK_BRIDGE|MEMO'')]),
    (''LINK'', [(0, ''VERSION|COIN1|COIN1_ACTION_INDEX|COIN2|COIN2_ACTION_INDEX|MEMO'')]),
    (''LIST'', [(0, ''VERSION|TYPE|MEMO|...ITEM''),
      (1, ''VERSION|EDIT|LIST_ACTION_INDEX|MEMO|...ITEM''),
      (2, ''VERSION|LIST_ACTION_INDEX|MEMO''),
      (3, ''VERSION|LIST_ACTION_INDEX|DESTINATION|MEMO''),
      (4, ''VERSION|TYPE|NAME|DESCRIPTION|MEMO|...ITEM''),
      (5, ''VERSION|LIST_ACTION_INDEX|NAME|DESCRIPTION|MEMO'')]),
    (''MESSAGE'', [(0, ''VERSION|COIN|DESTINATION|ENCRYPTION_METHOD|ENCRYPTION_KEY''),
      (1, ''VERSION|COIN|DESTINATION|ENCRYPTION_METHOD|ENCRYPTION_KEY''),
      (2, ''VERSION|COIN|DESTINATION|ENCRYPTED_MESSAGE''),
      (3, ''VERSION|COIN|DESTINATION|PLAINTEXT_MESSAGE'')]),
    (''MINT'', [(0, ''VERSION|TICK|AMOUNT|DESTINATION|MEMO'')]),
    (''ORDER'', [(0, ''VERSION|GIVE_COIN|GIVE_TICK|GIVE_AMOUNT|GIVE_OWNERSHIP|GET_COIN|GET_TICK|GET_AMOUNT|GET_OWNERSHIP|GET_ADDRESS|EXPIRATION|ALLOW_LIST|BLOCK_LIST|MEMO''),
      (1, ''VERSION|ORDER_ACTION_INDEX|MEMO''),
      (2, ''VERSION|ORDER_ACTION_INDEX|EXPIRATION|ALLOW_LIST|BLOCK_LIST|MEMO'')])]"

definition formats_3 :: "(string \<times> (nat \<times> string) list) list" where
  "formats_3 = [
    (''PRICE'', [(1, ''VERSION|COIN|TICK|FIAT|VALUE|FEE|MEMO'')]),
    (''SEND'', [(0, ''VERSION|TICK|AMOUNT|DESTINATION|MEMO''),
      (1, ''VERSION|TICK|AMOUNT|DESTINATION|AMOUNT|DESTINATION|MEMO''),
      (2, ''VERSION|TICK|AMOUNT|DESTINATION|TICK|AMOUNT|DESTINATION|MEMO''),
      (3, ''VERSION|TICK|AMOUNT|DESTINATION|MEMO|TICK|AMOUNT|DESTINATION|MEMO'')]),
    (''SLEEP'', [(0, ''VERSION|RESUME_BLOCK|MEMO''),
      (1, ''VERSION|RESUME_BLOCK|TICK|MEMO'')]),
    (''STAKE'', [(1, ''VERSION|AMOUNT|SIGNING_PUBKEY''),
      (2, ''VERSION|AMOUNT|SIGNING_PUBKEY''),
      (3, ''VERSION|AMOUNT|SIGNING_PUBKEY|TARGET_CONTRACT_INDEX|TICK'')]),
    (''SWAP'', [(0, ''VERSION|GIVE_COIN|GIVE_TICK|GIVE_AMOUNT|GIVE_OWNERSHIP|GET_COIN|GET_TICK|GET_AMOUNT|GET_OWNERSHIP|GET_ADDRESS|EXPIRATION|ALLOW_LIST|BLOCK_LIST|MEMO''),
      (1, ''VERSION|SWAP_ACTION_INDEX|MEMO''),
      (2, ''VERSION|SWAP_ACTION_INDEX|EXPIRATION|ALLOW_LIST|BLOCK_LIST|MEMO'')]),
    (''SWEEP'', [(0, ''VERSION|DESTINATION|BALANCES|OWNERSHIPS|ORDERS|SWAPS|DISPENSERS|MEMO'')]),
    (''UNSTAKE'', [(0, ''VERSION|SIGNING_PUBKEY|AMOUNT''),
      (1, ''VERSION|SIGNING_PUBKEY|TARGET_CONTRACT_INDEX|TICK|AMOUNT'')]),
    (''WITHDRAW'', [(0, ''VERSION|CONTRACT_ACTION_INDEX|TICK|QUANTITY'')]),
    (''XBRIDGE'', [(0, ''VERSION|DEST_COIN|DEST_ADDRESS|AMOUNT|MEMO''),
      (1, ''VERSION|BTC_ADDRESS|AMOUNT|MEMO''),
      (3, ''VERSION|TICK|DEST_COIN|DEST_ADDRESS|AMOUNT|MEMO''),
      (4, ''VERSION|TICK|ORIGIN_ADDRESS|AMOUNT|MEMO'')]),
    (''VOTE'', [(0, ''VERSION|TICK|END_BLOCK|OPTIONS|MAX_SELECTIONS|TALLY_MODE|WEIGHT_MODE|QUORUM|MIN_VOTERS|MIN_VOTE_BALANCE|DECIDE_THRESHOLD|QUESTION|DEPOSIT|CALLBACK_CONTRACT|CALLBACK_METHOD|CALLBACK_PARAMS|CALLBACK_ON|GAS_ESCROW|CALLBACK_DELAY_BLOCKS''),
      (1, ''VERSION|POLL_REF|BALLOT|MEMO''),
      (3, ''VERSION|TICK|DELEGATE_TO|MEMO'')])]"

definition formats :: "(string \<times> (nat \<times> string) list) list" where
  "formats = formats_1 @ formats_2 @ formats_3"

definition AUTO_FIELDS :: "string list" where
  "AUTO_FIELDS = [''VERSION'']"

definition REST_PREFIX :: string where
  "REST_PREFIX = ''...''"

definition LEGS_FIELD :: string where
  "LEGS_FIELD = ''LEGS''"

definition PIN_ONLY_VERSIONS :: "(string \<times> nat list) list" where
  "PIN_ONLY_VERSIONS = [(''LIST'', [2, 3, 4, 5])]"

section \<open>Reading a format\<close>

text \<open>
  The errors the selector and the serializers throw. \<open>Type_error\<close> is the engine's own exception
  for \<open>undefined.split\<close>; the others carry the \<open>code\<close> of the \<open>SDKFormatError\<close> and its essential details.
\<close>

datatype format_error =
    Type_error
  | UNKNOWN_ACTION string
  | INVALID_VERSION
  | NO_MATCHING_FORMAT "string list"
  | UNSUPPORTED_REPEATED_FORMAT string
  | INVALID_LEGS
  | INCONSISTENT_SHARED_FIELD string
  | LEG_FIELD_NOT_IN_FORMAT string
  | REPEATED_FORMAT_REQUIRES_LEGS
  | SINGLE_LEG_FORMAT

definition format_line :: "string \<Rightarrow> nat \<Rightarrow> string option" where
  "format_line action version =
     (case map_of formats action of None \<Rightarrow> None | Some vs \<Rightarrow> map_of vs version)"

definition getFormatFields :: "string \<Rightarrow> nat \<Rightarrow> format_error + string list" where
  "getFormatFields action version =
     (case format_line action version of
        None \<Rightarrow> Inl Type_error
      | Some line \<Rightarrow> Inr (split_on (CHR ''|'') line))"

definition starts_with :: "string \<Rightarrow> string \<Rightarrow> bool" where
  "starts_with p s \<longleftrightarrow> take (length p) s = p"

definition isRestField :: "string \<Rightarrow> bool" where
  "isRestField f \<longleftrightarrow> starts_with REST_PREFIX f"

definition baseFieldName :: "string \<Rightarrow> string" where
  "baseFieldName f = (if starts_with REST_PREFIX f then drop (length REST_PREFIX) f else f)"

section \<open>The repeated group of a format\<close>

record field_group =
  grp_prefix :: "string list"
  grp_group :: "string list"
  grp_suffix :: "string list"

text \<open>The body of the two loops: the block of \<open>len\<close> names at \<open>start\<close>, when its copy follows it.\<close>

definition group_at :: "string list \<Rightarrow> nat \<Rightarrow> nat \<Rightarrow> field_group option" where
  "group_at names len start =
     (let block = take len (drop start names) in
      if \<exists>f\<in>set block. f \<in> set AUTO_FIELDS \<or> isRestField f then None
      else if block = take len (drop (start + len) names)
      then Some \<lparr>grp_prefix = take start names, grp_group = block,
                 grp_suffix = drop (start + 2 * len) names\<rparr>
      else None)"

text \<open>\<open>for (start = 0; start + 2 * len <= names.length; start++)\<close>, by the starts still to try.\<close>

fun group_scan :: "string list \<Rightarrow> nat \<Rightarrow> nat list \<Rightarrow> field_group option" where
  "group_scan names len [] = None"
| "group_scan names len (start # starts) =
     (case group_at names len start of Some g \<Rightarrow> Some g | None \<Rightarrow> group_scan names len starts)"

text \<open>\<open>for (len = floor(fields.length / 2); len >= 1 && !result; len--)\<close>.\<close>

fun group_search :: "string list \<Rightarrow> nat \<Rightarrow> field_group option" where
  "group_search names 0 = None"
| "group_search names (Suc n) =
     (case group_scan names (Suc n) [0..<Suc (length names) - 2 * Suc n] of
        Some g \<Rightarrow> Some g
      | None \<Rightarrow> group_search names n)"

text \<open>The fail-closed pass over a format without a group: the first field name seen twice.\<close>

fun first_repeat :: "string list \<Rightarrow> string list \<Rightarrow> string option" where
  "first_repeat seen [] = None"
| "first_repeat seen (f # fs) =
     (if f \<in> set AUTO_FIELDS then first_repeat seen fs
      else if f \<in> set seen then Some f
      else first_repeat (f # seen) fs)"

definition group_of_fields :: "string list \<Rightarrow> format_error + field_group option" where
  "group_of_fields names =
     (case group_search names (length names div 2) of
        Some g \<Rightarrow> Inr (Some g)
      | None \<Rightarrow> (case first_repeat [] names of
                   Some f \<Rightarrow> Inl (UNSUPPORTED_REPEATED_FORMAT f)
                 | None \<Rightarrow> Inr None))"

definition getRepeatedGroup :: "string \<Rightarrow> nat \<Rightarrow> format_error + field_group option" where
  "getRepeatedGroup action version = try_bind (getFormatFields action version) group_of_fields"

definition isRepeatedFormat :: "string \<Rightarrow> nat \<Rightarrow> format_error + bool" where
  "isRepeatedFormat action version =
     try_bind (getRepeatedGroup action version) (\<lambda>g. Inr (g \<noteq> None))"

section \<open>What the search returns\<close>

lemma group_at_layout:
  assumes "group_at names len start = Some g" and "start + 2 * len \<le> length names"
  shows "names = grp_prefix g @ grp_group g @ grp_group g @ grp_suffix g"
    and "length (grp_group g) = len"
    and "\<forall>f\<in>set (grp_group g). f \<notin> set AUTO_FIELDS \<and> \<not> isRestField f"
proof -
  from assms(1) have g: "grp_prefix g = take start names" "grp_group g = take len (drop start names)"
      "grp_suffix g = drop (start + 2 * len) names"
    and e: "take len (drop start names) = take len (drop (start + len) names)"
    and n: "\<not> (\<exists>f\<in>set (take len (drop start names)). f \<in> set AUTO_FIELDS \<or> isRestField f)"
    by (auto simp: group_at_def Let_def split: if_splits)
  have gB: "grp_group g = take len (drop (start + len) names)" using g(2) e by simp
  have "drop start names = take len (drop start names) @ drop (start + len) names"
    by (metis append_take_drop_id drop_drop add.commute)
  moreover have "drop (start + len) names = take len (drop (start + len) names) @ drop (start + 2 * len) names"
    by (metis append_take_drop_id drop_drop add.commute add.assoc mult_2)
  ultimately have "drop start names = grp_group g @ grp_group g @ grp_suffix g"
    unfolding g(3) by (metis g(2) gB)
  with g(1) show "names = grp_prefix g @ grp_group g @ grp_group g @ grp_suffix g"
    by (metis append_take_drop_id)
  show "length (grp_group g) = len" using assms(2) g(2) by simp
  show "\<forall>f\<in>set (grp_group g). f \<notin> set AUTO_FIELDS \<and> \<not> isRestField f"
    using n g(2) by auto
qed

lemma group_scan_Some:
  "group_scan names len starts = Some g \<Longrightarrow> \<exists>start\<in>set starts. group_at names len start = Some g"
  by (induction starts) (auto split: option.splits)

lemma group_scan_None:
  "group_scan names len starts = None \<Longrightarrow> start \<in> set starts \<Longrightarrow> group_at names len start = None"
  by (induction starts) (auto split: option.splits)

lemma group_search_Some:
  assumes "group_search names n = Some g"
  shows "\<exists>len start. 1 \<le> len \<and> len \<le> n \<and> start + 2 * len \<le> length names \<and> group_at names len start = Some g"
  using assms
proof (induction n)
  case 0
  then show ?case by simp
next
  case (Suc n)
  show ?case
  proof (cases "group_scan names (Suc n) [0..<Suc (length names) - 2 * Suc n]")
    case None
    with Suc.prems have "group_search names n = Some g" by simp
    from Suc.IH [OF this] show ?thesis by (meson le_SucI)
  next
    case (Some h)
    with Suc.prems have "group_scan names (Suc n) [0..<Suc (length names) - 2 * Suc n] = Some g" by simp
    from group_scan_Some [OF this] obtain start where
      "start \<in> set [0..<Suc (length names) - 2 * Suc n]" "group_at names (Suc n) start = Some g" by blast
    then show ?thesis
      by (intro exI [of _ "Suc n"] exI [of _ start]) auto
  qed
qed

lemma group_search_None:
  assumes "group_search names n = None" "1 \<le> len" "len \<le> n" "start + 2 * len \<le> length names"
  shows "group_at names len start = None"
  using assms
proof (induction n)
  case 0
  then show ?case by simp
next
  case (Suc n)
  then have none: "group_scan names (Suc n) [0..<Suc (length names) - 2 * Suc n] = None"
      and rec: "group_search names n = None"
    by (auto split: option.splits)
  show ?case
  proof (cases "len = Suc n")
    case True
    with Suc.prems have "start \<in> set [0..<Suc (length names) - 2 * Suc n]" by auto
    from group_scan_None [OF none this] True show ?thesis by simp
  next
    case False
    with Suc.IH [OF rec] Suc.prems show ?thesis by simp
  qed
qed

lemma first_repeat_None:
  "first_repeat seen names = None \<longleftrightarrow>
     distinct (filter (\<lambda>f. f \<notin> set AUTO_FIELDS) names)
     \<and> set (filter (\<lambda>f. f \<notin> set AUTO_FIELDS) names) \<inter> set seen = {}"
  by (induction seen names rule: first_repeat.induct) auto

text \<open>A group the decomposition reports is the format's block between prefix and suffix, twice.\<close>

lemma group_of_fields_layout:
  assumes "group_of_fields names = Inr (Some g)"
  shows "names = grp_prefix g @ grp_group g @ grp_group g @ grp_suffix g" (is ?A)
    and "grp_group g \<noteq> []" (is ?B)
    and "\<forall>f\<in>set (grp_group g). f \<notin> set AUTO_FIELDS \<and> \<not> isRestField f" (is ?C)
proof -
  from assms have "group_search names (length names div 2) = Some g"
    by (auto simp: group_of_fields_def split: option.splits)
  from group_search_Some [OF this] obtain len start where
    s: "1 \<le> len" "start + 2 * len \<le> length names" "group_at names len start = Some g" by blast
  from group_at_layout [OF s(3) s(2)] s(1) show ?A ?B ?C by auto
qed

text \<open>A format reported as having no group repeats no user field.\<close>

lemma group_of_fields_None:
  assumes "group_of_fields names = Inr None"
  shows "distinct (filter (\<lambda>f. f \<notin> set AUTO_FIELDS) names)"
proof -
  from assms have "first_repeat [] names = None"
    by (auto simp: group_of_fields_def split: option.splits)
  then show ?thesis by (simp add: first_repeat_None)
qed

section \<open>Well-formedness of the table\<close>

text \<open>
  Every line starts with \<open>VERSION\<close>, which occurs nowhere else; only its last field can be a rest
  field, and its base name is not the name of another field; no field is named like the caller's LEGS
  array. Action names hold no separator and versions have at most two digits.
\<close>

definition wf_names :: "string list \<Rightarrow> bool" where
  "wf_names ns \<longleftrightarrow>
     (case ns of
        [] \<Rightarrow> False
      | n # rest \<Rightarrow> n = ''VERSION'' \<and> rest \<noteq> [] \<and>
          list_all (\<lambda>f. f \<noteq> ''VERSION'' \<and> baseFieldName f \<noteq> ''VERSION'' \<and> baseFieldName f \<noteq> LEGS_FIELD) rest \<and>
          list_all (\<lambda>f. \<not> isRestField f) (butlast rest) \<and>
          (isRestField (last rest) \<longrightarrow> baseFieldName (last rest) \<notin> set (butlast rest)))"

definition wf_table :: "(string \<times> (nat \<times> string) list) list \<Rightarrow> bool" where
  "wf_table t \<longleftrightarrow> list_all (\<lambda>(a, vs). a \<noteq> [] \<and> CHR ''|'' \<notin> set a \<and>
     list_all (\<lambda>(v, line). v < 100 \<and> wf_names (split_on (CHR ''|'') line)) vs) t"

lemma formats_wf: "wf_table formats"
  by code_simp

lemma format_line_in:
  assumes "format_line action version = Some line"
  shows "\<exists>vs. (action, vs) \<in> set formats \<and> (version, line) \<in> set vs"
  using assms by (auto simp: format_line_def split: option.splits dest!: map_of_SomeD)

lemma getFormatFields_table:
  assumes "getFormatFields action version = Inr ns"
  shows "wf_names ns" "version < 100" "action \<noteq> []" "CHR ''|'' \<notin> set action"
    "map_of formats action \<noteq> None" "format_line action version \<noteq> None"
proof -
  from assms obtain line where l: "format_line action version = Some line"
      and n: "ns = split_on (CHR ''|'') line"
    by (auto simp: getFormatFields_def split: option.splits)
  then show "format_line action version \<noteq> None" by simp
  from l show "map_of formats action \<noteq> None" by (auto simp: format_line_def split: option.splits)
  from format_line_in [OF l] obtain vs where
    "(action, vs) \<in> set formats" "(version, line) \<in> set vs" by blast
  with formats_wf n show "wf_names ns" "version < 100" "action \<noteq> []" "CHR ''|'' \<notin> set action"
    by (fastforce simp: wf_table_def list_all_iff)+
qed

lemmas getFormatFields_wf = getFormatFields_table(1)

end
