(* ===== verification/FormatSelector.thy ===== *)
theory FormatSelector
  imports Formats "HOL-Library.Product_Lexorder"
begin

text \<open>
  Choosing a format version and writing the action string: \<open>protocol/format_selector.js\<close>
  (\<open>select\<close>, \<open>selectPinned\<close>, \<open>versionCandidate\<close>) with its parts \<open>repeated_legs.js\<close> (the per-leg
  array of a multi-leg action) and \<open>selection.js\<close> (\<open>estimateLength\<close>, \<open>canonicalVersion\<close>, \<open>serialize\<close>).

  A caller's field map is an association list of property names and values; the names of
  \<open>Object.prototype\<close>, which a plain object inherits, are no field names of any format and are left
  out. Every throw of the code is an \<open>Inl\<close> with its error code.
\<close>

type_synonym field_map = "(string \<times> jsval) list"

section \<open>Reading the caller's fields\<close>

definition is_populated :: "jsval \<Rightarrow> bool" where
  "is_populated v \<longleftrightarrow> \<not> is_nullish v \<and> v \<noteq> JStr []"

definition getPopulatedFields :: "field_map \<Rightarrow> string list" where
  "getPopulatedFields fs = map fst (filter (\<lambda>(k, v). is_populated v) fs)"

text \<open>One entry of the LEGS array: an object, neither null nor an array.\<close>

fun leg_of :: "jsval \<Rightarrow> format_error + field_map" where
  "leg_of (JObj kvs) = Inr kvs"
| "leg_of (JRegex r) = Inr []"
| "leg_of v = Inl INVALID_LEGS"

fun map_result :: "('a \<Rightarrow> 'e + 'b) \<Rightarrow> 'a list \<Rightarrow> 'e + 'b list" where
  "map_result f [] = Inr []"
| "map_result f (x # xs) = try_bind (f x) (\<lambda>y. try_bind (map_result f xs) (\<lambda>ys. Inr (y # ys)))"

definition getLegs :: "field_map \<Rightarrow> format_error + field_map list option" where
  "getLegs fs =
     (case get_prop fs LEGS_FIELD of
        JUndef \<Rightarrow> Inr None
      | JNull \<Rightarrow> Inr None
      | JArr vs \<Rightarrow> (if vs = [] then Inl INVALID_LEGS
                     else try_bind (map_result leg_of vs) (\<lambda>legs. Inr (Some legs)))
      | _ \<Rightarrow> Inl INVALID_LEGS)"

definition legFieldValue :: "string \<Rightarrow> field_map \<Rightarrow> field_map \<Rightarrow> format_error + string" where
  "legFieldValue name leg fs =
     (let v = (if is_nullish (get_prop leg name) then get_prop fs name else get_prop leg name) in
      if is_nullish v then Inr []
      else case v of JArr _ \<Rightarrow> Inl INVALID_LEGS | _ \<Rightarrow> Inr (js_string v))"

text \<open>The loop of \<open>sharedValue\<close>: the value so far (None before any is seen) against each leg.\<close>

fun shared_loop :: "string \<Rightarrow> jsval option \<Rightarrow> field_map list \<Rightarrow> format_error + jsval option" where
  "shared_loop name v [] = Inr v"
| "shared_loop name v (leg # legs) =
     (let lv = get_prop leg name in
      if \<not> is_populated lv then shared_loop name v legs
      else case v of
          None \<Rightarrow> shared_loop name (Some lv) legs
        | Some w \<Rightarrow> if js_string lv \<noteq> js_string w then Inl (INCONSISTENT_SHARED_FIELD name)
                    else shared_loop name v legs)"

definition sharedValue :: "string \<Rightarrow> field_map \<Rightarrow> field_map list \<Rightarrow> format_error + string" where
  "sharedValue name fs legs =
     try_bind
       (shared_loop name (if is_populated (get_prop fs name) then Some (get_prop fs name) else None) legs)
       (\<lambda>v. case v of
            None \<Rightarrow> Inr []
          | Some (JArr _) \<Rightarrow> Inl INVALID_LEGS
          | Some w \<Rightarrow> Inr (js_string w))"

section \<open>Legs and formats\<close>

definition leg_fields :: "field_map list \<Rightarrow> string list" where
  "leg_fields legs = remdups (concat (map getPopulatedFields legs))"

text \<open>The legs that name a shared field agree on its text.\<close>

fun legs_agree :: "string \<Rightarrow> string option \<Rightarrow> field_map list \<Rightarrow> bool" where
  "legs_agree name v [] = True"
| "legs_agree name v (leg # legs) =
     (let lv = get_prop leg name in
      if \<not> is_populated lv then legs_agree name v legs
      else case v of
          None \<Rightarrow> legs_agree name (Some (js_string lv)) legs
        | Some w \<Rightarrow> js_string lv = w \<and> legs_agree name v legs)"

definition legsFit :: "field_group option \<Rightarrow> string list \<Rightarrow> field_map list \<Rightarrow> bool" where
  "legsFit grp slots legs \<longleftrightarrow>
     (\<forall>f\<in>set (leg_fields legs). f \<in> set slots) \<and>
     (case grp of
        None \<Rightarrow> length legs = 1
      | Some g \<Rightarrow> (\<forall>f\<in>set (leg_fields legs). f \<in> set (grp_group g) \<or> legs_agree f None legs))"

definition flattenSingleLeg :: "field_map \<Rightarrow> field_map \<Rightarrow> field_map" where
  "flattenSingleLeg fs leg = filter (\<lambda>(k, v). k \<noteq> LEGS_FIELD) (leg @ fs)"

definition repeatedFieldNames :: "field_group \<Rightarrow> string list" where
  "repeatedFieldNames g =
     filter (\<lambda>f. f \<notin> set AUTO_FIELDS) (grp_prefix g @ grp_group g @ grp_suffix g)"

text \<open>The first leg field without a slot, legs in order and keys in order.\<close>

fun unknown_leg_field :: "string list \<Rightarrow> field_map list \<Rightarrow> string option" where
  "unknown_leg_field known [] = None"
| "unknown_leg_field known (leg # legs) =
     (case List.find (\<lambda>k. k \<notin> set known) (map fst leg) of
        Some k \<Rightarrow> Some k
      | None \<Rightarrow> unknown_leg_field known legs)"

definition prefix_part :: "nat \<Rightarrow> field_map \<Rightarrow> field_map list \<Rightarrow> string \<Rightarrow> format_error + string" where
  "prefix_part version fs legs name =
     (if name = ''VERSION'' then Inr (nat_str version) else sharedValue name fs legs)"

definition leg_parts :: "field_map \<Rightarrow> field_group \<Rightarrow> field_map \<Rightarrow> format_error + string list" where
  "leg_parts fs g leg = map_result (\<lambda>name. legFieldValue name leg fs) (grp_group g)"

definition buildRepeatedParts ::
  "string \<Rightarrow> nat \<Rightarrow> field_map \<Rightarrow> field_group \<Rightarrow> field_map list \<Rightarrow> format_error + string list" where
  "buildRepeatedParts action version fs g legs =
     (case unknown_leg_field (repeatedFieldNames g) legs of
        Some k \<Rightarrow> Inl (LEG_FIELD_NOT_IN_FORMAT k)
      | None \<Rightarrow>
          try_bind (map_result (prefix_part version fs legs) (grp_prefix g)) (\<lambda>ps.
          try_bind (map_result (leg_parts fs g) legs) (\<lambda>ls.
          try_bind (map_result (\<lambda>name. sharedValue name fs legs) (grp_suffix g)) (\<lambda>ss.
            Inr (action # ps @ concat ls @ ss)))))"

section \<open>Estimating, serializing\<close>

text \<open>The length of a rest field: its elements and the separators between them.\<close>

definition rest_length :: "jsval \<Rightarrow> nat" where
  "rest_length v =
     (case v of
        JArr vs \<Rightarrow> (if vs = [] then 0 else sum_list (map (\<lambda>x. length (js_string x)) vs) + (length vs - 1))
      | _ \<Rightarrow> 0)"

fun estimate_fields :: "nat \<Rightarrow> field_map \<Rightarrow> string list \<Rightarrow> nat" where
  "estimate_fields version fs [] = 0"
| "estimate_fields version fs (name # rest) =
     (if isRestField name then rest_length (get_prop fs (baseFieldName name))
      else length (if name = ''VERSION'' then nat_str version else js_text (get_prop fs name))
           + (if rest = [] then 0 else 1))
     + estimate_fields version fs rest"

definition estimateLength :: "string \<Rightarrow> nat \<Rightarrow> field_map \<Rightarrow> format_error + nat" where
  "estimateLength action version fs =
     try_bind (getRepeatedGroup action version) (\<lambda>grp.
     try_bind (getLegs fs) (\<lambda>legs.
       case (grp, legs) of
         (Some g, Some ls) \<Rightarrow>
           try_bind (buildRepeatedParts action version fs g ls) (\<lambda>parts. Inr (length (join ''|'' parts)))
       | _ \<Rightarrow>
           (let flat = (case legs of Some [leg] \<Rightarrow> flattenSingleLeg fs leg | _ \<Rightarrow> fs) in
            try_bind (getFormatFields action version) (\<lambda>names.
              Inr (length action + 1 + estimate_fields version flat names)))))"

definition canonicalVersion :: "jsval \<Rightarrow> nat option" where
  "canonicalVersion v =
     (case v of
        JInt i \<Rightarrow> if 0 \<le> i then Some (nat i) else None
      | JStr s \<Rightarrow> if all_digits s then Some (nat_of_digits s) else None
      | _ \<Rightarrow> None)"

definition serializeRepeated ::
  "string \<Rightarrow> nat \<Rightarrow> field_map \<Rightarrow> field_group \<Rightarrow> field_map list option \<Rightarrow> format_error + string" where
  "serializeRepeated action version fs g legs =
     (case legs of
        None \<Rightarrow> Inl REPEATED_FORMAT_REQUIRES_LEGS
      | Some ls \<Rightarrow> try_bind (buildRepeatedParts action version fs g ls)
                     (\<lambda>parts. Inr (join ''|'' (pop_empties 2 parts))))"

text \<open>The segments one format field contributes: one, or as many as a rest field has elements.\<close>

definition field_parts :: "nat \<Rightarrow> field_map \<Rightarrow> string \<Rightarrow> string list" where
  "field_parts version fs name =
     (if name = ''VERSION'' then [nat_str version]
      else if isRestField name
      then (case get_prop fs (baseFieldName name) of JArr vs \<Rightarrow> map js_text vs | _ \<Rightarrow> [])
      else [js_text (get_prop fs name)])"

definition flat_parts :: "string \<Rightarrow> nat \<Rightarrow> field_map \<Rightarrow> string list \<Rightarrow> string list" where
  "flat_parts action version fs names = action # concat (map (field_parts version fs) names)"

text \<open>The field map of a single-leg format: a lone leg is folded into the flat map, more are refused.\<close>

definition flat_fields :: "field_map \<Rightarrow> field_map list option \<Rightarrow> format_error + field_map" where
  "flat_fields fs legs =
     (case legs of
        None \<Rightarrow> Inr fs
      | Some ls \<Rightarrow> if 1 < length ls then Inl SINGLE_LEG_FORMAT else Inr (flattenSingleLeg fs (hd ls)))"

definition serialize :: "string \<Rightarrow> nat \<Rightarrow> field_map \<Rightarrow> format_error + string" where
  "serialize action version fs =
     try_bind (getRepeatedGroup action version) (\<lambda>grp.
     try_bind (getLegs fs) (\<lambda>legs.
       case grp of
         Some g \<Rightarrow> serializeRepeated action version fs g legs
       | None \<Rightarrow>
           try_bind (flat_fields fs legs) (\<lambda>flat.
           try_bind (getFormatFields action version) (\<lambda>names.
             Inr (join ''|'' (pop_empties 2 (flat_parts action version flat names)))))))"

section \<open>Choosing a version\<close>

record candidate =
  c_version :: nat
  c_names :: "string list"
  c_length :: nat

definition user_slots :: "string list \<Rightarrow> string list" where
  "user_slots names = remdups (map baseFieldName (filter (\<lambda>f. f \<notin> set AUTO_FIELDS) names))"

definition pin_only :: "string \<Rightarrow> nat \<Rightarrow> bool" where
  "pin_only action version \<longleftrightarrow>
     (case map_of PIN_ONLY_VERSIONS action of None \<Rightarrow> False | Some vs \<Rightarrow> version \<in> set vs)"

definition versionCandidate ::
  "string \<Rightarrow> field_map \<Rightarrow> string list \<Rightarrow> field_map list option \<Rightarrow> nat \<Rightarrow> format_error + candidate option" where
  "versionCandidate action fs populated legs version =
     (if pin_only action version then Inr None
      else
        try_bind (getFormatFields action version) (\<lambda>names.
        try_bind (getRepeatedGroup action version) (\<lambda>grp.
          if grp \<noteq> None \<and> legs = None then Inr None
          else if \<not> (\<forall>f\<in>set populated. f \<in> set (user_slots names)) then Inr None
          else if (case legs of None \<Rightarrow> False | Some ls \<Rightarrow> \<not> legsFit grp (user_slots names) ls) then Inr None
          else try_bind (estimateLength action version fs) (\<lambda>n.
                 Inr (Some \<lparr>c_version = version, c_names = names, c_length = n\<rparr>)))))"

fun collect_candidates :: "(nat \<Rightarrow> format_error + candidate option) \<Rightarrow> nat list \<Rightarrow> format_error + candidate list" where
  "collect_candidates f [] = Inr []"
| "collect_candidates f (v # vs) =
     try_bind (f v) (\<lambda>c. try_bind (collect_candidates f vs) (\<lambda>cs.
       Inr (case c of None \<Rightarrow> cs | Some x \<Rightarrow> x # cs)))"

definition selectPinned :: "string \<Rightarrow> field_map \<Rightarrow> jsval \<Rightarrow> format_error + candidate" where
  "selectPinned action fs explicit =
     (case canonicalVersion explicit of
        None \<Rightarrow> Inl INVALID_VERSION
      | Some v \<Rightarrow>
          (case format_line action v of
             None \<Rightarrow> Inl INVALID_VERSION
           | Some _ \<Rightarrow>
               try_bind (getFormatFields action v) (\<lambda>names.
                 let dropped = filter (\<lambda>f. f \<notin> set (user_slots names))
                                 (filter (\<lambda>f. f \<noteq> LEGS_FIELD) (getPopulatedFields fs)) in
                 if dropped \<noteq> [] then Inl (NO_MATCHING_FORMAT dropped)
                 else try_bind (estimateLength action v fs) (\<lambda>n.
                        Inr \<lparr>c_version = v, c_names = names, c_length = n\<rparr>))))"

text \<open>\<open>noMatchingFormatError\<close>: the populated fields it names, LEGS last when legs were given.\<close>

definition noMatchingFormatError :: "string list \<Rightarrow> field_map list option \<Rightarrow> format_error" where
  "noMatchingFormatError populated legs =
     NO_MATCHING_FORMAT (populated @ (if legs = None then [] else [LEGS_FIELD]))"

definition select :: "string \<Rightarrow> field_map \<Rightarrow> jsval \<Rightarrow> format_error + candidate" where
  "select action fs explicit =
     (case map_of formats action of
        None \<Rightarrow> Inl (UNKNOWN_ACTION action)
      | Some vs \<Rightarrow>
          if \<not> is_nullish explicit then selectPinned action fs explicit
          else
            try_bind (getLegs fs) (\<lambda>legs.
              let populated = filter (\<lambda>f. f \<noteq> LEGS_FIELD) (getPopulatedFields fs) in
              try_bind (collect_candidates (versionCandidate action fs populated legs) (map fst vs)) (\<lambda>cs.
                if cs = [] then Inl (noMatchingFormatError populated legs)
                else Inr (hd (sort_key (\<lambda>c. (c_length c, c_version c)) cs)))))"

section \<open>What select returns\<close>

lemma collect_candidates_set:
  "collect_candidates f vs = Inr cs \<Longrightarrow> c \<in> set cs \<longleftrightarrow> (\<exists>v\<in>set vs. f v = Inr (Some c))"
  by (induction vs arbitrary: cs) (auto simp: try_bind_Inr split: option.splits)

lemma collect_candidates_each:
  "collect_candidates f vs = Inr cs \<Longrightarrow> v \<in> set vs \<Longrightarrow> \<exists>r. f v = Inr r"
  by (induction vs arbitrary: cs) (auto simp: try_bind_Inr)

text \<open>What makes a version eligible for the caller's fields.\<close>

definition fits :: "string \<Rightarrow> field_map \<Rightarrow> candidate \<Rightarrow> bool" where
  "fits action fs c \<longleftrightarrow>
     getFormatFields action (c_version c) = Inr (c_names c) \<and>
     estimateLength action (c_version c) fs = Inr (c_length c) \<and>
     (\<forall>f\<in>set (getPopulatedFields fs). f = LEGS_FIELD \<or> f \<in> set (user_slots (c_names c)))"

lemma versionCandidate_Some:
  assumes "versionCandidate action fs populated legs v = Inr (Some c)"
  shows "getFormatFields action v = Inr (c_names c)" "estimateLength action v fs = Inr (c_length c)"
    "c_version c = v" "\<forall>f\<in>set populated. f \<in> set (user_slots (c_names c))"
    "\<not> pin_only action v"
    "\<exists>grp. getRepeatedGroup action v = Inr grp \<and> (grp = None \<or> legs \<noteq> None)
       \<and> (\<forall>ls. legs = Some ls \<longrightarrow> legsFit grp (user_slots (c_names c)) ls)"
  using assms unfolding versionCandidate_def try_bind_Inr
  by (cases legs; fastforce simp: try_bind_Inr split: if_split_asm)+

lemma versionCandidate_fits:
  assumes "versionCandidate action fs (filter (\<lambda>f. f \<noteq> LEGS_FIELD) (getPopulatedFields fs)) legs v = Inr (Some c)"
  shows "fits action fs c" and "c_version c = v"
  using versionCandidate_Some [OF assms] by (auto simp: fits_def)

lemma selectPinned_fits:
  assumes "selectPinned action fs explicit = Inr c"
  shows "fits action fs c" and "canonicalVersion explicit = Some (c_version c)"
proof -
  from assms obtain v line where v: "canonicalVersion explicit = Some v" "format_line action v = Some line"
    by (auto simp: selectPinned_def split: option.splits)
  let ?dropped = "\<lambda>ns. filter (\<lambda>f. f \<notin> set (user_slots ns)) (filter (\<lambda>f. f \<noteq> LEGS_FIELD) (getPopulatedFields fs))"
  from assms v obtain ns n where n: "getFormatFields action v = Inr ns" "?dropped ns = []"
      "estimateLength action v fs = Inr n" "c = \<lparr>c_version = v, c_names = ns, c_length = n\<rparr>"
    by (auto simp: selectPinned_def try_bind_Inr Let_def split: if_split_asm)
  show "canonicalVersion explicit = Some (c_version c)" using v n(4) by simp
  show "fits action fs c" using n by (auto simp: fits_def filter_empty_conv)
qed

lemma select_auto:
  assumes "select action fs explicit = Inr c" and "is_nullish explicit"
  obtains vs legs cs where "map_of formats action = Some vs" "getLegs fs = Inr legs"
    "collect_candidates (versionCandidate action fs
       (filter (\<lambda>f. f \<noteq> LEGS_FIELD) (getPopulatedFields fs)) legs) (map fst vs) = Inr cs"
    "cs \<noteq> []" "c = hd (sort_key (\<lambda>c. (c_length c, c_version c)) cs)"
  using assms
  by (auto simp: select_def Let_def try_bind_Inr split: option.splits if_splits)

lemma hd_sort_key_le:
  assumes "c \<in> set cs"
  shows "f (hd (sort_key f cs)) \<le> f c"
proof -
  have "sorted (map f (sort_key f cs))" by simp
  moreover have "sort_key f cs \<noteq> []" using assms by (metis empty_iff list.set(1) set_sort)
  then obtain x xs where s: "sort_key f cs = x # xs" by (cases "sort_key f cs") auto
  ultimately have "\<forall>y\<in>set xs. f x \<le> f y" by simp
  moreover have "c \<in> set (x # xs)" using assms s by (metis set_sort)
  ultimately show ?thesis using s by auto
qed

lemma hd_sort_key_in: "cs \<noteq> [] \<Longrightarrow> hd (sort_key f cs) \<in> set cs"
  by (metis hd_in_set set_sort set_empty)

lemma select_fits:
  assumes "select action fs explicit = Inr c"
  shows "fits action fs c"
proof (cases "is_nullish explicit")
  case True
  obtain vs legs cs where
    s0: "map_of formats action = Some vs" "getLegs fs = Inr legs" and
    s: "collect_candidates (versionCandidate action fs
       (filter (\<lambda>f. f \<noteq> LEGS_FIELD) (getPopulatedFields fs)) legs) (map fst vs) = Inr cs"
      "cs \<noteq> []" "c = hd (sort_key (\<lambda>c. (c_length c, c_version c)) cs)"
    by (rule select_auto [OF assms True])
  from hd_sort_key_in [OF s(2)] s(3) have "c \<in> set cs" by metis
  with collect_candidates_set [OF s(1)] show ?thesis by (blast intro: versionCandidate_fits(1))
next
  case False
  with assms show ?thesis
    by (auto simp: select_def split: option.splits intro: selectPinned_fits(1))
qed

lemma fits_user_slots:
  "f \<in> set (user_slots ns) \<longleftrightarrow> (\<exists>n\<in>set ns. n \<noteq> ''VERSION'' \<and> f = baseFieldName n)"
  by (auto simp: user_slots_def AUTO_FIELDS_def)

section \<open>The estimate bounds the serialized length\<close>

text \<open>The characters of some segments, each with one separator.\<close>

definition seg_chars :: "string list \<Rightarrow> nat" where
  "seg_chars xs = sum_list (map (\<lambda>x. Suc (length x)) xs)"

lemma seg_chars_simps [simp]:
  "seg_chars [] = 0" "seg_chars (x # xs) = Suc (length x) + seg_chars xs"
  "seg_chars (xs @ ys) = seg_chars xs + seg_chars ys"
  by (simp_all add: seg_chars_def)

lemma length_join_pipe: "length (join ''|'' (x # xs)) = length x + seg_chars xs"
  by (induction xs arbitrary: x) auto

lemma js_text_le_string: "length (js_text v) \<le> length (js_string v)"
  by (simp add: js_text_def)

lemma rest_chars: "seg_chars (map js_text vs) \<le> sum_list (map (\<lambda>x. length (js_string x)) vs) + length vs"
proof (induction vs)
  case Nil
  then show ?case by simp
next
  case (Cons v vs)
  with js_text_le_string [of v] show ?case by simp
qed

lemma estimate_covers_parts:
  assumes "list_all (\<lambda>f. \<not> isRestField f) (butlast ns)" and "\<not> isRestField ''VERSION''"
  shows "seg_chars (concat (map (field_parts version fs) ns)) \<le> Suc (estimate_fields version fs ns)"
  using assms(1)
proof (induction ns)
  case Nil
  then show ?case by simp
next
  case (Cons name ns)
  show ?case
  proof (cases "ns = []")
    case True
    show ?thesis
    proof (cases "isRestField name")
      case True
      with assms(2) have n: "name \<noteq> ''VERSION''" by auto
      show ?thesis
      proof (cases "get_prop fs (baseFieldName name)")
        case (JArr vs)
        with True n \<open>ns = []\<close> rest_chars [of vs] show ?thesis
          by (cases vs) (auto simp: field_parts_def rest_length_def)
      qed (use True n \<open>ns = []\<close> in \<open>auto simp: field_parts_def\<close>)
    qed (use True in \<open>auto simp: field_parts_def\<close>)
  next
    case False
    with Cons.prems have "\<not> isRestField name" "list_all (\<lambda>f. \<not> isRestField f) (butlast ns)" by auto
    with Cons.IH False show ?thesis by (auto simp: field_parts_def)
  qed
qed

lemma not_rest_VERSION: "\<not> isRestField ''VERSION''"
  by (simp add: isRestField_def starts_with_def REST_PREFIX_def)

lemma wf_names_butlast:
  "wf_names ns \<Longrightarrow> list_all (\<lambda>f. \<not> isRestField f) (butlast ns)"
  using not_rest_VERSION by (auto simp: wf_names_def split: list.splits)

lemma pop_empties_length_join:
  "length (join ''|'' (pop_empties k (x # xs))) \<le> length (join ''|'' (x # xs))"
proof -
  obtain n where n: "x # xs = pop_empties k (x # xs) @ replicate n []"
    using pop_empties_pad by blast
  show ?thesis
  proof (cases "pop_empties k (x # xs)")
    case Nil
    then show ?thesis by simp
  next
    case (Cons y ys)
    with n have e: "y = x" "xs = ys @ replicate n []" by auto
    then show ?thesis unfolding Cons by (simp add: length_join_pipe del: join.simps)
  qed
qed

lemma flat_parts_length:
  assumes "wf_names ns"
  shows "length (join ''|'' (pop_empties 2 (flat_parts action version fs ns)))
           \<le> length action + 1 + estimate_fields version fs ns"
proof -
  have "length (join ''|'' (flat_parts action version fs ns)) \<le> length action + 1 + estimate_fields version fs ns"
    using estimate_covers_parts [OF wf_names_butlast [OF assms] not_rest_VERSION, of version fs]
    by (simp add: flat_parts_def length_join_pipe del: join.simps)
  moreover have "length (join ''|'' (pop_empties 2 (flat_parts action version fs ns)))
      \<le> length (join ''|'' (flat_parts action version fs ns))"
    unfolding flat_parts_def by (rule pop_empties_length_join)
  ultimately show ?thesis by linarith
qed

lemma serialize_flat:
  assumes "serialize action version fs = Inr line" and "getRepeatedGroup action version = Inr None"
  shows "\<exists>legs flat ns. getLegs fs = Inr legs \<and> flat_fields fs legs = Inr flat
    \<and> getFormatFields action version = Inr ns
    \<and> line = join ''|'' (pop_empties 2 (flat_parts action version flat ns))"
proof -
  from assms(1) obtain grp legs where g: "getRepeatedGroup action version = Inr grp" "getLegs fs = Inr legs"
    by (auto simp: serialize_def try_bind_Inr)
  with assms obtain flat ns where f: "flat_fields fs legs = Inr flat" "getFormatFields action version = Inr ns"
      "line = join ''|'' (pop_empties 2 (flat_parts action version flat ns))"
    by (auto simp: serialize_def try_bind_Inr)
  with g show ?thesis by blast
qed

lemma getLegs_nonempty: "getLegs fs = Inr (Some ls) \<Longrightarrow> ls \<noteq> []"
  by (auto simp: getLegs_def try_bind_Inr neq_Nil_conv split: jsval.splits if_splits)

lemma serialize_repeated:
  assumes "serialize action version fs = Inr line" and "getRepeatedGroup action version = Inr (Some g)"
  shows "\<exists>legs ps. getLegs fs = Inr (Some legs) \<and> buildRepeatedParts action version fs g legs = Inr ps
    \<and> line = join ''|'' (pop_empties 2 ps)"
proof -
  from assms(1) obtain grp legs where g: "getRepeatedGroup action version = Inr grp" "getLegs fs = Inr legs"
    by (auto simp: serialize_def try_bind_Inr)
  with assms have "serializeRepeated action version fs g legs = Inr line"
    by (simp add: serialize_def)
  with g(2) show ?thesis
    by (auto simp: serializeRepeated_def try_bind_Inr split: option.splits)
qed

lemma buildRepeatedParts_head:
  "buildRepeatedParts action version fs g legs = Inr ps \<Longrightarrow> \<exists>rest. ps = action # rest"
  by (auto simp: buildRepeatedParts_def try_bind_Inr split: option.splits)

text \<open>What estimateLength measures: the untrimmed repeated layout, or the flat one.\<close>

lemma estimate_flat:
  assumes "estimateLength action version fs = Inr n" "getRepeatedGroup action version = Inr None"
    "getLegs fs = Inr legs" "flat_fields fs legs = Inr flat" "getFormatFields action version = Inr ns"
  shows "n = length action + 1 + estimate_fields version flat ns"
proof (cases legs)
  case None
  with assms show ?thesis by (simp add: estimateLength_def flat_fields_def)
next
  case (Some ls)
  with assms getLegs_nonempty obtain leg where "ls = [leg]"
    by (cases ls) (auto simp: flat_fields_def split: if_splits)
  with Some assms show ?thesis by (simp add: estimateLength_def flat_fields_def)
qed

lemma estimate_bounds_serialize:
  assumes "serialize action version fs = Inr line" "estimateLength action version fs = Inr n"
  shows "length line \<le> n"
proof -
  from assms(1) obtain grp where g: "getRepeatedGroup action version = Inr grp"
    by (auto simp: serialize_def try_bind_Inr)
  show ?thesis
  proof (cases grp)
    case None
    from serialize_flat [OF assms(1) g [unfolded None]] obtain legs flat ns where
      s: "getLegs fs = Inr legs" "flat_fields fs legs = Inr flat" "getFormatFields action version = Inr ns"
         "line = join ''|'' (pop_empties 2 (flat_parts action version flat ns))" by blast
    from estimate_flat [OF assms(2) g [unfolded None] s(1-3)]
      flat_parts_length [OF getFormatFields_wf [OF s(3)], of action version flat] s(4)
    show ?thesis by simp
  next
    case (Some g')
    from serialize_repeated [OF assms(1) g [unfolded Some]] obtain legs ps where
      s: "getLegs fs = Inr (Some legs)" "buildRepeatedParts action version fs g' legs = Inr ps"
         "line = join ''|'' (pop_empties 2 ps)" by blast
    with assms(2) g Some have "n = length (join ''|'' ps)" by (simp add: estimateLength_def)
    moreover obtain rest where "ps = action # rest" using buildRepeatedParts_head [OF s(2)] by blast
    ultimately show ?thesis using s(3) pop_empties_length_join by simp
  qed
qed

section \<open>Properties of the selector\<close>

text \<open>
  What it means that a format carries the caller's fields, stated of the format's field names and its
  repeated group alone: each populated top-level field and each populated field of a leg has a slot of that name
  other than VERSION; a repeated format is for callers that give legs; a format without a group takes one leg;
  and the legs agree on each field that is no per-leg slot.
\<close>

definition slot_for :: "string list \<Rightarrow> string \<Rightarrow> bool" where
  "slot_for names f \<longleftrightarrow> (\<exists>n\<in>set names. n \<noteq> ''VERSION'' \<and> f = baseFieldName n)"

definition same_in_legs :: "string \<Rightarrow> field_map list \<Rightarrow> bool" where
  "same_in_legs f legs \<longleftrightarrow>
     (\<forall>leg\<in>set legs. \<forall>leg'\<in>set legs. is_populated (get_prop leg f) \<and> is_populated (get_prop leg' f) \<longrightarrow>
        js_string (get_prop leg f) = js_string (get_prop leg' f))"

definition carries :: "field_map \<Rightarrow> field_map list option \<Rightarrow> string list \<Rightarrow> field_group option \<Rightarrow> bool" where
  "carries fs legs names grp \<longleftrightarrow>
     (\<forall>f\<in>set (getPopulatedFields fs). f = LEGS_FIELD \<or> slot_for names f) \<and>
     (case legs of
        None \<Rightarrow> grp = None
      | Some ls \<Rightarrow>
          (\<forall>leg\<in>set ls. \<forall>f\<in>set (getPopulatedFields leg). slot_for names f) \<and>
          (case grp of
             None \<Rightarrow> length ls = 1
           | Some g \<Rightarrow> \<forall>leg\<in>set ls. \<forall>f\<in>set (getPopulatedFields leg). f \<in> set (grp_group g) \<or> same_in_legs f ls))"

lemma legs_agree_Some:
  "legs_agree n (Some w) legs \<longleftrightarrow>
     (\<forall>leg\<in>set legs. is_populated (get_prop leg n) \<longrightarrow> js_string (get_prop leg n) = w)"
  by (induction legs) (auto simp: Let_def)

lemma legs_agree_None: "legs_agree n None legs \<longleftrightarrow> same_in_legs n legs"
  by (induction legs) (auto simp: Let_def same_in_legs_def legs_agree_Some)

lemma getFormatFields_defined: "getFormatFields action v = Inr names \<Longrightarrow> format_line action v \<noteq> None"
  by (auto simp: getFormatFields_def split: option.splits)

lemma versionCandidate_carries:
  assumes "getFormatFields action v = Inr names" "getRepeatedGroup action v = Inr grp"
  shows "versionCandidate action fs (filter (\<lambda>f. f \<noteq> LEGS_FIELD) (getPopulatedFields fs)) legs v =
    (if pin_only action v \<or> \<not> carries fs legs names grp then Inr None
     else try_bind (estimateLength action v fs) (\<lambda>n. Inr (Some \<lparr>c_version = v, c_names = names, c_length = n\<rparr>)))"
proof -
  have slots: "f \<in> set (user_slots names) \<longleftrightarrow> slot_for names f" for f by (simp add: fits_user_slots slot_for_def)
  show ?thesis
  proof (cases legs)
    case None
    then show ?thesis using assms by (auto simp: versionCandidate_def carries_def slots)
  next
    case (Some ls)
    have "legsFit grp (user_slots names) ls \<longleftrightarrow>
        (\<forall>leg\<in>set ls. \<forall>f\<in>set (getPopulatedFields leg). slot_for names f) \<and>
        (case grp of None \<Rightarrow> length ls = 1
         | Some g \<Rightarrow> \<forall>leg\<in>set ls. \<forall>f\<in>set (getPopulatedFields leg). f \<in> set (grp_group g) \<or> same_in_legs f ls)"
      by (auto simp: legsFit_def leg_fields_def slots legs_agree_None split: option.split)
    then show ?thesis using assms Some by (auto simp: versionCandidate_def carries_def slots)
  qed
qed

text \<open>
  C17: What select returns loses no data and is the smallest choice. The version returned is defined in the
  format table for the action; every populated top-level field but LEGS has a slot of that name in it; the
  reported length is the estimate for that version. A version the caller pinned is the one returned (whether
  the legs fit it is left to the serializer). Without a pinned version, the one returned is not reserved for
  pinning and carries the caller's fields and legs; and among all versions that are not reserved and carry
  them it has the least estimated length, and the lowest version among equals.
\<close>

theorem select_smallest_fit:
  assumes "select action fs explicit = Inr c"
  shows "getFormatFields action (c_version c) = Inr (c_names c)
    \<and> estimateLength action (c_version c) fs = Inr (c_length c)
    \<and> (\<forall>f\<in>set (getPopulatedFields fs). f = LEGS_FIELD \<or> slot_for (c_names c) f)
    \<and> (\<not> is_nullish explicit \<longrightarrow> canonicalVersion explicit = Some (c_version c))
    \<and> (is_nullish explicit \<longrightarrow>
         (\<exists>legs grp. getLegs fs = Inr legs \<and> getRepeatedGroup action (c_version c) = Inr grp
           \<and> \<not> pin_only action (c_version c) \<and> carries fs legs (c_names c) grp
           \<and> (\<forall>v names grp n. getFormatFields action v = Inr names \<and> getRepeatedGroup action v = Inr grp
                \<and> \<not> pin_only action v \<and> carries fs legs names grp \<and> estimateLength action v fs = Inr n
                \<longrightarrow> (c_length c, c_version c) \<le> (n, v))))"
proof (intro conjI impI)
  from select_fits [OF assms] have f: "fits action fs c" .
  then show "getFormatFields action (c_version c) = Inr (c_names c)"
    "estimateLength action (c_version c) fs = Inr (c_length c)" by (simp_all add: fits_def)
  from f show "\<forall>f\<in>set (getPopulatedFields fs). f = LEGS_FIELD \<or> slot_for (c_names c) f"
    by (simp add: fits_def fits_user_slots slot_for_def)
next
  assume "\<not> is_nullish explicit"
  with assms have "selectPinned action fs explicit = Inr c" by (simp add: select_def split: option.splits)
  then show "canonicalVersion explicit = Some (c_version c)" by (rule selectPinned_fits(2))
next
  assume "is_nullish explicit"
  let ?cand = "\<lambda>legs. versionCandidate action fs (filter (\<lambda>f. f \<noteq> LEGS_FIELD) (getPopulatedFields fs)) legs"
  obtain vs legs cs where s0: "map_of formats action = Some vs" "getLegs fs = Inr legs" and
    s: "collect_candidates (?cand legs) (map fst vs) = Inr cs"
      "cs \<noteq> []" "c = hd (sort_key (\<lambda>c. (c_length c, c_version c)) cs)"
    by (rule select_auto [OF assms \<open>is_nullish explicit\<close>])
  from hd_sort_key_in [OF s(2)] s(3) have "c \<in> set cs" by metis
  with collect_candidates_set [OF s(1)] obtain v0 where c: "?cand legs v0 = Inr (Some c)" by blast
  note c1 = versionCandidate_Some [OF c]
  from c1(6) obtain grp where grp: "getRepeatedGroup action v0 = Inr grp" by blast
  have ok: "carries fs legs (c_names c) grp"
    using versionCandidate_carries [OF c1(1) grp, of fs legs] c by (auto split: if_split_asm)
  have "(c_length c, c_version c) \<le> (n, v)"
    if v: "getFormatFields action v = Inr names" "getRepeatedGroup action v = Inr g" "\<not> pin_only action v"
      "carries fs legs names g" "estimateLength action v fs = Inr n" for v names g n
  proof -
    let ?d = "\<lparr>c_version = v, c_names = names, c_length = n\<rparr>"
    have d: "?cand legs v = Inr (Some ?d)" using versionCandidate_carries [OF v(1,2), of fs legs] v(3-5) by simp
    have "v \<in> set (map fst vs)"
      using getFormatFields_defined [OF v(1)] s0(1)
      by (auto simp: format_line_def dest: map_of_SomeD intro: rev_image_eqI)
    with d collect_candidates_set [OF s(1)] have "?d \<in> set cs" by blast
    with hd_sort_key_le [of ?d cs "\<lambda>c. (c_length c, c_version c)"] s(3) show ?thesis by simp
  qed
  with s0(2) grp ok c1(3,5)
  show "\<exists>legs grp. getLegs fs = Inr legs \<and> getRepeatedGroup action (c_version c) = Inr grp
      \<and> \<not> pin_only action (c_version c) \<and> carries fs legs (c_names c) grp
      \<and> (\<forall>v names grp n. getFormatFields action v = Inr names \<and> getRepeatedGroup action v = Inr grp
           \<and> \<not> pin_only action v \<and> carries fs legs names grp \<and> estimateLength action v fs = Inr n
           \<longrightarrow> (c_length c, c_version c) \<le> (n, v))" by blast
qed

definition demo_send :: field_map where
  "demo_send = [(''TICK'', JStr ''JDOG''), (''AMOUNT'', JInt 5), (''DESTINATION'', JStr ''bc1q'')]"

lemma demo_send_selected:
  "select ''SEND'' demo_send JUndef
     = Inr \<lparr>c_version = 0, c_names = [''VERSION'', ''TICK'', ''AMOUNT'', ''DESTINATION'', ''MEMO''], c_length = 19\<rparr>"
  by code_simp

theorem select_smallest_fit_witness:
  "(0::nat, 19::nat) \<in> {(v, n). getFormatFields ''SEND'' v = Inr [''VERSION'', ''TICK'', ''AMOUNT'', ''DESTINATION'', ''MEMO'']
     \<and> estimateLength ''SEND'' v demo_send = Inr n}"
  using select_smallest_fit [OF demo_send_selected] by simp

end
