(* ===== verification/ActionDecode.thy ===== *)
theory ActionDecode
  imports FormatSelector
begin

text \<open>
  Reading an action string back: \<open>decoder/parse.js\<close> with \<open>decoder/parse/field_mapping.js\<close>
  in the strict wire mode the co-signer uses (\<open>parse(s, { validate: false, strictWire: true })\<close>), the
  charset rules of \<open>cosigner/policy/param_charset.js\<close> and the judgment
  \<open>judgeActionString\<close> of \<open>cosigner/psbt_action_decode.js\<close>.

  A decoded parameter is \<open>JStr\<close> of its wire segment or, for a repeated or rest field, the \<open>JArr\<close>
  of its segments; the parameter object is an association list in insertion order. The strict mode
  never reaches the BATCH sub-grammar from the co-signer, which refuses BATCH first: here it is the
  refusal \<open>BATCH_GRAMMAR\<close>.
\<close>

section \<open>Aliases and versions\<close>

definition ACTION_ALIASES :: "(string \<times> string) list" where
  "ACTION_ALIASES =
     [(''TRANSFER'', ''SEND''), (''ADDR'', ''ADDRESS''), (''DROP'', ''AIRDROP''),
      (''CAST'', ''BROADCAST''), (''MSG'', ''MESSAGE'')]"

definition expandAlias :: "string \<Rightarrow> string" where
  "expandAlias a = (case map_of ACTION_ALIASES a of Some b \<Rightarrow> b | None \<Rightarrow> a)"

text \<open>The strict VERSION reader: one or two plain digits.\<close>

definition parseVersion :: "string option \<Rightarrow> nat option" where
  "parseVersion seg =
     (case seg of
        None \<Rightarrow> None
      | Some s \<Rightarrow> if all_digits s \<and> length s \<le> 2 then Some (nat_of_digits s) else None)"

definition segment_at :: "string list \<Rightarrow> nat \<Rightarrow> string option" where
  "segment_at segs i = (if i < length segs then Some (segs ! i) else None)"

section \<open>Segments to fields\<close>

datatype parse_error =
    EMPTY_INPUT
  | TOO_LONG
  | UNKNOWN_ACTION_NAME string
  | UNKNOWN_VERSION
  | BATCH_GRAMMAR
  | UNSUPPORTED_REPETITION
  | FIELD_COUNT_MISMATCH nat nat
  | MALFORMED_REST string
  | ENGINE_ERROR

type_synonym params = "(string \<times> jsval) list"

text \<open>\<open>params[name].push(value)\<close>, creating the array when the property is not one yet.\<close>

definition push_param :: "string \<Rightarrow> string \<Rightarrow> params \<Rightarrow> params" where
  "push_param name v ps =
     (case map_of ps name of
        Some (JArr vs) \<Rightarrow> AList.update name (JArr (vs @ [JStr v])) ps
      | _ \<Rightarrow> AList.update name (JArr [JStr v]) ps)"

text \<open>The names that occur more than once among the fixed fields.\<close>

fun repeated_names :: "string list \<Rightarrow> string list \<Rightarrow> string list" where
  "repeated_names seen [] = []"
| "repeated_names seen (n # ns) =
     (if n = ''VERSION'' then repeated_names seen ns
      else if n \<in> set seen then n # repeated_names seen ns
      else repeated_names (n # seen) ns)"

text \<open>The fixed fields against the segments, a missing segment being the empty string.\<close>

fun map_fixed :: "string list \<Rightarrow> string list \<Rightarrow> string list \<Rightarrow> params \<Rightarrow> params" where
  "map_fixed rep [] segs ps = ps"
| "map_fixed rep (n # ns) segs ps =
     (let v = (case segs of [] \<Rightarrow> [] | s # _ \<Rightarrow> s);
          ps' = (if n = ''VERSION'' then ps
                 else if n \<in> set rep then push_param n v ps
                 else AList.update n (JStr v) ps)
      in map_fixed rep ns (tl segs) ps')"

fun find_index :: "('a \<Rightarrow> bool) \<Rightarrow> 'a list \<Rightarrow> nat option" where
  "find_index P [] = None"
| "find_index P (x # xs) = (if P x then Some 0 else map_option Suc (find_index P xs))"

record mapped_fields =
  mf_params :: params
  mf_rest :: "string list option"
  mf_legs :: "params list option"

section \<open>Multi-leg formats\<close>

text \<open>The loop \<open>while (base + legCount * per < valueSegs.length) legCount++\<close>, from one leg.\<close>

function leg_count :: "nat \<Rightarrow> nat \<Rightarrow> nat \<Rightarrow> nat \<Rightarrow> nat" where
  "leg_count base per have legs =
     (if 0 < per \<and> base + legs * per < have then leg_count base per have (Suc legs) else legs)"
  by pat_completeness auto
termination
  by (relation "measure (\<lambda>(base, per, have, legs). have - legs * per)") auto

declare leg_count.simps [simp del]

definition prefix_params :: "string list \<Rightarrow> string list \<Rightarrow> params" where
  "prefix_params names segs = fold (\<lambda>(n, v) ps. if n = ''VERSION'' then ps else AList.update n (JStr v) ps) (zip names segs) []"

fun push_legs :: "(string \<times> string) list \<Rightarrow> params \<Rightarrow> params" where
  "push_legs [] ps = ps"
| "push_legs ((n, v) # nvs) ps = push_legs nvs (push_param n v ps)"

fun cut_legs :: "nat \<Rightarrow> nat \<Rightarrow> string list \<Rightarrow> string list list" where
  "cut_legs 0 per segs = []"
| "cut_legs (Suc n) per segs = take per segs # cut_legs n per (drop per segs)"

definition leg_params :: "string list \<Rightarrow> string list \<Rightarrow> params" where
  "leg_params names segs = fold (\<lambda>(n, v) ps. AList.update n (JStr v) ps) (zip names segs) []"

definition mapRepeatedFields :: "field_group \<Rightarrow> string list \<Rightarrow> mapped_fields" where
  "mapRepeatedFields g valueSegs =
     (let per = length (grp_group g);
          base = length (grp_prefix g) + length (grp_suffix g);
          legCount = leg_count base per (length valueSegs) 1;
          total = base + legCount * per;
          segs = valueSegs @ replicate (total - length valueSegs) [];
          pre = take (length (grp_prefix g)) segs;
          legSegs = cut_legs legCount per (drop (length (grp_prefix g)) segs);
          post = drop (length (grp_prefix g) + legCount * per) segs;
          p1 = prefix_params (grp_prefix g) pre;
          p2 = push_legs (concat (map (zip (grp_group g)) legSegs)) p1;
          p3 = fold (\<lambda>(n, v) ps. AList.update n (JStr v) ps) (zip (grp_suffix g) post) p2
      in \<lparr>mf_params = p3, mf_rest = None, mf_legs = Some (map (leg_params (grp_group g)) legSegs)\<rparr>)"

definition mapFields :: "string list \<Rightarrow> string list \<Rightarrow> field_group option \<Rightarrow> parse_error + mapped_fields" where
  "mapFields names valueSegs grp =
     (let restIndex = find_index isRestField names;
          fixedCount = (case restIndex of None \<Rightarrow> length names | Some i \<Rightarrow> i) in
      case (grp, restIndex) of
        (Some g, None) \<Rightarrow> Inr (mapRepeatedFields g valueSegs)
      | _ \<Rightarrow>
        (if restIndex = None \<and> length names < length valueSegs
         then Inl (FIELD_COUNT_MISMATCH (length valueSegs) (length names))
         else case restIndex of
             Some i \<Rightarrow>
               (if i \<noteq> length names - 1 then Inl (MALFORMED_REST (names ! i))
                else
                  let fixed = take fixedCount names;
                      ps = map_fixed (repeated_names [] fixed) fixed valueSegs [];
                      rest = drop fixedCount valueSegs in
                  Inr \<lparr>mf_params = AList.update (baseFieldName (names ! i)) (JArr (map JStr rest)) ps,
                       mf_rest = Some rest, mf_legs = None\<rparr>)
           | None \<Rightarrow>
               Inr \<lparr>mf_params = map_fixed (repeated_names [] names) names valueSegs [],
                    mf_rest = None, mf_legs = None\<rparr>))"

section \<open>The strict parser\<close>

definition canonicalize :: "string \<Rightarrow> string list \<Rightarrow> string" where
  "canonicalize action valueSegs = join ''|'' (action # pop_empties 1 valueSegs)"

record parsed_action =
  pa_action :: string
  pa_rawAction :: "string option"
  pa_version :: nat
  pa_params :: params
  pa_rest :: "string list option"
  pa_legs :: "params list option"
  pa_string :: string

definition MAX_ACTION_DATA_LENGTH :: nat where
  "MAX_ACTION_DATA_LENGTH = 8192"

definition parseTopLevel :: "string \<Rightarrow> parse_error + parsed_action" where
  "parseTopLevel s =
     (let segments = split_on (CHR ''|'') s;
          rawAction = hd segments;
          action = expandAlias rawAction;
          valueSegs = tl segments in
      if map_of formats action = None then Inl (UNKNOWN_ACTION_NAME rawAction)
      else case parseVersion (segment_at segments 1) of
          None \<Rightarrow> Inl UNKNOWN_VERSION
        | Some version \<Rightarrow>
            if format_line action version = None then Inl UNKNOWN_VERSION
            else if action = ''BATCH'' then Inl BATCH_GRAMMAR
            else
              (case getFormatFields action version of
                 Inl e \<Rightarrow> Inl ENGINE_ERROR
               | Inr names \<Rightarrow>
                   (case getRepeatedGroup action version of
                      Inl e \<Rightarrow> Inl UNSUPPORTED_REPETITION
                    | Inr grp \<Rightarrow>
                        try_bind (mapFields names valueSegs grp) (\<lambda>m.
                          Inr \<lparr>pa_action = action,
                               pa_rawAction = (if rawAction = action then None else Some rawAction),
                               pa_version = version, pa_params = mf_params m, pa_rest = mf_rest m,
                               pa_legs = mf_legs m, pa_string = canonicalize action valueSegs\<rparr>))))"

definition parse_strict :: "string \<Rightarrow> parse_error + parsed_action" where
  "parse_strict s =
     (if s = [] then Inl EMPTY_INPUT
      else if MAX_ACTION_DATA_LENGTH < length s then Inl TOO_LONG
      else parseTopLevel s)"

section \<open>The tick charset\<close>

text \<open>\<open>TICK_REGEX\<close>: \<open>[a-zA-Z0-9~!@#$%^&*()_+\-={}[\]:<>.?]+\<close>.\<close>

definition tick_char :: "char \<Rightarrow> bool" where
  "tick_char c \<longleftrightarrow>
     (let n = (of_char c :: nat) in (97 \<le> n \<and> n \<le> 122) \<or> (65 \<le> n \<and> n \<le> 90) \<or> (48 \<le> n \<and> n \<le> 57))
     \<or> c \<in> set ''~!@#$%^&*()_+-={}[]:<>.?''"

definition MAX_TICK_LENGTH :: nat where
  "MAX_TICK_LENGTH = 250"

text \<open>\<open>TICK_REF_REGEX\<close>: a caret and one to twenty digits.\<close>

definition is_tick_ref :: "string \<Rightarrow> bool" where
  "is_tick_ref s \<longleftrightarrow>
     (case s of [] \<Rightarrow> False | c # ds \<Rightarrow> c = CHR ''^'' \<and> all_digits ds \<and> length ds \<le> 20)"

definition isCanonicalTick :: "jsval \<Rightarrow> bool" where
  "isCanonicalTick v =
     (case v of
        JStr s \<Rightarrow>
          is_tick_ref s \<or>
          (s \<noteq> [] \<and> length s \<le> MAX_TICK_LENGTH \<and> list_all tick_char s
           \<and> \<not> (CHR ''.'' \<in> set s \<and> [] \<in> set (split_on (CHR ''.'') s)))
      | _ \<Rightarrow> False)"

definition ends_with :: "string \<Rightarrow> string \<Rightarrow> bool" where
  "ends_with suf s \<longleftrightarrow> length suf \<le> length s \<and> drop (length s - length suf) s = suf"

definition isTickField :: "string \<Rightarrow> bool" where
  "isTickField n \<longleftrightarrow> n = ''TICK'' \<or> ends_with ''_TICK'' n"

text \<open>The first field whose value is present and is no tick the protocol could produce.\<close>

fun validateDecodedParams :: "params \<Rightarrow> (string \<times> jsval) option" where
  "validateDecodedParams [] = None"
| "validateDecodedParams ((n, v) # ps) =
     (if \<not> isTickField n then validateDecodedParams ps
      else if \<not> is_populated v then validateDecodedParams ps
      else if isCanonicalTick v then validateDecodedParams ps
      else Some (n, v))"

definition ownLookup :: "(string \<times> 'a) list \<Rightarrow> string \<Rightarrow> 'a option" where
  "ownLookup table k = map_of table k"

section \<open>The co-signer's judgment of an action string\<close>

datatype decode_failure =
    MALFORMED_ACTION_STRING
  | BAD_VERSION
  | D_UNKNOWN_ACTION
  | UNEXPECTED_FORMAT
  | REST_FIELD_UNSUPPORTED string
  | MULTI_LEG_UNSUPPORTED string
  | BATCH_UNSUPPORTED
  | D_FIELD_COUNT_MISMATCH
  | REST_FIELD_TOO_LONG nat
  | PARAM_INVALID string

definition VALUE_FIELDS :: "string list" where
  "VALUE_FIELDS = [''TICK'', ''AMOUNT'', ''DESTINATION'']"

definition MAX_REST_PARAMS :: nat where
  "MAX_REST_PARAMS = 32"

text \<open>The formats whose rest field was analysed and admitted: the rest field and its arity bound.\<close>

definition BOUNDED_REST_FORMATS :: "((string \<times> nat) \<times> (string \<times> nat)) list" where
  "BOUNDED_REST_FORMATS =
     [((''EXECUTE'', 0), (''...PARAMS'', MAX_REST_PARAMS)),
      ((''LIST'', 4), (''...ITEM'', MAX_REST_PARAMS))]"

definition boundedRestFormat :: "string \<Rightarrow> nat \<Rightarrow> (string \<times> nat) option" where
  "boundedRestFormat action version = map_of BOUNDED_REST_FORMATS (action, version)"

text \<open>The action, version and field names of a split action string.\<close>

definition resolveActionFormat :: "string list \<Rightarrow> decode_failure + (string \<times> nat \<times> string list)" where
  "resolveActionFormat segments =
     (let rawAction = hd segments;
          action = (case ownLookup ACTION_ALIASES rawAction of Some a \<Rightarrow> a | None \<Rightarrow> rawAction) in
      case parseVersion (segment_at segments 1) of
        None \<Rightarrow> Inl BAD_VERSION
      | Some version \<Rightarrow>
          (case getFormatFields action version of
             Inl e \<Rightarrow> Inl D_UNKNOWN_ACTION
           | Inr names \<Rightarrow>
               if names = [] \<or> hd names \<noteq> ''VERSION'' then Inl UNEXPECTED_FORMAT
               else Inr (action, version, names)))"

fun shape_loop :: "(string \<times> nat) option \<Rightarrow> string list \<Rightarrow> string list \<Rightarrow> decode_failure option" where
  "shape_loop bounded seen [] = None"
| "shape_loop bounded seen (f # fs) =
     (if isRestField f then
        (case bounded of
           None \<Rightarrow> Some (REST_FIELD_UNSUPPORTED f)
         | Some (restField, m) \<Rightarrow>
             if restField \<noteq> f then Some (REST_FIELD_UNSUPPORTED f) else shape_loop bounded seen fs)
      else if f \<in> set VALUE_FIELDS then
        (if f \<in> set seen then Some (MULTI_LEG_UNSUPPORTED f) else shape_loop bounded (f # seen) fs)
      else shape_loop bounded seen fs)"

definition validateActionShape :: "string \<Rightarrow> nat \<Rightarrow> string list \<Rightarrow> decode_failure + (string \<times> nat) option" where
  "validateActionShape action version names =
     (let bounded = boundedRestFormat action version in
      case shape_loop bounded [] names of
        Some e \<Rightarrow> Inl e
      | None \<Rightarrow>
          (case getRepeatedGroup action version of
             Inl e \<Rightarrow> Inl (MULTI_LEG_UNSUPPORTED [])
           | Inr (Some g) \<Rightarrow> Inl (MULTI_LEG_UNSUPPORTED (join ''|'' (grp_group g)))
           | Inr None \<Rightarrow> Inr bounded))"

record decoded_action =
  d_action :: string
  d_version :: nat
  d_params :: params
  d_string :: string

definition rest_arity :: "params \<Rightarrow> string \<Rightarrow> nat option" where
  "rest_arity ps restField =
     (case ownLookup ps (baseFieldName restField) of Some (JArr vs) \<Rightarrow> Some (length vs) | _ \<Rightarrow> None)"

text \<open>The arity of the admitted rest field, when it is over its bound.\<close>

definition rest_too_long :: "(string \<times> nat) option \<Rightarrow> params \<Rightarrow> nat option" where
  "rest_too_long bounded ps =
     (case bounded of
        None \<Rightarrow> None
      | Some (restField, m) \<Rightarrow>
          (case rest_arity ps restField of
             Some n \<Rightarrow> if m < n then Some n else None
           | None \<Rightarrow> None))"

definition parseActionParams ::
  "string \<Rightarrow> string \<Rightarrow> nat \<Rightarrow> (string \<times> nat) option \<Rightarrow> decode_failure + decoded_action" where
  "parseActionParams s action version bounded =
     (if action = ''BATCH'' then Inl BATCH_UNSUPPORTED
      else case parse_strict s of
          Inl (FIELD_COUNT_MISMATCH a b) \<Rightarrow> Inl D_FIELD_COUNT_MISMATCH
        | Inl e \<Rightarrow> Inl D_UNKNOWN_ACTION
        | Inr pa \<Rightarrow>
            (case rest_too_long bounded (pa_params pa) of
               Some n \<Rightarrow> Inl (REST_FIELD_TOO_LONG n)
             | None \<Rightarrow>
                 (case validateDecodedParams (pa_params pa) of
                    Some (f, v) \<Rightarrow> Inl (PARAM_INVALID f)
                  | None \<Rightarrow> Inr \<lparr>d_action = action, d_version = version,
                                 d_params = pa_params pa, d_string = s\<rparr>)))"

definition judgeActionString :: "string \<Rightarrow> decode_failure + decoded_action" where
  "judgeActionString s =
     (let segments = split_on (CHR ''|'') s in
      if length segments < 2 then Inl MALFORMED_ACTION_STRING
      else try_bind (resolveActionFormat segments) (\<lambda>(action, version, names).
           try_bind (validateActionShape action version names) (\<lambda>bounded.
             parseActionParams s action version bounded)))"

section \<open>Trimming and padding\<close>

lemma pop_empties_snoc:
  "pop_empties k (xs @ [x]) = (if k \<le> length xs \<and> x = [] then pop_empties k xs else xs @ [x])"
  by (subst pop_empties.simps) auto

lemma pop_empties_Nil [simp]: "pop_empties k [] = []"
  by (subst pop_empties.simps) simp

lemma pop_empties_Suc_Cons: "pop_empties (Suc k) (x # xs) = x # pop_empties k xs"
proof (induction xs rule: rev_induct)
  case Nil
  then show ?case using pop_empties_snoc [of "Suc k" "[]" x] by simp
next
  case (snoc y ys)
  then show ?case using pop_empties_snoc [of "Suc k" "x # ys" y] by (simp add: pop_empties_snoc)
qed

lemma pop_empties_2: "pop_empties 2 (a # b # xs) = a # b # pop_empties 0 xs"
  by (metis numeral_2_eq_2 pop_empties_Suc_Cons)

lemma pop_empties_all_empty: "pop_empties 0 (replicate n []) = []"
  by (induction n) (simp_all add: replicate_append_same [symmetric] pop_empties_snoc)

lemma pop_empties_append:
  "pop_empties 0 (xs @ ys) = (if pop_empties 0 ys = [] then pop_empties 0 xs else xs @ pop_empties 0 ys)"
  by (induction ys rule: rev_induct) (auto simp: pop_empties_snoc simp flip: append_assoc)

lemma pop_empties_pad_empties: "pop_empties 0 (xs @ replicate n []) = pop_empties 0 xs"
  by (simp add: pop_empties_append pop_empties_all_empty)

lemma drop_pop_empties: "drop (length xs) (pop_empties 0 (xs @ ys)) = pop_empties 0 ys"
proof -
  have "length (pop_empties 0 xs) \<le> length xs"
    using pop_empties_pad [of xs 0] by (metis le_add1 length_append)
  then show ?thesis by (simp add: pop_empties_append)
qed

text \<open>The segment at a position, the empty string past the end.\<close>

definition seg :: "string list \<Rightarrow> nat \<Rightarrow> string" where
  "seg xs i = (if i < length xs then xs ! i else [])"

lemma seg_simps [simp]: "seg [] i = []" "seg (x # xs) 0 = x" "seg (x # xs) (Suc i) = seg xs i"
  by (simp_all add: seg_def)

lemma seg_pop_empties: "seg (pop_empties 0 xs) i = seg xs i"
proof -
  obtain n where n: "xs = pop_empties 0 xs @ replicate n []" using pop_empties_pad by blast
  define ys where "ys = pop_empties 0 xs"
  with n have "xs = ys @ replicate n []" by simp
  then have "seg xs i = seg ys i" by (auto simp: seg_def nth_append)
  then show ?thesis by (simp add: ys_def)
qed

lemma map_seg: "map (seg xs) [0..<n] = take n xs @ replicate (n - length xs) []"
  by (rule nth_equalityI) (auto simp: seg_def nth_append)

section \<open>Fixed fields\<close>

lemma repeated_names_distinct:
  "distinct (filter (\<lambda>n. n \<noteq> ''VERSION'') ns) \<Longrightarrow> \<forall>x\<in>set ns. x \<noteq> ''VERSION'' \<longrightarrow> x \<notin> set seen
    \<Longrightarrow> repeated_names seen ns = []"
proof (induction ns arbitrary: seen)
  case Nil
  then show ?case by simp
next
  case (Cons n ns)
  show ?case
  proof (cases "n = ''VERSION''")
    case True
    with Cons show ?thesis by simp
  next
    case False
    with Cons.prems have "n \<notin> set seen" "distinct (filter (\<lambda>n. n \<noteq> ''VERSION'') ns)"
      "\<forall>x\<in>set ns. x \<noteq> ''VERSION'' \<longrightarrow> x \<notin> set (n # seen)" by auto
    with Cons.IH False show ?thesis by simp
  qed
qed

lemma map_fixed_Cons:
  "map_fixed [] (n # ns) segs ps =
     map_fixed [] ns (tl segs) (if n = ''VERSION'' then ps else AList.update n (JStr (seg segs 0)) ps)"
  by (cases segs) simp_all

lemma map_fixed_other: "n \<notin> set ns \<Longrightarrow> map_of (map_fixed [] ns segs ps) n = map_of ps n"
proof (induction ns arbitrary: segs ps)
  case (Cons m ns)
  then show ?case unfolding map_fixed_Cons by (simp add: update_conv)
qed simp

lemma map_fixed_at:
  assumes "distinct ns" "i < length ns" "ns ! i \<noteq> ''VERSION''"
  shows "map_of (map_fixed [] ns segs ps) (ns ! i) = Some (JStr (seg segs i))"
  using assms
proof (induction ns arbitrary: i segs ps)
  case Nil
  then show ?case by simp
next
  case (Cons n ns)
  show ?case
  proof (cases i)
    case 0
    with Cons.prems show ?thesis unfolding map_fixed_Cons by (simp add: map_fixed_other update_conv)
  next
    case (Suc j)
    have "seg segs (Suc j) = seg (tl segs) j" by (cases segs) simp_all
    with Cons Suc show ?thesis unfolding map_fixed_Cons by simp
  qed
qed

section \<open>Single-leg formats: what the parser extracts\<close>

text \<open>A format without a group: \<open>VERSION\<close>, then distinct fields, of which the last may be a rest field.\<close>

definition flat_format :: "string list \<Rightarrow> bool" where
  "flat_format names \<longleftrightarrow> wf_names names \<and> distinct names"

lemma flat_formatI:
  assumes "getFormatFields action version = Inr names" "getRepeatedGroup action version = Inr None"
  shows "flat_format names"
proof -
  have w: "wf_names names" using assms(1) by (rule getFormatFields_wf)
  then obtain ns where n: "names = ''VERSION'' # ns" "''VERSION'' \<notin> set ns"
    by (auto simp: wf_names_def list_all_iff split: list.splits)
  from assms have "group_of_fields names = Inr None" by (simp add: getRepeatedGroup_def)
  from group_of_fields_None [OF this] n have "distinct (filter (\<lambda>f. f \<noteq> ''VERSION'') ns)"
    by (simp add: AUTO_FIELDS_def)
  moreover have "filter (\<lambda>f. f \<noteq> ''VERSION'') ns = ns" using n(2) by (auto simp: filter_id_conv)
  ultimately show ?thesis using w n by (simp add: flat_format_def)
qed

lemma flat_format_cases:
  assumes "flat_format names"
  obtains ns where "names = ''VERSION'' # ns" "ns \<noteq> []" "''VERSION'' \<notin> set ns" "distinct ns"
      "\<forall>f\<in>set ns. \<not> isRestField f" "LEGS_FIELD \<notin> set ns"
    | fx r where "names = ''VERSION'' # fx @ [r]" "''VERSION'' \<notin> set (fx @ [r])" "distinct (fx @ [r])"
      "\<forall>f\<in>set fx. \<not> isRestField f" "isRestField r" "baseFieldName r \<notin> set fx"
      "LEGS_FIELD \<notin> set fx" "baseFieldName r \<noteq> LEGS_FIELD" "baseFieldName r \<noteq> ''VERSION''"
proof -
  from assms obtain ns where n: "names = ''VERSION'' # ns" "ns \<noteq> []" "''VERSION'' \<notin> set ns" "distinct ns"
      "\<forall>f\<in>set ns. baseFieldName f \<noteq> LEGS_FIELD \<and> baseFieldName f \<noteq> ''VERSION''" "\<forall>f\<in>set (butlast ns). \<not> isRestField f"
      "isRestField (last ns) \<Longrightarrow> baseFieldName (last ns) \<notin> set (butlast ns)"
    by (auto simp: flat_format_def wf_names_def list_all_iff split: list.splits)
  have base: "baseFieldName f = f" if "\<not> isRestField f" for f
    using that by (simp add: baseFieldName_def isRestField_def)
  have s: "ns = butlast ns @ [last ns]" using n(2) by simp
  show thesis
  proof (cases "isRestField (last ns)")
    case False
    then have r: "\<forall>f\<in>set ns. \<not> isRestField f" using n(6) s
      by (metis (no_types, lifting) rotate1.simps(2) set_ConsD set_rotate1)
    moreover have "LEGS_FIELD \<notin> set ns" using n(5) r base by metis
    ultimately show thesis using that(1) n by blast
  next
    case True
    have "LEGS_FIELD \<notin> set (butlast ns)" using n(5,6) base by (metis in_set_butlastD)
    moreover have "baseFieldName (last ns) \<noteq> LEGS_FIELD" using n(2,5) by simp
    moreover have "baseFieldName (last ns) \<noteq> ''VERSION''" using n(2,5) by simp
    ultimately show thesis using that(2) [of "butlast ns" "last ns"] n s True
      by (metis in_set_butlastD)
  qed
qed

definition decoded_params :: "string list \<Rightarrow> string list \<Rightarrow> params" where
  "decoded_params names segs =
     (if isRestField (last names)
      then AList.update (baseFieldName (last names)) (JArr (map JStr (drop (length names - 1) segs)))
             (map_fixed [] (butlast names) segs [])
      else map_fixed [] names segs [])"

lemma find_index_None: "find_index P xs = None \<longleftrightarrow> (\<forall>x\<in>set xs. \<not> P x)"
  by (induction xs) auto

lemma find_index_last: "(\<forall>x\<in>set xs. \<not> P x) \<Longrightarrow> P y \<Longrightarrow> find_index P (xs @ [y]) = Some (length xs)"
  by (induction xs) auto

lemma mapFields_flat:
  assumes "flat_format names"
  shows "mapFields names segs None =
    (if isRestField (last names)
     then Inr \<lparr>mf_params = decoded_params names segs, mf_rest = Some (drop (length names - 1) segs), mf_legs = None\<rparr>
     else if length names < length segs then Inl (FIELD_COUNT_MISMATCH (length segs) (length names))
     else Inr \<lparr>mf_params = decoded_params names segs, mf_rest = None, mf_legs = None\<rparr>)"
  using assms
proof (cases rule: flat_format_cases)
  case (1 ns)
  then have "find_index isRestField names = None" "\<not> isRestField (last names)"
    using not_rest_VERSION by (auto simp: find_index_None)
  moreover have "repeated_names [] names = []"
    using assms by (intro repeated_names_distinct) (auto simp: flat_format_def)
  ultimately show ?thesis by (simp add: mapFields_def decoded_params_def)
next
  case (2 fx r)
  then have "find_index isRestField ((''VERSION'' # fx) @ [r]) = Some (length (''VERSION'' # fx))"
    using not_rest_VERSION by (intro find_index_last) auto
  moreover have "repeated_names [] (''VERSION'' # fx) = []"
    using 2(3) by (intro repeated_names_distinct) auto
  ultimately show ?thesis using 2(1,5)
    by (simp add: mapFields_def decoded_params_def Let_def)
qed

lemma decoded_fixed:
  assumes "flat_format names" "i < length names" "names ! i \<noteq> ''VERSION''" "\<not> isRestField (names ! i)"
  shows "map_of (decoded_params names segs) (names ! i) = Some (JStr (seg segs i))"
  using assms(1)
proof (cases rule: flat_format_cases)
  case (1 ns)
  then have "\<not> isRestField (last names)" using not_rest_VERSION by auto
  with assms map_fixed_at [of names i segs "[]"] show ?thesis
    by (simp add: decoded_params_def flat_format_def)
next
  case (2 fx r)
  let ?fixed = "''VERSION'' # fx"
  have i: "i < length ?fixed"
  proof (rule ccontr)
    assume "\<not> i < length ?fixed"
    with assms(2) 2(1) have "i = length ?fixed" by simp
    with 2(1,5) assms(4) show False by (simp add: nth_append)
  qed
  then have n: "names ! i = ?fixed ! i" using 2(1) by (metis append_Cons nth_append)
  have d: "distinct ?fixed" using 2(2,3) by simp
  have "names ! i \<noteq> baseFieldName r" using i n assms(3) 2(6) by (metis nth_mem set_ConsD nth_Cons')
  with map_fixed_at [OF d i, of segs "[]"] n assms(3) 2(1,5) show ?thesis
    by (simp add: decoded_params_def update_conv)
qed

lemma decoded_rest:
  assumes "isRestField (last names)"
  shows "map_of (decoded_params names segs) (baseFieldName (last names))
           = Some (JArr (map JStr (drop (length names - 1) segs)))"
  using assms by (simp add: decoded_params_def update_conv)

lemma decoded_no_legs:
  assumes "flat_format names"
  shows "getLegs (decoded_params names segs) = Inr None"
proof -
  have v: "LEGS_FIELD \<noteq> ''VERSION''" by (simp add: LEGS_FIELD_def)
  from assms have "map_of (decoded_params names segs) LEGS_FIELD = None"
  proof (cases rule: flat_format_cases)
    case (1 ns)
    with v not_rest_VERSION show ?thesis
      by (auto simp: decoded_params_def map_fixed_other)
  next
    case (2 fx r)
    then have "LEGS_FIELD \<noteq> baseFieldName r" "map_of (map_fixed [] fx (tl segs) []) LEGS_FIELD = None"
      by (auto simp: map_fixed_other)
    with 2(1,5) show ?thesis by (simp add: decoded_params_def update_conv)
  qed
  then show ?thesis by (simp add: getLegs_def get_prop_def)
qed

lemma parseTopLevel_flat:
  assumes "getFormatFields action version = Inr names" "getRepeatedGroup action version = Inr None"
    and "action \<noteq> ''BATCH''" "split_on (CHR ''|'') s = raw # segs" "expandAlias raw = action"
    and "parseVersion (segment_at (raw # segs) 1) = Some version"
    and "isRestField (last names) \<or> length segs \<le> length names"
  shows "parseTopLevel s = Inr \<lparr>pa_action = action,
      pa_rawAction = (if raw = action then None else Some raw), pa_version = version,
      pa_params = decoded_params names segs,
      pa_rest = (if isRestField (last names) then Some (drop (length names - 1) segs) else None),
      pa_legs = None, pa_string = canonicalize action segs\<rparr>"
proof -
  note t = getFormatFields_table [OF assms(1)]
  note m = mapFields_flat [OF flat_formatI [OF assms(1,2)], of segs]
  show ?thesis
    unfolding parseTopLevel_def Let_def assms(4) list.sel assms(5,6)
    using t(5,6) assms(1-3,7) m by (auto simp: not_less)
qed

section \<open>Writing and reading are inverse\<close>

lemma parseVersion_nat_str: "v < 100 \<Longrightarrow> parseVersion (Some (nat_str v)) = Some v"
proof -
  assume v: "v < 100"
  have "length (nat_str v) \<le> 2" using v by (cases "v < 10") (simp_all add: nat_str.simps)
  then show ?thesis by (simp add: parseVersion_def all_digits_nat_str)
qed

text \<open>The text the serializer writes for one fixed field.\<close>

definition field_text :: "field_map \<Rightarrow> string \<Rightarrow> string" where
  "field_text fs n = js_text (get_prop fs n)"

definition rest_texts :: "field_map \<Rightarrow> string \<Rightarrow> string list" where
  "rest_texts fs r = (case get_prop fs (baseFieldName r) of JArr vs \<Rightarrow> map js_text vs | _ \<Rightarrow> [])"

lemma field_parts_fixed:
  "\<forall>f\<in>set ns. f \<noteq> ''VERSION'' \<and> \<not> isRestField f \<Longrightarrow> concat (map (field_parts v fs) ns) = map (field_text fs) ns"
  by (induction ns) (simp_all add: field_parts_def field_text_def)

lemma field_parts_rest:
  "isRestField r \<Longrightarrow> field_parts v fs r = rest_texts fs r"
  using not_rest_VERSION by (auto simp: field_parts_def rest_texts_def split: jsval.splits)

lemma field_parts_version: "field_parts v fs ''VERSION'' = [nat_str v]"
  by (simp add: field_parts_def)

text \<open>The body of a flat action string: its segments after the version.\<close>

definition body_parts :: "field_map \<Rightarrow> string list \<Rightarrow> string list" where
  "body_parts fs names =
     (if isRestField (last names)
      then map (field_text fs) (butlast (tl names)) @ rest_texts fs (last names)
      else map (field_text fs) (tl names))"

lemma flat_parts_body:
  assumes "flat_format names"
  shows "flat_parts action v fs names = action # nat_str v # body_parts fs names"
  using assms
proof (cases rule: flat_format_cases)
  case (1 ns)
  then have "concat (map (field_parts v fs) ns) = map (field_text fs) ns"
    by (intro field_parts_fixed) auto
  moreover have "\<not> isRestField (last names)" using 1 not_rest_VERSION by auto
  ultimately show ?thesis using 1(1) by (simp add: flat_parts_def body_parts_def field_parts_version)
next
  case (2 fx r)
  then have "concat (map (field_parts v fs) fx) = map (field_text fs) fx"
    by (intro field_parts_fixed) auto
  with 2(1,5) show ?thesis
    by (simp add: flat_parts_def body_parts_def field_parts_version field_parts_rest butlast_append)
qed

lemma body_seg:
  assumes "flat_format names" "i < length names" "names ! i \<noteq> ''VERSION''" "\<not> isRestField (names ! i)"
  shows "seg (x # pop_empties 0 (body_parts fs names)) i = field_text fs (names ! i)"
proof -
  obtain j where j: "i = Suc j" using assms by (cases i) (auto elim: flat_format_cases)
  have "seg (body_parts fs names) j = field_text fs (names ! i)"
    using assms(1)
  proof (cases rule: flat_format_cases)
    case (1 ns)
    then have "\<not> isRestField (last names)" using not_rest_VERSION by auto
    with 1(1) assms(2) j show ?thesis by (simp add: body_parts_def seg_def)
  next
    case (2 fx r)
    have "j < length fx"
    proof (rule ccontr)
      assume "\<not> j < length fx"
      with assms(2) 2(1) j have "j = length fx" by simp
      with 2(1,5) assms(4) j show False by (simp add: nth_append)
    qed
    with 2(1,5) j show ?thesis by (simp add: body_parts_def seg_def nth_append)
  qed
  with j show ?thesis by (simp add: seg_pop_empties)
qed

lemma body_rest:
  assumes "flat_format names" "isRestField (last names)"
  shows "drop (length names - 1) (x # pop_empties 0 (body_parts fs names)) = pop_empties 0 (rest_texts fs (last names))"
  using assms(1)
proof (cases rule: flat_format_cases)
  case (1 ns)
  with assms(2) not_rest_VERSION show ?thesis by auto
next
  case (2 fx r)
  with assms(2) drop_pop_empties [of "map (field_text fs) fx" "rest_texts fs r"] show ?thesis
    by (simp add: body_parts_def)
qed

text \<open>Serializing the decoded parameters gives back the trimmed segments.\<close>

lemma body_of_decoded:
  assumes "flat_format names" "isRestField (last names) \<or> length (x # segs) \<le> length names"
  shows "pop_empties 0 (body_parts (decoded_params names (x # segs)) names) = pop_empties 0 segs"
proof -
  have fld: "field_text (decoded_params names (x # segs)) (names ! Suc j) = seg segs j"
    if "Suc j < length names" "names ! Suc j \<noteq> ''VERSION''" "\<not> isRestField (names ! Suc j)" for j
    using decoded_fixed [OF assms(1) that(1-3), of "x # segs"]
    by (simp add: field_text_def get_prop_def js_text_def is_nullish_def)
  show ?thesis
    using assms(1)
  proof (cases rule: flat_format_cases)
    case (1 ns)
    then have nr: "\<not> isRestField (last names)" using not_rest_VERSION by auto
    have "map (field_text (decoded_params names (x # segs))) ns = map (seg segs) [0..<length ns]"
    proof (rule nth_equalityI)
      fix i assume "i < length (map (field_text (decoded_params names (x # segs))) ns)"
      then have i: "ns ! i \<in> set ns" "i < length ns" by simp_all
      have "ns ! i \<noteq> ''VERSION''" using 1(3) i(1) by metis
      moreover have "\<not> isRestField (ns ! i)" using 1(5) i(1) by blast
      ultimately
      show "map (field_text (decoded_params names (x # segs))) ns ! i = map (seg segs) [0..<length ns] ! i"
        using fld [of i] 1(1) i(2) by simp
    qed simp
    then have "body_parts (decoded_params names (x # segs)) names = segs @ replicate (length ns - length segs) []"
      using nr 1(1) assms(2) by (simp add: body_parts_def map_seg)
    then show ?thesis by (simp add: pop_empties_pad_empties)
  next
    case (2 fx r)
    have "map (field_text (decoded_params names (x # segs))) fx = map (seg segs) [0..<length fx]"
    proof (rule nth_equalityI)
      fix i assume "i < length (map (field_text (decoded_params names (x # segs))) fx)"
      then have i: "fx ! i \<in> set fx" "i < length fx" by simp_all
      have "''VERSION'' \<notin> set fx" using 2(2) by simp
      then have "fx ! i \<noteq> ''VERSION''" using i(1) by metis
      moreover have "\<not> isRestField (fx ! i)" using 2(4) i(1) by blast
      ultimately
      show "map (field_text (decoded_params names (x # segs))) fx ! i = map (seg segs) [0..<length fx] ! i"
        using fld [of i] 2(1) i(2) by (simp add: nth_append)
    qed simp
    moreover have "rest_texts (decoded_params names (x # segs)) r = drop (length fx) segs"
      using 2(1,5) decoded_rest [of names "x # segs"]
      by (simp add: rest_texts_def get_prop_def js_text_def is_nullish_def comp_def)
    ultimately have b: "body_parts (decoded_params names (x # segs)) names
        = map (seg segs) [0..<length fx] @ drop (length fx) segs"
      using 2(1,5) by (simp add: body_parts_def)
    show ?thesis
    proof (cases "length segs \<le> length fx")
      case True
      then show ?thesis unfolding b by (simp add: map_seg pop_empties_pad_empties)
    next
      case False
      then show ?thesis unfolding b by (simp add: map_seg)
    qed
  qed
qed

lemma formats_no_alias: "list_all (\<lambda>(a, vs). map_of ACTION_ALIASES a = None) formats"
  by code_simp

lemma canonical_action:
  assumes "map_of formats action \<noteq> None"
  shows "expandAlias action = action"
proof -
  from assms obtain vs where "(action, vs) \<in> set formats" by (auto dest: map_of_SomeD)
  with formats_no_alias have "map_of ACTION_ALIASES action = None" by (auto simp: list_all_iff)
  then show ?thesis by (simp add: expandAlias_def)
qed

lemma nat_str_no_pipe: "CHR ''|'' \<notin> set (nat_str version)"
proof -
  have "\<forall>c\<in>set (nat_str version). is_digit c" using nat_str_digits list_all_iff by metis
  moreover have "\<not> is_digit (CHR ''|'')" by (simp add: is_digit_def)
  ultimately show ?thesis by blast
qed

text \<open>
  A single-leg action string, once written, is read back by the strict parser with exactly the texts
  that were written.
\<close>

lemma parse_serialized:
  assumes "serialize action version fs = Inr line" "getRepeatedGroup action version = Inr None"
    and "getLegs fs = Inr legs" "flat_fields fs legs = Inr flat"
    and "getFormatFields action version = Inr names" "action \<noteq> ''BATCH''"
    and "\<forall>x\<in>set (body_parts flat names). CHR ''|'' \<notin> set x" "length line \<le> MAX_ACTION_DATA_LENGTH"
  shows "parse_strict line = Inr \<lparr>pa_action = action, pa_rawAction = None, pa_version = version,
      pa_params = decoded_params names (nat_str version # pop_empties 0 (body_parts flat names)),
      pa_rest = (if isRestField (last names) then Some (pop_empties 0 (rest_texts flat (last names))) else None),
      pa_legs = None, pa_string = line\<rparr>"
proof -
  note fl = flat_formatI [OF assms(5,2)]
  note t = getFormatFields_table [OF assms(5)]
  let ?body = "pop_empties 0 (body_parts flat names)"
  from serialize_flat [OF assms(1,2)] assms(3-5)
  have line: "line = join ''|'' (action # nat_str version # ?body)"
    by (auto simp: flat_parts_body [OF fl] pop_empties_2)
  have "CHR ''|'' \<notin> set (nat_str version)" by (rule nat_str_no_pipe)
  moreover have "set ?body \<subseteq> set (body_parts flat names)" by (rule pop_empties_set)
  ultimately have "\<forall>x\<in>set (action # nat_str version # ?body). CHR ''|'' \<notin> set x"
    using t(4) assms(7) by auto
  then have split: "split_on (CHR ''|'') line = action # nat_str version # ?body"
    unfolding line by (rule split_on_join [rotated]) simp
  have fits: "isRestField (last names) \<or> length (nat_str version # ?body) \<le> length names"
  proof (cases "isRestField (last names)")
    case False
    have "length ?body \<le> length (body_parts flat names)"
      using pop_empties_pad [of "body_parts flat names" 0] by (metis le_add1 length_append)
    moreover have "names \<noteq> []" using t(1) by (auto simp: wf_names_def)
    ultimately show ?thesis using False by (cases names) (simp_all add: body_parts_def)
  qed simp
  have canon: "canonicalize action (nat_str version # ?body) = line"
    unfolding line canonicalize_def by (simp add: pop_empties_Suc_Cons [of 0, simplified] pop_empties_idem)
  have "line \<noteq> []" using line t(3) by (cases action) auto
  moreover have "parseVersion (segment_at (action # nat_str version # ?body) 1) = Some version"
    using parseVersion_nat_str [OF t(2)] by (simp add: segment_at_def)
  ultimately show ?thesis
    using parseTopLevel_flat [OF assms(5,2,6) split canonical_action [OF t(5)] _ fits] assms(8) canon
      body_rest [OF fl, of "nat_str version" flat]
    by (simp add: parse_strict_def)
qed

section \<open>What the co-signer accepts\<close>

lemma resolveActionFormat_Inr:
  "resolveActionFormat segments = Inr (action, version, names) \<longleftrightarrow>
     action = expandAlias (hd segments) \<and> parseVersion (segment_at segments 1) = Some version
     \<and> getFormatFields action version = Inr names \<and> names \<noteq> [] \<and> hd names = ''VERSION''"
  by (auto simp: resolveActionFormat_def expandAlias_def ownLookup_def Let_def
      split: option.splits sum.splits if_splits)

lemma validateActionShape_Inr:
  "validateActionShape action version names = Inr bounded \<longleftrightarrow>
     bounded = boundedRestFormat action version \<and> shape_loop bounded [] names = None
     \<and> getRepeatedGroup action version = Inr None"
  by (auto simp: validateActionShape_def Let_def split: option.splits sum.splits)

lemma parseActionParams_Inr:
  assumes "parseActionParams s action version bounded = Inr d"
  obtains pa where "action \<noteq> ''BATCH''" "parse_strict s = Inr pa" "validateDecodedParams (pa_params pa) = None"
    "d = \<lparr>d_action = action, d_version = version, d_params = pa_params pa, d_string = s\<rparr>"
    "rest_too_long bounded (pa_params pa) = None"
  using assms
  by (auto simp: parseActionParams_def split: if_split_asm sum.splits parse_error.splits option.splits prod.splits)

lemma judge_Inr:
  assumes "judgeActionString s = Inr d"
  obtains raw verseg body names where "split_on (CHR ''|'') s = raw # verseg # body"
    "d_action d = expandAlias raw" "parseVersion (Some verseg) = Some (d_version d)"
    "getFormatFields (d_action d) (d_version d) = Inr names" "getRepeatedGroup (d_action d) (d_version d) = Inr None"
    "shape_loop (boundedRestFormat (d_action d) (d_version d)) [] names = None"
    "d_action d \<noteq> ''BATCH''" "d_string d = s" "s \<noteq> []" "length s \<le> MAX_ACTION_DATA_LENGTH"
    "isRestField (last names) \<or> length (verseg # body) \<le> length names"
    "d_params d = decoded_params names (verseg # body)" "validateDecodedParams (d_params d) = None"
    "rest_too_long (boundedRestFormat (d_action d) (d_version d)) (d_params d) = None"
proof -
  let ?segs = "split_on (CHR ''|'') s"
  from assms have l2: "\<not> length ?segs < 2" by (auto simp: judgeActionString_def Let_def)
  then obtain raw verseg body where sp: "?segs = raw # verseg # body"
    by (cases ?segs; cases "tl ?segs") auto
  from assms l2 obtain action version names bounded where
    r: "resolveActionFormat ?segs = Inr (action, version, names)"
    and v: "validateActionShape action version names = Inr bounded"
    and p: "parseActionParams s action version bounded = Inr d"
    by (auto simp: judgeActionString_def Let_def try_bind_Inr)
  note r' = r [unfolded resolveActionFormat_Inr sp]
  then have a: "action = expandAlias raw" "parseVersion (Some verseg) = Some version"
      "getFormatFields action version = Inr names"
    unfolding segment_at_def by auto
  note v' = v [unfolded validateActionShape_Inr]
  then have b: "bounded = boundedRestFormat action version" "shape_loop bounded [] names = None"
      "getRepeatedGroup action version = Inr None" by auto
  from p obtain pa where pa: "action \<noteq> ''BATCH''" "parse_strict s = Inr pa"
      "validateDecodedParams (pa_params pa) = None"
      "d = \<lparr>d_action = action, d_version = version, d_params = pa_params pa, d_string = s\<rparr>"
      "rest_too_long bounded (pa_params pa) = None"
    by (rule parseActionParams_Inr)
  from pa(2) have s: "s \<noteq> []" "length s \<le> MAX_ACTION_DATA_LENGTH" "parseTopLevel s = Inr pa"
    by (auto simp: parse_strict_def split: if_split_asm)
  have fits: "isRestField (last names) \<or> length (verseg # body) \<le> length names"
  proof (rule ccontr)
    assume "\<not> ?thesis"
    with mapFields_flat [OF flat_formatI [OF a(3) b(3)], of "verseg # body"]
    have "mapFields names (verseg # body) None = Inl (FIELD_COUNT_MISMATCH (length (verseg # body)) (length names))"
      by simp
    with s(3) sp a b(3) show False
      by (auto simp: parseTopLevel_def Let_def segment_at_def split: if_split_asm)
  qed
  have "pa_params pa = decoded_params names (verseg # body)"
    using parseTopLevel_flat [OF a(3) b(3) pa(1) sp a(1) [symmetric] _ fits] a(2) s(3)
    by (simp add: segment_at_def)
  with that [of raw verseg body names] sp a b pa s fits show thesis by simp
qed

section \<open>Properties\<close>

text \<open>
  C14: An action string the SDK writes is read back unchanged. Let serialize write a line for a
  single-leg format, from a flat field map or a lone leg folded into it, none of whose texts
  contains the separator, no longer than the protocol's 8192 bytes. Then the strict parser accepts the
  line and recovers the action, the version, the text of every plain field (the empty string for a
  field the caller left out) and the elements of the rest field up to trailing empty ones, and its
  canonical string is the line itself.
\<close>

theorem serialize_parse_roundtrip:
  assumes "serialize action version fs = Inr line" "getRepeatedGroup action version = Inr None"
    and "getLegs fs = Inr legs" "flat_fields fs legs = Inr flat"
    and "getFormatFields action version = Inr names" "action \<noteq> ''BATCH''"
    and "\<forall>x\<in>set (body_parts flat names). CHR ''|'' \<notin> set x" "length line \<le> MAX_ACTION_DATA_LENGTH"
  shows "\<exists>pa. parse_strict line = Inr (pa :: parsed_action) \<and> pa_action pa = action \<and> pa_version pa = version
    \<and> pa_string pa = line \<and> pa_rawAction pa = None
    \<and> (\<forall>n\<in>set names. n \<noteq> ''VERSION'' \<and> \<not> isRestField n \<longrightarrow>
          map_of (pa_params pa) n = Some (JStr (js_text (get_prop flat n))))
    \<and> (isRestField (last names) \<longrightarrow>
          map_of (pa_params pa) (baseFieldName (last names))
            = Some (JArr (map JStr (pop_empties 0 (rest_texts flat (last names))))))"
proof -
  note fl = flat_formatI [OF assms(5,2)]
  let ?segs = "nat_str version # pop_empties 0 (body_parts flat names)"
  note p = parse_serialized [OF assms]
  have fixed: "map_of (decoded_params names ?segs) n = Some (JStr (js_text (get_prop flat n)))"
    if "n \<in> set names" "n \<noteq> ''VERSION''" "\<not> isRestField n" for n
  proof -
    from that(1) obtain i where "i < length names" "n = names ! i" by (metis in_set_conv_nth)
    with that(2,3) decoded_fixed [OF fl, of i ?segs] body_seg [OF fl, of i "nat_str version" flat]
    show ?thesis by (simp add: field_text_def)
  qed
  have rest: "map_of (decoded_params names ?segs) (baseFieldName (last names))
      = Some (JArr (map JStr (pop_empties 0 (rest_texts flat (last names)))))" if "isRestField (last names)"
    using decoded_rest [OF that, of ?segs] body_rest [OF fl that, of "nat_str version" flat] by simp
  show ?thesis unfolding p using fixed rest by simp
qed

theorem serialize_parse_roundtrip_witness:
  "\<exists>pa. parse_strict ''SEND|0|JDOG|5|bc1q'' = Inr (pa :: parsed_action) \<and> pa_action pa = ''SEND''
     \<and> map_of (pa_params pa) ''AMOUNT'' = Some (JStr ''5'') \<and> map_of (pa_params pa) ''MEMO'' = Some (JStr [])"
proof -
  let ?names = "[''VERSION'', ''TICK'', ''AMOUNT'', ''DESTINATION'', ''MEMO'']"
  have h: "serialize ''SEND'' 0 demo_send = Inr ''SEND|0|JDOG|5|bc1q''" by code_simp
  have g: "getRepeatedGroup ''SEND'' 0 = Inr None" by code_simp
  have l: "getLegs demo_send = Inr None" by code_simp
  have f: "flat_fields demo_send None = Inr demo_send" by (simp add: flat_fields_def)
  have n: "getFormatFields ''SEND'' 0 = Inr ?names" by code_simp
  have c: "\<forall>x\<in>set (body_parts demo_send ?names). CHR ''|'' \<notin> set x" by code_simp
  have b: "length ''SEND|0|JDOG|5|bc1q'' \<le> MAX_ACTION_DATA_LENGTH" by (simp add: MAX_ACTION_DATA_LENGTH_def)
  have e: "js_text (get_prop demo_send ''AMOUNT'') = ''5''" "js_text (get_prop demo_send ''MEMO'') = []"
      "\<not> isRestField ''AMOUNT''" "\<not> isRestField ''MEMO''" by code_simp+
  from serialize_parse_roundtrip [OF h g l f n _ c b] obtain pa where
    pa: "parse_strict ''SEND|0|JDOG|5|bc1q'' = Inr (pa :: parsed_action)" "pa_action pa = ''SEND''"
      "\<forall>n\<in>set ?names. n \<noteq> ''VERSION'' \<and> \<not> isRestField n \<longrightarrow>
          map_of (pa_params pa) n = Some (JStr (js_text (get_prop demo_send n)))" by auto
  from pa(3) e have "map_of (pa_params pa) ''AMOUNT'' = Some (JStr ''5'')" "map_of (pa_params pa) ''MEMO'' = Some (JStr [])"
    by auto
  with pa(1,2) show ?thesis by blast
qed

lemma judge_reserializes:
  assumes "judgeActionString s = Inr d"
  shows "serialize (d_action d) (d_version d) (d_params d)
    = Inr (join ''|'' (pop_empties 2 (d_action d # nat_str (d_version d) # drop 2 (split_on (CHR ''|'') s))))"
  using assms
proof (rule judge_Inr)
  fix raw verseg body names
  assume s: "split_on (CHR ''|'') s = raw # verseg # body"
    and f: "getFormatFields (d_action d) (d_version d) = Inr names"
    and g: "getRepeatedGroup (d_action d) (d_version d) = Inr None"
    and fits: "isRestField (last names) \<or> length (verseg # body) \<le> length names"
    and p: "d_params d = decoded_params names (verseg # body)"
  note fl = flat_formatI [OF f g]
  have "getLegs (d_params d) = Inr None" unfolding p by (rule decoded_no_legs [OF fl])
  then have "serialize (d_action d) (d_version d) (d_params d)
      = Inr (join ''|'' (pop_empties 2 (flat_parts (d_action d) (d_version d) (d_params d) names)))"
    using f g by (simp add: serialize_def flat_fields_def)
  also have "flat_parts (d_action d) (d_version d) (d_params d) names
      = d_action d # nat_str (d_version d) # body_parts (d_params d) names"
    by (rule flat_parts_body [OF fl])
  finally show ?thesis
    using body_of_decoded [OF fl fits] by (simp add: p s pop_empties_2)
qed

lemma validateDecodedParams_None:
  "validateDecodedParams ps = None \<longleftrightarrow>
     (\<forall>(n, v)\<in>set ps. isTickField n \<and> is_populated v \<longrightarrow> isCanonicalTick v)"
  by (induction ps rule: validateDecodedParams.induct) auto

lemma shape_loop_rest:
  "shape_loop bounded seen ns = None \<Longrightarrow> f \<in> set ns \<Longrightarrow> isRestField f \<Longrightarrow> \<exists>m. bounded = Some (f, m)"
  by (induction bounded seen ns rule: shape_loop.induct) (auto split: if_split_asm option.splits prod.splits)

lemma shape_loop_once:
  "shape_loop bounded seen ns = None \<Longrightarrow> v \<in> set VALUE_FIELDS \<Longrightarrow> \<not> isRestField v
    \<Longrightarrow> length (filter (\<lambda>f. f = v) ns) \<le> (if v \<in> set seen then 0 else 1)"
proof (induction bounded seen ns rule: shape_loop.induct)
  case (1 bounded seen)
  then show ?case by simp
next
  case (2 bounded seen f fs)
  show ?case
  proof (cases "f = v")
    case True
    with 2(4-6) have "v \<notin> set seen" "shape_loop bounded (f # seen) fs = None"
      by (auto split: if_split_asm)
    with 2(2) 2(5,6) True show ?thesis by auto
  next
    case False
    with 2 show ?thesis by (auto split: if_split_asm option.splits prod.splits)
  qed
qed

text \<open>
  C13: What the co-signer decodes loses nothing of the string it will sign. When judgeActionString
  accepts a string, serializing the decoded action, version and parameters gives the string's canonical
  form: the canonical action name, the version in plain decimal and the string's own segments up to
  trailing empty ones. So two accepted strings with the same decoded action differ at most in the alias,
  a leading zero of the version and trailing separators, and no segment of the string escapes the policy.
\<close>

theorem judge_decodes_faithfully:
  assumes "judgeActionString s = Inr d"
  shows "d_string d = s
    \<and> serialize (d_action d) (d_version d) (d_params d)
        = Inr (join ''|'' (pop_empties 2 (d_action d # nat_str (d_version d) # drop 2 (split_on (CHR ''|'') s))))
    \<and> (\<exists>raw verseg body. split_on (CHR ''|'') s = raw # verseg # body
         \<and> d_action d = expandAlias raw \<and> parseVersion (Some verseg) = Some (d_version d))"
proof (intro conjI)
  show "d_string d = s" using assms by (rule judge_Inr)
  show "serialize (d_action d) (d_version d) (d_params d)
      = Inr (join ''|'' (pop_empties 2 (d_action d # nat_str (d_version d) # drop 2 (split_on (CHR ''|'') s))))"
    using assms by (rule judge_reserializes)
  show "\<exists>raw verseg body. split_on (CHR ''|'') s = raw # verseg # body
       \<and> d_action d = expandAlias raw \<and> parseVersion (Some verseg) = Some (d_version d)"
    using assms by (rule judge_Inr) blast
qed

definition demo_judged :: decoded_action where
  "demo_judged = \<lparr>d_action = ''SEND'', d_version = 0,
     d_params = [(''TICK'', JStr ''JDOG''), (''AMOUNT'', JStr ''5''), (''DESTINATION'', JStr ''bc1q''), (''MEMO'', JStr [])],
     d_string = ''TRANSFER|00|JDOG|5|bc1q|''\<rparr>"

lemma judge_demo: "judgeActionString ''TRANSFER|00|JDOG|5|bc1q|'' = Inr demo_judged"
  by code_simp

theorem judge_decodes_faithfully_witness:
  "serialize ''SEND'' 0 (d_params demo_judged) = Inr ''SEND|0|JDOG|5|bc1q''"
proof -
  have "join ''|'' (pop_empties 2 (''SEND'' # nat_str 0 # drop 2 (split_on (CHR ''|'') ''TRANSFER|00|JDOG|5|bc1q|'')))
      = ''SEND|0|JDOG|5|bc1q''" by code_simp
  with judge_decodes_faithfully [OF judge_demo, THEN conjunct2, THEN conjunct1]
  show ?thesis by (simp add: demo_judged_def)
qed

text \<open>
  C36: The shapes the co-signer accepts. An accepted string is no BATCH, its format repeats no
  group and has each of TICK, AMOUNT and DESTINATION at most once, a rest field only when that
  very field of that action and version was admitted, with at most 32 entries, and every decoded
  parameter that becomes a lookup key (TICK and the fields whose name ends in TICK) is empty or a
  name the protocol could have minted.
\<close>

theorem judge_accepts_single_leg:
  assumes "judgeActionString s = Inr d"
  shows "d_action d \<noteq> ''BATCH''
    \<and> getRepeatedGroup (d_action d) (d_version d) = Inr None
    \<and> (\<exists>names. getFormatFields (d_action d) (d_version d) = Inr names
        \<and> (\<forall>v\<in>set VALUE_FIELDS. length (filter (\<lambda>f. f = v) names) \<le> 1)
        \<and> (\<forall>f\<in>set names. isRestField f \<longrightarrow>
             boundedRestFormat (d_action d) (d_version d) = Some (f, MAX_REST_PARAMS)
             \<and> (\<exists>vs. map_of (d_params d) (baseFieldName f) = Some (JArr vs) \<and> length vs \<le> MAX_REST_PARAMS)))
    \<and> (\<forall>(n, v)\<in>set (d_params d). isTickField n \<and> is_populated v \<longrightarrow> isCanonicalTick v)"
  using assms
proof (rule judge_Inr)
  fix raw verseg body names
  assume f: "getFormatFields (d_action d) (d_version d) = Inr names"
    and g: "getRepeatedGroup (d_action d) (d_version d) = Inr None"
    and b: "d_action d \<noteq> ''BATCH''"
    and sh: "shape_loop (boundedRestFormat (d_action d) (d_version d)) [] names = None"
    and p: "d_params d = decoded_params names (verseg # body)"
    and v: "validateDecodedParams (d_params d) = None"
    and r: "rest_too_long (boundedRestFormat (d_action d) (d_version d)) (d_params d) = None"
  have nv: "\<not> isRestField x" if "x \<in> set VALUE_FIELDS" for x
    using that by (auto simp: VALUE_FIELDS_def isRestField_def starts_with_def REST_PREFIX_def)
  have once: "\<forall>x\<in>set VALUE_FIELDS. length (filter (\<lambda>f. f = x) names) \<le> 1"
    using shape_loop_once [OF sh] nv by fastforce
  have rest: "boundedRestFormat (d_action d) (d_version d) = Some (x, MAX_REST_PARAMS)
      \<and> (\<exists>vs. map_of (d_params d) (baseFieldName x) = Some (JArr vs) \<and> length vs \<le> MAX_REST_PARAMS)"
    if x: "x \<in> set names" "isRestField x" for x
  proof -
    from shape_loop_rest [OF sh x] obtain m where m: "boundedRestFormat (d_action d) (d_version d) = Some (x, m)" by blast
    then have mm: "m = MAX_REST_PARAMS"
      by (auto simp: boundedRestFormat_def BOUNDED_REST_FORMATS_def split: if_split_asm)
    have l: "x = last names" using flat_formatI [OF f g] x not_rest_VERSION
      by (cases rule: flat_format_cases) auto
    with x(2) have lk: "map_of (d_params d) (baseFieldName x) = Some (JArr (map JStr (drop (length names - 1) (verseg # body))))"
      unfolding p using decoded_rest by simp
    with r m have "length (drop (length names - 1) (verseg # body)) \<le> m"
      by (auto simp: rest_too_long_def rest_arity_def ownLookup_def split: if_split_asm)
    with lk m mm show ?thesis by auto
  qed
  show ?thesis using b g f once rest v by (auto simp: validateDecodedParams_None)
qed

theorem judge_accepts_single_leg_witness:
  "getRepeatedGroup ''SEND'' 0 = Inr None \<and> (''TICK'', JStr ''JDOG'') \<in> set (d_params demo_judged)"
  using judge_accepts_single_leg [OF judge_demo] by (simp add: demo_judged_def)

end
