(* ===== verification/MultiLeg.thy ===== *)
theory MultiLeg
  imports ActionDecode
begin

text \<open>
  Multi-leg action strings: what \<open>serialize\<close> writes for the LEGS array of a format with a repeated
  group and what \<open>mapRepeatedFields\<close> (\<open>decoder/parse/field_mapping.js\<close>) reads back.
  The leg count is not on the wire; the parser derives it from the number of segments.
  \<open>legs_roundtrip\<close> shows when that is exact, \<open>unreadable_legs_lost\<close> that it is exact only then.
\<close>

section \<open>Multi-leg strings\<close>

lemma leg_count_exact:
  assumes "0 < per" "n \<le> N" "N = n \<or> base + (N - 1) * per < have" "have \<le> base + N * per"
  shows "leg_count base per have n = N"
  using assms
proof (induction base per "have" n rule: leg_count.induct)
  case (1 base per hv n)
  show ?case
  proof (cases "N = n")
    case True
    with 1(5) show ?thesis by (subst leg_count.simps) simp
  next
    case False
    with 1(3,4) have n: "n \<le> N - 1" "Suc n \<le> N" and h: "base + (N - 1) * per < hv" by auto
    have "n * per \<le> (N - 1) * per" using n(1) by (rule mult_le_mono1)
    with h have "base + n * per < hv" by linarith
    with 1(1) [OF _ 1(2) n(2) _ 1(5)] 1(2) h show ?thesis by (subst leg_count.simps) simp
  qed
qed

text \<open>The count is the least that covers the segments.\<close>

lemma leg_count_least:
  "0 < per \<Longrightarrow> n \<le> N \<Longrightarrow> have \<le> base + N * per \<Longrightarrow> leg_count base per have n \<le> N"
proof (induction base per "have" n rule: leg_count.induct)
  case (1 base per hv n)
  show ?case
  proof (cases "base + n * per < hv")
    case True
    then have "n < N" using 1(3,4) by (metis le_neq_implies_less not_less)
    with 1(1) [OF _ 1(2) _ 1(4)] 1(2) True show ?thesis by (subst leg_count.simps) simp
  next
    case False
    with 1(3) show ?thesis by (subst leg_count.simps) simp
  qed
qed

lemma length_cut_legs: "length (cut_legs n per segs) = n"
  by (induction n arbitrary: segs) simp_all

lemma cut_legs_concat:
  "\<forall>l\<in>set ls. length l = per \<Longrightarrow> cut_legs (length ls) per (concat ls @ xs) = ls"
  by (induction ls) auto

lemma fold_push_other:
  "n \<notin> set ns \<Longrightarrow> map_of (fold (\<lambda>(n, v) ps. AList.update n (JStr v) ps) (zip ns vs) ps) n = map_of ps n"
proof (induction ns arbitrary: vs ps)
  case (Cons m ns)
  then show ?case by (cases vs) (simp_all add: update_conv)
qed simp

lemma leg_params_at:
  assumes "distinct ns" "i < length ns" "i < length vs"
  shows "map_of (fold (\<lambda>(n, v) ps. AList.update n (JStr v) ps) (zip ns vs) ps) (ns ! i) = Some (JStr (vs ! i))"
  using assms
proof (induction ns arbitrary: i vs ps)
  case Nil
  then show ?case by simp
next
  case (Cons n ns)
  then obtain w ws where "vs = w # ws" by (cases vs) auto
  with Cons show ?case
    by (cases i) (simp_all add: fold_push_other update_conv)
qed

lemma map_result_Inr:
  "map_result f xs = Inr ys \<Longrightarrow> length ys = length xs \<and> (\<forall>i<length xs. f (xs ! i) = Inr (ys ! i))"
proof (induction xs arbitrary: ys)
  case Nil
  then show ?case by simp
next
  case (Cons x xs)
  then obtain y ys' where "f x = Inr y" "map_result f xs = Inr ys'" "ys = y # ys'"
    by (auto simp: try_bind_Inr)
  with Cons.IH show ?case by (auto simp: nth_Cons split: nat.splits)
qed

text \<open>The parts of a repeated format: prefix, legs and suffix of the layout's lengths.\<close>

lemma buildRepeatedParts_shape:
  assumes "buildRepeatedParts action version fs g legs = Inr parts" "grp_prefix g = ''VERSION'' # p"
  obtains ps ls ss where "parts = action # nat_str version # ps @ concat ls @ ss" "length ps = length p"
    "length ss = length (grp_suffix g)" "length ls = length legs" "\<forall>l\<in>set ls. length l = length (grp_group g)"
    "\<forall>i<length legs. leg_parts fs g (legs ! i) = Inr (ls ! i)"
proof -
  from assms(1) obtain qs ls ss where
    q: "map_result (prefix_part version fs legs) (grp_prefix g) = Inr qs"
    and l: "map_result (leg_parts fs g) legs = Inr ls"
    and s: "map_result (\<lambda>name. sharedValue name fs legs) (grp_suffix g) = Inr ss"
    and parts: "parts = action # qs @ concat ls @ ss"
    by (auto simp: buildRepeatedParts_def try_bind_Inr split: option.splits)
  from map_result_Inr [OF q] assms(2) obtain ps where ps: "qs = nat_str version # ps" "length ps = length p"
    by (cases qs) (auto simp: prefix_part_def)
  have ll: "length ls = length legs" "\<forall>i<length legs. leg_parts fs g (legs ! i) = Inr (ls ! i)"
    using map_result_Inr [OF l] by auto
  have "\<forall>x\<in>set ls. length x = length (grp_group g)"
  proof
    fix x assume "x \<in> set ls"
    then obtain i where "i < length ls" "x = ls ! i" by (metis in_set_conv_nth)
    with ll have "leg_parts fs g (legs ! i) = Inr x" by auto
    then show "length x = length (grp_group g)"
      unfolding leg_parts_def using map_result_Inr by blast
  qed
  moreover have "length ss = length (grp_suffix g)" using map_result_Inr [OF s] by simp
  ultimately show thesis using that [of ps ls ss] parts ps ll by simp
qed

lemma group_prefix:
  assumes "getFormatFields action version = Inr names" "getRepeatedGroup action version = Inr (Some g)"
  obtains p where "grp_prefix g = ''VERSION'' # p"
proof -
  from assms have gf: "group_of_fields names = Inr (Some g)" by (simp add: getRepeatedGroup_def)
  note l = group_of_fields_layout [OF gf]
  from getFormatFields_wf [OF assms(1)] obtain ns where n: "names = ''VERSION'' # ns"
    by (auto simp: wf_names_def split: list.splits)
  show thesis
  proof (cases "grp_prefix g")
    case Nil
    with l(1,2) n have "hd (grp_group g) = ''VERSION''" by (cases "grp_group g") auto
    with l(2,3) show thesis by (auto simp: AUTO_FIELDS_def dest: hd_in_set)
  next
    case (Cons a p)
    with l(1) n that show thesis by auto
  qed
qed

text \<open>
  The segments reach into the last leg: the condition under which the trailing trim leaves the
  leg count readable.
\<close>

definition legs_readable :: "field_group \<Rightarrow> nat \<Rightarrow> string list \<Rightarrow> bool" where
  "legs_readable g n parts \<longleftrightarrow>
     n = 1 \<or> length (grp_prefix g) + length (grp_suffix g) + (n - 1) * length (grp_group g)
               < length (pop_empties 2 parts) - 1"

lemma parseTopLevel_group:
  assumes "getFormatFields action version = Inr names" "getRepeatedGroup action version = Inr (Some g)"
    and "\<forall>f\<in>set names. \<not> isRestField f"
    and "action \<noteq> ''BATCH''" "split_on (CHR ''|'') s = action # verseg # body"
    and "parseVersion (Some verseg) = Some version"
  shows "\<exists>pa. parseTopLevel s = Inr (pa :: parsed_action) \<and> pa_action pa = action \<and> pa_version pa = version
    \<and> pa_legs pa = mf_legs (mapRepeatedFields g (verseg # body))"
proof -
  note t = getFormatFields_table [OF assms(1)]
  have "find_index isRestField names = None" using assms(3) by (simp add: find_index_None)
  then have "mapFields names (verseg # body) (Some g) = Inr (mapRepeatedFields g (verseg # body))"
    by (simp add: mapFields_def)
  then show ?thesis
    unfolding parseTopLevel_def Let_def assms(5) list.sel canonical_action [OF t(5)]
    using t(5,6) assms(1,2,4,6) by (auto simp: segment_at_def)
qed

lemma mapRepeatedFields_legs:
  assumes "grp_group g \<noteq> []" "length pre = length (grp_prefix g)" "length ss = length (grp_suffix g)"
    and "\<forall>l\<in>set ls. length l = length (grp_group g)" "pre @ concat ls @ ss = segs @ replicate k []"
    and "ls \<noteq> []" "length ls = 1 \<or> length (grp_prefix g) + length (grp_suffix g) + (length ls - 1) * length (grp_group g) < length segs"
  shows "mf_legs (mapRepeatedFields g segs) = Some (map (leg_params (grp_group g)) ls)"
proof -
  let ?per = "length (grp_group g)" and ?base = "length (grp_prefix g) + length (grp_suffix g)"
  have cl: "length (concat ls) = length ls * ?per"
    using assms(4) by (induction ls) auto
  have len: "length segs + k = ?base + length ls * ?per"
    using assms(2,3) cl arg_cong [OF assms(5), of length] by simp
  have "leg_count ?base ?per (length segs) 1 = length ls"
    using assms(1,6,7) len by (intro leg_count_exact) (auto simp: Suc_le_eq)
  moreover have "segs @ replicate (?base + length ls * ?per - length segs) [] = pre @ concat ls @ ss"
    using len assms(5) by (metis add_diff_cancel_left')
  moreover have "drop (length (grp_prefix g)) (pre @ concat ls @ ss) = concat ls @ ss"
    by (simp flip: assms(2))
  ultimately show ?thesis
    by (simp only: mapRepeatedFields_def Let_def mapped_fields.select_convs cut_legs_concat [OF assms(4)])
qed

text \<open>
  What \<open>serialize\<close> writes for a repeated format, and what the strict parser makes of it: the whole
  line, cut at the separators again, with the legs that \<open>mapRepeatedFields\<close> finds in the trimmed values.
\<close>

lemma repeated_line_parsed:
  assumes "serialize action version fs = Inr line"
    and "getRepeatedGroup action version = Inr (Some g)" "getFormatFields action version = Inr names"
    and "\<forall>f\<in>set names. \<not> isRestField f" "action \<noteq> ''BATCH''"
    and "getLegs fs = Inr (Some legs)" "buildRepeatedParts action version fs g legs = Inr parts"
    and "\<forall>x\<in>set parts. CHR ''|'' \<notin> set x" "length line \<le> MAX_ACTION_DATA_LENGTH"
    and "parts = action # nat_str version # all"
  obtains pa where "parse_strict line = Inr (pa :: parsed_action)" "pa_action pa = action" "pa_version pa = version"
    "pa_legs pa = mf_legs (mapRepeatedFields g (nat_str version # pop_empties 0 all))" "grp_group g \<noteq> []"
proof -
  let ?body = "pop_empties 0 all"
  from serialize_repeated [OF assms(1,2)] assms(6,7,10)
  have line: "line = join ''|'' (action # nat_str version # ?body)" by (auto simp: pop_empties_2)
  have "\<forall>x\<in>set (action # nat_str version # ?body). CHR ''|'' \<notin> set x"
    using assms(8,10) pop_empties_set [of 0 all] by auto
  then have split: "split_on (CHR ''|'') line = action # nat_str version # ?body"
    unfolding line by (rule split_on_join [rotated]) simp
  note t = getFormatFields_table [OF assms(3)]
  from parseTopLevel_group [OF assms(3,2,4,5) split parseVersion_nat_str [OF t(2)]] obtain pa where
    pa: "parseTopLevel line = Inr (pa :: parsed_action)" "pa_action pa = action" "pa_version pa = version"
      "pa_legs pa = mf_legs (mapRepeatedFields g (nat_str version # ?body))" by blast
  have "line \<noteq> []" using line t(3) by (cases action) auto
  with pa(1) assms(9) have strict: "parse_strict line = Inr pa" by (simp add: parse_strict_def)
  from assms(2,3) have "group_of_fields names = Inr (Some g)" by (simp add: getRepeatedGroup_def)
  then have "grp_group g \<noteq> []" by (rule group_of_fields_layout(2))
  then show thesis by (rule that [OF strict pa(2-4)])
qed

text \<open>
  C37: Multi-leg strings keep every leg. Let serialize write a line for a format with a
  repeated group from the caller's legs, no part of it containing the separator, at most 8192
  bytes long, and let the trimmed line reach far enough (\<open>legs_readable\<close>: there is one leg, or some field
  at least the suffix's length behind the start of the last leg is not empty). Then the strict parser
  accepts the line and recovers exactly as many legs as were given, each per-leg field with the
  text the caller gave it (the leg's own value or the shared one).
\<close>

theorem legs_roundtrip:
  assumes "serialize action version fs = Inr line"
    and "getRepeatedGroup action version = Inr (Some g)" "getFormatFields action version = Inr names"
    and "\<forall>f\<in>set names. \<not> isRestField f" "distinct (grp_group g)" "action \<noteq> ''BATCH''"
    and "getLegs fs = Inr (Some legs)" "buildRepeatedParts action version fs g legs = Inr parts"
    and "\<forall>x\<in>set parts. CHR ''|'' \<notin> set x" "length line \<le> MAX_ACTION_DATA_LENGTH"
    and "legs_readable g (length legs) parts"
  shows "\<exists>pa ps. parse_strict line = Inr (pa :: parsed_action) \<and> pa_action pa = action \<and> pa_version pa = version
    \<and> pa_legs pa = Some ps \<and> length ps = length legs
    \<and> (\<forall>i<length legs. \<forall>n\<in>set (grp_group g). \<exists>t.
          legFieldValue n (legs ! i) fs = Inr t \<and> map_of (ps ! i) n = Some (JStr t))"
proof -
  from group_prefix [OF assms(3,2)] obtain p where p: "grp_prefix g = ''VERSION'' # p" by blast
  obtain qs ls ss where sh: "parts = action # nat_str version # qs @ concat ls @ ss" "length qs = length p"
      "length ss = length (grp_suffix g)" "length ls = length legs" "\<forall>l\<in>set ls. length l = length (grp_group g)"
      "\<forall>i<length legs. leg_parts fs g (legs ! i) = Inr (ls ! i)"
    by (rule buildRepeatedParts_shape [OF assms(8) p])
  let ?all = "qs @ concat ls @ ss"
  let ?body = "pop_empties 0 ?all"
  obtain pa where pa: "parse_strict line = Inr (pa :: parsed_action)" "pa_action pa = action" "pa_version pa = version"
      "pa_legs pa = mf_legs (mapRepeatedFields g (nat_str version # ?body))" "grp_group g \<noteq> []"
    by (rule repeated_line_parsed [OF assms(1-4,6-10) sh(1)])
  obtain k where "?all = ?body @ replicate k []" using pop_empties_pad by blast
  then have pad: "(nat_str version # qs) @ concat ls @ ss = (nat_str version # ?body) @ replicate k []" by simp
  have ne: "ls \<noteq> []" using getLegs_nonempty [OF assms(7)] sh(4) by auto
  have "length ls = 1 \<or> length (grp_prefix g) + length (grp_suffix g) + (length ls - 1) * length (grp_group g)
      < length (nat_str version # ?body)"
    using assms(11) sh(1,4) by (simp add: legs_readable_def pop_empties_2)
  with mapRepeatedFields_legs [OF pa(5) _ sh(3,5) pad ne] sh(2) p
  have legs: "pa_legs pa = Some (map (leg_params (grp_group g)) ls)" using pa(4) by simp
  have "\<exists>tx. legFieldValue n (legs ! i) fs = Inr tx \<and> map_of (map (leg_params (grp_group g)) ls ! i) n = Some (JStr tx)"
    if i: "i < length legs" and n: "n \<in> set (grp_group g)" for i n
  proof -
    from n obtain j where j: "j < length (grp_group g)" "n = grp_group g ! j" by (metis in_set_conv_nth)
    from sh(6) i have "map_result (\<lambda>name. legFieldValue name (legs ! i) fs) (grp_group g) = Inr (ls ! i)"
      by (simp add: leg_parts_def)
    from map_result_Inr [OF this] j have "legFieldValue n (legs ! i) fs = Inr (ls ! i ! j)"
      "j < length (ls ! i)" by auto
    moreover have "map_of (leg_params (grp_group g) (ls ! i)) n = Some (JStr (ls ! i ! j))"
      unfolding leg_params_def j(2) using leg_params_at [OF assms(5) j(1)] calculation(2) by blast
    ultimately show ?thesis using i sh(4) by auto
  qed
  with pa(1-3) legs sh(4) show ?thesis by auto
qed

text \<open>
  C38: Legs are lost exactly where the count is not readable. For every line that \<open>serialize\<close> writes from the
  caller's legs under the conditions of the previous property but the last: the strict parser accepts it, never
  with more legs than were given, and with as many only if the trimmed line reaches far enough
  (\<open>legs_readable\<close>). So a caller whose last leg is too sparse gets a line that is read as fewer legs, without
  an error: the comment on \<open>mapRepeatedFields\<close> calls the derivation of the count exact.
\<close>

theorem unreadable_legs_lost:
  assumes "serialize action version fs = Inr line"
    and "getRepeatedGroup action version = Inr (Some g)" "getFormatFields action version = Inr names"
    and "\<forall>f\<in>set names. \<not> isRestField f" "action \<noteq> ''BATCH''"
    and "getLegs fs = Inr (Some legs)" "buildRepeatedParts action version fs g legs = Inr parts"
    and "\<forall>x\<in>set parts. CHR ''|'' \<notin> set x" "length line \<le> MAX_ACTION_DATA_LENGTH"
  shows "\<exists>pa ps. parse_strict line = Inr (pa :: parsed_action) \<and> pa_action pa = action \<and> pa_version pa = version
    \<and> pa_legs pa = Some ps \<and> length ps \<le> length legs
    \<and> (length ps = length legs \<longleftrightarrow> legs_readable g (length legs) parts)"
proof -
  from group_prefix [OF assms(3,2)] obtain p where p: "grp_prefix g = ''VERSION'' # p" by blast
  obtain qs ls ss where sh: "parts = action # nat_str version # qs @ concat ls @ ss" "length qs = length p"
      "length ss = length (grp_suffix g)" "length ls = length legs" "\<forall>l\<in>set ls. length l = length (grp_group g)"
      "\<forall>i<length legs. leg_parts fs g (legs ! i) = Inr (ls ! i)"
    by (rule buildRepeatedParts_shape [OF assms(7) p])
  let ?all = "qs @ concat ls @ ss"
  let ?segs = "nat_str version # pop_empties 0 ?all"
  let ?base = "length (grp_prefix g) + length (grp_suffix g)" and ?per = "length (grp_group g)"
  obtain pa where pa: "parse_strict line = Inr (pa :: parsed_action)" "pa_action pa = action" "pa_version pa = version"
      "pa_legs pa = mf_legs (mapRepeatedFields g ?segs)" "grp_group g \<noteq> []"
    by (rule repeated_line_parsed [OF assms sh(1)])
  let ?n = "leg_count ?base ?per (length ?segs) 1"
  from pa(4) obtain ps where ps: "pa_legs pa = Some ps" "length ps = ?n"
    by (simp add: mapRepeatedFields_def Let_def length_cut_legs)
  obtain k where "?all = pop_empties 0 ?all @ replicate k []" using pop_empties_pad by blast
  then have "length (pop_empties 0 ?all) \<le> length ?all" by (metis length_append le_add1)
  moreover have "length (concat ls) = length ls * ?per" using sh(5) by (induction ls) auto
  ultimately have top: "length ?segs \<le> ?base + length legs * ?per" using sh(2-4) p by simp
  have one: "1 \<le> length legs" using getLegs_nonempty [OF assms(6)] by (cases legs) auto
  have per: "0 < ?per" using pa(5) by simp
  have readable: "legs_readable g (length legs) parts \<longleftrightarrow>
      length legs = 1 \<or> ?base + (length legs - 1) * ?per < length ?segs"
    using sh(1) by (simp add: legs_readable_def pop_empties_2)
  have up: "?n \<le> length legs" by (rule leg_count_least [OF per one top])
  have exact: "?n = length legs" if "legs_readable g (length legs) parts"
    by (rule leg_count_exact [OF per one _ top]) (use that readable in auto)
  have short: "?n \<noteq> length legs" if "\<not> legs_readable g (length legs) parts"
  proof -
    have "?n \<le> length legs - 1"
      by (rule leg_count_least [OF per]) (use that readable one in auto)
    then show ?thesis using one by linarith
  qed
  from ps up exact short pa(1-3) show ?thesis by auto
qed

definition demo_legs :: field_map where
  "demo_legs = [(''TICK'', JStr ''JDOG''), (''LEGS'', JArr
     [JObj [(''AMOUNT'', JInt 1), (''DESTINATION'', JStr ''a'')],
      JObj [(''AMOUNT'', JInt 2), (''DESTINATION'', JStr ''b'')],
      JObj [(''AMOUNT'', JInt 3), (''DESTINATION'', JStr ''c'')]])]"

theorem legs_roundtrip_witness:
  "\<exists>pa ps. parse_strict ''SEND|1|JDOG|1|a|2|b|3|c'' = Inr (pa :: parsed_action) \<and> pa_legs pa = Some ps
     \<and> length ps = 3 \<and> map_of (ps ! 2) ''AMOUNT'' = Some (JStr ''3'')"
proof -
  let ?g = "\<lparr>grp_prefix = [''VERSION'', ''TICK''], grp_group = [''AMOUNT'', ''DESTINATION''], grp_suffix = [''MEMO'']\<rparr>"
  let ?l = "[[(''AMOUNT'', JInt 1), (''DESTINATION'', JStr ''a'')], [(''AMOUNT'', JInt 2), (''DESTINATION'', JStr ''b'')],
      [(''AMOUNT'', JInt 3), (''DESTINATION'', JStr ''c'')]]"
  let ?p = "[''SEND'', ''1'', ''JDOG'', ''1'', ''a'', ''2'', ''b'', ''3'', ''c'', []]"
  let ?n = "[''VERSION'', ''TICK'', ''AMOUNT'', ''DESTINATION'', ''AMOUNT'', ''DESTINATION'', ''MEMO'']"
  have h: "serialize ''SEND'' 1 demo_legs = Inr ''SEND|1|JDOG|1|a|2|b|3|c''" by code_simp
  have g: "getRepeatedGroup ''SEND'' 1 = Inr (Some ?g)" by code_simp
  have n: "getFormatFields ''SEND'' 1 = Inr ?n" by code_simp
  have r: "\<forall>f\<in>set ?n. \<not> isRestField f" by code_simp
  have d: "distinct (grp_group ?g)" by code_simp
  have l: "getLegs demo_legs = Inr (Some ?l)" by code_simp
  have b: "buildRepeatedParts ''SEND'' 1 demo_legs ?g ?l = Inr ?p" by code_simp
  have c: "\<forall>x\<in>set ?p. CHR ''|'' \<notin> set x" by code_simp
  have m: "length ''SEND|1|JDOG|1|a|2|b|3|c'' \<le> MAX_ACTION_DATA_LENGTH" by (simp add: MAX_ACTION_DATA_LENGTH_def)
  have s: "legs_readable ?g (length ?l) ?p" by code_simp
  have v: "legFieldValue ''AMOUNT'' (?l ! 2) demo_legs = Inr ''3''" by code_simp
  from legs_roundtrip [OF h g n r d _ l b c m s] obtain pa ps where
    pa: "parse_strict ''SEND|1|JDOG|1|a|2|b|3|c'' = Inr (pa :: parsed_action)" "pa_legs pa = Some ps" "length ps = length ?l"
      "\<forall>i<length ?l. \<forall>n\<in>set (grp_group ?g). \<exists>t. legFieldValue n (?l ! i) demo_legs = Inr t \<and> map_of (ps ! i) n = Some (JStr t)"
    by auto
  have "2 < length ?l" "''AMOUNT'' \<in> set (grp_group ?g)" by simp_all
  from pa(4) [rule_format, OF this] v have "map_of (ps ! 2) ''AMOUNT'' = Some (JStr ''3'')" by auto
  with pa(1-3) show ?thesis by auto
qed

text \<open>
  An AIRDROP v1 of two legs of which the second leaves its AMOUNT empty, without memo: the line is read as one leg,
  with the second leg's TICK as the memo.
\<close>

definition sparse_legs :: field_map where
  "sparse_legs = [(''LIST_ACTION_INDEX'', JStr ''7''),
     (''LEGS'', JArr [JObj [(''TICK'', JStr ''A''), (''AMOUNT'', JStr ''1'')], JObj [(''TICK'', JStr ''B'')]])]"

lemma sparse_leg_as_memo:
  "\<exists>pa. parse_strict ''AIRDROP|1|7|A|1|B'' = Inr (pa :: parsed_action)
        \<and> pa_legs pa = Some [[(''TICK'', JStr ''A''), (''AMOUNT'', JStr ''1'')]]
        \<and> map_of (pa_params pa) ''MEMO'' = Some (JStr ''B'')"
proof (intro conjI exI)
  show "parse_strict ''AIRDROP|1|7|A|1|B'' = Inr \<lparr>pa_action = ''AIRDROP'', pa_rawAction = None, pa_version = 1,
     pa_params = [(''LIST_ACTION_INDEX'', JStr ''7''), (''TICK'', JArr [JStr ''A'']), (''AMOUNT'', JArr [JStr ''1'']), (''MEMO'', JStr ''B'')],
     pa_rest = None, pa_legs = Some [[(''TICK'', JStr ''A''), (''AMOUNT'', JStr ''1'')]], pa_string = ''AIRDROP|1|7|A|1|B''\<rparr>"
    by code_simp
qed simp_all

theorem unreadable_legs_lost_witness:
  "serialize ''AIRDROP'' 1 sparse_legs = Inr ''AIRDROP|1|7|A|1|B'' \<and>
   (\<exists>pa ps. parse_strict ''AIRDROP|1|7|A|1|B'' = Inr (pa :: parsed_action) \<and> pa_legs pa = Some ps \<and> length ps < 2)"
proof -
  let ?g = "\<lparr>grp_prefix = [''VERSION'', ''LIST_ACTION_INDEX''], grp_group = [''TICK'', ''AMOUNT''], grp_suffix = [''MEMO'']\<rparr>"
  let ?l = "[[(''TICK'', JStr ''A''), (''AMOUNT'', JStr ''1'')], [(''TICK'', JStr ''B'')]]"
  let ?p = "[''AIRDROP'', ''1'', ''7'', ''A'', ''1'', ''B'', [], []]"
  let ?n = "[''VERSION'', ''LIST_ACTION_INDEX'', ''TICK'', ''AMOUNT'', ''TICK'', ''AMOUNT'', ''MEMO'']"
  have h: "serialize ''AIRDROP'' 1 sparse_legs = Inr ''AIRDROP|1|7|A|1|B''" by code_simp
  have g: "getRepeatedGroup ''AIRDROP'' 1 = Inr (Some ?g)" by code_simp
  have n: "getFormatFields ''AIRDROP'' 1 = Inr ?n" by code_simp
  have r: "\<forall>f\<in>set ?n. \<not> isRestField f" by code_simp
  have l: "getLegs sparse_legs = Inr (Some ?l)" by code_simp
  have b: "buildRepeatedParts ''AIRDROP'' 1 sparse_legs ?g ?l = Inr ?p" by code_simp
  have c: "\<forall>x\<in>set ?p. CHR ''|'' \<notin> set x" by code_simp
  have m: "length ''AIRDROP|1|7|A|1|B'' \<le> MAX_ACTION_DATA_LENGTH" by (simp add: MAX_ACTION_DATA_LENGTH_def)
  have s: "\<not> legs_readable ?g (length ?l) ?p" by code_simp
  from unreadable_legs_lost [OF h g n r _ l b c m] s show ?thesis using h by (auto simp: le_neq_implies_less)
qed

end
