(* ===== verification/Envelope.thy ===== *)
theory Envelope
  imports ActionDecode MerklePrims
begin

text \<open>
  What a transaction declares: \<open>cosigner/envelope.js\<close> (the leaf grammar, the commit derivation, the
  role of a request, the tweaks of a round), \<open>cosigner/psbt_action_decode/action_string_extract.js\<close>
  (the inline and the envelope carrier) and the routing half of \<open>cosigner/psbt_action_decode.js\<close>.

  \<^item> A PSBT is what the code reads of it: per input the previous transaction's hash, the
    \<open>witnessUtxo\<close> if there is one and its tap leaves, per output the script and the value.
  \<^item> \<open>services\<close> holds the libraries the code calls: the PSBT parser, the script decompiler (\<open>None\<close>
    where it throws or returns null), the cipher, the UTF-8 decoder, the address decoder, the taproot derivations, the
    signature hashes, the deterministic signing round and the transaction id.
\<close>

section \<open>Transactions\<close>

datatype chunk = Opcode nat | Push bytes

record witness =
  w_script :: bytes
  w_value :: jsval

record tap_leaf =
  tl_version :: nat
  tl_script :: bytes

record tx_in =
  ti_hash :: bytes
  ti_witness :: "witness option"
  ti_leaves :: "tap_leaf list"

record tx_out =
  to_script :: bytes
  to_value :: jsval

record psbt =
  px_inputs :: "tx_in list"
  px_outputs :: "tx_out list"

datatype psbt_arg = Psbt_hex string | Psbt_object psbt | Psbt_missing

datatype tweak = Tweak bytes bool

record recovery_leaves =
  rl_agent :: bytes
  rl_daemon :: bytes

text \<open>
  The configured bitcoinjs network, where there is one: whether it says \<open>supportsSegwit === false\<close>, and its
  \<open>bech32\<close> prefix. \<open>assertSegwitNetwork\<close> throws on a network without segwit.
\<close>

record network =
  nw_noSegwit :: bool
  nw_bech32 :: "string option"

definition assertSegwitNetwork :: "network option \<Rightarrow> bool" where
  "assertSegwitNetwork net \<longleftrightarrow>
     (case net of None \<Rightarrow> True | Some n \<Rightarrow> \<not> nw_noSegwit n \<and> nw_bech32 n \<noteq> None \<and> nw_bech32 n \<noteq> Some [])"

record services =
  sv_psbt :: "string \<Rightarrow> psbt option"
  sv_decompile :: "bytes \<Rightarrow> chunk list option"
  sv_decipher :: "string \<Rightarrow> string \<Rightarrow> bytes \<Rightarrow> bytes option"
  sv_text :: "bytes \<Rightarrow> string option"
  sv_address :: "string \<Rightarrow> bytes option"
  sv_tapleaf :: "nat \<Rightarrow> bytes \<Rightarrow> bytes"
  sv_p2tr :: "bytes \<Rightarrow> bytes list \<Rightarrow> bytes \<times> bytes"
  sv_taptweak :: "bytes \<Rightarrow> bytes \<Rightarrow> bytes"
  sv_sighash :: "psbt \<Rightarrow> nat \<Rightarrow> bytes list \<Rightarrow> jsval list \<Rightarrow> bytes option \<Rightarrow> bytes"
  sv_sign :: "tweak list \<Rightarrow> bytes \<Rightarrow> bytes \<Rightarrow> (bytes \<times> bytes) option"
  sv_txid :: "psbt \<Rightarrow> string option"
  sv_network :: "network option"

section \<open>The envelope leaf\<close>

definition OP_RETURN :: nat where "OP_RETURN = 106"
definition OP_IF :: nat where "OP_IF = 99"
definition OP_ENDIF :: nat where "OP_ENDIF = 104"
definition OP_CHECKSIG :: nat where "OP_CHECKSIG = 172"
definition OP_CHECKMULTISIG :: nat where "OP_CHECKMULTISIG = 174"

definition ENVELOPE_MAGIC :: bytes where "ENVELOPE_MAGIC = utf8 ''XCHN''"
definition ENVELOPE_FORMAT_V0 :: byte where "ENVELOPE_FORMAT_V0 = 0"
definition TAPROOT_LEAF_VERSION :: nat where "TAPROOT_LEAF_VERSION = 192"
definition ENVELOPE_MAX_PAYLOAD :: nat where "ENVELOPE_MAX_PAYLOAD = 390000"

fun is_push :: "chunk \<Rightarrow> bool" where
  "is_push (Push b) = True"
| "is_push (Opcode n) = False"

fun push_bytes :: "chunk \<Rightarrow> bytes" where
  "push_bytes (Push b) = b"
| "push_bytes (Opcode n) = []"

record leaf_data =
  lf_payload :: bytes
  lf_checksigKey :: bytes

text \<open>The chunks after the format byte: the payload pushes, up to the first opcode, then the tail.\<close>

definition parse_leaf_tail :: "chunk list \<Rightarrow> leaf_data option" where
  "parse_leaf_tail cs =
     (let pushes = takeWhile is_push cs in
      if pushes = [] then None
      else case dropWhile is_push cs of
          [a, Push k, b] \<Rightarrow>
            if a = Opcode OP_ENDIF \<and> length k = 32 \<and> b = Opcode OP_CHECKSIG
            then Some \<lparr>lf_payload = concat (map push_bytes pushes), lf_checksigKey = k\<rparr> else None
        | _ \<Rightarrow> None)"

definition parseEnvelopeScript :: "services \<Rightarrow> bytes \<Rightarrow> leaf_data option" where
  "parseEnvelopeScript sv script =
     (if length script < 8 then None
      else case sv_decompile sv script of
          None \<Rightarrow> None
        | Some cs \<Rightarrow>
            if length cs < 8 then None
            else case cs of
                a # b # Push m # Push f # rest \<Rightarrow>
                  if a = Opcode 0 \<and> b = Opcode OP_IF \<and> m = ENVELOPE_MAGIC \<and> f = [ENVELOPE_FORMAT_V0]
                  then parse_leaf_tail rest else None
              | _ \<Rightarrow> None)"

text \<open>\<open>compactSizePrefix\<close>, the lengths little-endian.\<close>

definition compactSizePrefix :: "bytes \<Rightarrow> bytes" where
  "compactSizePrefix b =
     (let n = length b in
      if n < 253 then [of_nat n]
      else if n \<le> 65535 then [253, of_nat n, of_nat (n div 256)]
      else [254, of_nat n, of_nat (n div 256), of_nat (n div 65536), of_nat (n div 16777216)])"

definition normalizeRecoveryLeaves :: "recovery_leaves option \<Rightarrow> bytes list option" where
  "normalizeRecoveryLeaves r =
     (case r of
        None \<Rightarrow> Some []
      | Some l \<Rightarrow> if rl_agent l = [] \<or> rl_daemon l = [] \<or> rl_agent l = rl_daemon l then None
                  else Some [rl_agent l, rl_daemon l])"

record commit_data =
  cm_leafHash :: bytes
  cm_tweak :: bytes
  cm_output :: bytes
  cm_payload :: bytes
  cm_script :: bytes

text \<open>
  \<open>deriveEnvelopeCommit\<close>: the tree's leaves in order go to the library, which returns the merkle root
  and the output script. \<open>None\<close> where the code throws. The control blocks and the address are not
  read by the gates.
\<close>

definition deriveEnvelopeCommit ::
  "services \<Rightarrow> bytes \<Rightarrow> recovery_leaves option \<Rightarrow> bytes \<Rightarrow> commit_data option" where
  "deriveEnvelopeCommit sv internalXOnly recovery script =
     (if \<not> assertSegwitNetwork (sv_network sv) \<or> length internalXOnly \<noteq> 32 then None
      else case parseEnvelopeScript sv script of
          None \<Rightarrow> None
        | Some parsed \<Rightarrow>
            if lf_checksigKey parsed \<noteq> internalXOnly then None
            else case normalizeRecoveryLeaves recovery of
                None \<Rightarrow> None
              | Some rest \<Rightarrow>
                  let (merkleRoot, output) = sv_p2tr sv internalXOnly (script # rest) in
                  Some \<lparr>cm_leafHash = sv_tapleaf sv TAPROOT_LEAF_VERSION (compactSizePrefix script @ script),
                        cm_tweak = sv_taptweak sv internalXOnly merkleRoot,
                        cm_output = output, cm_payload = lf_payload parsed, cm_script = script\<rparr>)"

definition envelopeLeafFromPsbtInput :: "services \<Rightarrow> tx_in \<Rightarrow> (bytes \<times> leaf_data) option" where
  "envelopeLeafFromPsbtInput sv inp =
     (case ti_leaves inp of
        [leaf] \<Rightarrow>
          if tl_version leaf \<noteq> TAPROOT_LEAF_VERSION then None
          else map_option (\<lambda>d. (tl_script leaf, d)) (parseEnvelopeScript sv (tl_script leaf))
      | _ \<Rightarrow> None)"

datatype role = Commit | Reveal | Cancel

definition witness_at :: "psbt \<Rightarrow> nat \<Rightarrow> witness option" where
  "witness_at p i = (if i < length (px_inputs p) then ti_witness (px_inputs p ! i) else None)"

definition pays :: "bytes \<Rightarrow> psbt \<Rightarrow> bool" where
  "pays script p \<longleftrightarrow> list_ex (\<lambda>out. to_script out = script) (px_outputs p)"

definition classifyEnvelopeRole :: "services \<Rightarrow> psbt \<Rightarrow> commit_data \<Rightarrow> role option" where
  "classifyEnvelopeRole sv p c =
     (case witness_at p 0 of
        Some w \<Rightarrow>
          if w_script w = cm_output c
          then (case envelopeLeafFromPsbtInput sv (px_inputs p ! 0) of
                  None \<Rightarrow> Some Cancel
                | Some (script, d) \<Rightarrow> if script = cm_script c then Some Reveal else None)
          else if pays (cm_output c) p then Some Commit else None
      | None \<Rightarrow> if pays (cm_output c) p then Some Commit else None)"

record envelope =
  en_role :: role
  en_commit :: commit_data
  en_script :: bytes

definition envelopeRoundTweaks :: "envelope option \<Rightarrow> tweak list \<Rightarrow> tweak list" where
  "envelopeRoundTweaks env accountTweaks =
     (case env of
        None \<Rightarrow> accountTweaks
      | Some e \<Rightarrow> (case en_role e of
                     Reveal \<Rightarrow> []
                   | Cancel \<Rightarrow> [Tweak (cm_tweak (en_commit e)) True]
                   | Commit \<Rightarrow> accountTweaks))"

section \<open>Recovering the action string\<close>

datatype extract_failure =
    X_PSBT_PARSE_FAILED
  | X_NO_INPUTS
  | NO_OP_RETURN
  | MULTI_OP_RETURN
  | DEOBFUSCATION_FAILED
  | NO_MAGIC_WORD
  | P2SH_P2WSH_UNSUPPORTED
  | OVERSIZED
  | INNER_DECOMPILE_FAILED
  | NOT_UTF8
  | NO_ENVELOPE
  | MULTI_ENVELOPE
  | ENVELOPE_NOT_INPUT_ZERO
  | X_ENVELOPE_MIXED_CARRIER
  | X_ENVELOPE_SCRIPT_INVALID

definition MAGIC_WORD :: bytes where "MAGIC_WORD = utf8 ''XCHN''"
definition P2SH_TAG :: bytes where "P2SH_TAG = utf8 ''p2sh''"
definition P2WSH_TAG :: bytes where "P2WSH_TAG = utf8 ''p2wsh''"

definition deobfuscate :: "services \<Rightarrow> bytes \<Rightarrow> string \<Rightarrow> bytes option" where
  "deobfuscate sv payload txidHex = sv_decipher sv (take 16 txidHex) (take 16 (drop 16 txidHex)) payload"

text \<open>The push of a data carrier of exactly two chunks.\<close>

definition carrier_payload :: "services \<Rightarrow> tx_out \<Rightarrow> bytes option" where
  "carrier_payload sv out =
     (case sv_decompile sv (to_script out) of
        Some [a, Push b] \<Rightarrow> if a = Opcode OP_RETURN then Some b else None
      | _ \<Rightarrow> None)"

text \<open>The first push of a compiled data stream, as text.\<close>

definition inner_text :: "services \<Rightarrow> bytes \<Rightarrow> extract_failure + string" where
  "inner_text sv body =
     (case sv_decompile sv body of
        Some (Push b # cs) \<Rightarrow> (case sv_text sv b of None \<Rightarrow> Inl NOT_UTF8 | Some s \<Rightarrow> Inr s)
      | _ \<Rightarrow> Inl INNER_DECOMPILE_FAILED)"

definition extractInlineActionString :: "services \<Rightarrow> psbt \<Rightarrow> extract_failure + string" where
  "extractInlineActionString sv p =
     (case px_inputs p of
        [] \<Rightarrow> Inl X_NO_INPUTS
      | inp # inps \<Rightarrow>
          (case List.map_filter (carrier_payload sv) (px_outputs p) of
             [] \<Rightarrow> Inl NO_OP_RETURN
           | [payload] \<Rightarrow>
               (case deobfuscate sv payload (hex_encode (rev (ti_hash inp))) of
                  None \<Rightarrow> Inl DEOBFUSCATION_FAILED
                | Some plain \<Rightarrow>
                    if take (length MAGIC_WORD) plain \<noteq> MAGIC_WORD then Inl NO_MAGIC_WORD
                    else
                      let body = drop (length MAGIC_WORD) plain in
                      if body = P2SH_TAG \<or> body = P2WSH_TAG then Inl P2SH_P2WSH_UNSUPPORTED
                      else if MAX_ACTION_DATA_LENGTH < length body then Inl OVERSIZED
                      else inner_text sv body)
           | _ \<Rightarrow> Inl MULTI_OP_RETURN))"

definition mixes_carrier :: "services \<Rightarrow> tx_out \<Rightarrow> bool" where
  "mixes_carrier sv out =
     (case sv_decompile sv (to_script out) of
        Some cs \<Rightarrow> cs \<noteq> [] \<and> (hd cs = Opcode OP_RETURN \<or> last cs = Opcode OP_CHECKMULTISIG)
      | None \<Rightarrow> False)"

definition carries_leaf :: "services \<Rightarrow> tx_in \<Rightarrow> bool" where
  "carries_leaf sv inp \<longleftrightarrow> envelopeLeafFromPsbtInput sv inp \<noteq> None"

definition extractEnvelopeActionString :: "services \<Rightarrow> psbt \<Rightarrow> extract_failure + string" where
  "extractEnvelopeActionString sv p =
     (if px_inputs p = [] then Inl X_NO_INPUTS
      else case filter (\<lambda>i. carries_leaf sv (px_inputs p ! i)) [0..<length (px_inputs p)] of
          [] \<Rightarrow> Inl NO_ENVELOPE
        | [i] \<Rightarrow>
            if i \<noteq> 0 then Inl ENVELOPE_NOT_INPUT_ZERO
            else if list_ex (mixes_carrier sv) (px_outputs p) then Inl X_ENVELOPE_MIXED_CARRIER
            else (case envelopeLeafFromPsbtInput sv (px_inputs p ! 0) of
                    None \<Rightarrow> Inl NO_ENVELOPE
                  | Some (script, d) \<Rightarrow>
                      if ENVELOPE_MAX_PAYLOAD < length (lf_payload d) then Inl OVERSIZED
                      else inner_text sv (lf_payload d))
        | _ \<Rightarrow> Inl MULTI_ENVELOPE)"

datatype refusal = Extract extract_failure | Judge decode_failure

definition judge_extracted :: "extract_failure + string \<Rightarrow> refusal + decoded_action" where
  "judge_extracted r =
     (case r of
        Inl x \<Rightarrow> Inl (Extract x)
      | Inr s \<Rightarrow> (case judgeActionString s of Inl j \<Rightarrow> Inl (Judge j) | Inr d \<Rightarrow> Inr d))"

fun read_psbt :: "services \<Rightarrow> psbt_arg \<Rightarrow> psbt option option" where
  "read_psbt sv (Psbt_hex s) = map_option Some (sv_psbt sv s)"
| "read_psbt sv (Psbt_object p) = Some (Some p)"
| "read_psbt sv Psbt_missing = Some None"

definition decodeActionFromPsbt :: "services \<Rightarrow> psbt_arg \<Rightarrow> refusal + decoded_action" where
  "decodeActionFromPsbt sv arg =
     (case read_psbt sv arg of
        None \<Rightarrow> Inl (Extract X_PSBT_PARSE_FAILED)
      | Some None \<Rightarrow> Inl (Extract X_NO_INPUTS)
      | Some (Some p) \<Rightarrow>
          judge_extracted (if list_ex (carries_leaf sv) (px_inputs p) then extractEnvelopeActionString sv p
                           else extractInlineActionString sv p))"

definition decodeActionStringFromPsbt :: "services \<Rightarrow> psbt_arg \<Rightarrow> extract_failure + string" where
  "decodeActionStringFromPsbt sv arg =
     (case read_psbt sv arg of
        None \<Rightarrow> Inl X_PSBT_PARSE_FAILED
      | Some None \<Rightarrow> Inl X_NO_INPUTS
      | Some (Some p) \<Rightarrow> extractInlineActionString sv p)"

definition decodeEnvelopeAction :: "services \<Rightarrow> bytes \<Rightarrow> refusal + decoded_action" where
  "decodeEnvelopeAction sv script =
     judge_extracted
       (case parseEnvelopeScript sv script of
          None \<Rightarrow> Inl X_ENVELOPE_SCRIPT_INVALID
        | Some d \<Rightarrow> if ENVELOPE_MAX_PAYLOAD < length (lf_payload d) then Inl OVERSIZED
                    else inner_text sv (lf_payload d))"

section \<open>Facts the gates use\<close>

lemma takeWhile_push [simp]: "takeWhile is_push (map Push bs @ Opcode n # cs) = map Push bs"
  by (induction bs) auto

lemma dropWhile_push [simp]: "dropWhile is_push (map Push bs @ Opcode n # cs) = Opcode n # cs"
  by (induction bs) auto

lemma concat_push [simp]: "concat (map push_bytes (map Push bs)) = concat bs"
  by (induction bs) auto

lemma pushes_are_map: "\<forall>c\<in>set cs. is_push c \<Longrightarrow> cs = map Push (map push_bytes cs)"
proof (induction cs)
  case (Cons c cs)
  then show ?case by (cases c) auto
qed simp

lemma parse_leaf_tail_Some:
  "parse_leaf_tail cs = Some d \<longleftrightarrow>
     (\<exists>bs. bs \<noteq> [] \<and> lf_payload d = concat bs \<and> length (lf_checksigKey d) = 32
        \<and> cs = map Push bs @ [Opcode OP_ENDIF, Push (lf_checksigKey d), Opcode OP_CHECKSIG])" (is "?l = ?r")
proof
  assume ?l
  then obtain k where t: "takeWhile is_push cs \<noteq> []" "dropWhile is_push cs = [Opcode OP_ENDIF, Push k, Opcode OP_CHECKSIG]"
      "length k = 32" "d = \<lparr>lf_payload = concat (map push_bytes (takeWhile is_push cs)), lf_checksigKey = k\<rparr>"
    by (auto simp: parse_leaf_tail_def Let_def split: list.splits chunk.splits if_split_asm)
  have "\<forall>c\<in>set (takeWhile is_push cs). is_push c" by (auto dest: set_takeWhileD)
  from pushes_are_map [OF this] have m: "takeWhile is_push cs = map Push (map push_bytes (takeWhile is_push cs))" .
  with t(2) have "cs = map Push (map push_bytes (takeWhile is_push cs)) @ [Opcode OP_ENDIF, Push k, Opcode OP_CHECKSIG]"
    using takeWhile_dropWhile_id [of is_push cs] by simp
  with t show ?r by (intro exI [of _ "map push_bytes (takeWhile is_push cs)"]) auto
next
  assume ?r
  then show ?l by (cases d) (auto simp: parse_leaf_tail_def Let_def OP_ENDIF_def comp_def)
qed

lemma derived_commit:
  assumes "deriveEnvelopeCommit sv key r script = Some c"
  shows "cm_script c = script" "length key = 32"
    "\<exists>d. parseEnvelopeScript sv script = Some d \<and> lf_checksigKey d = key \<and> cm_payload c = lf_payload d"
  using assms
  by (auto simp: deriveEnvelopeCommit_def split: option.splits if_split_asm prod.splits)

lemma judge_extracted_Inr: "judge_extracted r = Inr d \<longleftrightarrow> (\<exists>s. r = Inr s \<and> judgeActionString s = Inr d)"
  by (auto simp: judge_extracted_def split: sum.splits)

lemma decoded_judged:
  assumes "decodeActionFromPsbt sv arg = Inr d"
  shows "\<exists>s. judgeActionString s = Inr d"
  using assms by (auto simp: decodeActionFromPsbt_def judge_extracted_Inr split: option.splits if_split_asm)

lemma envelope_decoded_judged:
  assumes "decodeEnvelopeAction sv script = Inr d"
  shows "\<exists>s. judgeActionString s = Inr d"
  using assms by (auto simp: decodeEnvelopeAction_def judge_extracted_Inr)

lemma classify_Reveal:
  assumes "classifyEnvelopeRole sv p c = Some Reveal"
  shows "\<exists>w d. witness_at p 0 = Some w \<and> w_script w = cm_output c
    \<and> envelopeLeafFromPsbtInput sv (px_inputs p ! 0) = Some (cm_script c, d)
    \<and> parseEnvelopeScript sv (cm_script c) = Some d"
  using assms
  by (auto simp: classifyEnvelopeRole_def envelopeLeafFromPsbtInput_def split: option.splits if_split_asm list.splits)

lemma only_first_leaf:
  assumes "0 < n" "P 0"
  shows "filter P [0..<n] = [0] \<longleftrightarrow> (\<forall>i<n. 0 < i \<longrightarrow> \<not> P i)"
proof -
  have "[0..<n] = 0 # [1..<n]" using assms(1) by (simp add: upt_conv_Cons)
  with assms(2) show ?thesis by (auto simp: filter_empty_conv)
qed

section \<open>What the envelope route reads\<close>

text \<open>
  The envelope grammar. A leaf script is recognised exactly when it decompiles to
  OP_FALSE OP_IF, the magic word, the format byte 0, at least one payload push, OP_ENDIF, a 32-byte key
  and OP_CHECKSIG, with nothing after; the payload is the concatenation of the pushes and the key
  is the key pushed.
\<close>

theorem envelope_grammar_exact:
  "parseEnvelopeScript sv script = Some d \<longleftrightarrow>
     8 \<le> length script \<and> length (lf_checksigKey d) = 32
     \<and> (\<exists>bs. bs \<noteq> [] \<and> lf_payload d = concat bs
        \<and> sv_decompile sv script =
            Some ([Opcode 0, Opcode OP_IF, Push ENVELOPE_MAGIC, Push [ENVELOPE_FORMAT_V0]] @ map Push bs
                  @ [Opcode OP_ENDIF, Push (lf_checksigKey d), Opcode OP_CHECKSIG]))"
  (is "_ \<longleftrightarrow> ?r")
proof
  assume "parseEnvelopeScript sv script = Some d"
  then show ?r
    by (auto simp: parseEnvelopeScript_def parse_leaf_tail_Some split: if_split_asm option.splits list.splits chunk.splits)
next
  assume ?r
  then obtain bs where r: "8 \<le> length script" "length (lf_checksigKey d) = 32" "bs \<noteq> []" "lf_payload d = concat bs"
      "sv_decompile sv script = Some ([Opcode 0, Opcode OP_IF, Push ENVELOPE_MAGIC, Push [ENVELOPE_FORMAT_V0]] @ map Push bs
                  @ [Opcode OP_ENDIF, Push (lf_checksigKey d), Opcode OP_CHECKSIG])" by blast
  from r(3) have "0 < length bs" by simp
  with r show "parseEnvelopeScript sv script = Some d"
    by (auto simp: parseEnvelopeScript_def parse_leaf_tail_Some)
qed

text \<open>
  C7: A reveal publishes what its commit was judged for. When the daemon derived a commit from an
  envelope script and classifies a transaction as its reveal, the action decoded from that
  transaction is the action decoded from the script, provided no other input carries an envelope
  leaf and no output is an OP_RETURN or a bare multisig; in every other case the reveal is
  refused.
\<close>

theorem reveal_reads_committed_action:
  assumes "deriveEnvelopeCommit sv key recovery script = Some c"
    and "classifyEnvelopeRole sv p c = Some Reveal"
  shows "decodeActionFromPsbt sv (Psbt_object p) = Inr d \<longleftrightarrow>
     decodeEnvelopeAction sv script = Inr d
     \<and> (\<forall>i<length (px_inputs p). 0 < i \<longrightarrow> \<not> carries_leaf sv (px_inputs p ! i))
     \<and> \<not> list_ex (mixes_carrier sv) (px_outputs p)"
proof -
  have s: "cm_script c = script" using derived_commit(1) [OF assms(1)] .
  obtain w e where w: "witness_at p 0 = Some w"
      "envelopeLeafFromPsbtInput sv (px_inputs p ! 0) = Some (script, e)" "parseEnvelopeScript sv script = Some e"
    using classify_Reveal [OF assms(2)] unfolding s by blast
  have n: "px_inputs p \<noteq> []" "0 < length (px_inputs p)" using w(1) by (auto simp: witness_at_def split: if_split_asm)
  have c0: "carries_leaf sv (px_inputs p ! 0)" using w(2) by (simp add: carries_leaf_def)
  then have ex: "list_ex (carries_leaf sv) (px_inputs p)" using n(2) nth_mem by (auto simp: list_ex_iff)
  let ?P = "\<lambda>i. carries_leaf sv (px_inputs p ! i)"
  let ?F = "filter ?P [0..<length (px_inputs p)]"
  have F: "?F = [0] \<longleftrightarrow> (\<forall>i<length (px_inputs p). 0 < i \<longrightarrow> \<not> ?P i)"
    by (rule only_first_leaf [OF n(2), of ?P, OF c0])
  have "0 \<in> set ?F" using n(2) c0 by simp
  then have "?F = [0] \<or> (\<exists>a b xs. ?F = a # b # xs)"
    by (cases ?F; cases "tl ?F") auto
  then show ?thesis
  proof
    assume one: "?F = [0]"
    with ex n w show ?thesis
      by (auto simp: decodeActionFromPsbt_def extractEnvelopeActionString_def decodeEnvelopeAction_def
        judge_extracted_def simp flip: F)
  next
    assume "\<exists>a b xs. ?F = a # b # xs"
    then obtain a b xs where many: "?F = a # b # xs" by blast
    with ex n have "decodeActionFromPsbt sv (Psbt_object p) = Inl (Extract MULTI_ENVELOPE)"
      by (simp add: decodeActionFromPsbt_def extractEnvelopeActionString_def judge_extracted_def)
    with many show ?thesis by (simp flip: F)
  qed
qed

text \<open>Services for the examples: five scripts with their chunks, a cipher that does nothing.\<close>

definition demo_key :: bytes where "demo_key = replicate 32 7"
definition demo_leaf :: bytes where "demo_leaf = [1, 1, 1, 1, 1, 1, 1, 1]"
definition demo_stream :: bytes where "demo_stream = [1]"
definition demo_carrier :: bytes where "demo_carrier = [106, 5]"
definition demo_commit_script :: bytes where "demo_commit_script = [81, 2]"
definition demo_account :: bytes where "demo_account = [81, 3]"
definition demo_payee :: bytes where "demo_payee = [81, 4]"

definition demo_decompile :: "bytes \<Rightarrow> chunk list option" where
  "demo_decompile b =
     (if b = demo_leaf then Some ([Opcode 0, Opcode OP_IF, Push ENVELOPE_MAGIC, Push [ENVELOPE_FORMAT_V0]]
        @ map Push [demo_stream] @ [Opcode OP_ENDIF, Push demo_key, Opcode OP_CHECKSIG])
      else if b = demo_stream then Some [Push [2]]
      else if b = demo_carrier then Some [Opcode OP_RETURN, Push (MAGIC_WORD @ demo_stream)]
      else Some [Opcode 81, Push (replicate 32 9)])"

definition demo_services :: services where
  "demo_services = \<lparr>sv_psbt = \<lambda>s. None, sv_decompile = demo_decompile, sv_decipher = \<lambda>k iv b. Some b,
     sv_text = \<lambda>b. if b = [2] then Some ''TRANSFER|00|JDOG|5|bc1q|'' else None,
     sv_address = \<lambda>a. None, sv_tapleaf = \<lambda>v b. b, sv_p2tr = \<lambda>k ls. ([], demo_commit_script), sv_taptweak = \<lambda>k r. k,
     sv_sighash = \<lambda>p i ss vs l. [of_nat i], sv_sign = \<lambda>ts nonce msg. Some (nonce, msg),
     sv_txid = \<lambda>p. Some ''t'', sv_network = None\<rparr>"

definition demo_commit :: commit_data where
  "demo_commit = \<lparr>cm_leafHash = compactSizePrefix demo_leaf @ demo_leaf, cm_tweak = demo_key,
     cm_output = demo_commit_script, cm_payload = demo_stream, cm_script = demo_leaf\<rparr>"

definition demo_reveal :: psbt where
  "demo_reveal = \<lparr>px_inputs = [\<lparr>ti_hash = [], ti_witness = Some \<lparr>w_script = demo_commit_script, w_value = JInt 1000\<rparr>,
       ti_leaves = [\<lparr>tl_version = TAPROOT_LEAF_VERSION, tl_script = demo_leaf\<rparr>]\<rparr>],
     px_outputs = [\<lparr>to_script = demo_account, to_value = JInt 600\<rparr>]\<rparr>"

lemma demo_chunks [simp]:
  "demo_decompile demo_stream = Some [Push [2]]"
  "demo_decompile demo_carrier = Some [Opcode OP_RETURN, Push (MAGIC_WORD @ demo_stream)]"
  "demo_decompile demo_account = Some [Opcode 81, Push (replicate 32 9)]"
  "demo_decompile demo_payee = Some [Opcode 81, Push (replicate 32 9)]"
  by (simp_all add: demo_decompile_def demo_leaf_def demo_stream_def demo_carrier_def demo_account_def demo_payee_def)

lemma demo_parse [simp]:
  "parseEnvelopeScript demo_services demo_leaf = Some \<lparr>lf_payload = demo_stream, lf_checksigKey = demo_key\<rparr>"
  by (simp add: parseEnvelopeScript_def parse_leaf_tail_def demo_services_def demo_decompile_def demo_leaf_def demo_key_def
    OP_ENDIF_def)

lemma demo_derived: "deriveEnvelopeCommit demo_services demo_key None demo_leaf = Some demo_commit"
  by (simp add: deriveEnvelopeCommit_def normalizeRecoveryLeaves_def demo_commit_def)
    (simp add: demo_services_def demo_key_def assertSegwitNetwork_def)

lemma demo_role: "classifyEnvelopeRole demo_services demo_reveal demo_commit = Some Reveal"
  by (simp add: classifyEnvelopeRole_def envelopeLeafFromPsbtInput_def witness_at_def demo_reveal_def demo_commit_def)

lemma demo_envelope_action: "decodeEnvelopeAction demo_services demo_leaf = Inr demo_judged"
  by (simp add: decodeEnvelopeAction_def judge_extracted_def inner_text_def ENVELOPE_MAX_PAYLOAD_def)
    (simp add: judge_demo demo_services_def, simp add: demo_stream_def)

theorem reveal_reads_committed_action_witness:
  "decodeActionFromPsbt demo_services (Psbt_object demo_reveal) = Inr demo_judged"
  using reveal_reads_committed_action [OF demo_derived demo_role, of demo_judged] demo_envelope_action
  by (simp add: demo_reveal_def mixes_carrier_def) (simp add: demo_services_def OP_RETURN_def OP_CHECKMULTISIG_def)

end
