(* ===== verification/DeployPlan.thy ===== *)
theory DeployPlan
  imports Envelope JsValues
begin

text \<open>
  Planning the deployment of a contract: \<open>contract/chunk_helper.js\<close> and the codec of
  \<open>contract/utils.js\<close> (\<open>encode\<close>, \<open>decode\<close>, \<open>checkCodeSize\<close>). A source text is the list of its UTF-8
  bytes, so \<open>Buffer.byteLength\<close> is the length; SHA-256 is the parameter \<open>H\<close>.

  A source that fits goes inline; any other is cut into slices of its base64 text, one carrier each.
\<close>

section \<open>Base64\<close>

definition b64_char :: "nat \<Rightarrow> char" where
  "b64_char n = (if n < 26 then char_of (65 + n) else if n < 52 then char_of (71 + n)
     else if n < 62 then char_of (n - 4) else if n = 62 then CHR ''+'' else CHR ''/'')"

definition b64_val :: "char \<Rightarrow> nat option" where
  "b64_val c =
     (let n = of_char c :: nat in
      if 65 \<le> n \<and> n \<le> 90 then Some (n - 65) else if 97 \<le> n \<and> n \<le> 122 then Some (n - 71)
      else if 48 \<le> n \<and> n \<le> 57 then Some (n + 4) else if c = CHR ''+'' then Some 62
      else if c = CHR ''/'' then Some 63 else None)"

fun sextets :: "nat list \<Rightarrow> nat list" where
  "sextets (a # b # c # r) =
     [a div 4, a mod 4 * 16 + b div 16, b mod 16 * 4 + c div 64, c mod 64] @ sextets r"
| "sextets [a, b] = [a div 4, a mod 4 * 16 + b div 16, b mod 16 * 4]"
| "sextets [a] = [a div 4, a mod 4 * 16]"
| "sextets [] = []"

definition padding :: "nat \<Rightarrow> string" where
  "padding n = (if n mod 3 = 1 then ''=='' else if n mod 3 = 2 then ''='' else [])"

text \<open>\<open>buf.toString('base64')\<close> and \<open>Buffer.from(s, 'base64')\<close>.\<close>

definition base64 :: "bytes \<Rightarrow> string" where
  "base64 bs = map b64_char (sextets (map unat bs)) @ padding (length bs)"

fun octets :: "nat list \<Rightarrow> nat list" where
  "octets (p # q # r # s # rest) = [p * 4 + q div 16, q mod 16 * 16 + r div 4, r mod 4 * 64 + s] @ octets rest"
| "octets [p, q, r] = [p * 4 + q div 16, q mod 16 * 16 + r div 4]"
| "octets [p, q] = [p * 4 + q div 16]"
| "octets [p] = []"
| "octets [] = []"

definition b64_body :: "string \<Rightarrow> string" where
  "b64_body s = takeWhile (\<lambda>c. b64_val c \<noteq> None) s"

definition unbase64 :: "string \<Rightarrow> bytes" where
  "unbase64 s = map of_nat (octets (map (\<lambda>c. the (b64_val c)) (b64_body s)))"

text \<open>The codec of \<open>ContractUtils\<close>; \<open>None\<close> for the text that is no base64.\<close>

definition encode_source :: "string \<Rightarrow> string" where
  "encode_source code = base64 (utf8 code)"

definition decode_source :: "string \<Rightarrow> bytes option" where
  "decode_source s = (if drop (length (b64_body s)) s \<in> {[], ''='', ''==''} then Some (unbase64 s) else None)"

section \<open>Sizes\<close>

definition OP_RETURN_PUSH_OVERHEAD :: nat where "OP_RETURN_PUSH_OVERHEAD = 3"
definition MAX_CODE_SIZE :: nat where "MAX_CODE_SIZE = 65536"
definition MAX_DEPLOY_CHUNKS :: nat where "MAX_DEPLOY_CHUNKS = 16"
definition MAX_DEPLOYCHUNK_PART_BYTES :: nat where "MAX_DEPLOYCHUNK_PART_BYTES = 7800"

definition checkCodeSize :: "string \<Rightarrow> bool" where
  "checkCodeSize code \<longleftrightarrow> length code \<le> MAX_CODE_SIZE"

definition compiledPushSize :: "nat \<Rightarrow> nat" where
  "compiledPushSize n = (if n \<le> 75 then n + 1 else if n \<le> 255 then n + 2 else n + 3)"

definition envelopePayloadSize :: "nat \<Rightarrow> nat" where
  "envelopePayloadSize n = (if n \<le> 65535 then compiledPushSize n else n + 5)"

definition LEGACY_CARRIERS :: "string list" where
  "LEGACY_CARRIERS = [''OP_RETURN'', ''P2SH'', ''P2WSH'', ''MULTISIGN'']"

record ceiling =
  ce_legacy :: bool
  ce_size :: nat
  ce_limit :: nat

definition carrierCeiling :: "nat \<Rightarrow> jsval \<Rightarrow> ceiling" where
  "carrierCeiling n carrier =
     (if \<not> is_nullish carrier \<and> ascii_upper (js_string carrier) \<in> set LEGACY_CARRIERS
      then \<lparr>ce_legacy = True, ce_size = compiledPushSize n, ce_limit = MAX_ACTION_DATA_LENGTH\<rparr>
      else \<lparr>ce_legacy = False, ce_size = envelopePayloadSize n, ce_limit = ENVELOPE_MAX_PAYLOAD\<rparr>)"

definition codeHashOf :: "(bytes \<Rightarrow> bytes) \<Rightarrow> string \<Rightarrow> string" where
  "codeHashOf H code = hex_encode (H (utf8 code))"

section \<open>Does it fit inline?\<close>

record deploy_opts =
  do_gasLimit :: jsval
  do_constructorParams :: jsval
  do_cooldownBlocks :: jsval
  do_slashDestination :: jsval

definition ctorString :: "jsval \<Rightarrow> string" where
  "ctorString v =
     (if is_nullish v then []
      else case v of JArr xs \<Rightarrow> join ''|'' (map js_string xs) | _ \<Rightarrow> js_string v)"

definition tailField :: "jsval \<Rightarrow> string" where
  "tailField v = (if is_nullish v then [] else js_string v)"

definition deployOverhead :: "deploy_opts \<Rightarrow> string" where
  "deployOverhead dopts =
     (let gas = js_string (if js_truthy (do_gasLimit dopts) then do_gasLimit dopts else JInt 0);
          ctor = ctorString (do_constructorParams dopts);
          cooldown = tailField (do_cooldownBlocks dopts);
          slashDst = tailField (do_slashDestination dopts) in
      if cooldown = [] \<and> slashDst = []
      then ''DEPLOY|0||'' @ gas @ (if ctor = [] then [] else ''|'' @ ctor)
      else ''DEPLOY|1||'' @ gas @ ''|'' @ ctor @ ''|'' @ cooldown @ (if slashDst = [] then [] else ''|'' @ slashDst))"

definition fitsSingleDeploy :: "string \<Rightarrow> deploy_opts \<Rightarrow> bool" where
  "fitsSingleDeploy code dopts \<longleftrightarrow>
     length (encode_source code) + (length (deployOverhead dopts) + OP_RETURN_PUSH_OVERHEAD) \<le> MAX_ACTION_DATA_LENGTH"

section \<open>The plan\<close>

function slices :: "nat \<Rightarrow> string \<Rightarrow> string list" where
  "slices n s = (if s = [] \<or> n = 0 then [] else take n s # slices n (drop n s))"
  by pat_completeness auto
termination
  by (relation "measure (\<lambda>(n, s). length s)") auto

declare slices.simps [simp del]

definition splitCode :: "string \<Rightarrow> string list" where
  "splitCode code =
     (let parts = slices MAX_DEPLOYCHUNK_PART_BYTES (encode_source code) in if parts = [] then [[]] else parts)"

record deploy_plan =
  dp_codeHash :: string
  dp_single :: bool
  dp_parts :: "string list option"
  dp_totalChunks :: nat

datatype plan_error = CODE_TOO_LARGE nat | TOO_MANY_CHUNKS nat

definition planDeploy :: "(bytes \<Rightarrow> bytes) \<Rightarrow> string \<Rightarrow> deploy_opts \<Rightarrow> plan_error + deploy_plan" where
  "planDeploy H code dopts =
     (if MAX_CODE_SIZE < length code then Inl (CODE_TOO_LARGE (length code))
      else if fitsSingleDeploy code dopts
      then Inr \<lparr>dp_codeHash = codeHashOf H code, dp_single = True, dp_parts = None, dp_totalChunks = 0\<rparr>
      else let parts = splitCode code in
           if MAX_DEPLOY_CHUNKS < length parts then Inl (TOO_MANY_CHUNKS (length parts))
           else Inr \<lparr>dp_codeHash = codeHashOf H code, dp_single = False, dp_parts = Some parts,
                     dp_totalChunks = length parts\<rparr>)"

section \<open>The codec round trip\<close>

lemma b64_val_char: "n < 64 \<Longrightarrow> b64_val (b64_char n) = Some n"
  by (auto simp: b64_val_def b64_char_def Let_def split: if_splits)

lemma sextets_lt: "\<forall>b\<in>set bs. b < 256 \<Longrightarrow> \<forall>n\<in>set (sextets bs). n < 64"
  by (induction bs rule: sextets.induct) (auto simp: less_mult_imp_div_less)

lemma div_small: "(b :: nat) < 256 \<Longrightarrow> b div 16 < 16 \<and> b div 64 < 4"
  by (simp add: less_mult_imp_div_less)

lemma octets_sextets: "\<forall>b\<in>set bs. b < 256 \<Longrightarrow> octets (sextets bs) = bs"
proof (induction bs rule: sextets.induct)
  case (1 a b c r)
  then have "b div 16 < 16" "c div 64 < 4" using div_small by auto
  then have "a div 4 * 4 + (a mod 4 * 16 + b div 16) div 16 = a"
    "(a mod 4 * 16 + b div 16) mod 16 * 16 + (b mod 16 * 4 + c div 64) div 4 = b"
    "(b mod 16 * 4 + c div 64) mod 4 * 64 + c mod 64 = c"
    using div_mult_mod_eq [of a 4] div_mult_mod_eq [of b 16] div_mult_mod_eq [of c 64] by simp_all
  with 1 show ?case by simp
next
  case (2 a b)
  then have "b div 16 < 16" using div_small by auto
  then have "a div 4 * 4 + (a mod 4 * 16 + b div 16) div 16 = a"
    "(a mod 4 * 16 + b div 16) mod 16 * 16 + (b mod 16 * 4) div 4 = b"
    using div_mult_mod_eq [of a 4] div_mult_mod_eq [of b 16] by simp_all
  then show ?case by simp
next
  case (3 a)
  have "a div 4 * 4 + (a mod 4 * 16) div 16 = a" using div_mult_mod_eq [of a 4] by simp
  then show ?case by simp
qed simp

lemma length_sextets: "length (sextets bs) = (4 * length bs + 2) div 3"
  by (induction bs rule: sextets.induct) auto

lemma length_base64: "length (base64 bs) = 4 * ((length bs + 2) div 3)"
proof -
  define q r where "q = length bs div 3" and "r = length bs mod 3"
  then have n: "length bs = 3 * q + r" "r = 0 \<or> r = 1 \<or> r = 2" by auto
  have "length (base64 bs) = (4 * length bs + 2) div 3 + (if r = 1 then 2 else if r = 2 then 1 else 0)"
    by (simp add: base64_def padding_def length_sextets r_def)
  with n show ?thesis by (elim disjE) (simp_all, presburger+)
qed

lemma takeWhile_all_append: "\<forall>x\<in>set xs. P x \<Longrightarrow> ys = [] \<or> \<not> P (hd ys) \<Longrightarrow> takeWhile P (xs @ ys) = xs"
  by (cases ys) (simp_all add: takeWhile_append)

lemma b64_body_base64: "b64_body (base64 bs) = map b64_char (sextets (map unat bs))"
proof -
  let ?xs = "sextets (map unat bs)"
  have "\<forall>n\<in>set ?xs. n < 64" by (rule sextets_lt) (auto simp: unat_byte_lt)
  then have "\<forall>c\<in>set (map b64_char ?xs). b64_val c \<noteq> None" using b64_val_char by fastforce
  moreover have "padding (length bs) = [] \<or> \<not> b64_val (hd (padding (length bs))) \<noteq> None"
    by (simp add: padding_def b64_val_def Let_def)
  ultimately show ?thesis unfolding b64_body_def base64_def by (rule takeWhile_all_append)
qed

lemma decode_encode: "decode_source (base64 bs) = Some bs"
proof -
  have lt: "\<forall>n\<in>set (sextets (map unat bs)). n < 64" by (rule sextets_lt) (auto simp: unat_byte_lt)
  then have "map (\<lambda>c. the (b64_val c)) (map b64_char (sextets (map unat bs))) = sextets (map unat bs)"
    by (simp add: map_idI b64_val_char)
  moreover have "octets (sextets (map unat bs)) = map unat bs"
    by (rule octets_sextets) (auto simp: unat_byte_lt)
  ultimately have "unbase64 (base64 bs) = bs"
    by (simp add: unbase64_def b64_body_base64 comp_def)
  moreover have "drop (length (b64_body (base64 bs))) (base64 bs) = padding (length bs)"
    unfolding b64_body_base64 by (simp add: base64_def)
  ultimately show ?thesis by (simp add: decode_source_def padding_def)
qed

section \<open>The slices\<close>

lemma concat_slices: "0 < n \<Longrightarrow> concat (slices n s) = s"
  by (induction n s rule: slices.induct) (subst slices.simps, simp)

lemma slices_Cons: "s \<noteq> [] \<Longrightarrow> 0 < n \<Longrightarrow> slices n s = take n s # slices n (drop n s)"
  by (subst slices.simps) simp

lemma slices_Nil [simp]: "slices n [] = []"
  by (subst slices.simps) simp

lemma slices_bounds: "0 < n \<Longrightarrow> \<forall>p\<in>set (slices n s). 0 < length p \<and> length p \<le> n"
proof (induction n s rule: slices.induct)
  case (1 n s)
  show ?case
  proof (cases "s = []")
    case False
    have e: "slices n s = take n s # slices n (drop n s)" by (rule slices_Cons [OF False 1(2)])
    have "\<forall>p\<in>set (slices n (drop n s)). 0 < length p \<and> length p \<le> n"
      by (rule 1(1) [OF _ 1(2)]) (use False 1(2) in simp)
    moreover have "0 < length (take n s)" "length (take n s) \<le> n" using False 1(2) by simp_all
    ultimately show ?thesis unfolding e by simp
  qed simp
qed

lemma ceil_step:
  assumes "0 < (n :: nat)" "0 < k"
  shows "(k + n - 1) div n = Suc ((k - n + n - 1) div n)"
proof -
  have "k + n - 1 = (k - 1) + n" using assms(2) by simp
  then have "(k + n - 1) div n = ((k - 1) + n) div n" by (simp only:)
  also have "\<dots> = Suc ((k - 1) div n)" using assms(1) by simp
  also have "(k - 1) div n = (k - n + n - 1) div n"
  proof (cases "k \<le> n")
    case True
    then have "k - n + n - 1 = n - 1" "k - 1 < n" "n - 1 < n" using assms by simp_all
    then show ?thesis by simp
  next
    case False
    then have "k - n + n - 1 = k - 1" by simp
    then show ?thesis by (simp only:)
  qed
  finally show ?thesis .
qed

lemma length_slices: "0 < n \<Longrightarrow> length (slices n s) = (length s + n - 1) div n"
proof (induction n s rule: slices.induct)
  case (1 n s)
  show ?case
  proof (cases "s = []")
    case False
    have e: "slices n s = take n s # slices n (drop n s)" by (rule slices_Cons [OF False 1(2)])
    have "length (slices n (drop n s)) = (length s - n + n - 1) div n"
      using 1(1) [OF _ 1(2)] False 1(2) by (simp del: slices_Nil)
    then show ?thesis unfolding e using ceil_step [OF 1(2), of "length s"] False by simp
  next
    case True
    then show ?thesis using 1(2) by simp
  qed
qed

lemma splitCode_facts:
  "concat (splitCode code) = encode_source code"
  "\<forall>p\<in>set (splitCode code). length p \<le> MAX_DEPLOYCHUNK_PART_BYTES"
  "length code \<le> MAX_CODE_SIZE \<Longrightarrow> 0 < length (splitCode code) \<and> length (splitCode code) \<le> 12"
proof -
  have n: "0 < MAX_DEPLOYCHUNK_PART_BYTES" by (simp add: MAX_DEPLOYCHUNK_PART_BYTES_def)
  let ?s = "slices MAX_DEPLOYCHUNK_PART_BYTES (encode_source code)"
  show "concat (splitCode code) = encode_source code"
    using concat_slices [OF n, of "encode_source code"] by (cases "?s = []") (simp_all add: splitCode_def Let_def)
  show "\<forall>p\<in>set (splitCode code). length p \<le> MAX_DEPLOYCHUNK_PART_BYTES"
    using slices_bounds [OF n, of "encode_source code"] by (auto simp: splitCode_def Let_def)
  show "0 < length (splitCode code) \<and> length (splitCode code) \<le> 12" if "length code \<le> MAX_CODE_SIZE"
  proof -
    have "length (encode_source code) \<le> 87384"
      using that by (simp add: encode_source_def length_base64 length_utf8 MAX_CODE_SIZE_def)
    then have "(length (encode_source code) + 7800 - 1) div 7800 \<le> (87384 + 7800 - 1) div 7800"
      by (intro div_le_mono) simp
    then have "length ?s \<le> 12" unfolding length_slices [OF n] by (simp add: MAX_DEPLOYCHUNK_PART_BYTES_def)
    then show ?thesis by (auto simp: splitCode_def Let_def)
  qed
qed

section \<open>What the plan delivers\<close>

text \<open>
  C15: A deployment plan delivers the source. The plan is refused exactly for sources above 65536 bytes;
  the chunk limit is never reached. A plan that is not inline has between 1 and 12 slices of at
  most 7800 bytes whose concatenation in order decodes to the source, and every plan names the hash
  of the source.
\<close>

theorem deploy_plan_delivers:
  "(case planDeploy H code dopts of
      Inl e \<Rightarrow> e = CODE_TOO_LARGE (length code) \<and> 65536 < length code
    | Inr p \<Rightarrow>
        length code \<le> 65536 \<and> dp_codeHash p = hex_encode (H (utf8 code))
        \<and> (case dp_parts p of
             None \<Rightarrow> dp_single p \<and> fitsSingleDeploy code dopts
           | Some parts \<Rightarrow>
               \<not> dp_single p \<and> dp_totalChunks p = length parts \<and> 0 < length parts \<and> length parts \<le> 12
               \<and> list_all (\<lambda>s. length s \<le> 7800) parts \<and> decode_source (concat parts) = Some (utf8 code)))"
proof (cases "MAX_CODE_SIZE < length code \<or> fitsSingleDeploy code dopts")
  case True
  then show ?thesis by (auto simp: planDeploy_def codeHashOf_def MAX_CODE_SIZE_def)
next
  case False
  then have le: "length code \<le> MAX_CODE_SIZE" by simp
  note sp = splitCode_facts(1,2) [of code] splitCode_facts(3) [OF le]
  have "decode_source (concat (splitCode code)) = Some (utf8 code)"
    unfolding sp(1) encode_source_def by (rule decode_encode)
  with False sp(2,3) show ?thesis
    by (auto simp: planDeploy_def codeHashOf_def MAX_CODE_SIZE_def MAX_DEPLOY_CHUNKS_def Let_def list_all_iff
      MAX_DEPLOYCHUNK_PART_BYTES_def)
qed

section \<open>The estimate against the string\<close>

lemma deploy_formats:
  "getRepeatedGroup ''DEPLOY'' 0 = Inr None" "getRepeatedGroup ''DEPLOY'' 1 = Inr None"
  "getFormatFields ''DEPLOY'' 0 = Inr [''VERSION'', ''CODE_ENCODING'', ''GAS_LIMIT'', ''...CONSTRUCTOR_PARAMS'']"
  "getFormatFields ''DEPLOY'' 1 = Inr [''VERSION'', ''CODE_ENCODING'', ''GAS_LIMIT'', ''CONSTRUCTOR_PARAMS'',
     ''COOLDOWN_BLOCKS'', ''SLASH_DESTINATION'']"
  by code_simp+

lemma nat_str_01: "nat_str 0 = ''0''" "nat_str 1 = ''1''" "nat_str (Suc 0) = ''1''"
  by code_simp+

lemma pop_empties_full: "last xs \<noteq> [] \<Longrightarrow> pop_empties k xs = xs"
  by (subst pop_empties.simps) simp

definition inline_v0 :: "string \<Rightarrow> jsval \<Rightarrow> string list \<Rightarrow> field_map" where
  "inline_v0 code gas ps = [(''CODE_ENCODING'', JStr (encode_source code)), (''GAS_LIMIT'', gas),
     (''CONSTRUCTOR_PARAMS'', JArr (map JStr ps))]"

definition inline_v1 :: "string \<Rightarrow> jsval \<Rightarrow> string \<Rightarrow> string \<Rightarrow> string \<Rightarrow> field_map" where
  "inline_v1 code gas ctor cooldown slash = [(''CODE_ENCODING'', JStr (encode_source code)), (''GAS_LIMIT'', gas),
     (''CONSTRUCTOR_PARAMS'', JStr ctor), (''COOLDOWN_BLOCKS'', JStr cooldown), (''SLASH_DESTINATION'', JStr slash)]"

lemma serialize_v0:
  assumes "js_truthy gas"
  shows "serialize ''DEPLOY'' 0 (inline_v0 code gas ps)
    = Inr (join ''|'' (pop_empties 2 ([''DEPLOY'', ''0'', encode_source code, js_string gas] @ ps)))"
proof -
  have "\<not> is_nullish gas" using assms by (cases gas) (auto simp: is_nullish_def)
  then show ?thesis
    by (simp add: serialize_def deploy_formats getLegs_def LEGS_FIELD_def nat_str_01 inline_v0_def get_prop_def flat_fields_def flat_parts_def
      field_parts_def isRestField_def starts_with_def REST_PREFIX_def baseFieldName_def js_text_def comp_def is_nullish_def)
qed

lemma serialize_v1:
  assumes "js_truthy gas"
  shows "serialize ''DEPLOY'' 1 (inline_v1 code gas ctor cooldown slash)
    = Inr (join ''|'' (pop_empties 2 [''DEPLOY'', ''1'', encode_source code, js_string gas, ctor, cooldown, slash]))"
proof -
  have "\<not> is_nullish gas" using assms by (cases gas) (auto simp: is_nullish_def)
  then show ?thesis
    by (simp add: serialize_def deploy_formats deploy_formats [unfolded One_nat_def] getLegs_def LEGS_FIELD_def nat_str_01 inline_v1_def get_prop_def
      flat_fields_def flat_parts_def field_parts_def isRestField_def starts_with_def REST_PREFIX_def baseFieldName_def
      js_text_def comp_def is_nullish_def)
qed

lemma pushSize_cap: "compiledPushSize n \<le> MAX_ACTION_DATA_LENGTH \<longleftrightarrow> n + OP_RETURN_PUSH_OVERHEAD \<le> MAX_ACTION_DATA_LENGTH"
  by (auto simp: compiledPushSize_def MAX_ACTION_DATA_LENGTH_def OP_RETURN_PUSH_OVERHEAD_def)

lemma join_params_nonempty: "ps \<noteq> [] \<Longrightarrow> last ps \<noteq> [] \<Longrightarrow> join ''|'' ps \<noteq> []"
  using length_join_le [of "last ps" ps "''|''"] by auto

lemma ctorString_texts: "ctorString (JArr (map JStr ps)) = join ''|'' ps"
  by (simp add: ctorString_def is_nullish_def comp_def)

text \<open>
  C16: The inline estimate is exact. For a gas limit that is written, constructor parameters of which the
  last is not empty and, in a staking deploy, a cooldown or a slash destination: the planner
  decides for the inline deploy exactly when the compiled push of the action string the serializer writes
  is within the cap, on both versions.
\<close>

theorem inline_fit_exact:
  assumes "js_truthy gas" and "js_string gas \<noteq> []"
  shows "(ps = [] \<or> last ps \<noteq> [] \<longrightarrow>
      (\<exists>line. serialize ''DEPLOY'' 0 (inline_v0 code gas ps) = Inr line
        \<and> (fitsSingleDeploy code \<lparr>do_gasLimit = gas, do_constructorParams = JArr (map JStr ps),
              do_cooldownBlocks = JUndef, do_slashDestination = JUndef\<rparr>
           \<longleftrightarrow> compiledPushSize (length line) \<le> MAX_ACTION_DATA_LENGTH)))
    \<and> (cooldown \<noteq> [] \<or> slash \<noteq> [] \<longrightarrow>
      (\<exists>line. serialize ''DEPLOY'' 1 (inline_v1 code gas ctor cooldown slash) = Inr line
        \<and> (fitsSingleDeploy code \<lparr>do_gasLimit = gas, do_constructorParams = JStr ctor,
              do_cooldownBlocks = JStr cooldown, do_slashDestination = JStr slash\<rparr>
           \<longleftrightarrow> compiledPushSize (length line) \<le> MAX_ACTION_DATA_LENGTH)))"
proof (intro conjI impI)
  assume ps: "ps = [] \<or> last ps \<noteq> []"
  let ?parts = "[''DEPLOY'', ''0'', encode_source code, js_string gas] @ ps"
  have "last ?parts \<noteq> []" using ps assms(2) by (cases "ps = []") simp_all
  then have s: "serialize ''DEPLOY'' 0 (inline_v0 code gas ps) = Inr (join ''|'' ?parts)"
    using serialize_v0 [OF assms(1)] pop_empties_full by simp
  have "length (join ''|'' ?parts) = length (encode_source code) + length (deployOverhead
      \<lparr>do_gasLimit = gas, do_constructorParams = JArr (map JStr ps), do_cooldownBlocks = JUndef, do_slashDestination = JUndef\<rparr>)"
  proof (cases "ps = []")
    case True
    then show ?thesis
      using assms(1) by (simp add: deployOverhead_def Let_def tailField_def is_nullish_def ctorString_def)
  next
    case False
    with ps have ne: "join ''|'' ps \<noteq> []" using join_params_nonempty by blast
    have "join ''|'' ?parts = join ''|'' [''DEPLOY'', ''0'', encode_source code, js_string gas] @ ''|'' @ join ''|'' ps"
      by (rule join_append) (simp_all add: False)
    with ne show ?thesis
      using assms(1) by (simp add: deployOverhead_def Let_def tailField_def is_nullish_def ctorString_texts)
  qed
  with s show "\<exists>line. serialize ''DEPLOY'' 0 (inline_v0 code gas ps) = Inr line
        \<and> (fitsSingleDeploy code \<lparr>do_gasLimit = gas, do_constructorParams = JArr (map JStr ps),
              do_cooldownBlocks = JUndef, do_slashDestination = JUndef\<rparr>
           \<longleftrightarrow> compiledPushSize (length line) \<le> MAX_ACTION_DATA_LENGTH)"
    by (intro exI [of _ "join ''|'' ?parts"]) (simp only: fitsSingleDeploy_def pushSize_cap simp_thms add.assoc)
next
  assume tail: "cooldown \<noteq> [] \<or> slash \<noteq> []"
  let ?parts = "[''DEPLOY'', ''1'', encode_source code, js_string gas, ctor, cooldown] @ (if slash = [] then [] else [slash])"
  have "pop_empties 2 [''DEPLOY'', ''1'', encode_source code, js_string gas, ctor, cooldown, slash] = ?parts"
    using tail by (cases "slash = []") (simp_all add: pop_empties_full pop_empties.simps [of 2 "_ # _"])
  then have s: "serialize ''DEPLOY'' 1 (inline_v1 code gas ctor cooldown slash) = Inr (join ''|'' ?parts)"
    using serialize_v1 [OF assms(1)] by simp
  have "length (join ''|'' ?parts) = length (encode_source code) + length (deployOverhead
      \<lparr>do_gasLimit = gas, do_constructorParams = JStr ctor, do_cooldownBlocks = JStr cooldown, do_slashDestination = JStr slash\<rparr>)"
    using assms(1) tail by (auto simp: deployOverhead_def Let_def tailField_def is_nullish_def ctorString_def)
  with s show "\<exists>line. serialize ''DEPLOY'' 1 (inline_v1 code gas ctor cooldown slash) = Inr line
        \<and> (fitsSingleDeploy code \<lparr>do_gasLimit = gas, do_constructorParams = JStr ctor,
              do_cooldownBlocks = JStr cooldown, do_slashDestination = JStr slash\<rparr>
           \<longleftrightarrow> compiledPushSize (length line) \<le> MAX_ACTION_DATA_LENGTH)"
    by (intro exI [of _ "join ''|'' ?parts"]) (simp only: fitsSingleDeploy_def pushSize_cap simp_thms add.assoc)
qed

theorem inline_fit_exact_witness:
  "(\<exists>line. serialize ''DEPLOY'' 0 (inline_v0 ''ab'' (JInt 5) [''x'']) = Inr line
      \<and> compiledPushSize (length line) \<le> MAX_ACTION_DATA_LENGTH)
    \<and> \<not> (\<exists>line. serialize ''DEPLOY'' 1 (inline_v1 (replicate 6150 CHR ''a'') (JInt 5) [] ''10'' []) = Inr line
      \<and> compiledPushSize (length line) \<le> MAX_ACTION_DATA_LENGTH)"
proof -
  have g: "js_truthy (JInt 5)" "js_string (JInt 5) \<noteq> []" by code_simp+
  have n: "length (js_string (JInt 5)) = 1" by code_simp
  note f = inline_fit_exact [OF g, of "[''x'']" _ "''10''" "[]" "[]"]
  have "fitsSingleDeploy ''ab'' \<lparr>do_gasLimit = JInt 5, do_constructorParams = JArr (map JStr [''x'']),
      do_cooldownBlocks = JUndef, do_slashDestination = JUndef\<rparr>" by code_simp
  moreover have "\<not> fitsSingleDeploy (replicate 6150 CHR ''a'') \<lparr>do_gasLimit = JInt 5, do_constructorParams = JStr [],
      do_cooldownBlocks = JStr ''10'', do_slashDestination = JStr []\<rparr>"
    by (simp add: fitsSingleDeploy_def encode_source_def length_base64 length_utf8 deployOverhead_def Let_def tailField_def
      is_nullish_def n ctorString_def OP_RETURN_PUSH_OVERHEAD_def MAX_ACTION_DATA_LENGTH_def)
  ultimately show ?thesis
    using f [of "''ab''"] f [of "replicate 6150 CHR ''a''"] by auto
qed

end
