(* ===== verification/Derivability.thy ===== *)
theory Derivability
  imports ActionDecode
begin

text \<open>
  Which formats an amount cap can bind: \<open>cosigner/policy/value_derivability.js\<close>. \<open>TABLE\<close> classifies
  every (action, version) the co-signer's decoder can parse, \<open>classify\<close> reads it for one decoded
  action and falls back to UNBOUNDED for a format nobody classified, \<open>decodableFormats\<close> recomputes the
  decodable surface from the format table with the decoder's own gates.

  The conformance lemma checks table and surface against each other in both directions on the whole
  format table, and \<open>judged_surface\<close> lifts it to every string the co-signer accepts; \<open>Policy\<close>, which reads the
  classes, states the property of the table.
\<close>

section \<open>The table\<close>

datatype value_class = NONE | DERIVABLE | NATIVE | UNBOUNDED

record value_entry =
  ve_class :: value_class
  ve_byRef :: bool
  ve_unless :: "string list"

definition entry :: "value_class \<Rightarrow> bool \<Rightarrow> string list \<Rightarrow> value_entry" where
  "entry c r u = \<lparr>ve_class = c, ve_byRef = r, ve_unless = u\<rparr>"

definition TABLE_1 :: "(string \<times> (nat \<times> value_entry) list) list" where
  "TABLE_1 = [
    (''ADDRESS'', [(0, entry NONE False []),
      (1, entry NONE False [])]),
    (''AIRDROP'', [(0, entry UNBOUNDED True [])]),
    (''BATCH'', [(0, entry UNBOUNDED False [])]),
    (''BET'', [(0, entry NONE False []),
      (1, entry UNBOUNDED True []),
      (2, entry UNBOUNDED True []),
      (3, entry UNBOUNDED True []),
      (4, entry NONE False [])]),
    (''BROADCAST'', [(0, entry NONE False []),
      (1, entry NONE False []),
      (2, entry NONE False []),
      (3, entry NONE False [])]),
    (''CALLBACK'', [(0, entry UNBOUNDED False [])]),
    (''COINPAY'', [(0, entry NATIVE True [])]),
    (''COLLECT'', [(0, entry NONE False [])]),
    (''DELEGATE'', [(0, entry NONE False []),
      (1, entry NONE False []),
      (2, entry NONE False []),
      (3, entry NONE False [])]),
    (''DEPLOY'', [(1, entry NONE False []),
      (3, entry NONE False []),
      (4, entry NONE False [])]),
    (''DEPOSIT'', [(0, entry DERIVABLE False [])]),
    (''DESTROY'', [(0, entry DERIVABLE False [])]),
    (''DISPENSER'', [(0, entry DERIVABLE False [''GIVE_OWNERSHIP'']),
      (1, entry UNBOUNDED True []),
      (2, entry UNBOUNDED True [])]),
    (''DIVIDEND'', [(0, entry UNBOUNDED False [])]),
    (''EXECUTE'', [(0, entry UNBOUNDED True [])]),
    (''FILE'', [(0, entry NONE False [])])]"

definition TABLE_2 :: "(string \<times> (nat \<times> value_entry) list) list" where
  "TABLE_2 = [
    (''ISSUE'', [(0, entry NONE False [''TRANSFER'', ''TRANSFER_SUPPLY'']),
      (1, entry NONE False []),
      (2, entry NONE False [''TRANSFER_SUPPLY'']),
      (3, entry NONE False []),
      (4, entry NONE False []),
      (5, entry NONE False []),
      (6, entry NONE False []),
      (7, entry NONE False [])]),
    (''LINK'', [(0, entry NONE False [])]),
    (''LIST'', [(2, entry NONE False []),
      (3, entry NONE False []),
      (4, entry NONE False []),
      (5, entry NONE False [])]),
    (''MESSAGE'', [(0, entry NONE False []),
      (1, entry NONE False []),
      (2, entry NONE False []),
      (3, entry NONE False [])]),
    (''MINT'', [(0, entry DERIVABLE False [])]),
    (''ORDER'', [(0, entry DERIVABLE False [''GIVE_OWNERSHIP'']),
      (1, entry UNBOUNDED True []),
      (2, entry UNBOUNDED True [])]),
    (''PRICE'', [(1, entry NONE False [])]),
    (''SEND'', [(0, entry DERIVABLE False [])]),
    (''SLEEP'', [(0, entry NONE False []),
      (1, entry NONE False [])]),
    (''STAKE'', [(1, entry DERIVABLE False []),
      (2, entry DERIVABLE False []),
      (3, entry DERIVABLE False [])]),
    (''SWAP'', [(0, entry DERIVABLE False [''GIVE_OWNERSHIP'']),
      (1, entry UNBOUNDED True []),
      (2, entry UNBOUNDED True [])]),
    (''SWEEP'', [(0, entry UNBOUNDED False [])]),
    (''UNSTAKE'', [(0, entry NONE False []),
      (1, entry NONE False [])]),
    (''VOTE'', [(0, entry DERIVABLE False []),
      (1, entry NONE False []),
      (3, entry NONE False [])]),
    (''WITHDRAW'', [(0, entry NONE False [])]),
    (''XBRIDGE'', [(0, entry DERIVABLE False []),
      (1, entry DERIVABLE False []),
      (3, entry DERIVABLE False []),
      (4, entry DERIVABLE False [])])]"


definition TABLE :: "(string \<times> (nat \<times> value_entry) list) list" where
  "TABLE = TABLE_1 @ TABLE_2"

section \<open>Classification\<close>

record classification =
  cl_class :: value_class
  cl_byRef :: bool
  cl_blockedBy :: "string option"

definition table_entry :: "string \<Rightarrow> nat \<Rightarrow> value_entry option" where
  "table_entry action version =
     (case ownLookup TABLE action of None \<Rightarrow> None | Some vs \<Rightarrow> map_of vs version)"

definition param_populated :: "params \<Rightarrow> string \<Rightarrow> bool" where
  "param_populated ps f = (case ownLookup ps f of None \<Rightarrow> False | Some v \<Rightarrow> is_populated v)"

definition classify :: "string \<Rightarrow> nat \<Rightarrow> params \<Rightarrow> classification" where
  "classify action version ps =
     (case table_entry action version of
        None \<Rightarrow> \<lparr>cl_class = UNBOUNDED, cl_byRef = False, cl_blockedBy = None\<rparr>
      | Some e \<Rightarrow>
          (case List.find (param_populated ps) (ve_unless e) of
             Some f \<Rightarrow> \<lparr>cl_class = UNBOUNDED, cl_byRef = ve_byRef e, cl_blockedBy = Some f\<rparr>
           | None \<Rightarrow> \<lparr>cl_class = ve_class e, cl_byRef = ve_byRef e, cl_blockedBy = None\<rparr>))"

definition isCapInert :: "string \<Rightarrow> bool" where
  "isCapInert action =
     (case ownLookup TABLE action of
        None \<Rightarrow> False
      | Some vs \<Rightarrow> vs \<noteq> [] \<and> list_all (\<lambda>(v, e). ve_byRef e) vs)"

section \<open>The decodable surface\<close>

text \<open>The gates of the decoder, on the field list of one format.\<close>

definition decodable :: "string \<Rightarrow> nat \<Rightarrow> string list \<Rightarrow> bool" where
  "decodable action version names \<longleftrightarrow>
     names \<noteq> [] \<and> hd names = ''VERSION''
     \<and> shape_loop (boundedRestFormat action version) [] names = None
     \<and> getRepeatedGroup action version = Inr None"

definition decodableFormats :: "(string \<times> nat \<times> string list) list" where
  "decodableFormats =
     concat (map (\<lambda>(action, vs).
       concat (map (\<lambda>(version, line).
         (case getFormatFields action version of
            Inl e \<Rightarrow> []
          | Inr names \<Rightarrow> if decodable action version names then [(action, version, tl names)] else [])) vs)) formats)"

text \<open>
  Table and surface agree, checked in one walk over the format table. A format passes the gates
  exactly when its shape is admitted and no user field is repeated (a repeated group repeats one).
\<close>

lemma group_search_distinct:
  assumes "distinct (filter (\<lambda>f. f \<notin> set AUTO_FIELDS) names)"
  shows "group_of_fields names = Inr None"
proof (cases "group_search names (length names div 2)")
  case None
  moreover have "first_repeat [] names = None" using assms by (simp add: first_repeat_None)
  ultimately show ?thesis by (simp add: group_of_fields_def)
next
  case (Some g)
  then have "group_of_fields names = Inr (Some g)" by (simp add: group_of_fields_def)
  note l = group_of_fields_layout [OF this]
  have "filter (\<lambda>f. f \<notin> set AUTO_FIELDS) (grp_group g) = grp_group g" using l(3) by (simp add: filter_id_conv)
  moreover have "distinct (filter (\<lambda>f. f \<notin> set AUTO_FIELDS)
      (grp_prefix g @ grp_group g @ grp_group g @ grp_suffix g))" using assms l(1) by argo
  ultimately have "set (grp_group g) \<inter> set (grp_group g) = {}" by simp
  with l(2) show ?thesis by simp
qed

lemma group_of_fields_None_iff: "group_of_fields names = Inr None \<longleftrightarrow> first_repeat [] names = None"
  using group_search_distinct group_of_fields_None by (auto simp: first_repeat_None)

definition gates_pass :: "string \<Rightarrow> nat \<Rightarrow> string list \<Rightarrow> bool" where
  "gates_pass action version names \<longleftrightarrow>
     shape_loop (boundedRestFormat action version) [] names = None \<and> first_repeat [] names = None"

lemma decodable_iff:
  assumes "getFormatFields action version = Inr names"
  shows "decodable action version names \<longleftrightarrow> gates_pass action version names"
  using assms getFormatFields_wf [OF assms]
  by (auto simp: decodable_def gates_pass_def getRepeatedGroup_def group_of_fields_None_iff wf_names_def
      split: list.splits)

lemma gates_conform:
  "list_all (\<lambda>(a, vs). let es = map_of TABLE a in
     list_all (\<lambda>(v, line). gates_pass a v (split_on (CHR ''|'') line)
       = (case es of None \<Rightarrow> False | Some t \<Rightarrow> map_of t v \<noteq> None)) vs) formats"
  by code_simp

text \<open>No classified action is missing from the format table, with any of its versions.\<close>

lemma formats_versions:
  "map (\<lambda>(a, vs). (a, map fst vs)) formats =
   [(''ADDRESS'', [0, 1]), (''AIRDROP'', [0, 1, 2, 3]), (''BATCH'', [0]), (''BET'', [0, 1, 2, 3, 4]),
    (''BROADCAST'', [0, 1, 2, 3]), (''COLLECT'', [0]), (''COINPAY'', [0]), (''CALLBACK'', [0]),
    (''DELEGATE'', [0, 1, 2, 3]), (''DEPLOY'', [0, 1, 2, 3, 4]), (''DEPOSIT'', [0]), (''DESTROY'', [0, 1, 2]),
    (''DISPENSER'', [0, 1, 2]), (''DIVIDEND'', [0]), (''EXECUTE'', [0]), (''FILE'', [0]),
    (''ISSUE'', [0, 1, 2, 3, 4, 5, 6, 7]), (''LINK'', [0]), (''LIST'', [0, 1, 2, 3, 4, 5]), (''MESSAGE'', [0, 1, 2, 3]),
    (''MINT'', [0]), (''ORDER'', [0, 1, 2]), (''PRICE'', [1]), (''SEND'', [0, 1, 2, 3]), (''SLEEP'', [0, 1]),
    (''STAKE'', [1, 2, 3]), (''SWAP'', [0, 1, 2]), (''SWEEP'', [0]), (''UNSTAKE'', [0, 1]), (''WITHDRAW'', [0]),
    (''XBRIDGE'', [0, 1, 3, 4]), (''VOTE'', [0, 1, 3])]"
  by (simp add: formats_def formats_1_def formats_2_def formats_3_def)

definition has_version :: "string \<Rightarrow> nat \<Rightarrow> bool" where
  "has_version a v \<longleftrightarrow>
     (case map_of (map (\<lambda>(a, vs). (a, map fst vs)) formats) a of None \<Rightarrow> False | Some ns \<Rightarrow> v \<in> set ns)"

lemma map_of_map_snd: "map_of (map (\<lambda>(a, x). (a, f x)) xs) k = map_option f (map_of xs k)"
  by (induction xs) auto

lemma has_version_iff: "has_version a v \<longleftrightarrow> (\<exists>names. getFormatFields a v = Inr names)"
proof (cases "map_of formats a")
  case None
  then show ?thesis by (simp add: has_version_def map_of_map_snd getFormatFields_def format_line_def)
next
  case (Some vs)
  have "v \<in> fst ` set vs \<longleftrightarrow> map_of vs v \<noteq> None" by (metis map_of_eq_None_iff)
  with Some show ?thesis
    by (auto simp: has_version_def map_of_map_snd getFormatFields_def format_line_def split: option.splits)
qed

lemma TABLE_in_formats: "list_all (\<lambda>(a, es). list_all (\<lambda>(v, e). has_version a v) es) TABLE"
  unfolding has_version_def formats_versions by code_simp

lemma table_entry_iff:
  "table_entry a v \<noteq> None \<longleftrightarrow> (\<exists>names. getFormatFields a v = Inr names \<and> decodable a v names)"
proof
  assume t: "table_entry a v \<noteq> None"
  then obtain es e where "map_of TABLE a = Some es" "map_of es v = Some e"
    by (auto simp: table_entry_def ownLookup_def split: option.splits)
  then have "(a, es) \<in> set TABLE" "(v, e) \<in> set es" by (auto dest: map_of_SomeD)
  with TABLE_in_formats have "has_version a v" by (fastforce simp: list_all_iff)
  then obtain names where n: "getFormatFields a v = Inr names" by (auto simp: has_version_iff)
  then obtain line where l: "format_line a v = Some line" "names = split_on (CHR ''|'') line"
    by (auto simp: getFormatFields_def split: option.splits)
  from format_line_in [OF l(1)] gates_conform l(2) t have "gates_pass a v names"
    by (fastforce simp: list_all_iff table_entry_def ownLookup_def Let_def split: option.splits)
  with n show "\<exists>names. getFormatFields a v = Inr names \<and> decodable a v names"
    by (auto simp: decodable_iff)
next
  assume "\<exists>names. getFormatFields a v = Inr names \<and> decodable a v names"
  then obtain names where n: "getFormatFields a v = Inr names" "gates_pass a v names"
    by (auto simp: decodable_iff)
  then obtain line where l: "format_line a v = Some line" "names = split_on (CHR ''|'') line"
    by (auto simp: getFormatFields_def split: option.splits)
  from format_line_in [OF l(1)] gates_conform l(2) n(2) show "table_entry a v \<noteq> None"
    by (fastforce simp: list_all_iff table_entry_def ownLookup_def Let_def split: option.splits)
qed

lemma decodableFormats_iff:
  "(a, v, fs) \<in> set decodableFormats \<longleftrightarrow>
     (\<exists>names. getFormatFields a v = Inr names \<and> decodable a v names \<and> fs = tl names)"
proof
  assume "(a, v, fs) \<in> set decodableFormats"
  then show "\<exists>names. getFormatFields a v = Inr names \<and> decodable a v names \<and> fs = tl names"
    by (auto simp: decodableFormats_def split: sum.splits if_split_asm; metis)
next
  assume "\<exists>names. getFormatFields a v = Inr names \<and> decodable a v names \<and> fs = tl names"
  then obtain names where n: "getFormatFields a v = Inr names" "decodable a v names" "fs = tl names" by blast
  then obtain line where "format_line a v = Some line"
    by (auto simp: getFormatFields_def split: option.splits)
  from format_line_in [OF this] obtain vs where "(a, vs) \<in> set formats" "(v, line) \<in> set vs" by blast
  with n show "(a, v, fs) \<in> set decodableFormats"
    unfolding decodableFormats_def set_concat set_map by (force split: sum.splits)
qed

lemma judge_decodable:
  assumes "judgeActionString s = Inr d"
  shows "\<exists>names. getFormatFields (d_action d) (d_version d) = Inr names \<and> decodable (d_action d) (d_version d) names"
  using assms
proof (rule judge_Inr)
  fix raw verseg body names
  assume f: "getFormatFields (d_action d) (d_version d) = Inr names"
    and g: "getRepeatedGroup (d_action d) (d_version d) = Inr None"
    and sh: "shape_loop (boundedRestFormat (d_action d) (d_version d)) [] names = None"
  from getFormatFields_wf [OF f] have "names \<noteq> [] \<and> hd names = ''VERSION''"
    by (auto simp: wf_names_def split: list.splits)
  with f g sh show ?thesis by (auto simp: decodable_def)
qed

text \<open>Every decodable format but BATCH is reached: the bare action and version, all fields empty, is accepted.\<close>

lemma formats_short: "list_all (\<lambda>(a, vs). length a \<le> 16) formats"
  by code_simp

lemma update_values: "(n, w) \<in> set (AList.update k x ps) \<Longrightarrow> (n = k \<and> w = x) \<or> (n, w) \<in> set ps"
  by (induction ps) (auto split: if_split_asm)

lemma map_fixed_values:
  "(n, w) \<in> set (map_fixed [] names [] ps) \<Longrightarrow> (n, w) \<in> set ps \<or> w = JStr []"
proof (induction names arbitrary: ps)
  case (Cons f names)
  then have "(n, w) \<in> set (map_fixed [] names [] (if f = ''VERSION'' then ps else AList.update f (JStr []) ps))"
    by (simp split: if_split_asm)
  from Cons.IH [OF this] update_values [of n w f "JStr []" ps] show ?case by (auto split: if_split_asm)
qed simp

lemma decoded_skeleton:
  assumes "flat_format names" "(n, w) \<in> set (decoded_params names [x])"
  shows "w = JStr [] \<or> (isRestField (last names) \<and> n = baseFieldName (last names) \<and> w = JArr [])"
  using assms(1)
proof (cases rule: flat_format_cases)
  case (1 ns)
  then have "\<not> isRestField (last names)" using not_rest_VERSION by auto
  with 1(1) assms(2) have "(n, w) \<in> set (map_fixed [] ns [] [])"
    by (simp add: decoded_params_def map_fixed_Cons)
  then show ?thesis using map_fixed_values by fastforce
next
  case (2 fx r)
  with assms(2) have "(n, w) \<in> set (AList.update (baseFieldName r) (JArr []) (map_fixed [] fx [] []))"
    by (simp add: decoded_params_def map_fixed_Cons)
  then show ?thesis using update_values map_fixed_values 2(1,5) by fastforce
qed

lemma bounded_rest_no_tick:
  "boundedRestFormat action version = Some (f, m) \<Longrightarrow> \<not> isTickField (baseFieldName f)"
proof -
  assume "boundedRestFormat action version = Some (f, m)"
  then have "f \<in> {''...PARAMS'', ''...ITEM''}"
    by (auto simp: boundedRestFormat_def BOUNDED_REST_FORMATS_def split: if_split_asm)
  moreover have "\<forall>f\<in>{''...PARAMS'', ''...ITEM''}. \<not> isTickField (baseFieldName f)" by code_simp
  ultimately show ?thesis by blast
qed

lemma skeleton_accepted:
  assumes "getFormatFields a v = Inr names" "decodable a v names" "a \<noteq> ''BATCH''"
  shows "\<exists>s d. judgeActionString s = Inr d \<and> d_action d = a \<and> d_version d = v"
proof -
  let ?s = "join ''|'' [a, nat_str v]" and ?ps = "decoded_params names [nat_str v]"
  note t = getFormatFields_table [OF assms(1)]
  from assms(2) have d: "names \<noteq> []" "hd names = ''VERSION''" "shape_loop (boundedRestFormat a v) [] names = None"
      "getRepeatedGroup a v = Inr None" by (simp_all add: decodable_def)
  note fl = flat_formatI [OF assms(1) d(4)]
  have split: "split_on (CHR ''|'') ?s = [a, nat_str v]"
    using t(4) nat_str_no_pipe by (intro split_on_join [rotated]) auto
  have ver: "parseVersion (segment_at [a, nat_str v] 1) = Some v"
    using parseVersion_nat_str [OF t(2)] by (simp add: segment_at_def)
  have "isRestField (last names) \<or> length [nat_str v] \<le> length names" using d(1) by (cases names) simp_all
  from parseTopLevel_flat [OF assms(1) d(4) assms(3) split canonical_action [OF t(5)] ver this]
  obtain pa where pa: "parseTopLevel ?s = Inr pa" "pa_params pa = ?ps" by simp
  have "length a \<le> 16"
    using t(5) formats_short by (auto simp: list_all_iff dest!: map_of_SomeD)
  moreover have "length (nat_str v) \<le> 2" using t(2) by (cases "v < 10") (simp_all add: nat_str.simps)
  ultimately have "length ?s \<le> MAX_ACTION_DATA_LENGTH" by (simp add: MAX_ACTION_DATA_LENGTH_def)
  moreover have "?s \<noteq> []" by simp
  ultimately have parse: "parse_strict ?s = Inr pa" using pa(1) by (simp only: parse_strict_def if_False not_less [symmetric])
  have last: "last names \<in> set names" using d(1) by simp
  have "validateDecodedParams ?ps = None"
    unfolding validateDecodedParams_None
  proof clarify
    fix n w assume nw: "(n, w) \<in> set ?ps" "isTickField n" "is_populated w"
    then have "isRestField (last names)" "n = baseFieldName (last names)"
      using decoded_skeleton [OF fl nw(1)] by (auto simp: is_populated_def)
    with shape_loop_rest [OF d(3) last] bounded_rest_no_tick nw(2) show "isCanonicalTick w" by blast
  qed
  moreover have "rest_too_long (boundedRestFormat a v) ?ps = None"
  proof -
    have "length vs = 0" if "map_of ?ps k = Some (JArr vs)" for k vs
      using decoded_skeleton [OF fl map_of_SomeD [OF that]] by auto
    then have "n = 0" if "rest_arity ?ps f = Some n" for f n
      using that by (auto simp: rest_arity_def ownLookup_def split: option.split_asm jsval.split_asm)
    then show ?thesis by (fastforce simp: rest_too_long_def split: option.split prod.split)
  qed
  ultimately have "parseActionParams ?s a v (boundedRestFormat a v)
      = Inr \<lparr>d_action = a, d_version = v, d_params = ?ps, d_string = ?s\<rparr>"
    using parse pa(2) assms(3) by (simp add: parseActionParams_def)
  moreover have "resolveActionFormat [a, nat_str v] = Inr (a, v, names)"
    using ver assms(1) d(1,2) canonical_action [OF t(5)] by (simp add: resolveActionFormat_Inr)
  moreover have "validateActionShape a v names = Inr (boundedRestFormat a v)"
    using d(3,4) by (simp add: validateActionShape_Inr)
  ultimately have "judgeActionString ?s = Inr \<lparr>d_action = a, d_version = v, d_params = ?ps, d_string = ?s\<rparr>"
    unfolding judgeActionString_def Let_def split by simp
  then show ?thesis by (metis decoded_action.select_convs(1,2))
qed

text \<open>The formats the co-signer accepts a string of: the surface but BATCH, which it refuses by name.\<close>

lemma judged_surface:
  "(\<exists>s d. judgeActionString s = Inr d \<and> d_action d = a \<and> d_version d = v) \<longleftrightarrow>
     table_entry a v \<noteq> None \<and> a \<noteq> ''BATCH''"
proof
  assume "\<exists>s d. judgeActionString s = Inr d \<and> d_action d = a \<and> d_version d = v"
  then obtain s d where j: "judgeActionString s = Inr d" "d_action d = a" "d_version d = v" by blast
  then have "d_action d \<noteq> ''BATCH''" by (blast elim: judge_Inr)
  with j judge_decodable [OF j(1)] show "table_entry a v \<noteq> None \<and> a \<noteq> ''BATCH''" unfolding table_entry_iff by simp
next
  assume "table_entry a v \<noteq> None \<and> a \<noteq> ''BATCH''"
  then show "\<exists>s d. judgeActionString s = Inr d \<and> d_action d = a \<and> d_version d = v"
    unfolding table_entry_iff using skeleton_accepted by blast
qed

end
