(* ===== verification/Policy.thy ===== *)
theory Policy
  imports Derivability MerkleAmounts JsValues
begin

text \<open>
  The spending policy of an agent account: \<open>cosigner/policy_evaluator/value_resolution.js\<close>
  (which amount and tick an action binds, the cap tables, decimal arithmetic) and
  \<open>cosigner/policy_evaluator/evaluate_policy.js\<close> (the checks in their order).

  \<^item> A JavaScript value is a \<open>jsval\<close>; an absent amount or tick is \<open>None\<close>. The evaluator may throw
    (\<open>mathjs\<close> refuses a malformed number): a computation that throws is \<open>None\<close>.
  \<^item> \<open>mathjs\<close> is third-party code: its big-number comparison and addition are the parameter \<open>bignum\<close>.
    What the proofs rely on is the named hypothesis \<open>bn_exact\<close>: comparison is exact on plain
    decimals, and addition is exact in plain notation as long as the sum fits the configured 64
    significant digits (for amounts of at most 18 decimals, the protocol's precision).
  \<^item> A tick is folded to the identity consensus gives it (ASCII upper case).
\<close>

section \<open>Decimal texts and the big-number parameter\<close>

definition isNonNegativeDecimal :: "string \<Rightarrow> bool" where
  "isNonNegativeDecimal s \<longleftrightarrow>
     (case split_on (CHR ''.'') s of [i] \<Rightarrow> all_digits i | [i, f] \<Rightarrow> all_digits i \<and> all_digits f | _ \<Rightarrow> False)"

definition dec_val :: "string \<Rightarrow> rat" where
  "dec_val s = (case dec_mant s of Some (m, k) \<Rightarrow> of_nat m / 10 ^ k | None \<Rightarrow> 0)"

record bignum =
  bn_gt :: "string \<Rightarrow> string \<Rightarrow> bool option"
  bn_add :: "string \<Rightarrow> string \<Rightarrow> string option"

definition bn_exact :: "bignum \<Rightarrow> bool" where
  "bn_exact bn \<longleftrightarrow>
     (\<forall>a b. isNonNegativeDecimal a \<and> isNonNegativeDecimal b \<longrightarrow> bn_gt bn a b = Some (dec_val b < dec_val a)) \<and>
     (\<forall>a b. amount_text a \<and> amount_text b \<and> amount_units a + amount_units b < 10 ^ 64 \<longrightarrow>
        (\<exists>s. bn_add bn a b = Some s \<and> amount_text s \<and> amount_units s = amount_units a + amount_units b))"

definition gtDecimal :: "bignum \<Rightarrow> jsval \<Rightarrow> jsval \<Rightarrow> bool option" where
  "gtDecimal bn a b = bn_gt bn (js_string a) (js_string b)"

definition addDecimal :: "bignum \<Rightarrow> string \<Rightarrow> jsval \<Rightarrow> string option" where
  "addDecimal bn a b = bn_add bn a (js_string b)"

section \<open>Which value an action binds\<close>

definition AMOUNT_KEYS :: "string list" where "AMOUNT_KEYS = [''amount'', ''AMOUNT'']"
definition TICK_KEYS :: "string list" where "TICK_KEYS = [''tick'', ''TICK'']"
definition DESTINATION_KEYS :: "string list" where
  "DESTINATION_KEYS = [''destination'', ''DESTINATION'', ''destinations'', ''DESTINATIONS'']"
definition GAS_TICK :: string where "GAS_TICK = ''XCHAIN''"
definition UNRESOLVED_TICK_BUCKET :: string where "UNRESOLVED_TICK_BUCKET = ''|unresolved|''"
definition UNBOUNDED_VALUE_ACTIONS :: "string list" where
  "UNBOUNDED_VALUE_ACTIONS = [''SWEEP'', ''AIRDROP'', ''DIVIDEND'']"

datatype amount_rule = Single "string list" | Total "string list list"
datatype tick_rule = Fixed_tick string | Read_tick "string list" "string option"

definition ACTION_VALUE_FIELDS :: "(string \<times> amount_rule \<times> tick_rule) list" where
  "ACTION_VALUE_FIELDS =
    [(''DEPOSIT'', Single [''quantity'', ''QUANTITY''], Read_tick TICK_KEYS None),
     (''WITHDRAW'', Single [''quantity'', ''QUANTITY''], Read_tick TICK_KEYS None),
     (''ORDER'', Single [''giveAmount'', ''GIVE_AMOUNT''], Read_tick [''giveTick'', ''GIVE_TICK''] None),
     (''SWAP'', Single [''giveAmount'', ''GIVE_AMOUNT''], Read_tick [''giveTick'', ''GIVE_TICK''] None),
     (''DISPENSER'', Single [''giveEscrow'', ''GIVE_ESCROW''], Read_tick [''giveTick'', ''GIVE_TICK''] None),
     (''STAKE'', Single AMOUNT_KEYS, Read_tick TICK_KEYS (Some GAS_TICK)),
     (''VOTE'', Total [[''deposit'', ''DEPOSIT''], [''gasEscrow'', ''GAS_ESCROW'']], Fixed_tick GAS_TICK),
     (''XBRIDGE'', Single AMOUNT_KEYS, Read_tick TICK_KEYS (Some GAS_TICK))]"

fun pick :: "params \<Rightarrow> string list \<Rightarrow> jsval option" where
  "pick ps [] = None"
| "pick ps (k # ks) =
     (case ownLookup ps k of
        Some v \<Rightarrow> if is_populated v then Some v else pick ps ks
      | None \<Rightarrow> pick ps ks)"

text \<open>The loop over the escrowed legs of a VOTE: (any leg present, the sum, the first invalid leg).\<close>

fun sum_legs :: "bignum \<Rightarrow> params \<Rightarrow> string list list \<Rightarrow> bool \<Rightarrow> string \<Rightarrow> jsval option \<Rightarrow> (bool \<times> string \<times> jsval option) option" where
  "sum_legs bn ps [] seen acc bad = Some (seen, acc, bad)"
| "sum_legs bn ps (ks # kss) seen acc bad =
     (case pick ps ks of
        None \<Rightarrow> sum_legs bn ps kss seen acc bad
      | Some v \<Rightarrow>
          if bad \<noteq> None then sum_legs bn ps kss True acc bad
          else if isNonNegativeDecimal (js_string v) then
            (case addDecimal bn acc v of
               None \<Rightarrow> None
             | Some t \<Rightarrow> sum_legs bn ps kss True t None)
          else sum_legs bn ps kss True acc (Some v))"

definition resolve_amount :: "bignum \<Rightarrow> params \<Rightarrow> amount_rule \<Rightarrow> jsval option option" where
  "resolve_amount bn ps r =
     (case r of
        Single ks \<Rightarrow> Some (pick ps ks)
      | Total kss \<Rightarrow>
          (case sum_legs bn ps kss False ''0'' None of
             None \<Rightarrow> None
           | Some (seen, acc, bad) \<Rightarrow>
               Some (case bad of Some v \<Rightarrow> Some v | None \<Rightarrow> if seen then Some (JStr acc) else None)))"

definition resolve_tick :: "params \<Rightarrow> tick_rule \<Rightarrow> jsval option" where
  "resolve_tick ps r =
     (case r of
        Fixed_tick t \<Rightarrow> Some (JStr t)
      | Read_tick ks def \<Rightarrow> (case pick ps ks of Some v \<Rightarrow> Some v | None \<Rightarrow> map_option JStr def))"

definition resolveValue :: "bignum \<Rightarrow> string \<Rightarrow> params \<Rightarrow> (jsval option \<times> jsval option) option" where
  "resolveValue bn action ps =
     (case map_of ACTION_VALUE_FIELDS action of
        Some (ar, tr) \<Rightarrow>
          (case resolve_amount bn ps ar of None \<Rightarrow> None | Some amt \<Rightarrow> Some (amt, resolve_tick ps tr))
      | None \<Rightarrow> Some (pick ps AMOUNT_KEYS, pick ps TICK_KEYS))"

text \<open>
  Which of a format's fields the rule of its action reads: whether every amount the rule asks for has a field,
  whether some has, and whether the tick has a field or is fixed by the protocol.
\<close>

definition amount_keys :: "string \<Rightarrow> string list list" where
  "amount_keys action =
     (case map_of ACTION_VALUE_FIELDS action of
        Some (Single ks, _) \<Rightarrow> [ks] | Some (Total kss, _) \<Rightarrow> kss | None \<Rightarrow> [AMOUNT_KEYS])"

definition amount_readable :: "string \<Rightarrow> string list \<Rightarrow> bool" where
  "amount_readable action names \<longleftrightarrow> list_all (\<lambda>ks. list_ex (\<lambda>k. k \<in> set names) ks) (amount_keys action)"

definition amount_present :: "string \<Rightarrow> string list \<Rightarrow> bool" where
  "amount_present action names \<longleftrightarrow> list_ex (\<lambda>ks. list_ex (\<lambda>k. k \<in> set names) ks) (amount_keys action)"

definition tick_readable :: "string \<Rightarrow> string list \<Rightarrow> bool" where
  "tick_readable action names \<longleftrightarrow>
     (case map_of ACTION_VALUE_FIELDS action of
        Some (_, Fixed_tick t) \<Rightarrow> True
      | Some (_, Read_tick ks def) \<Rightarrow> def \<noteq> None \<or> list_ex (\<lambda>k. k \<in> set names) ks
      | None \<Rightarrow> list_ex (\<lambda>k. k \<in> set names) TICK_KEYS)"

text \<open>The actions whose stated amount is per recipient, and those that return value to the signer.\<close>

definition PER_UNIT :: "string list" where "PER_UNIT = [''AIRDROP'', ''DIVIDEND'']"
definition RETURNS_VALUE :: "string list" where "RETURNS_VALUE = [''COLLECT'', ''UNSTAKE'', ''WITHDRAW'']"
definition ESCAPE_FIELDS :: "string list" where
  "ESCAPE_FIELDS = [''GIVE_OWNERSHIP'', ''TRANSFER'', ''TRANSFER_SUPPLY'']"

definition entry_ok :: "string \<Rightarrow> string list \<Rightarrow> value_entry \<Rightarrow> bool" where
  "entry_ok action names e \<longleftrightarrow>
     (ve_class e = DERIVABLE \<longleftrightarrow>
        amount_readable action names \<and> tick_readable action names \<and> action \<notin> set (PER_UNIT @ RETURNS_VALUE)) \<and>
     (ve_class e = NONE \<or> ve_class e = NATIVE \<longrightarrow> amount_present action names \<longrightarrow> action \<in> set RETURNS_VALUE) \<and>
     (\<forall>f\<in>set ESCAPE_FIELDS. f \<in> set (ve_unless e) \<longleftrightarrow> f \<in> set names) \<and> set (ve_unless e) \<subseteq> set ESCAPE_FIELDS"

lemma entries_conform:
  "list_all (\<lambda>(a, vs). case map_of TABLE a of None \<Rightarrow> True | Some es \<Rightarrow>
     list_all (\<lambda>(v, line). case map_of es v of None \<Rightarrow> True | Some e \<Rightarrow> entry_ok a (tl (split_on (CHR ''|'') line)) e) vs) formats"
  by code_simp

lemma table_entry_ok:
  assumes "table_entry a v = Some e" "(a, v, fs) \<in> set decodableFormats"
  shows "entry_ok a fs e"
proof -
  from assms(2) obtain names where n: "getFormatFields a v = Inr names" "fs = tl names"
    by (auto simp: decodableFormats_iff)
  then obtain line where l: "format_line a v = Some line" "names = split_on (CHR ''|'') line"
    by (auto simp: getFormatFields_def split: option.splits)
  from format_line_in [OF l(1)] obtain vs where "(a, vs) \<in> set formats" "(v, line) \<in> set vs" by blast
  with entries_conform assms(1) n(2) l(2) show ?thesis
    by (fastforce simp: list_all_iff table_entry_def ownLookup_def split: option.splits)
qed

text \<open>
  C39: The derivability table and the surface it guards. The (action, version) pairs the co-signer accepts
  some string of are exactly those with an entry, BATCH apart, so on the daemon's path classify never takes
  its fall-back for an unclassified format; the entries are exactly those of decodableFormats, which also lists
  BATCH. The classes fit what the evaluator reads: a format is DERIVABLE exactly when the action's amount rule
  finds all its fields in the format and its tick is a field or fixed by the protocol, the per-recipient
  (AIRDROP, DIVIDEND) and value-returning (COLLECT, UNSTAKE, WITHDRAW) actions excepted; a NONE or
  NATIVE format with an amount field belongs to a value-returning action; and the fields that demote
  an entry are exactly its ownership and supply transfers.
\<close>

theorem derivability_table_exact:
  "((\<exists>s d. judgeActionString s = Inr d \<and> d_action d = a \<and> d_version d = v) \<longleftrightarrow> table_entry a v \<noteq> None \<and> a \<noteq> ''BATCH'')
   \<and> (table_entry a v \<noteq> None \<longleftrightarrow> (\<exists>fs. (a, v, fs) \<in> set decodableFormats))
   \<and> (\<forall>e fs. table_entry a v = Some e \<and> (a, v, fs) \<in> set decodableFormats \<longrightarrow>
        (ve_class e = DERIVABLE \<longleftrightarrow> amount_readable a fs \<and> tick_readable a fs \<and> a \<notin> set (PER_UNIT @ RETURNS_VALUE))
        \<and> (ve_class e \<in> {NONE, NATIVE} \<and> amount_present a fs \<longrightarrow> a \<in> set RETURNS_VALUE)
        \<and> set (ve_unless e) = set fs \<inter> set ESCAPE_FIELDS)"
proof (intro conjI allI impI)
  show "(\<exists>s d. judgeActionString s = Inr d \<and> d_action d = a \<and> d_version d = v) \<longleftrightarrow> table_entry a v \<noteq> None \<and> a \<noteq> ''BATCH''"
    by (rule judged_surface)
  show "table_entry a v \<noteq> None \<longleftrightarrow> (\<exists>fs. (a, v, fs) \<in> set decodableFormats)"
    unfolding table_entry_iff decodableFormats_iff by auto
next
  fix e fs assume "table_entry a v = Some e \<and> (a, v, fs) \<in> set decodableFormats"
  then have ok: "entry_ok a fs e" by (blast intro: table_entry_ok)
  then show "ve_class e = DERIVABLE \<longleftrightarrow> amount_readable a fs \<and> tick_readable a fs \<and> a \<notin> set (PER_UNIT @ RETURNS_VALUE)"
    unfolding entry_ok_def by blast
  show "set (ve_unless e) = set fs \<inter> set ESCAPE_FIELDS" using ok unfolding entry_ok_def by blast
  assume "ve_class e \<in> {NONE, NATIVE} \<and> amount_present a fs"
  with ok show "a \<in> set RETURNS_VALUE" unfolding entry_ok_def by blast
qed

theorem derivability_table_exact_witness:
  "(''SEND'', 0, [''TICK'', ''AMOUNT'', ''DESTINATION'', ''MEMO'']) \<in> set decodableFormats
   \<and> amount_readable ''SEND'' [''TICK'', ''AMOUNT'', ''DESTINATION'', ''MEMO'']"
proof -
  have e: "table_entry ''SEND'' 0 = Some (entry DERIVABLE False [])" by code_simp
  have "getFormatFields ''SEND'' 0 = Inr [''VERSION'', ''TICK'', ''AMOUNT'', ''DESTINATION'', ''MEMO'']" by code_simp
  with e table_entry_iff [of "''SEND''" 0]
  have d: "(''SEND'', 0, [''TICK'', ''AMOUNT'', ''DESTINATION'', ''MEMO'']) \<in> set decodableFormats"
    by (auto simp: decodableFormats_iff)
  with derivability_table_exact [of "''SEND''" 0, THEN conjunct2, THEN conjunct2, rule_format, OF conjI [OF e d]] d
  show ?thesis by (simp add: entry_def)
qed

section \<open>Cap tables\<close>

type_synonym cap_table = "(string \<times> jsval) list"

definition foldTick :: "string \<Rightarrow> string" where
  "foldTick t = ascii_upper t"

definition tick_text :: "jsval \<Rightarrow> string option" where
  "tick_text v = (case v of JStr s \<Rightarrow> Some s | JInt i \<Rightarrow> Some (js_string v) | JFloat s \<Rightarrow> Some s | _ \<Rightarrow> None)"

definition keys_for :: "string list \<Rightarrow> jsval option \<Rightarrow> string list" where
  "keys_for keys tick =
     (case Option.bind tick tick_text of
        None \<Rightarrow> []
      | Some t \<Rightarrow> filter (\<lambda>k. k \<noteq> ''*'' \<and> foldTick k = foldTick t) keys)"

definition tickKeysFor :: "cap_table option \<Rightarrow> jsval option \<Rightarrow> string list" where
  "tickKeysFor table tick = (case table of None \<Rightarrow> [] | Some t \<Rightarrow> keys_for (map fst t) tick)"

text \<open>An entry whose value is \<open>undefined\<close> counts as absent.\<close>

definition cap_entry :: "cap_table \<Rightarrow> string \<Rightarrow> jsval option" where
  "cap_entry t k = (case ownLookup t k of Some v \<Rightarrow> if v = JUndef then None else Some v | None \<Rightarrow> None)"

definition first_cap :: "cap_table \<Rightarrow> string list \<Rightarrow> jsval option" where
  "first_cap t ks = Option.bind (List.find (\<lambda>k. cap_entry t k \<noteq> None) ks) (cap_entry t)"

definition capFor :: "cap_table option \<Rightarrow> jsval option \<Rightarrow> jsval option" where
  "capFor table tick =
     (case table of
        None \<Rightarrow> None
      | Some t \<Rightarrow>
          (case Option.bind (Option.bind tick tick_text) (cap_entry t) of
             Some c \<Rightarrow> Some c
           | None \<Rightarrow>
               (case first_cap t (tickKeysFor table tick) of
                  Some c \<Rightarrow> Some c
                | None \<Rightarrow> cap_entry t ''*'')))"

definition hasNamedKey :: "cap_table option \<Rightarrow> bool" where
  "hasNamedKey table = (case table of None \<Rightarrow> False | Some t \<Rightarrow> list_ex (\<lambda>k. k \<noteq> ''*'') (map fst t))"

text \<open>A table that can ever bind: some own entry is a finite number or a non-blank text.\<close>

definition cap_binds :: "jsval \<Rightarrow> bool" where
  "cap_binds v =
     (case v of
        JInt i \<Rightarrow> True
      | JFloat s \<Rightarrow> s \<notin> {''NaN'', ''Infinity'', ''-Infinity''}
      | JStr s \<Rightarrow> js_trim s \<noteq> []
      | _ \<Rightarrow> False)"

definition hasEnforceableCap :: "cap_table \<Rightarrow> bool" where
  "hasEnforceableCap t = list_ex (\<lambda>(k, v). cap_binds v) t"

definition hasEnforceableCap2 :: "(string \<times> cap_table) list \<Rightarrow> bool" where
  "hasEnforceableCap2 t = list_ex (\<lambda>(k, sub). hasEnforceableCap sub) t"

definition resolveTickRef :: "cap_table option \<Rightarrow> string \<Rightarrow> string option" where
  "resolveTickRef tickIds tick =
     (case tickIds of
        None \<Rightarrow> None
      | Some t \<Rightarrow> map_option fst (List.find (\<lambda>(nm, v). js_string v = tl tick) t))"

definition formatCarriesDestination :: "string \<Rightarrow> nat \<Rightarrow> bool" where
  "formatCarriesDestination action version =
     (case getFormatFields action version of
        Inl e \<Rightarrow> False
      | Inr names \<Rightarrow> list_ex (\<lambda>f. f = ''DESTINATION'' \<or> f = ''DESTINATIONS'') names)"

text \<open>The spend recorded for a tick, over every spelling of it.\<close>

fun sum_keys :: "bignum \<Rightarrow> (string \<times> string) list \<Rightarrow> string list \<Rightarrow> string \<Rightarrow> string option" where
  "sum_keys bn per [] used = Some used"
| "sum_keys bn per (k # ks) used =
     (if k = UNRESOLVED_TICK_BUCKET then sum_keys bn per ks used
      else case ownLookup per k of
          None \<Rightarrow> sum_keys bn per ks used
        | Some a \<Rightarrow> (case bn_add bn used a of None \<Rightarrow> None | Some u \<Rightarrow> sum_keys bn per ks u))"

definition windowUsedFor :: "bignum \<Rightarrow> (string \<times> string) list \<Rightarrow> jsval \<Rightarrow> string option" where
  "windowUsedFor bn per tick = sum_keys bn per (keys_for (map fst per) (Some tick)) ''0''"

section \<open>The policy and the verdict\<close>

record window_policy =
  wp_perTick :: "cap_table option"
  wp_maxActions :: "int option"
  wp_hours :: rat

record policy =
  p_allowedActions :: "string list"
  p_allowedDestinations :: "jsval list option"
  p_maxPerAction :: "(string \<times> cap_table) list option"
  p_maxPerWindow :: "window_policy option"
  p_confirmAbove :: "cap_table option option"
  p_tickIds :: "cap_table option"

record usage =
  u_count :: nat
  u_perTick :: "(string \<times> string) list"

datatype violation =
    POLICY_UNRESOLVED_TICK
  | POLICY_TICK_CASE_COLLISION
  | POLICY_AMOUNT_INVALID
  | POLICY_ACTION_DENIED
  | POLICY_DESTINATION_UNENFORCEABLE
  | POLICY_UNRESOLVED_DESTINATION
  | POLICY_DESTINATION_DENIED
  | POLICY_UNBOUNDED_ACTION
  | POLICY_AMOUNT_EXCEEDED
  | POLICY_WINDOW_COUNT_EXCEEDED
  | POLICY_WINDOW_AMOUNT_EXCEEDED

record evaluation =
  ev_action :: string
  ev_version :: "nat option"
  ev_params :: params
  ev_amount :: "jsval option"
  ev_tick :: "jsval option"
  ev_destinations :: "jsval list"
  ev_confirm :: bool

text \<open>A check: \<open>None\<close> throws, \<open>Some None\<close> passes, \<open>Some (Some v)\<close> denies.\<close>

type_synonym check = "violation option option"

definition caret_tick :: "jsval option \<Rightarrow> string option" where
  "caret_tick t = (case t of Some (JStr (c # s)) \<Rightarrow> if c = CHR ''^'' then Some (c # s) else None | _ \<Rightarrow> None)"

definition action_caps :: "policy \<Rightarrow> string \<Rightarrow> cap_table option" where
  "action_caps pol action = Option.bind (p_maxPerAction pol) (\<lambda>t. ownLookup t action)"

definition window_caps :: "policy \<Rightarrow> cap_table option" where
  "window_caps pol = Option.bind (p_maxPerWindow pol) wp_perTick"

definition confirm_caps :: "policy \<Rightarrow> cap_table option" where
  "confirm_caps pol = Option.bind (p_confirmAbove pol) id"

definition identity_sensitive :: "policy \<Rightarrow> string \<Rightarrow> bool" where
  "identity_sensitive pol action \<longleftrightarrow>
     hasNamedKey (action_caps pol action) \<or> window_caps pol \<noteq> None \<or> hasNamedKey (confirm_caps pol)"

definition destination_list :: "params \<Rightarrow> jsval list" where
  "destination_list ps =
     (case pick ps DESTINATION_KEYS of
        None \<Rightarrow> []
      | Some (JArr vs) \<Rightarrow> vs
      | Some v \<Rightarrow> map JStr (split_on (CHR '';'') (js_string v)))"

text \<open>\<open>prepareEvaluation\<close>: the normalised action, or the denial of a tick it cannot identify.\<close>

definition prepareEvaluation ::
  "bignum \<Rightarrow> policy \<Rightarrow> string \<Rightarrow> nat option \<Rightarrow> params \<Rightarrow> (violation + evaluation) option" where
  "prepareEvaluation bn pol act version ps =
     (let action = ascii_upper act in
      case resolveValue bn action ps of
        None \<Rightarrow> None
      | Some (amt, tick0) \<Rightarrow>
          let resolved = (case caret_tick tick0 of
                            None \<Rightarrow> Some tick0
                          | Some t \<Rightarrow> (case resolveTickRef (p_tickIds pol) t of
                                         Some nm \<Rightarrow> Some (Some (JStr nm))
                                       | None \<Rightarrow> if identity_sensitive pol action then None else Some tick0))
          in (case resolved of
                None \<Rightarrow> Some (Inl POLICY_UNRESOLVED_TICK)
              | Some tick \<Rightarrow>
                  if list_ex (\<lambda>table. 1 < length (tickKeysFor table tick))
                       [action_caps pol action, window_caps pol, confirm_caps pol]
                  then Some (Inl POLICY_TICK_CASE_COLLISION)
                  else Some (Inr \<lparr>ev_action = action, ev_version = version, ev_params = ps,
                                   ev_amount = amt, ev_tick = tick,
                                   ev_destinations = destination_list ps, ev_confirm = False\<rparr>)))"

fun check_destinations :: "jsval list \<Rightarrow> jsval list \<Rightarrow> violation option" where
  "check_destinations allowed [] = None"
| "check_destinations allowed (d # ds) =
     (if d \<in> set allowed then check_destinations allowed ds
      else if take 1 (js_string d) = ''^'' then Some POLICY_UNRESOLVED_DESTINATION
      else Some POLICY_DESTINATION_DENIED)"

definition checkBasics :: "policy \<Rightarrow> evaluation \<Rightarrow> check" where
  "checkBasics pol e =
     Some (if (case ev_amount e of Some a \<Rightarrow> \<not> isNonNegativeDecimal (js_string a) | None \<Rightarrow> False)
           then Some POLICY_AMOUNT_INVALID
           else if ev_action e \<notin> set (p_allowedActions pol) then Some POLICY_ACTION_DENIED
           else case p_allowedDestinations pol of
               None \<Rightarrow> None
             | Some allowed \<Rightarrow>
                 if (case ev_version e of Some v \<Rightarrow> \<not> formatCarriesDestination (ev_action e) v | None \<Rightarrow> False)
                 then Some POLICY_DESTINATION_UNENFORCEABLE
                 else check_destinations allowed (ev_destinations e))"

definition has_amount_limit :: "policy \<Rightarrow> bool" where
  "has_amount_limit pol \<longleftrightarrow> p_maxPerAction pol \<noteq> None \<or> window_caps pol \<noteq> None \<or> p_confirmAbove pol \<noteq> None"

definition checkDerivability :: "policy \<Rightarrow> evaluation \<Rightarrow> check" where
  "checkDerivability pol e =
     Some (if ev_action e \<in> set UNBOUNDED_VALUE_ACTIONS \<and> has_amount_limit pol then Some POLICY_UNBOUNDED_ACTION
           else case ev_version e of
               None \<Rightarrow> None
             | Some v \<Rightarrow>
                 if has_amount_limit pol \<and> cl_class (classify (ev_action e) v (ev_params e)) = UNBOUNDED
                 then Some POLICY_UNBOUNDED_ACTION else None)"

text \<open>\<open>cap !== undefined && gtDecimal(amount, cap)\<close>.\<close>

definition exceeds :: "bignum \<Rightarrow> jsval \<Rightarrow> jsval option \<Rightarrow> bool option" where
  "exceeds bn amt cap = (case cap of None \<Rightarrow> Some False | Some c \<Rightarrow> gtDecimal bn amt c)"

definition checkActionCap :: "bignum \<Rightarrow> policy \<Rightarrow> evaluation \<Rightarrow> check" where
  "checkActionCap bn pol e =
     (case (p_maxPerAction pol, ev_amount e) of
        (Some t, Some amt) \<Rightarrow>
          (case exceeds bn amt (capFor (action_caps pol (ev_action e)) (ev_tick e)) of
             None \<Rightarrow> None
           | Some over \<Rightarrow> Some (if over then Some POLICY_AMOUNT_EXCEEDED else None))
      | _ \<Rightarrow> Some None)"

definition no_usage :: usage where
  "no_usage = \<lparr>u_count = 0, u_perTick = []\<rparr>"

definition window_used :: "bignum \<Rightarrow> usage \<Rightarrow> jsval option \<Rightarrow> string option" where
  "window_used bn u tick =
     (case tick of
        Some t \<Rightarrow> windowUsedFor bn (u_perTick u) t
      | None \<Rightarrow> Some (case ownLookup (u_perTick u) UNRESOLVED_TICK_BUCKET of
                        Some s \<Rightarrow> if s = [] then ''0'' else s | None \<Rightarrow> ''0''))"

definition checkWindow :: "bignum \<Rightarrow> policy \<Rightarrow> evaluation \<Rightarrow> usage option \<Rightarrow> check" where
  "checkWindow bn pol e snapshot =
     (case p_maxPerWindow pol of
        None \<Rightarrow> Some None
      | Some win \<Rightarrow>
          let u = (case snapshot of Some s \<Rightarrow> s | None \<Rightarrow> no_usage) in
          if (case wp_maxActions win of Some m \<Rightarrow> m < int (u_count u) + 1 | None \<Rightarrow> False)
          then Some (Some POLICY_WINDOW_COUNT_EXCEEDED)
          else (case (wp_perTick win, ev_amount e) of
                  (Some caps, Some amt) \<Rightarrow>
                    (case capFor (Some caps) (ev_tick e) of
                       None \<Rightarrow> Some None
                     | Some cap \<Rightarrow>
                         Option.bind (window_used bn u (ev_tick e)) (\<lambda>used.
                         Option.bind (addDecimal bn used amt) (\<lambda>projected.
                         Option.bind (gtDecimal bn (JStr projected) cap) (\<lambda>over.
                           Some (if over then Some POLICY_WINDOW_AMOUNT_EXCEEDED else None)))))
                | _ \<Rightarrow> Some None))"

definition setConfirmation :: "bignum \<Rightarrow> policy \<Rightarrow> evaluation \<Rightarrow> evaluation option" where
  "setConfirmation bn pol e =
     (case (p_confirmAbove pol, ev_amount e) of
        (Some t, Some amt) \<Rightarrow>
          map_option (\<lambda>over. e\<lparr>ev_confirm := over \<or> ev_confirm e\<rparr>)
            (exceeds bn amt (capFor (confirm_caps pol) (ev_tick e)))
      | _ \<Rightarrow> Some e)"

fun run_checks :: "check list \<Rightarrow> check" where
  "run_checks [] = Some None"
| "run_checks (c # cs) = (case c of None \<Rightarrow> None | Some (Some v) \<Rightarrow> Some (Some v) | Some None \<Rightarrow> run_checks cs)"

definition evaluatePolicy ::
  "bignum \<Rightarrow> policy \<Rightarrow> string \<Rightarrow> nat option \<Rightarrow> params \<Rightarrow> usage option \<Rightarrow> (violation + evaluation) option" where
  "evaluatePolicy bn pol act version ps snapshot =
     (case prepareEvaluation bn pol act version ps of
        None \<Rightarrow> None
      | Some (Inl v) \<Rightarrow> Some (Inl v)
      | Some (Inr e) \<Rightarrow>
          (case run_checks [checkBasics pol e, checkDerivability pol e, checkActionCap bn pol e,
                            checkWindow bn pol e snapshot] of
             None \<Rightarrow> None
           | Some (Some v) \<Rightarrow> Some (Inl v)
           | Some None \<Rightarrow> map_option Inr (setConfirmation bn pol e)))"

section \<open>What an approval means\<close>

lemma run_checks_passed: "run_checks cs = Some None \<longleftrightarrow> (\<forall>c\<in>set cs. c = Some None)"
  by (induction cs) (auto split: option.splits)

lemma setConfirmation_Some:
  "setConfirmation bn pol e = Some e' \<Longrightarrow> \<exists>b. e' = e\<lparr>ev_confirm := b\<rparr>"
  by (cases e) (auto simp: setConfirmation_def split: option.splits)

lemma setConfirmation_exact:
  assumes "setConfirmation bn pol e = Some e'" "\<not> ev_confirm e"
  shows "ev_confirm e' \<longleftrightarrow>
    (\<exists>a c. ev_amount e = Some a \<and> capFor (confirm_caps pol) (ev_tick e) = Some c \<and> gtDecimal bn a c = Some True)"
  using assms
  by (cases "p_confirmAbove pol"; cases "ev_amount e"; cases "capFor (confirm_caps pol) (ev_tick e)")
    (auto simp: setConfirmation_def exceeds_def confirm_caps_def capFor_def)

lemma evaluate_approved:
  assumes "evaluatePolicy bn pol act version ps snap = Some (Inr e)"
  obtains e0 where "setConfirmation bn pol e0 = Some e" "prepareEvaluation bn pol act version ps = Some (Inr e0)"
    "checkBasics pol e0 = Some None" "checkDerivability pol e0 = Some None"
    "checkActionCap bn pol e0 = Some None" "checkWindow bn pol e0 snap = Some None"
    "ev_action e = ev_action e0" "ev_version e = ev_version e0" "ev_params e = ev_params e0"
    "ev_amount e = ev_amount e0" "ev_tick e = ev_tick e0" "ev_destinations e = ev_destinations e0"
proof -
  from assms obtain e0 where p: "prepareEvaluation bn pol act version ps = Some (Inr e0)"
    and r: "run_checks [checkBasics pol e0, checkDerivability pol e0, checkActionCap bn pol e0,
              checkWindow bn pol e0 snap] = Some None"
    and c: "setConfirmation bn pol e0 = Some e"
    unfolding evaluatePolicy_def by (auto split: option.splits sum.splits)
  from setConfirmation_Some [OF c] obtain b where e: "e = e0\<lparr>ev_confirm := b\<rparr>" by blast
  from r have k: "checkBasics pol e0 = Some None" "checkDerivability pol e0 = Some None"
    "checkActionCap bn pol e0 = Some None" "checkWindow bn pol e0 snap = Some None"
    unfolding run_checks_passed by simp_all
  show thesis by (rule that [OF c p k]) (simp_all add: e)
qed

text \<open>
  The tick a verdict is judged under: the one the action binds, an id reference replaced by the name the
  policy declares for it, and left as it stands only where no limit distinguishes tokens.
\<close>

definition tick_named :: "policy \<Rightarrow> string \<Rightarrow> jsval option \<Rightarrow> jsval option \<Rightarrow> bool" where
  "tick_named pol action tick0 tick \<longleftrightarrow>
     (case caret_tick tick0 of
        None \<Rightarrow> tick = tick0
      | Some t \<Rightarrow>
          (case resolveTickRef (p_tickIds pol) t of
             Some nm \<Rightarrow> tick = Some (JStr nm)
           | None \<Rightarrow> tick = tick0 \<and> \<not> hasNamedKey (action_caps pol action) \<and> window_caps pol = None
               \<and> \<not> hasNamedKey (confirm_caps pol)))"

lemma prepare_Inr:
  assumes "prepareEvaluation bn pol act version ps = Some (Inr e)"
  shows "ev_action e = ascii_upper act" "ev_version e = version" "ev_params e = ps"
    "ev_destinations e = destination_list ps"
    "\<exists>tick0. resolveValue bn (ascii_upper act) ps = Some (ev_amount e, tick0)"
    "\<exists>tick0. resolveValue bn (ascii_upper act) ps = Some (ev_amount e, tick0) \<and>
       (caret_tick tick0 = None \<longrightarrow> ev_tick e = tick0)"
    "length (tickKeysFor (window_caps pol) (ev_tick e)) \<le> 1" "\<not> ev_confirm e"
    "\<forall>table\<in>{action_caps pol (ascii_upper act), window_caps pol, confirm_caps pol}.
       length (tickKeysFor table (ev_tick e)) \<le> 1"
  using assms
  by (auto simp: prepareEvaluation_def Let_def not_less split: option.splits if_split_asm)

lemma prepare_tick:
  assumes "prepareEvaluation bn pol act version ps = Some (Inr e)"
  shows "\<exists>tick0. resolveValue bn (ascii_upper act) ps = Some (ev_amount e, tick0) \<and>
    tick_named pol (ascii_upper act) tick0 (ev_tick e)"
proof -
  from assms obtain amt tick0 where v: "resolveValue bn (ascii_upper act) ps = Some (amt, tick0)"
    by (auto simp: prepareEvaluation_def Let_def split: option.split_asm)
  with assms have "ev_amount e = amt \<and> tick_named pol (ascii_upper act) tick0 (ev_tick e)"
    by (auto simp: prepareEvaluation_def tick_named_def Let_def identity_sensitive_def
        split: option.split_asm if_split_asm)
  with v show ?thesis by blast
qed

lemma check_destinations_None: "check_destinations allowed ds = None \<longleftrightarrow> set ds \<subseteq> set allowed"
  by (induction allowed ds rule: check_destinations.induct) auto

lemma checkBasics_passed:
  assumes "checkBasics pol e = Some None"
  shows "\<And>a. ev_amount e = Some a \<Longrightarrow> isNonNegativeDecimal (js_string a)"
    "ev_action e \<in> set (p_allowedActions pol)"
    "\<And>allowed. p_allowedDestinations pol = Some allowed \<Longrightarrow> set (ev_destinations e) \<subseteq> set allowed"
    "\<And>allowed v. p_allowedDestinations pol = Some allowed \<Longrightarrow> ev_version e = Some v \<Longrightarrow>
       formatCarriesDestination (ev_action e) v"
  using assms unfolding checkBasics_def
  by (auto simp: check_destinations_None split: if_split_asm option.splits)

lemma checkDerivability_passed:
  assumes "checkDerivability pol e = Some None" "has_amount_limit pol"
  shows "ev_action e \<notin> set UNBOUNDED_VALUE_ACTIONS"
    "\<And>v. ev_version e = Some v \<Longrightarrow> cl_class (classify (ev_action e) v (ev_params e)) \<noteq> UNBOUNDED"
  using assms unfolding checkDerivability_def by (auto split: if_split_asm option.splits)

lemma checkActionCap_compared:
  assumes "checkActionCap bn pol e = Some None" "ev_amount e = Some a"
    and "capFor (action_caps pol (ev_action e)) (ev_tick e) = Some c"
  shows "gtDecimal bn a c = Some False"
proof -
  obtain t where "p_maxPerAction pol = Some t"
    using assms(3) by (cases "p_maxPerAction pol") (simp_all add: capFor_def action_caps_def)
  with assms show ?thesis
    by (auto simp: checkActionCap_def exceeds_def split: option.splits if_split_asm)
qed

lemma gtDecimal_exact:
  assumes "bn_exact bn" "isNonNegativeDecimal (js_string a)" "isNonNegativeDecimal (js_string c)"
  shows "gtDecimal bn a c = Some (dec_val (js_string c) < dec_val (js_string a))"
  using assms by (simp add: gtDecimal_def bn_exact_def)

lemma checkWindow_passed:
  assumes "checkWindow bn pol e snap = Some None" "p_maxPerWindow pol = Some w"
  defines "u \<equiv> (case snap of Some s \<Rightarrow> s | None \<Rightarrow> no_usage)"
  shows "\<And>m. wp_maxActions w = Some m \<Longrightarrow> int (u_count u) + 1 \<le> m"
    "\<And>caps a c. wp_perTick w = Some caps \<Longrightarrow> ev_amount e = Some a \<Longrightarrow> capFor (Some caps) (ev_tick e) = Some c \<Longrightarrow>
       \<exists>used s. window_used bn u (ev_tick e) = Some used \<and> addDecimal bn used a = Some s
         \<and> gtDecimal bn (JStr s) c = Some False"
  using assms
  by (auto simp: checkWindow_def Let_def not_less bind_eq_Some_conv split: if_split_asm option.splits)

text \<open>
  C5: An approved action is within every limit of the policy. When evaluatePolicy approves:
  the action name (upper-cased) is in allowedActions; amount and tick are those the action binds, an id
  reference replaced by the name the policy declares for it (an undeclared reference passes only where no
  limit names a token and no window caps one), and no cap table spells that tick twice; the amount, if
  there is one, is a plain non-negative decimal; when allowedDestinations is set every destination is
  listed and a known version's format has a destination field; when any amount limit is set the action is
  neither one of the unbounded three nor, for a known version, of a format whose value the string
  does not fix; the amount does not compare above the per-action cap of the tick, and is at most it where
  that cap is a plain decimal; under a window policy (a missing snapshot counting as an empty one)
  the count including this action is within maxActions and the projected total of the tick does not
  exceed its cap; and confirmation is asked for exactly where the amount is above the tick's threshold.
  The big-number comparison is exact on plain decimals.
\<close>

theorem policy_approval_sound:
  assumes "evaluatePolicy bn pol act version ps snap = Some (Inr e)" and "bn_exact bn"
  shows "ev_action e = ascii_upper act \<and> ev_action e \<in> set (p_allowedActions pol)
    \<and> (\<exists>tick0. resolveValue bn (ascii_upper act) ps = Some (ev_amount e, tick0)
          \<and> tick_named pol (ascii_upper act) tick0 (ev_tick e))
    \<and> (\<forall>table\<in>{action_caps pol (ascii_upper act), window_caps pol, confirm_caps pol}.
          length (tickKeysFor table (ev_tick e)) \<le> 1)
    \<and> (\<forall>a. ev_amount e = Some a \<longrightarrow> isNonNegativeDecimal (js_string a))
    \<and> (\<forall>allowed. p_allowedDestinations pol = Some allowed \<longrightarrow>
          set (destination_list ps) \<subseteq> set allowed
          \<and> (\<forall>v. version = Some v \<longrightarrow> formatCarriesDestination (ev_action e) v))
    \<and> (has_amount_limit pol \<longrightarrow> ev_action e \<notin> set UNBOUNDED_VALUE_ACTIONS
          \<and> (\<forall>v. version = Some v \<longrightarrow> cl_class (classify (ev_action e) v ps) \<noteq> UNBOUNDED))
    \<and> (\<forall>a c. ev_amount e = Some a \<and> capFor (action_caps pol (ev_action e)) (ev_tick e) = Some c \<longrightarrow>
          gtDecimal bn a c = Some False
          \<and> (isNonNegativeDecimal (js_string c) \<longrightarrow> dec_val (js_string a) \<le> dec_val (js_string c)))
    \<and> (\<forall>w u. p_maxPerWindow pol = Some w \<and> u = (case snap of Some s \<Rightarrow> s | None \<Rightarrow> no_usage) \<longrightarrow>
          (\<forall>m. wp_maxActions w = Some m \<longrightarrow> int (u_count u) + 1 \<le> m)
          \<and> (\<forall>a c. ev_amount e = Some a \<and> capFor (wp_perTick w) (ev_tick e) = Some c \<longrightarrow>
                (\<exists>used s. window_used bn u (ev_tick e) = Some used \<and> addDecimal bn used a = Some s
                   \<and> gtDecimal bn (JStr s) c = Some False)))
    \<and> (ev_confirm e \<longleftrightarrow> (\<exists>a c. ev_amount e = Some a \<and> capFor (confirm_caps pol) (ev_tick e) = Some c
          \<and> gtDecimal bn a c = Some True))"
proof -
  obtain e0 where s: "setConfirmation bn pol e0 = Some e"
    and p: "prepareEvaluation bn pol act version ps = Some (Inr e0)"
    and k: "checkBasics pol e0 = Some None" "checkDerivability pol e0 = Some None"
      "checkActionCap bn pol e0 = Some None" "checkWindow bn pol e0 snap = Some None"
    and e: "ev_action e = ev_action e0" "ev_version e = ev_version e0" "ev_params e = ev_params e0"
      "ev_amount e = ev_amount e0" "ev_tick e = ev_tick e0" "ev_destinations e = ev_destinations e0"
    by (rule evaluate_approved [OF assms(1)])
  note f = prepare_Inr [OF p] and b = checkBasics_passed [OF k(1)]
  have cap: "gtDecimal bn a c = Some False
      \<and> (isNonNegativeDecimal (js_string c) \<longrightarrow> dec_val (js_string a) \<le> dec_val (js_string c))"
    if "ev_amount e = Some a" "capFor (action_caps pol (ev_action e)) (ev_tick e) = Some c" for a c
    using checkActionCap_compared [OF k(3), of a c] gtDecimal_exact [OF assms(2), of a c] b(1) [of a] that e by auto
  have win: "(\<forall>m. wp_maxActions w = Some m \<longrightarrow> int (u_count u) + 1 \<le> m)
      \<and> (\<forall>a c. ev_amount e = Some a \<and> capFor (wp_perTick w) (ev_tick e) = Some c \<longrightarrow>
            (\<exists>used s. window_used bn u (ev_tick e) = Some used \<and> addDecimal bn used a = Some s
               \<and> gtDecimal bn (JStr s) c = Some False))"
    if w: "p_maxPerWindow pol = Some w" and u: "u = (case snap of Some s \<Rightarrow> s | None \<Rightarrow> no_usage)" for w u
  proof -
    note cw = checkWindow_passed [OF k(4) w, folded u]
    have "\<exists>used s. window_used bn u (ev_tick e) = Some used \<and> addDecimal bn used a = Some s
        \<and> gtDecimal bn (JStr s) c = Some False"
      if "ev_amount e = Some a" "capFor (wp_perTick w) (ev_tick e) = Some c" for a c
    proof -
      from that(2) obtain caps where "wp_perTick w = Some caps"
        by (cases "wp_perTick w") (simp_all add: capFor_def)
      with that cw(2) e show ?thesis by simp
    qed
    with cw(1) show ?thesis by blast
  qed
  have con: "ev_confirm e \<longleftrightarrow> (\<exists>a c. ev_amount e = Some a \<and> capFor (confirm_caps pol) (ev_tick e) = Some c
      \<and> gtDecimal bn a c = Some True)"
    using setConfirmation_exact [OF s f(8)] e by simp
  have der: "has_amount_limit pol \<longrightarrow> ev_action e \<notin> set UNBOUNDED_VALUE_ACTIONS
      \<and> (\<forall>v. version = Some v \<longrightarrow> cl_class (classify (ev_action e) v ps) \<noteq> UNBOUNDED)"
    using checkDerivability_passed [OF k(2)] f(1-3) e by auto
  have dst: "set (destination_list ps) \<subseteq> set allowed \<and> (\<forall>v. version = Some v \<longrightarrow> formatCarriesDestination (ev_action e) v)"
    if "p_allowedDestinations pol = Some allowed" for allowed
    using b(3,4) [OF that] f(2,4) e by auto
  from prepare_tick [OF p] f(9) e have "\<exists>tick0. resolveValue bn (ascii_upper act) ps = Some (ev_amount e, tick0)
        \<and> tick_named pol (ascii_upper act) tick0 (ev_tick e)"
      "\<forall>table\<in>{action_caps pol (ascii_upper act), window_caps pol, confirm_caps pol}.
        length (tickKeysFor table (ev_tick e)) \<le> 1" by simp_all
  moreover have "ev_action e = ascii_upper act" "ev_action e \<in> set (p_allowedActions pol)"
      "\<forall>a. ev_amount e = Some a \<longrightarrow> isNonNegativeDecimal (js_string a)" using f(1) b(1,2) e by auto
  ultimately show ?thesis using dst der cap win con by blast
qed

definition demo_bn :: bignum where
  "demo_bn = \<lparr>bn_gt = \<lambda>a b. Some (dec_val b < dec_val a),
     bn_add = \<lambda>a b. if amount_text a \<and> amount_text b then Some (units_text (amount_units a + amount_units b)) else None\<rparr>"

lemma demo_bn_exact: "bn_exact demo_bn"
  by (simp add: bn_exact_def demo_bn_def amount_text_units_text)

definition demo_policy :: policy where
  "demo_policy = \<lparr>p_allowedActions = [''SEND''], p_allowedDestinations = Some [JStr ''bc1q''],
     p_maxPerAction = Some [(''SEND'', [(''JDOG'', JStr ''10'')])],
     p_maxPerWindow = Some \<lparr>wp_perTick = Some [(''PEPE'', JInt 100)], wp_maxActions = Some 3, wp_hours = 24\<rparr>,
     p_confirmAbove = None, p_tickIds = None\<rparr>"

definition demo_usage :: usage where
  "demo_usage = \<lparr>u_count = 1, u_perTick = [(''jdog'', ''94'')]\<rparr>"

lemma demo_decimals: "dec_val ''5'' = 5" "dec_val ''10'' = 10"
  by (simp_all add: dec_val_def dec_mant_def all_digits_def is_digit_def nat_of_digits_def digit_val_def)

lemma demo_prepared:
  "prepareEvaluation demo_bn demo_policy ''SEND'' (Some 0) (d_params demo_judged)
     = Some (Inr \<lparr>ev_action = ''SEND'', ev_version = Some 0, ev_params = d_params demo_judged,
         ev_amount = Some (JStr ''5''), ev_tick = Some (JStr ''JDOG''), ev_destinations = [JStr ''bc1q''],
         ev_confirm = False\<rparr>)"
  by code_simp

definition demo_evaluation :: evaluation where
  "demo_evaluation = \<lparr>ev_action = ''SEND'', ev_version = Some 0, ev_params = d_params demo_judged,
     ev_amount = Some (JStr ''5''), ev_tick = Some (JStr ''JDOG''), ev_destinations = [JStr ''bc1q''],
     ev_confirm = False\<rparr>"

lemma demo_checks:
  "checkBasics demo_policy demo_evaluation = Some None"
  "checkDerivability demo_policy demo_evaluation = Some None"
  "capFor (action_caps demo_policy ''SEND'') (Some (JStr ''JDOG'')) = Some (JStr ''10'')"
  "capFor (window_caps demo_policy) (Some (JStr ''JDOG'')) = None"
  by code_simp+

lemma demo_approved:
  "evaluatePolicy demo_bn demo_policy ''SEND'' (Some 0) (d_params demo_judged) (Some demo_usage)
     = Some (Inr demo_evaluation)"
proof -
  have a: "checkActionCap demo_bn demo_policy demo_evaluation = Some None"
    using demo_checks(3) by (simp add: checkActionCap_def demo_evaluation_def exceeds_def gtDecimal_def
      demo_bn_def demo_decimals demo_policy_def)
  have w: "checkWindow demo_bn demo_policy demo_evaluation (Some demo_usage) = Some None"
    using demo_checks(4) by (simp add: checkWindow_def demo_evaluation_def window_caps_def demo_policy_def
      demo_usage_def)
  have c: "setConfirmation demo_bn demo_policy demo_evaluation = Some demo_evaluation"
    by (simp add: setConfirmation_def demo_policy_def)
  show ?thesis
    unfolding evaluatePolicy_def demo_prepared [folded demo_evaluation_def]
    by (simp add: demo_checks(1,2) a w c)
qed

theorem policy_approval_sound_witness:
  "dec_val ''5'' \<le> dec_val ''10'' \<and> ''SEND'' \<in> set (p_allowedActions demo_policy)"
  using policy_approval_sound [OF demo_approved demo_bn_exact] demo_checks(3) demo_decimals
  by (simp add: demo_evaluation_def)

text \<open>The wildcard key is no spelling of any tick, so it is never summed: not even for a token of that name.\<close>

lemma upper_char_star: "upper_char c = CHR ''*'' \<Longrightarrow> c = CHR ''*''"
proof -
  assume u: "upper_char c = CHR ''*''"
  define n where "n = (of_char c :: nat)"
  have "\<not> (97 \<le> n \<and> n \<le> 122)"
  proof
    assume r: "97 \<le> n \<and> n \<le> 122"
    with u have "char_of (n - 32) = CHR ''*''" by (simp add: upper_char_def Let_def n_def)
    then have "(of_char (char_of (n - 32)) :: nat) = of_char (CHR ''*'')" by simp
    then have "(n - 32) mod 256 = 42" by simp
    moreover have "n - 32 < 256" using r by linarith
    ultimately have "n - 32 = 42" by simp
    with r show False by linarith
  qed
  with u show ?thesis by (simp add: upper_char_def Let_def n_def split: if_split_asm)
qed

lemma keys_for_star: "keys_for keys (Some (JStr ''*'')) = []"
proof -
  have "foldTick k \<noteq> foldTick ''*''" if "k \<noteq> ''*''" for k
  proof
    assume "foldTick k = foldTick ''*''"
    moreover have "foldTick ''*'' = ''*''" by code_simp
    ultimately obtain c where k: "k = [c]" "upper_char c = CHR ''*''"
      by (auto simp: foldTick_def ascii_upper_def map_eq_Cons_conv)
    from upper_char_star [OF k(2)] k(1) that show False by simp
  qed
  then show ?thesis by (auto simp: keys_for_def tick_text_def filter_empty_conv)
qed

lemma window_used_star: "window_used bn u (Some (JStr ''*'')) = Some ''0''"
  by (simp add: window_used_def windowUsedFor_def keys_for_star)

text \<open>
  C40: A token named \<open>*\<close> escapes every window cap. The name is a legal tick for the decoder's charset
  rule, but the evaluator reads the used total of that tick as \<open>0\<close> whatever the window holds, so the
  verdict on a SEND of it depends on the number of recorded actions only: two snapshots with the
  same count give the same verdict, however much of the token they record as spent.
\<close>

theorem star_tick_ignores_window:
  assumes "pick ps TICK_KEYS = Some (JStr ''*'')" and "u_count u = u_count u'"
  shows "isCanonicalTick (JStr ''*'')
    \<and> evaluatePolicy bn pol ''SEND'' version ps (Some u) = evaluatePolicy bn pol ''SEND'' version ps (Some u')"
proof
  show "isCanonicalTick (JStr ''*'')" by code_simp
  have up: "ascii_upper ''SEND'' = ''SEND''" by code_simp
  have sp: "map_of ACTION_VALUE_FIELDS ''SEND'' = None" by code_simp
  have tick: "ev_tick e = Some (JStr ''*'')"
    if "prepareEvaluation bn pol ''SEND'' version ps = Some (Inr e)" for e
    using prepare_Inr(6) [OF that] assms(1) sp
    by (auto simp: up resolveValue_def caret_tick_def)
  have "checkWindow bn pol e (Some u) = checkWindow bn pol e (Some u')"
    if "prepareEvaluation bn pol ''SEND'' version ps = Some (Inr e)" for e
    unfolding checkWindow_def Let_def option.case tick [OF that] window_used_star assms(2) by (rule refl)
  then show "evaluatePolicy bn pol ''SEND'' version ps (Some u) = evaluatePolicy bn pol ''SEND'' version ps (Some u')"
    by (auto simp: evaluatePolicy_def split: option.splits sum.splits)
qed

theorem star_tick_ignores_window_witness:
  "evaluatePolicy demo_bn demo_policy ''SEND'' (Some 0) [(''TICK'', JStr ''*''), (''AMOUNT'', JStr ''5'')]
       (Some \<lparr>u_count = 1, u_perTick = [(''*'', ''1000000'')]\<rparr>)
     = evaluatePolicy demo_bn demo_policy ''SEND'' (Some 0) [(''TICK'', JStr ''*''), (''AMOUNT'', JStr ''5'')]
       (Some \<lparr>u_count = 1, u_perTick = []\<rparr>)"
proof -
  have "pick [(''TICK'', JStr ''*''), (''AMOUNT'', JStr ''5'')] TICK_KEYS = Some (JStr ''*'')" by code_simp
  from star_tick_ignores_window [OF this, of "\<lparr>u_count = 1, u_perTick = [(''*'', ''1000000'')]\<rparr>"
      "\<lparr>u_count = 1, u_perTick = []\<rparr>"] show ?thesis by simp
qed

end
