(* ===== verification/WindowStore.thy ===== *)
theory WindowStore
  imports Policy
begin

text \<open>
  The co-signer's spending window: \<open>cosigner/window_store.js\<close> (the lock record as the store
  reads it) and \<open>cosigner/window_store/window_ledger.js\<close> (load, clock guards, pruning, snapshots,
  record, persist).

  \<^item> A row of the window is the object the JSON file holds, an association list; \<open>e.t\<close> is
    \<open>get_prop e ''t''\<close>. The state file is absent, not readable as a window, or the parsed entries and
    \<open>lastSeen\<close>. The lock file is absent, unreadable, or a record with a pid and a nonce.
  \<^item> An operation takes the store, the clock and the files, and returns an error code or the new store
    and state file. Each operation reads the clock once. Other failures of the file system (a full
    disk, a missing directory) are exceptions the model leaves out.
  \<^item> A fault is a message to the operator; the store keeps the list of those it raised.
\<close>

type_synonym row = field_map

section \<open>State\<close>

datatype state_file = NoFile | Unreadable_window | Window_file "jsval list" jsval

datatype lock_file = No_lock | Unreadable_lock | Lock_record jsval jsval

datatype window_error = WINDOW_STATE_MISSING | WINDOW_STATE_CORRUPT | WINDOW_STORE_FENCED

datatype fault =
    Clock_moved_back
  | Entries_clamped nat
  | Entry_quarantined

record window =
  w_entries :: "row list"
  w_lastSeen :: jsval

record store =
  st_hours :: rat
  st_init :: bool
  st_locked :: bool
  st_nonce :: string
  st_usage :: "window option"
  st_quarantined :: "row list"
  st_faults :: "fault list"

definition CLOCK_SKEW_TOLERANCE_MS :: int where
  "CLOCK_SKEW_TOLERANCE_MS = 60 * 1000"

definition add_fault :: "fault \<Rightarrow> store \<Rightarrow> store" where
  "add_fault f st = st\<lparr>st_faults := st_faults st @ [f]\<rparr>"

section \<open>Ownership of the lock\<close>

text \<open>\<open>lockIsOurs\<close>: ours, somebody else's, or (\<open>None\<close>) no proof either way.\<close>

definition lockIsOurs :: "store \<Rightarrow> lock_file \<Rightarrow> bool option" where
  "lockIsOurs st lf =
     (case lf of
        No_lock \<Rightarrow> Some False
      | Unreadable_lock \<Rightarrow> None
      | Lock_record pid nonce \<Rightarrow> (case nonce of JStr n \<Rightarrow> Some (n = st_nonce st) | _ \<Rightarrow> None))"

definition assertLockOwned :: "store \<Rightarrow> lock_file \<Rightarrow> bool" where
  "assertLockOwned st lf \<longleftrightarrow> \<not> st_locked st \<or> lockIsOurs st lf \<noteq> Some False"

text \<open>\<open>release\<close>: the lock file is removed unless it is provably somebody else's.\<close>

definition release :: "store \<Rightarrow> lock_file \<Rightarrow> store \<times> lock_file" where
  "release st lf =
     (if \<not> st_locked st then (st, lf)
      else (st\<lparr>st_locked := False\<rparr>, if lockIsOurs st lf \<noteq> Some False then No_lock else lf))"

section \<open>Reading and writing the window\<close>

definition persist :: "store \<Rightarrow> lock_file \<Rightarrow> window \<Rightarrow> window_error + state_file" where
  "persist st lf w =
     (if assertLockOwned st lf then Inr (Window_file (map JObj (w_entries w)) (w_lastSeen w))
      else Inl WINDOW_STORE_FENCED)"

text \<open>A finite number, as \<open>Number.isFinite\<close> accepts it.\<close>

definition finite_number :: "jsval \<Rightarrow> rat option" where
  "finite_number v =
     (case v of
        JInt i \<Rightarrow> Some (of_int i)
      | JFloat s \<Rightarrow> (case num_text s of Num q \<Rightarrow> Some q | _ \<Rightarrow> None)
      | _ \<Rightarrow> None)"

definition row_time :: "row \<Rightarrow> rat option" where
  "row_time e = finite_number (get_prop e ''t'')"

definition addable :: "bignum \<Rightarrow> jsval \<Rightarrow> bool" where
  "addable bn v \<longleftrightarrow> addDecimal bn ''0'' v \<noteq> None"

text \<open>The structural check of one row at load: \<open>None\<close> for a row the loader refuses.\<close>

definition row_ok :: "bignum \<Rightarrow> jsval \<Rightarrow> row option" where
  "row_ok bn v =
     (case v of
        JObj e \<Rightarrow>
          if row_time e = None then None
          else if get_prop e ''amount'' \<noteq> JUndef \<and> \<not> addable bn (get_prop e ''amount'') then None
          else Some e
      | _ \<Rightarrow> None)"

fun rows_ok :: "bignum \<Rightarrow> jsval list \<Rightarrow> row list option" where
  "rows_ok bn [] = Some []"
| "rows_ok bn (v # vs) =
     (case row_ok bn v of
        None \<Rightarrow> None
      | Some e \<Rightarrow> (case rows_ok bn vs of None \<Rightarrow> None | Some es \<Rightarrow> Some (e # es)))"

definition future_dated :: "int \<Rightarrow> row \<Rightarrow> bool" where
  "future_dated now e \<longleftrightarrow>
     (case row_time e of Some t \<Rightarrow> of_int (now + CLOCK_SKEW_TOLERANCE_MS) < t | None \<Rightarrow> False)"

definition clamp_row :: "int \<Rightarrow> row \<Rightarrow> row" where
  "clamp_row now e = (if future_dated now e then AList.update ''t'' (JInt now) e else e)"

definition applyClockGuards :: "int \<Rightarrow> window \<Rightarrow> window \<times> fault list" where
  "applyClockGuards now w =
     (let clamped = length (filter (future_dated now) (w_entries w)) in
      (w\<lparr>w_entries := map (clamp_row now) (w_entries w)\<rparr>,
       (case finite_number (w_lastSeen w) of
          Some s \<Rightarrow> if of_int (now + CLOCK_SKEW_TOLERANCE_MS) < s then [Clock_moved_back] else []
        | None \<Rightarrow> [])
       @ (if 0 < clamped then [Entries_clamped clamped] else [])))"

definition load ::
  "bignum \<Rightarrow> int \<Rightarrow> lock_file \<Rightarrow> store \<Rightarrow> state_file \<Rightarrow> window_error + (window \<times> store \<times> state_file)" where
  "load bn now lf st file =
     (case st_usage st of
        Some w \<Rightarrow> Inr (w, st, file)
      | None \<Rightarrow>
          (case file of
             NoFile \<Rightarrow>
               if \<not> st_init st then Inl WINDOW_STATE_MISSING
               else
                 let w = \<lparr>w_entries = [], w_lastSeen = JInt now\<rparr> in
                 try_bind (persist st lf w) (\<lambda>file'. Inr (w, st\<lparr>st_usage := Some w\<rparr>, file'))
           | Unreadable_window \<Rightarrow> Inl WINDOW_STATE_CORRUPT
           | Window_file rows seen \<Rightarrow>
               (case rows_ok bn rows of
                  None \<Rightarrow> Inl WINDOW_STATE_CORRUPT
                | Some es \<Rightarrow>
                    let (w, fs) = applyClockGuards now \<lparr>w_entries = es, w_lastSeen = seen\<rparr> in
                    Inr (w, st\<lparr>st_usage := Some w, st_faults := st_faults st @ fs\<rparr>, file))))"

section \<open>Pruning and snapshots\<close>

definition window_ms :: "store \<Rightarrow> rat" where
  "window_ms st = st_hours st * 3600 * 1000"

definition live :: "store \<Rightarrow> int \<Rightarrow> row \<Rightarrow> bool" where
  "live st now e \<longleftrightarrow> (case row_time e of Some t \<Rightarrow> of_int now - window_ms st \<le> t | None \<Rightarrow> False)"

definition pruned ::
  "bignum \<Rightarrow> int \<Rightarrow> lock_file \<Rightarrow> store \<Rightarrow> state_file \<Rightarrow> window_error + (window \<times> store \<times> state_file)" where
  "pruned bn now lf st file =
     try_bind (load bn now lf st file) (\<lambda>(w, st', file').
       let w' = w\<lparr>w_entries := filter (live st' now) (w_entries w)\<rparr> in
       Inr (w', st'\<lparr>st_usage := Some w'\<rparr>, file'))"

definition bucket_key :: "row \<Rightarrow> string" where
  "bucket_key e =
     (if is_nullish (get_prop e ''tick'') then UNRESOLVED_TICK_BUCKET else js_string (get_prop e ''tick''))"

text \<open>The totals per tick, and the rows that could not be added.\<close>

fun accumulate :: "bignum \<Rightarrow> row list \<Rightarrow> (string \<times> string) list \<Rightarrow> (string \<times> string) list \<times> row list" where
  "accumulate bn [] per = (per, [])"
| "accumulate bn (e # es) per =
     (if get_prop e ''amount'' = JUndef then accumulate bn es per
      else
        let cur = (case ownLookup per (bucket_key e) of Some s \<Rightarrow> if s = [] then ''0'' else s | None \<Rightarrow> ''0'') in
        case addDecimal bn cur (get_prop e ''amount'') of
          Some s \<Rightarrow> accumulate bn es (AList.update (bucket_key e) s per)
        | None \<Rightarrow> (case accumulate bn es per of (per', q) \<Rightarrow> (per', e # q)))"

definition snapshot ::
  "bignum \<Rightarrow> int \<Rightarrow> lock_file \<Rightarrow> string option \<Rightarrow> store \<Rightarrow> state_file \<Rightarrow> window_error + (usage \<times> store \<times> state_file)" where
  "snapshot bn now lf excludeTxid st file =
     try_bind (pruned bn now lf st file) (\<lambda>(w, st', file').
       let rows = (case excludeTxid of
                     None \<Rightarrow> w_entries w
                   | Some x \<Rightarrow> filter (\<lambda>e. get_prop e ''txid'' \<noteq> JStr x) (w_entries w));
           (per, q) = accumulate bn rows [] in
       Inr (\<lparr>u_count = length rows, u_perTick = per\<rparr>,
            st'\<lparr>st_quarantined := st_quarantined st' @ q,
                st_faults := st_faults st' @ map (\<lambda>e. Entry_quarantined) q\<rparr>,
            file'))"

text \<open>The snapshot without one charged entry; \<open>None\<close> when no live entry carries that txid.\<close>

definition snapshotExcludingTxid ::
  "bignum \<Rightarrow> int \<Rightarrow> lock_file \<Rightarrow> jsval \<Rightarrow> store \<Rightarrow> state_file
     \<Rightarrow> window_error + (usage option \<times> store \<times> state_file)" where
  "snapshotExcludingTxid bn now lf txid st file =
     (case txid of
        JStr x \<Rightarrow>
          if x = [] then Inr (None, st, file)
          else try_bind (pruned bn now lf st file) (\<lambda>(w, st', file').
                 if list_ex (\<lambda>e. get_prop e ''txid'' = JStr x) (w_entries w)
                 then try_bind (snapshot bn now lf (Some x) st' file') (\<lambda>(u, st2, file2). Inr (Some u, st2, file2))
                 else Inr (None, st', file'))
      | _ \<Rightarrow> Inr (None, st, file))"

section \<open>Recording an authorization\<close>

definition opt_val :: "jsval option \<Rightarrow> jsval" where
  "opt_val v = (case v of Some x \<Rightarrow> x | None \<Rightarrow> JUndef)"

definition new_row :: "int \<Rightarrow> string \<Rightarrow> jsval option \<Rightarrow> jsval option \<Rightarrow> jsval \<Rightarrow> row" where
  "new_row now action tick amt txid =
     [(''t'', JInt now), (''action'', JStr action), (''tick'', opt_val tick), (''amount'', opt_val amt), (''txid'', txid)]"

text \<open>The newest time among the rows, \<open>None\<close> for \<open>-Infinity\<close>.\<close>

definition newest :: "row list \<Rightarrow> rat option" where
  "newest rows =
     fold (\<lambda>e m. case row_time e of
             Some t \<Rightarrow> (case m of None \<Rightarrow> Some t | Some x \<Rightarrow> if x < t then Some t else Some x)
           | None \<Rightarrow> m) rows None"

definition last_seen :: "int \<Rightarrow> jsval \<Rightarrow> jsval" where
  "last_seen now seen =
     (case finite_number seen of Some s \<Rightarrow> if of_int now < s then seen else JInt now | None \<Rightarrow> JInt now)"

definition record_spend ::
  "bignum \<Rightarrow> int \<Rightarrow> lock_file \<Rightarrow> string \<Rightarrow> jsval option \<Rightarrow> jsval option \<Rightarrow> jsval \<Rightarrow> store \<Rightarrow> state_file
     \<Rightarrow> window_error + (store \<times> state_file)" where
  "record_spend bn now lf action tick amt txid st file =
     (if \<not> assertLockOwned st lf then Inl WINDOW_STORE_FENCED
      else
        try_bind (pruned bn now lf st file) (\<lambda>(w, st', file').
          let behind = (case newest (w_entries w) of
                          Some t \<Rightarrow> of_int (now + CLOCK_SKEW_TOLERANCE_MS) < t | None \<Rightarrow> False);
              st2 = (if behind then add_fault Clock_moved_back st' else st') in
          if (case amt of Some a \<Rightarrow> a \<noteq> JUndef \<and> \<not> addable bn a | None \<Rightarrow> False) then Inl WINDOW_STATE_CORRUPT
          else
            let w' = \<lparr>w_entries = w_entries w @ [new_row now action tick amt txid],
                      w_lastSeen = last_seen now (w_lastSeen w)\<rparr> in
            try_bind (persist st2 lf w') (\<lambda>file2. Inr (st2\<lparr>st_usage := Some w'\<rparr>, file2))))"

end
