(* ===== verification/SpendLedger.thy ===== *)
theory SpendLedger
  imports WindowStore
begin

text \<open>
  The contract of a spending window, shared by the co-signer's store and the client's session.

  The abstract ledger is the complete history of authorizations (time, tick, amount). A window
  implementation gives the evaluator a snapshot and is charged with what was approved; its rows stand
  for the part of the history inside the window. The locale \<open>spending_window\<close> states what the
  enforcement loop relies on: the snapshot reports exactly what the history holds, and
  reading and charging keep the representation. Its lemmas say that checking before charging keeps
  every cap.

  Amounts are counted in units of the 18th decimal (\<open>amount_units\<close>).
\<close>

section \<open>Decimals in units\<close>

lemma frac_scale:
  "(of_nat (a * 10 ^ l + b) :: rat) / 10 ^ l = of_nat (a * 10 ^ (l + m) + b * 10 ^ m) / 10 ^ (l + m)"
  by (simp add: field_simps power_add)

lemma amount_text_decimal:
  assumes "amount_text s"
  shows "isNonNegativeDecimal s" and "dec_val s = of_nat (amount_units s) / 10 ^ 18"
proof -
  from assms consider (int) i where "split_on (CHR ''.'') s = [i]" "all_digits i"
    | (frac) i f where "split_on (CHR ''.'') s = [i, f]" "all_digits i" "all_digits f" "length f \<le> 18"
    by (auto simp: amount_text_def all_digits_def split: list.splits)
  then have "isNonNegativeDecimal s \<and> dec_val s = of_nat (amount_units s) / 10 ^ 18"
  proof cases
    case int
    then show ?thesis
      by (simp add: isNonNegativeDecimal_def dec_val_def dec_mant_def amount_units_def UNIT_def)
  next
    case frac
    have m: "dec_mant s = Some (nat_of_digits i * 10 ^ length f + nat_of_digits f, length f)"
      using frac by (simp add: dec_mant_def all_digits_def nat_of_digits_append)
    have u: "amount_units s = nat_of_digits i * 10 ^ 18 + nat_of_digits f * 10 ^ (18 - length f)"
      using frac by (simp add: amount_units_def UNIT_def)
    have "(of_nat (nat_of_digits i * 10 ^ length f + nat_of_digits f) :: rat) / 10 ^ length f
        = of_nat (nat_of_digits i * 10 ^ 18 + nat_of_digits f * 10 ^ (18 - length f)) / 10 ^ 18"
      using frac_scale [of "nat_of_digits i" "length f" "nat_of_digits f" "18 - length f"] frac(4)
      by (simp only: le_add_diff_inverse)
    then have "dec_val s = of_nat (amount_units s) / 10 ^ 18"
      unfolding u by (simp add: dec_val_def m)
    with frac show ?thesis by (simp add: isNonNegativeDecimal_def)
  qed
  then show "isNonNegativeDecimal s" "dec_val s = of_nat (amount_units s) / 10 ^ 18" by simp_all
qed

lemma amount_text_nonempty: "amount_text s \<Longrightarrow> s \<noteq> []"
  by (auto simp: amount_text_def all_digits_def)

lemma amount_text_zero: "amount_text ''0''" and amount_units_zero: "amount_units ''0'' = 0"
  by (simp_all add: amount_text_def amount_units_def all_digits_def is_digit_def nat_of_digits_def digit_val_def)

section \<open>Sums over the rows and over the snapshot\<close>

definition wf_row :: "row \<Rightarrow> bool" where
  "wf_row e \<longleftrightarrow> get_prop e ''amount'' = JUndef \<or> amount_text (js_string (get_prop e ''amount''))"

definition row_units :: "row \<Rightarrow> nat" where
  "row_units e =
     (if get_prop e ''amount'' = JUndef then 0 else amount_units (js_string (get_prop e ''amount'')))"

definition rowsum :: "(string \<Rightarrow> bool) \<Rightarrow> row list \<Rightarrow> nat" where
  "rowsum P rows = sum_list (map (\<lambda>e. if P (bucket_key e) then row_units e else 0) rows)"

definition keysum :: "(string \<Rightarrow> bool) \<Rightarrow> (string \<times> string) list \<Rightarrow> nat" where
  "keysum P per = sum_list (map (\<lambda>(k, v). if P k then amount_units v else 0) per)"

lemma rowsum_simps [simp]:
  "rowsum P [] = 0"
  "rowsum P (e # es) = (if P (bucket_key e) then row_units e else 0) + rowsum P es"
  "rowsum P (xs @ ys) = rowsum P xs + rowsum P ys"
  by (simp_all add: rowsum_def)

lemma keysum_simps [simp]:
  "keysum P [] = 0" "keysum P ((k, v) # per) = (if P k then amount_units v else 0) + keysum P per"
  by (simp_all add: keysum_def)

lemma keysum_mono: "(\<And>k. P k \<Longrightarrow> Q k) \<Longrightarrow> keysum P per \<le> keysum Q per"
  by (induction per) (auto intro: add_mono)

lemma rowsum_mono: "(\<And>k. P k \<Longrightarrow> Q k) \<Longrightarrow> rowsum P rows \<le> rowsum Q rows"
  by (induction rows) (auto intro: add_mono)

definition old_units :: "(string \<times> string) list \<Rightarrow> string \<Rightarrow> nat" where
  "old_units per k = (case map_of per k of None \<Rightarrow> 0 | Some v \<Rightarrow> amount_units v)"

lemma keysum_update:
  "distinct (map fst per) \<Longrightarrow>
     keysum P (AList.update k s per) + (if P k then old_units per k else 0)
       = keysum P per + (if P k then amount_units s else 0)"
proof (induction per)
  case Nil
  then show ?case by (simp add: old_units_def)
next
  case (Cons kv per)
  obtain k' v where kv: "kv = (k', v)" by fastforce
  show ?case
  proof (cases "k' = k")
    case True
    then show ?thesis by (simp add: kv old_units_def)
  next
    case False
    then have "old_units (kv # per) k = old_units per k" by (simp add: kv old_units_def)
    with Cons False show ?thesis by (auto simp: kv)
  qed
qed

lemma old_units_le: "old_units per k \<le> keysum (\<lambda>_. True) per"
  by (induction per) (auto simp: old_units_def split: option.splits)

text \<open>The accumulation is exact while the grand total fits the precision.\<close>

lemma accumulate_exact:
  assumes "bn_exact bn" "\<forall>e\<in>set rows. wf_row e" "distinct (map fst per)" "\<forall>(k, v)\<in>set per. amount_text v"
    and "keysum (\<lambda>_. True) per + rowsum (\<lambda>_. True) rows < 10 ^ 64"
  shows "\<exists>per'. accumulate bn rows per = (per', []) \<and> distinct (map fst per') \<and> (\<forall>(k, v)\<in>set per'. amount_text v)
    \<and> (\<forall>P. keysum P per' = keysum P per + rowsum P rows)"
  using assms(2-5)
proof (induction rows arbitrary: per)
  case Nil
  then show ?case by simp
next
  case (Cons e rows)
  show ?case
  proof (cases "get_prop e ''amount'' = JUndef")
    case True
    then have "row_units e = 0" by (simp add: row_units_def)
    with Cons True show ?thesis by simp
  next
    case False
    let ?a = "js_string (get_prop e ''amount'')" and ?k = "bucket_key e"
    define cur where "cur = (case ownLookup per ?k of Some s \<Rightarrow> if s = [] then ''0'' else s | None \<Rightarrow> ''0'')"
    have a: "amount_text ?a" "row_units e = amount_units ?a"
      using Cons.prems(1) False by (simp_all add: wf_row_def row_units_def)
    have cur: "amount_text cur \<and> amount_units cur = old_units per ?k"
    proof (cases "map_of per ?k")
      case None
      then show ?thesis by (simp add: cur_def ownLookup_def old_units_def amount_text_zero amount_units_zero)
    next
      case (Some v)
      then have "amount_text v" using Cons.prems(3) by (auto dest: map_of_SomeD)
      with Some show ?thesis by (simp add: cur_def ownLookup_def old_units_def amount_text_nonempty)
    qed
    have "amount_units cur + amount_units ?a < 10 ^ 64"
      using Cons.prems(4) cur a old_units_le [of per ?k] by simp
    with assms(1) cur a(1) obtain s where s: "bn_add bn cur ?a = Some s" "amount_text s"
        "amount_units s = amount_units cur + amount_units ?a"
      unfolding bn_exact_def by blast
    let ?per = "AList.update ?k s per"
    have ks: "keysum P ?per = keysum P per + (if P ?k then row_units e else 0)" for P
      using keysum_update [OF Cons.prems(2), of P ?k s] cur s(3) a(2) by (simp split: if_splits)
    have "distinct (map fst ?per)" using Cons.prems(2) by (rule distinct_update)
    moreover have "\<forall>(k, v)\<in>set ?per. amount_text v"
    proof
      fix x assume "x \<in> set ?per"
      then have "map_of ?per (fst x) = Some (snd x)" using \<open>distinct (map fst ?per)\<close> by simp
      then have "snd x = s \<or> map_of per (fst x) = Some (snd x)" by (auto simp: update_conv split: if_splits)
      with s(2) Cons.prems(3) show "case x of (k, v) \<Rightarrow> amount_text v" by (cases x) (auto dest: map_of_SomeD)
    qed
    moreover have "keysum (\<lambda>_. True) ?per + rowsum (\<lambda>_. True) rows < 10 ^ 64"
      using Cons.prems(4) ks [of "\<lambda>_. True"] by simp
    ultimately obtain per' where "accumulate bn rows ?per = (per', [])" "distinct (map fst per')"
        "\<forall>(k, v)\<in>set per'. amount_text v" "\<forall>P. keysum P per' = keysum P ?per + rowsum P rows"
      using Cons.IH [of ?per] Cons.prems(1) by auto
    moreover have "accumulate bn (e # rows) per = accumulate bn rows ?per"
      using False s(1) by (simp add: cur_def [symmetric] addDecimal_def Let_def)
    ultimately show ?thesis using ks by auto
  qed
qed
section \<open>What a token has spent\<close>

definition counted :: "string \<Rightarrow> string \<Rightarrow> bool" where
  "counted k x \<longleftrightarrow> x \<noteq> ''*'' \<and> foldTick x = foldTick k \<and> x \<noteq> UNRESOLVED_TICK_BUCKET"

definition spent :: "string \<Rightarrow> row list \<Rightarrow> nat" where
  "spent k rows = rowsum (counted k) rows"

definition key_units :: "(string \<times> string) list \<Rightarrow> string \<Rightarrow> nat" where
  "key_units per k = (if k = UNRESOLVED_TICK_BUCKET then 0 else old_units per k)"

lemma sum_keys_exact:
  assumes "bn_exact bn" "\<forall>(k, v)\<in>set per. amount_text v" "amount_text used"
    and "amount_units used + sum_list (map (key_units per) ks) < 10 ^ 64"
  shows "\<exists>s. sum_keys bn per ks used = Some s \<and> amount_text s
    \<and> amount_units s = amount_units used + sum_list (map (key_units per) ks)"
  using assms(3,4)
proof (induction ks arbitrary: used)
  case Nil
  then show ?case by simp
next
  case (Cons k ks)
  show ?case
  proof (cases "k = UNRESOLVED_TICK_BUCKET \<or> map_of per k = None")
    case True
    then have "key_units per k = 0" by (auto simp: key_units_def old_units_def)
    with Cons True show ?thesis by (auto simp: ownLookup_def)
  next
    case False
    then obtain a where m: "map_of per k = Some a" by auto
    with False have u: "key_units per k = amount_units a" by (simp add: key_units_def old_units_def)
    have "amount_text a" using m assms(2) by (auto dest: map_of_SomeD)
    moreover have "amount_units used + amount_units a < 10 ^ 64" using Cons.prems(2) u by simp
    ultimately obtain s where s: "bn_add bn used a = Some s" "amount_text s"
        "amount_units s = amount_units used + amount_units a"
      using assms(1) Cons.prems(1) unfolding bn_exact_def by blast
    with Cons.IH [of s] Cons.prems(2) u obtain r where
      "sum_keys bn per ks s = Some r" "amount_text r"
      "amount_units r = amount_units s + sum_list (map (key_units per) ks)" by auto
    with False m s u show ?thesis by (simp add: ownLookup_def)
  qed
qed

lemma key_units_sum:
  "distinct (map fst per) \<Longrightarrow>
     sum_list (map (key_units per) (filter Q (map fst per))) = keysum (\<lambda>k. Q k \<and> k \<noteq> UNRESOLVED_TICK_BUCKET) per"
proof (induction per)
  case Nil
  then show ?case by simp
next
  case (Cons kv per)
  obtain k v where kv: "kv = (k, v)" by fastforce
  have "map (key_units (kv # per)) (filter Q (map fst per)) = map (key_units per) (filter Q (map fst per))"
    using Cons.prems kv by (intro map_cong) (auto simp: key_units_def old_units_def)
  then have "sum_list (map (key_units (kv # per)) (filter Q (map fst (kv # per))))
      = (if Q k then key_units (kv # per) k else 0) + sum_list (map (key_units per) (filter Q (map fst per)))"
    unfolding kv by (simp del: map_map map_eq_conv)
  also have "key_units (kv # per) k = (if k = UNRESOLVED_TICK_BUCKET then 0 else amount_units v)"
    by (simp add: key_units_def old_units_def kv)
  also have "sum_list (map (key_units per) (filter Q (map fst per)))
      = keysum (\<lambda>k. Q k \<and> k \<noteq> UNRESOLVED_TICK_BUCKET) per" using Cons by simp
  finally show ?case by (simp add: kv)
qed

lemma snapshot_used:
  assumes "bn_exact bn" "\<forall>e\<in>set rows. wf_row e" "rowsum (\<lambda>_. True) rows < 10 ^ 64"
  shows "\<exists>per s. accumulate bn rows [] = (per, []) \<and> windowUsedFor bn per (JStr k) = Some s
    \<and> amount_text s \<and> amount_units s = spent k rows"
proof -
  from accumulate_exact [OF assms(1,2), of "[]"] assms(3) obtain per where
    per: "accumulate bn rows [] = (per, [])" "distinct (map fst per)" "\<forall>(k, v)\<in>set per. amount_text v"
      "\<And>P. keysum P per = rowsum P rows" by auto
  let ?ks = "filter (\<lambda>x. x \<noteq> ''*'' \<and> foldTick x = foldTick k) (map fst per)"
  have ks: "keys_for (map fst per) (Some (JStr k)) = ?ks" by (simp add: keys_for_def tick_text_def)
  have sm: "sum_list (map (key_units per) ?ks) = spent k rows"
    unfolding key_units_sum [OF per(2)] per(4) spent_def
    by (rule arg_cong [of _ _ "\<lambda>P. rowsum P rows"]) (auto simp: counted_def)
  have "spent k rows \<le> rowsum (\<lambda>_. True) rows" unfolding spent_def by (rule rowsum_mono) simp
  with assms(3) sum_keys_exact [OF assms(1) per(3) amount_text_zero, of ?ks] sm per(1) ks
  show ?thesis by (simp add: windowUsedFor_def amount_units_zero)
qed

section \<open>One authorization stays within the cap\<close>

lemma tick_keys_len:
  "foldTick k = foldTick k' \<Longrightarrow> tickKeysFor t (Some (JStr k)) = tickKeysFor t (Some (JStr k'))"
  by (simp add: tickKeysFor_def keys_for_def tick_text_def split: option.splits)

text \<open>With at most one spelling among the keys, every spelling of a token has the same cap.\<close>

lemma cap_of_token:
  assumes "foldTick k = foldTick k'" "k \<noteq> ''*''" "k' \<noteq> ''*''" "length (tickKeysFor t (Some (JStr k))) \<le> 1"
  shows "capFor t (Some (JStr k)) = capFor t (Some (JStr k'))"
proof (cases t)
  case None
  then show ?thesis by (simp add: capFor_def)
next
  case (Some caps)
  let ?ks = "tickKeysFor (Some caps) (Some (JStr k))"
  have own: "cap_entry caps x = first_cap caps ?ks \<or> cap_entry caps x = None"
    if "x \<noteq> ''*''" "foldTick x = foldTick k" for x
  proof (cases "cap_entry caps x")
    case (Some c)
    then have "map_of caps x \<noteq> None" by (auto simp: cap_entry_def ownLookup_def split: option.splits)
    then have "x \<in> set (map fst caps)" by (simp add: map_of_eq_None_iff)
    with that have "x \<in> set ?ks" by (auto simp: tickKeysFor_def keys_for_def tick_text_def)
    with assms(4) \<open>t = Some caps\<close> have "?ks = [x]" by (cases ?ks) auto
    with Some show ?thesis by (simp add: first_cap_def)
  qed simp
  have "capFor (Some caps) (Some (JStr x)) =
      (case first_cap caps ?ks of Some c \<Rightarrow> Some c | None \<Rightarrow> cap_entry caps ''*'')"
    if "x \<noteq> ''*''" "foldTick x = foldTick k" for x
    using own [OF that] tick_keys_len [OF that(2), of "Some caps"]
    by (auto simp: capFor_def tick_text_def split: option.splits)
  from this [OF assms(2)] this [OF assms(3)] assms(1) Some show ?thesis by simp
qed

section \<open>The abstract ledger\<close>

type_synonym spend = "int \<times> string \<times> nat"

definition in_window :: "rat \<Rightarrow> int \<Rightarrow> spend \<Rightarrow> bool" where
  "in_window W T x \<longleftrightarrow> of_int T - W \<le> of_int (fst x)"

definition authorised :: "string \<Rightarrow> rat \<Rightarrow> int \<Rightarrow> spend list \<Rightarrow> nat" where
  "authorised k W T H =
     sum_list (map (\<lambda>(t, x, n). if counted k x then n else 0) (filter (in_window W T) H))"

definition row_spend :: "row \<Rightarrow> spend" where
  "row_spend e = ((case get_prop e ''t'' of JInt i \<Rightarrow> i | _ \<Rightarrow> 0), bucket_key e, row_units e)"

definition good_row :: "int \<Rightarrow> row \<Rightarrow> bool" where
  "good_row T e \<longleftrightarrow> (\<exists>i. get_prop e ''t'' = JInt i \<and> i \<le> T) \<and> wf_row e"

text \<open>The rows the store holds stand for the history: all of them are of it, and none inside the window is missing.\<close>

definition represents :: "rat \<Rightarrow> int \<Rightarrow> row list \<Rightarrow> spend list \<Rightarrow> bool" where
  "represents W T rows H \<longleftrightarrow>
     (\<forall>e\<in>set rows. good_row T e \<and> row_spend e \<in> set H)
     \<and> filter (in_window W T) (map row_spend rows) = filter (in_window W T) H"

lemma in_window_mono: "T \<le> T' \<Longrightarrow> in_window W T' x \<Longrightarrow> in_window W T x"
proof -
  assume "T \<le> T'" and w: "in_window W T' x"
  then have "(of_int T :: rat) \<le> of_int T'" by simp
  with w show ?thesis by (simp add: in_window_def)
qed

lemma filter_filter_imp: "(\<And>x. P x \<Longrightarrow> Q x) \<Longrightarrow> filter P (filter Q xs) = filter P xs"
  by (induction xs) auto

lemma represents_later:
  assumes "represents W T rows H" "T \<le> T'"
  shows "represents W T' rows H"
proof -
  have "filter (in_window W T') (map row_spend rows) = filter (in_window W T') H"
    using assms filter_filter_imp [of "in_window W T'" "in_window W T"] in_window_mono [OF assms(2)]
    by (metis represents_def)
  moreover have "good_row T' e" if "e \<in> set rows" for e
    using assms that by (fastforce simp: represents_def good_row_def)
  ultimately show ?thesis using assms(1) by (simp add: represents_def)
qed

lemma rowsum_spends:
  "rowsum P rows = sum_list (map (\<lambda>(t, x, n). if P x then n else 0) (map row_spend rows))"
  by (induction rows) (simp_all add: row_spend_def)

definition total_units :: "spend list \<Rightarrow> nat" where
  "total_units H = sum_list (map (\<lambda>(t, x, n). n) H)"

lemma sum_filter_le: "sum_list (map f (filter P xs)) \<le> sum_list (map f (xs :: 'a list))" for f :: "'a \<Rightarrow> nat"
  by (induction xs) auto

lemma member_le_total: "x \<in> set H \<Longrightarrow> snd (snd x) \<le> total_units H"
  by (induction H) (auto simp: total_units_def)

text \<open>What one approval adds to the history.\<close>

definition spend_of :: "int \<Rightarrow> evaluation \<Rightarrow> spend" where
  "spend_of now e = row_spend (new_row now (ev_action e) (ev_tick e) (ev_amount e) JUndef)"

lemma counted_fold: "counted k x \<Longrightarrow> counted x = counted k"
  by (rule ext) (auto simp: counted_def)

lemma row_spend_new:
  "spend_of t e =
     (t, if is_nullish (opt_val (ev_tick e)) then UNRESOLVED_TICK_BUCKET else js_string (opt_val (ev_tick e)),
      if opt_val (ev_amount e) = JUndef then 0 else amount_units (js_string (opt_val (ev_amount e))))"
  by (simp add: spend_of_def row_spend_def bucket_key_def row_units_def new_row_def get_prop_def)

lemma authorised_later: "T \<le> T' \<Longrightarrow> authorised k W T' H \<le> authorised k W T H"
proof -
  assume "T \<le> T'"
  then have "filter (in_window W T') H = filter (in_window W T') (filter (in_window W T) H)"
    using filter_filter_imp [of "in_window W T'" "in_window W T" H] in_window_mono by metis
  then show ?thesis unfolding authorised_def using sum_filter_le by metis
qed

lemma authorised_snoc:
  "authorised k W T (H @ [(t, x, n)]) \<le> authorised k W T H + (if counted k x then n else 0)"
  by (simp add: authorised_def)

lemma total_units_snoc: "total_units (H @ [(t, x, n)]) = total_units H + n"
  by (simp add: total_units_def)

lemma authorised_le_total: "authorised k W T H \<le> total_units H"
proof -
  have "authorised k W T H \<le> sum_list (map (\<lambda>(t, x, n). n) (filter (in_window W T) H))"
    unfolding authorised_def by (rule sum_list_mono) auto
  also have "\<dots> \<le> total_units H" unfolding total_units_def by (rule sum_filter_le)
  finally show ?thesis .
qed

text \<open>What the passed window check of an approved evaluation says about one token.\<close>

lemma window_check_passed:
  assumes ev: "evaluatePolicy bn pol act v ps (Some u) = Some (Inr e)"
    and tick: "ev_tick e = Some (JStr x)" and amt: "ev_amount e = Some a"
    and cap: "window_caps pol = Some caps" "counted k x" "k \<noteq> ''*''" "capFor (Some caps) (Some (JStr k)) = Some c"
    and used: "windowUsedFor bn (u_perTick u) (JStr x) = Some used" "bn_add bn used (js_string a) = Some s"
  shows "gtDecimal bn (JStr s) c = Some False"
proof -
  obtain e0 where p: "prepareEvaluation bn pol act v ps = Some (Inr e0)"
    and k: "checkWindow bn pol e0 (Some u) = Some None" and eq: "ev_amount e = ev_amount e0" "ev_tick e = ev_tick e0"
    by (rule evaluate_approved [OF ev])
  have one: "length (tickKeysFor (Some caps) (Some (JStr x))) \<le> 1"
    using prepare_Inr(7) [OF p] cap(1) eq tick by simp
  have x: "x \<noteq> ''*''" "foldTick x = foldTick k" using cap(2) by (auto simp: counted_def)
  have c: "capFor (Some caps) (ev_tick e0) = Some c"
    using cap_of_token [OF x(2) x(1) cap(3) one] cap(4) eq tick by simp
  have e0: "ev_amount e0 = Some a" "ev_tick e0 = Some (JStr x)" using eq amt tick by simp_all
  obtain win where win: "p_maxPerWindow pol = Some win" "wp_perTick win = Some caps"
    using cap(1) by (auto simp: window_caps_def bind_eq_Some_conv)
  show ?thesis
    using checkWindow_passed(2) [OF k win(1), unfolded option.case, OF win(2) e0(1) c] used
    by (simp add: window_used_def addDecimal_def e0(2))
qed

section \<open>Caps over the history\<close>

definition within_caps :: "policy \<Rightarrow> rat \<Rightarrow> int \<Rightarrow> spend list \<Rightarrow> bool" where
  "within_caps pol W T H \<longleftrightarrow>
     (\<forall>caps k c. window_caps pol = Some caps \<and> k \<noteq> ''*'' \<and> capFor (Some caps) (Some (JStr k)) = Some c
        \<and> isNonNegativeDecimal (js_string c)
        \<longrightarrow> of_nat (authorised k W T H) / 10 ^ 18 \<le> dec_val (js_string c))"

lemma within_caps_later:
  assumes "within_caps pol W T H" "T \<le> t"
  shows "within_caps pol W t H"
proof -
  have "(of_nat (authorised k W t H) :: rat) / 10 ^ 18 \<le> of_nat (authorised k W T H) / 10 ^ 18" for k
    using authorised_later [OF assms(2), of k W H] by (simp add: divide_right_mono)
  from order_trans [OF this] assms(1) show ?thesis unfolding within_caps_def by blast
qed

lemma within_caps_empty: "within_caps pol W T []"
  by (auto simp: within_caps_def authorised_def dec_val_def split: option.splits prod.splits)

section \<open>The interface of a window\<close>

locale spending_window =
  fixes rep :: "rat \<Rightarrow> 'st \<Rightarrow> int \<Rightarrow> spend list \<Rightarrow> bool"
    and look :: "bignum \<Rightarrow> int \<Rightarrow> 'st \<Rightarrow> usage \<Rightarrow> 'st \<Rightarrow> bool"
    and charge :: "bignum \<Rightarrow> int \<Rightarrow> evaluation \<Rightarrow> 'st \<Rightarrow> 'st \<Rightarrow> bool"
  assumes look_rep: "rep W s T H \<Longrightarrow> T \<le> t \<Longrightarrow> look bn t s u s' \<Longrightarrow> rep W s' t H"
    and look_used: "bn_exact bn \<Longrightarrow> rep W s T H \<Longrightarrow> T \<le> t \<Longrightarrow> total_units H < 10 ^ 64 \<Longrightarrow> look bn t s u s' \<Longrightarrow>
      \<exists>used. windowUsedFor bn (u_perTick u) (JStr k) = Some used \<and> amount_text used
        \<and> amount_units used = authorised k W t H"
    and charge_rep: "rep W s T H \<Longrightarrow> T \<le> t \<Longrightarrow> charge bn t e s s' \<Longrightarrow>
      (\<And>a. ev_amount e = Some a \<Longrightarrow> amount_text (js_string a)) \<Longrightarrow> rep W s' t (H @ [spend_of t e])"
begin

text \<open>An approved spend fits: what the window held at the snapshot plus the new amount is within the cap.\<close>

lemma approved_fits:
  assumes bn: "bn_exact bn" and rep: "rep W s T H" and t: "T \<le> t1" and look: "look bn t1 s u s1"
    and ev: "evaluatePolicy bn pol act v ps (Some u) = Some (Inr e)"
    and tick: "ev_tick e = Some (JStr x)" and amt: "ev_amount e = Some a" "amount_text (js_string a)"
    and room: "total_units H + amount_units (js_string a) < 10 ^ 64"
    and cap: "window_caps pol = Some caps" "counted k x" "k \<noteq> ''*''"
      "capFor (Some caps) (Some (JStr k)) = Some c" "isNonNegativeDecimal (js_string c)"
  shows "of_nat (authorised k W t1 H + amount_units (js_string a)) / 10 ^ 18 \<le> dec_val (js_string c)"
proof -
  have "total_units H < 10 ^ 64" using room by simp
  from look_used [OF bn rep t this look, of x] obtain used where
    used: "windowUsedFor bn (u_perTick u) (JStr x) = Some used" "amount_text used"
      "amount_units used = authorised x W t1 H" by blast
  have uu: "amount_units used = authorised k W t1 H"
    using used(3) by (simp add: authorised_def counted_fold [OF cap(2)])
  have "authorised k W t1 H \<le> total_units H" by (rule authorised_le_total)
  with room uu have "amount_units used + amount_units (js_string a) < 10 ^ 64" by simp
  with bn used(2) amt(2) obtain s where s: "bn_add bn used (js_string a) = Some s" "amount_text s"
      "amount_units s = amount_units used + amount_units (js_string a)"
    unfolding bn_exact_def by blast
  have "gtDecimal bn (JStr s) c = Some False"
    by (rule window_check_passed [OF ev tick amt(1) cap(1-4) used(1) s(1)])
  moreover have "gtDecimal bn (JStr s) c = Some (dec_val (js_string c) < dec_val s)"
    using bn cap(5) amount_text_decimal(1) [OF s(2)] by (simp add: gtDecimal_def bn_exact_def)
  ultimately have "dec_val s \<le> dec_val (js_string c)" by simp
  then show ?thesis unfolding amount_text_decimal(2) [OF s(2)] s(3) uu .
qed

text \<open>Checking against a snapshot and charging afterwards keeps every cap.\<close>

lemma check_then_charge:
  assumes bn: "bn_exact bn" and rep: "rep W s T H" and caps: "within_caps pol W T H"
    and t: "T \<le> t1" "t1 \<le> t2" and look: "look bn t1 s u s1"
    and ev: "evaluatePolicy bn pol act v ps (Some u) = Some (Inr e)"
    and tick: "\<And>v. ev_tick e = Some v \<Longrightarrow> \<exists>x. v = JStr x"
    and amt: "\<And>a. ev_amount e = Some a \<Longrightarrow> amount_text (js_string a)"
    and room: "total_units (H @ [spend_of t2 e]) < 10 ^ 64"
  shows "within_caps pol W t2 (H @ [spend_of t2 e])"
  unfolding within_caps_def
proof (intro allI impI, elim conjE)
  fix tbl k c
  assume cap: "window_caps pol = Some tbl" "k \<noteq> ''*''" "capFor (Some tbl) (Some (JStr k)) = Some c"
    "isNonNegativeDecimal (js_string c)"
  obtain x n where sp: "spend_of t2 e = (t2, x, n)" using row_spend_new by blast
  let ?n = "if counted k x then n else 0"
  have le: "authorised k W t2 (H @ [spend_of t2 e]) \<le> authorised k W t1 H + ?n"
    unfolding sp using authorised_snoc [of k W t2 H t2 x n] authorised_later [OF t(2), of k W H] by linarith
  have fits: "of_nat (authorised k W t1 H + ?n) / 10 ^ 18 \<le> dec_val (js_string c)"
  proof (cases "counted k x \<and> n \<noteq> 0")
    case True
    then have nz: "n \<noteq> 0" and ct: "counted k x" by auto
    obtain v where v: "ev_tick e = Some v"
      using ct sp by (cases "ev_tick e") (auto simp: row_spend_new opt_val_def is_nullish_def counted_def)
    with tick obtain tx where "v = JStr tx" by blast
    with v sp have tk: "ev_tick e = Some (JStr x)" by (auto simp: row_spend_new opt_val_def is_nullish_def)
    obtain a where a: "ev_amount e = Some a" "n = amount_units (js_string a)"
      using nz sp by (cases "ev_amount e") (auto simp: row_spend_new opt_val_def split: if_split_asm)
    have "total_units H + amount_units (js_string a) < 10 ^ 64"
      using room sp a(2) by (simp add: total_units_snoc)
    from approved_fits [OF bn rep t(1) look ev tk a(1) amt [OF a(1)] this cap(1) ct cap(2-4)] a(2) ct
    show ?thesis by simp
  next
    case False
    then have z: "?n = 0" by auto
    have "of_nat (authorised k W t1 H) / 10 ^ 18 \<le> dec_val (js_string c)"
      using within_caps_later [OF caps t(1), unfolded within_caps_def] cap by blast
    then show ?thesis unfolding z by simp
  qed
  have "(of_nat (authorised k W t2 (H @ [spend_of t2 e])) :: rat) / 10 ^ 18 \<le> of_nat (authorised k W t1 H + ?n) / 10 ^ 18"
    using le by (intro divide_right_mono) (simp_all only: of_nat_le_iff, simp)
  then show "of_nat (authorised k W t2 (H @ [spend_of t2 e])) / 10 ^ 18 \<le> dec_val (js_string c)"
    using fits by (rule order_trans)
qed

lemma charge_after_look:
  assumes "rep W s T H" "T \<le> t1" "t1 \<le> t2" "look bn t1 s u s1" "charge bn t2 e s1 s2"
    and "\<And>a. ev_amount e = Some a \<Longrightarrow> amount_text (js_string a)"
  shows "rep W s2 t2 (H @ [spend_of t2 e])"
  using charge_rep [OF look_rep [OF assms(1,2,4)] assms(3,5,6)] .

end

section \<open>A policy with a window cap\<close>

definition demo_cap_policy :: policy where
  "demo_cap_policy = demo_policy\<lparr>p_maxPerWindow :=
     Some \<lparr>wp_perTick = Some [(''JDOG'', JInt 100)], wp_maxActions = Some 3, wp_hours = 24\<rparr>\<rparr>"

definition demo_spend :: spend where "demo_spend = (2000, ''JDOG'', 5 * 10 ^ 18)"

lemma demo_amounts:
  "amount_text ''5''" "amount_units ''5'' = 5 * 10 ^ 18" "dec_val ''100'' = 100"
  by (simp_all add: amount_text_def amount_units_def all_digits_def is_digit_def nat_of_digits_def digit_val_def
    UNIT_def dec_val_def dec_mant_def)

lemma demo_cap_prepared:
  "prepareEvaluation demo_bn demo_cap_policy ''SEND'' (Some 0) (d_params demo_judged) = Some (Inr demo_evaluation)"
  by code_simp

lemma demo_cap_checks:
  "checkBasics demo_cap_policy demo_evaluation = Some None"
  "checkDerivability demo_cap_policy demo_evaluation = Some None"
  "capFor (action_caps demo_cap_policy ''SEND'') (Some (JStr ''JDOG'')) = Some (JStr ''10'')"
  "capFor (Some [(''JDOG'', JInt 100)]) (Some (JStr ''JDOG'')) = Some (JInt 100)"
  "js_string (JInt 100) = ''100''"
  "keys_for [] (Some (JStr ''JDOG'')) = []"
  by code_simp+

lemma demo_add: "bn_add demo_bn ''0'' ''5'' = Some (units_text (5 * 10 ^ 18))"
  by (simp add: demo_bn_def amount_text_zero amount_units_zero demo_amounts)

lemma demo_within: "dec_val (units_text (5 * 10 ^ 18)) = 5"
  using amount_text_decimal(2) [of "units_text (5 * 10 ^ 18)"] amount_text_units_text [of "5 * 10 ^ 18"] by simp

lemma demo_cap_approved:
  "evaluatePolicy demo_bn demo_cap_policy ''SEND'' (Some 0) (d_params demo_judged) (Some \<lparr>u_count = 0, u_perTick = []\<rparr>)
     = Some (Inr demo_evaluation)"
proof -
  have a: "checkActionCap demo_bn demo_cap_policy demo_evaluation = Some None"
    using demo_cap_checks(3)
    by (simp add: checkActionCap_def demo_evaluation_def exceeds_def gtDecimal_def demo_cap_policy_def
      demo_bn_def demo_decimals demo_policy_def)
  have w: "checkWindow demo_bn demo_cap_policy demo_evaluation (Some \<lparr>u_count = 0, u_perTick = []\<rparr>) = Some None"
    using demo_cap_checks(4-6) demo_add demo_within demo_amounts
    by (simp add: checkWindow_def demo_evaluation_def demo_cap_policy_def window_used_def windowUsedFor_def
      addDecimal_def gtDecimal_def demo_bn_def)
  have c: "setConfirmation demo_bn demo_cap_policy demo_evaluation = Some demo_evaluation"
    by (simp add: setConfirmation_def demo_cap_policy_def demo_policy_def)
  show ?thesis
    unfolding evaluatePolicy_def demo_cap_prepared by (simp add: demo_cap_checks(1,2) a w c)
qed

lemma demo_spend_of:
  "spend_of 2000 demo_evaluation = demo_spend" "total_units ([] @ [demo_spend]) < 10 ^ 64"
  by (simp_all add: row_spend_new demo_evaluation_def demo_spend_def demo_amounts opt_val_def is_nullish_def
    total_units_def)

end
