(* ===== verification/WindowBudget.thy ===== *)
theory WindowBudget
  imports SpendLedger
begin

text \<open>
  Why the co-signer's store keeps the contract of a spending window: its live rows, in memory and in
  the file, are exactly the history's, through pruning, recording and restarts. The store is an
  instance of \<open>spending_window\<close>, and the budget theorem follows by induction over the runs of
  the daemon.
\<close>

section \<open>The live rows\<close>

lemma live_in_window:
  assumes "good_row T e" "st_hours st * 3600 * 1000 = W"
  shows "live st T' e \<longleftrightarrow> in_window W T' (row_spend e)"
  using assms
  by (auto simp: live_def row_time_def finite_number_def good_row_def in_window_def row_spend_def window_ms_def)

lemma represents_prune:
  assumes "represents W T rows H" "st_hours st * 3600 * 1000 = W"
  shows "represents W T (filter (live st T) rows) H"
    and "map row_spend (filter (live st T) rows) = filter (in_window W T) H"
proof -
  have g: "\<forall>e\<in>set rows. good_row T e" using assms(1) by (simp add: represents_def)
  then have "map row_spend (filter (live st T) rows) = filter (in_window W T) (map row_spend rows)"
    using live_in_window [OF _ assms(2)] by (induction rows) auto
  then show e: "map row_spend (filter (live st T) rows) = filter (in_window W T) H"
    using assms(1) by (simp add: represents_def)
  then show "represents W T (filter (live st T) rows) H"
    using assms(1) by (auto simp: represents_def)
qed

lemma pruned_sums:
  assumes "represents W T rows H" "st_hours st * 3600 * 1000 = W"
  shows "spent k (filter (live st T) rows) = authorised k W T H"
    and "rowsum (\<lambda>_. True) (filter (live st T) rows) \<le> total_units H"
proof -
  note e = represents_prune(2) [OF assms]
  show "spent k (filter (live st T) rows) = authorised k W T H"
    unfolding spent_def rowsum_spends e authorised_def by simp
  have "rowsum (\<lambda>_. True) (filter (live st T) rows) = sum_list (map (\<lambda>(t, x, n). n) (filter (in_window W T) H))"
    unfolding rowsum_spends e by simp
  also have "\<dots> \<le> total_units H" unfolding total_units_def by (rule sum_filter_le)
  finally show "rowsum (\<lambda>_. True) (filter (live st T) rows) \<le> total_units H" .
qed

section \<open>Loading what was written\<close>

lemma good_rows_load:
  assumes "bn_exact bn" "\<forall>e\<in>set rows. good_row T e \<and> row_spend e \<in> set H" "total_units H < 10 ^ 64"
  shows "rows_ok bn (map JObj rows) = Some rows"
  using assms(2)
proof (induction rows)
  case Nil
  then show ?case by simp
next
  case (Cons e rows)
  then have g: "good_row T e" and m: "row_spend e \<in> set H" by auto
  have "row_time e \<noteq> None" using g by (auto simp: good_row_def row_time_def finite_number_def)
  moreover have "addable bn (get_prop e ''amount'')" if "get_prop e ''amount'' \<noteq> JUndef"
  proof -
    have a: "amount_text (js_string (get_prop e ''amount''))" using g that by (simp add: good_row_def wf_row_def)
    have "row_units e < 10 ^ 64" using member_le_total [OF m] assms(3) by (simp add: row_spend_def)
    then have "amount_units ''0'' + amount_units (js_string (get_prop e ''amount'')) < 10 ^ 64"
      using that by (simp add: row_units_def amount_units_zero)
    with assms(1) a amount_text_zero show ?thesis unfolding bn_exact_def addable_def addDecimal_def by blast
  qed
  ultimately have "row_ok bn (JObj e) = Some e" by (auto simp: row_ok_def)
  with Cons show ?case by simp
qed

lemma no_clamp:
  assumes "\<forall>e\<in>set rows. good_row T e" "T \<le> now"
  shows "map (clamp_row now) rows = rows"
proof -
  have "\<not> future_dated now e" if "e \<in> set rows" for e
  proof -
    obtain i where "get_prop e ''t'' = JInt i" "i \<le> T" using assms(1) \<open>e \<in> set rows\<close> by (auto simp: good_row_def)
    moreover have "(of_int i :: rat) \<le> of_int now" using calculation(2) assms(2) by simp
    ultimately show ?thesis
      by (simp add: future_dated_def row_time_def finite_number_def CLOCK_SKEW_TOLERANCE_MS_def)
  qed
  then show ?thesis by (simp add: clamp_row_def map_idI)
qed

section \<open>The tick of a decoded action is a text\<close>

lemma map_fixed_text:
  "\<forall>n v. map_of ps n = Some v \<longrightarrow> (\<exists>t. v = JStr t) \<Longrightarrow>
   map_of (map_fixed [] ns segs ps) n = Some v \<Longrightarrow> \<exists>t. v = JStr t"
proof (induction ns arbitrary: segs ps)
  case (Cons m ns)
  then show ?case unfolding map_fixed_Cons
    by (elim Cons.IH [rotated]) (auto simp: update_conv split: if_splits)
qed auto

lemma judge_param_text:
  assumes "judgeActionString s = Inr d" "map_of (d_params d) n = Some v" "n \<noteq> ''PARAMS''" "n \<noteq> ''ITEM''"
  shows "\<exists>t. v = JStr t"
  using assms(1)
proof (rule judge_Inr)
  fix raw verseg body names
  assume f: "getFormatFields (d_action d) (d_version d) = Inr names"
    and g: "getRepeatedGroup (d_action d) (d_version d) = Inr None"
    and sh: "shape_loop (boundedRestFormat (d_action d) (d_version d)) [] names = None"
    and p: "d_params d = decoded_params names (verseg # body)"
  show ?thesis
  proof (cases "isRestField (last names)")
    case True
    have "names \<noteq> []" using getFormatFields_wf [OF f] by (auto simp: wf_names_def)
    with shape_loop_rest [OF sh _ True] obtain m where
      "boundedRestFormat (d_action d) (d_version d) = Some (last names, m)" by auto
    then have "last names = ''...PARAMS'' \<or> last names = ''...ITEM''"
      by (auto simp: boundedRestFormat_def BOUNDED_REST_FORMATS_def split: if_split_asm)
    then have "baseFieldName (last names) = ''PARAMS'' \<or> baseFieldName (last names) = ''ITEM''"
      by (auto simp: baseFieldName_def starts_with_def REST_PREFIX_def)
    with assms(2-4) p True map_fixed_text [of "[]" "butlast names" "verseg # body" n v] show ?thesis
      by (auto simp: decoded_params_def update_conv split: if_split_asm)
  next
    case False
    with assms(2) p map_fixed_text [of "[]" names "verseg # body" n v] show ?thesis
      by (simp add: decoded_params_def)
  qed
qed

lemma pick_Some: "pick ps ks = Some v \<Longrightarrow> \<exists>k\<in>set ks. map_of ps k = Some v"
  by (induction ks) (auto simp: ownLookup_def split: option.splits if_split_asm)

lemma judged_tick_text:
  assumes "judgeActionString s = Inr d"
    and "evaluatePolicy bn pol act version (d_params d) snap = Some (Inr e)" "ev_tick e = Some v"
  shows "\<exists>t. v = JStr t"
proof -
  have keys: "\<exists>t. w = JStr t" if "pick (d_params d) ks = Some w" "''PARAMS'' \<notin> set ks" "''ITEM'' \<notin> set ks" for ks w
    using pick_Some [OF that(1)] that(2,3) judge_param_text [OF assms(1)] by metis
  have rt: "\<exists>t. w = JStr t" if "resolve_tick (d_params d) r = Some w"
      "case r of Fixed_tick _ \<Rightarrow> True | Read_tick ks _ \<Rightarrow> ''PARAMS'' \<notin> set ks \<and> ''ITEM'' \<notin> set ks" for r w
    using that keys by (auto simp: resolve_tick_def split: tick_rule.splits option.splits)
  have tab: "list_all (\<lambda>(a, ar, r). case r of Fixed_tick _ \<Rightarrow> True
      | Read_tick ks _ \<Rightarrow> ''PARAMS'' \<notin> set ks \<and> ''ITEM'' \<notin> set ks) ACTION_VALUE_FIELDS" by code_simp
  have generic: "''PARAMS'' \<notin> set TICK_KEYS \<and> ''ITEM'' \<notin> set TICK_KEYS" by code_simp
  obtain e0 where p: "prepareEvaluation bn pol act version (d_params d) = Some (Inr e0)" "ev_tick e = ev_tick e0"
    by (rule evaluate_approved [OF assms(2)])
  obtain amt tick0 where r: "resolveValue bn (ascii_upper act) (d_params d) = Some (amt, tick0)"
    and t: "tick0 = ev_tick e \<or> (\<exists>nm. ev_tick e = Some (JStr nm))"
    using p by (auto simp: prepareEvaluation_def Let_def split: option.splits if_split_asm)
  have "\<exists>t. w = JStr t" if "tick0 = Some w" for w
  proof (cases "map_of ACTION_VALUE_FIELDS (ascii_upper act)")
    case None
    with r that keys generic show ?thesis by (auto simp: resolveValue_def)
  next
    case (Some x)
    then obtain ar tr where x: "map_of ACTION_VALUE_FIELDS (ascii_upper act) = Some (ar, tr)" by (cases x) auto
    then have "(ascii_upper act, ar, tr) \<in> set ACTION_VALUE_FIELDS" by (rule map_of_SomeD)
    with tab have c: "case tr of Fixed_tick _ \<Rightarrow> True | Read_tick ks _ \<Rightarrow> ''PARAMS'' \<notin> set ks \<and> ''ITEM'' \<notin> set ks"
      by (auto simp: list_all_iff)
    from r x that have "resolve_tick (d_params d) tr = Some w"
      by (auto simp: resolveValue_def split: option.splits)
    from rt [OF this c] show ?thesis .
  qed
  with t assms(3) show ?thesis by auto
qed

section \<open>The daemon as a state machine\<close>

record daemon =
  dm_store :: store
  dm_file :: state_file
  dm_clock :: int
  dm_history :: "spend list"

text \<open>
  The steps, on a host whose clock never runs backward and whose state file nobody else touches: a
  request that is approved and charged (amounts with at most 18 decimals, a history the
  64 digits of the arithmetic can hold), a request that ends without a charge after its snapshot, and a
  restart of the daemon, whose new store loads the file.
\<close>

inductive daemon_step :: "bignum \<Rightarrow> policy \<Rightarrow> daemon \<Rightarrow> daemon \<Rightarrow> bool" for bn pol where
  authorize: "daemon_step bn pol D \<lparr>dm_store = st2, dm_file = file2, dm_clock = t2,
      dm_history = dm_history D @ [spend_of t2 e]\<rparr>"
    if "dm_clock D \<le> t1" "t1 \<le> t2"
      "judgeActionString s = Inr d"
      "snapshot bn t1 lf None (dm_store D) (dm_file D) = Inr (u, st1, file1)"
      "evaluatePolicy bn pol (d_action d) (Some (d_version d)) (d_params d) (Some u) = Some (Inr e)"
      "\<And>a. ev_amount e = Some a \<Longrightarrow> amount_text (js_string a)"
      "total_units (dm_history D @ [spend_of t2 e]) < 10 ^ 64"
      "record_spend bn t2 lf' (ev_action e) (ev_tick e) (ev_amount e) txid st1 file1 = Inr (st2, file2)"
| no_charge: "daemon_step bn pol D \<lparr>dm_store = st1, dm_file = file1, dm_clock = t1, dm_history = dm_history D\<rparr>"
    if "dm_clock D \<le> t1" "snapshot bn t1 lf None (dm_store D) (dm_file D) = Inr (u, st1, file1)"
| restart: "daemon_step bn pol D \<lparr>dm_store = st1, dm_file = file1, dm_clock = t1, dm_history = dm_history D\<rparr>"
    if "dm_clock D \<le> t1" "st_usage st0 = None" "st_hours st0 = st_hours (dm_store D)"
      "load bn t1 lf st0 (dm_file D) = Inr (w, st1, file1)"

inductive daemon_reach :: "bignum \<Rightarrow> policy \<Rightarrow> rat \<Rightarrow> daemon \<Rightarrow> bool" for bn pol W where
  boot: "daemon_reach bn pol W \<lparr>dm_store = st1, dm_file = file1, dm_clock = t, dm_history = []\<rparr>"
    if "st_usage st0 = None" "st_hours st0 * 3600 * 1000 = W" "load bn t lf st0 NoFile = Inr (w, st1, file1)"
| steps: "daemon_reach bn pol W D'" if "daemon_reach bn pol W D" "daemon_step bn pol D D'"

text \<open>The store and its file, both standing for the whole history.\<close>

definition store_rep :: "rat \<Rightarrow> store \<times> state_file \<Rightarrow> int \<Rightarrow> spend list \<Rightarrow> bool" where
  "store_rep W s T H \<longleftrightarrow>
     st_hours (fst s) * 3600 * 1000 = W
     \<and> (\<exists>w. st_usage (fst s) = Some w \<and> represents W T (w_entries w) H)
     \<and> (\<exists>rows seen. snd s = Window_file (map JObj rows) seen \<and> represents W T rows H)"

definition store_look :: "bignum \<Rightarrow> int \<Rightarrow> store \<times> state_file \<Rightarrow> usage \<Rightarrow> store \<times> state_file \<Rightarrow> bool" where
  "store_look bn t s u s' \<longleftrightarrow> (\<exists>lf. snapshot bn t lf None (fst s) (snd s) = Inr (u, fst s', snd s'))"

definition store_charge :: "bignum \<Rightarrow> int \<Rightarrow> evaluation \<Rightarrow> store \<times> state_file \<Rightarrow> store \<times> state_file \<Rightarrow> bool" where
  "store_charge bn t e s s' \<longleftrightarrow>
     (\<exists>lf txid. record_spend bn t lf (ev_action e) (ev_tick e) (ev_amount e) txid (fst s) (snd s) = Inr (fst s', snd s'))"

lemma pruned_cached:
  assumes "st_usage st = Some w"
  shows "pruned bn now lf st file =
    Inr (w\<lparr>w_entries := filter (live st now) (w_entries w)\<rparr>,
         st\<lparr>st_usage := Some (w\<lparr>w_entries := filter (live st now) (w_entries w)\<rparr>)\<rparr>, file)"
  using assms by (simp add: pruned_def load_def Let_def)

lemma snapshot_cached:
  assumes "st_usage st = Some w" "snapshot bn now lf None st file = Inr (u, st1, file1)"
  shows "file1 = file" "st_hours st1 = st_hours st"
    "st_usage st1 = Some (w\<lparr>w_entries := filter (live st now) (w_entries w)\<rparr>)"
    "u_perTick u = fst (accumulate bn (filter (live st now) (w_entries w)) [])"
    "u_count u = length (filter (live st now) (w_entries w))"
  using assms(2)
  by (auto simp: snapshot_def pruned_cached [OF assms(1)] Let_def split: prod.splits)

lemma record_cached:
  assumes "st_usage st = Some w" "record_spend bn now lf action tick amt txid st file = Inr (st2, file2)"
  shows "st_hours st2 = st_hours st"
    "\<exists>w'. st_usage st2 = Some w' \<and> w_entries w' = filter (live st now) (w_entries w) @ [new_row now action tick amt txid]
       \<and> file2 = Window_file (map JObj (w_entries w')) (w_lastSeen w')"
  using assms(2)
  by (auto simp: record_spend_def pruned_cached [OF assms(1)] Let_def persist_def try_bind_Inr add_fault_def
      split: if_split_asm)

lemma boot_rep:
  assumes "st_usage st0 = None" "st_hours st0 * 3600 * 1000 = W" "load bn t lf st0 NoFile = Inr (w, st1, file1)"
  shows "store_rep W (st1, file1) t []"
  using assms
  by (auto simp: load_def Let_def try_bind_Inr persist_def store_rep_def represents_def split: if_split_asm)

lemma store_rep_later: "store_rep W s T H \<Longrightarrow> T \<le> t \<Longrightarrow> store_rep W s t H"
  unfolding store_rep_def using represents_later by blast

lemma store_look_rep:
  assumes "store_rep W s T H" "T \<le> t" "store_look bn t s u s'"
  shows "store_rep W s' t H"
proof -
  from store_rep_later [OF assms(1,2)] obtain w where i: "st_hours (fst s) * 3600 * 1000 = W"
      "st_usage (fst s) = Some w" "represents W t (w_entries w) H"
    by (auto simp: store_rep_def)
  from assms(3) obtain lf where "snapshot bn t lf None (fst s) (snd s) = Inr (u, fst s', snd s')"
    by (auto simp: store_look_def)
  note sn = snapshot_cached [OF i(2) this]
  with represents_prune(1) [OF i(3,1)] store_rep_later [OF assms(1,2)] i(1) show ?thesis
    by (auto simp: store_rep_def)
qed

lemma store_look_used:
  assumes "bn_exact bn" "store_rep W s T H" "T \<le> t" "total_units H < 10 ^ 64" "store_look bn t s u s'"
  shows "\<exists>used. windowUsedFor bn (u_perTick u) (JStr k) = Some used \<and> amount_text used
    \<and> amount_units used = authorised k W t H"
proof -
  from store_rep_later [OF assms(2,3)] obtain w where i: "st_hours (fst s) * 3600 * 1000 = W"
      "st_usage (fst s) = Some w" "represents W t (w_entries w) H"
    by (auto simp: store_rep_def)
  from assms(5) obtain lf where sn: "snapshot bn t lf None (fst s) (snd s) = Inr (u, fst s', snd s')"
    by (auto simp: store_look_def)
  define rows where "rows = filter (live (fst s) t) (w_entries w)"
  note sums = pruned_sums [OF i(3,1), folded rows_def]
  have wf: "\<forall>e\<in>set rows. wf_row e" using i(3) by (auto simp: rows_def represents_def good_row_def)
  have "rowsum (\<lambda>_. True) rows < 10 ^ 64" using sums(2) assms(4) by simp
  from snapshot_used [OF assms(1) wf this, of k] snapshot_cached(4) [OF i(2) sn, folded rows_def] sums(1) [of k]
  show ?thesis by auto
qed

lemma good_new_row:
  assumes "\<And>a. ev_amount e = Some a \<Longrightarrow> amount_text (js_string a)"
  shows "good_row t (new_row t (ev_action e) (ev_tick e) (ev_amount e) txid)"
    and "row_spend (new_row t (ev_action e) (ev_tick e) (ev_amount e) txid) = spend_of t e"
  using assms
  by (auto simp: good_row_def wf_row_def opt_val_def new_row_def get_prop_def spend_of_def row_spend_def
    bucket_key_def row_units_def split: option.splits)

lemma represents_append:
  assumes "represents W T rows H" "good_row T e"
  shows "represents W T (rows @ [e]) (H @ [row_spend e])"
  using assms by (auto simp: represents_def)

lemma store_charge_rep:
  assumes "store_rep W s T H" "T \<le> t" "store_charge bn t e s s'"
    and "\<And>a. ev_amount e = Some a \<Longrightarrow> amount_text (js_string a)"
  shows "store_rep W s' t (H @ [spend_of t e])"
proof -
  from store_rep_later [OF assms(1,2)] obtain w where i: "st_hours (fst s) * 3600 * 1000 = W"
      "st_usage (fst s) = Some w" "represents W t (w_entries w) H"
    by (auto simp: store_rep_def)
  from assms(3) obtain lf txid where
    r: "record_spend bn t lf (ev_action e) (ev_tick e) (ev_amount e) txid (fst s) (snd s) = Inr (fst s', snd s')"
    by (auto simp: store_charge_def)
  let ?row = "new_row t (ev_action e) (ev_tick e) (ev_amount e) txid"
  note g = good_new_row [of e t txid, OF assms(4)]
  from record_cached [OF i(2) r] obtain w' where w': "st_hours (fst s') = st_hours (fst s)"
      "st_usage (fst s') = Some w'" "w_entries w' = filter (live (fst s) t) (w_entries w) @ [?row]"
      "snd s' = Window_file (map JObj (w_entries w')) (w_lastSeen w')" by blast
  from represents_append [OF represents_prune(1) [OF i(3,1)] g(1)]
  have "represents W t (w_entries w') (H @ [spend_of t e])" by (simp add: w'(3) g(2))
  with w' i(1) show ?thesis
    unfolding store_rep_def
    by (intro conjI exI [of _ w'] exI [of _ "w_entries w'"] exI [of _ "w_lastSeen w'"]) simp_all
qed

interpretation cosigner: spending_window store_rep store_look store_charge
  by unfold_locales (fact store_look_rep, fact store_look_used, fact store_charge_rep)

lemma restart_rep:
  assumes "store_rep W (st, file) T H" "total_units H < 10 ^ 64" "bn_exact bn" "T \<le> t" "st_usage st0 = None"
    "st_hours st0 = st_hours st" "load bn t lf st0 file = Inr (w, st1, file1)"
  shows "store_rep W (st1, file1) t H"
proof -
  from assms(1) obtain rows seen where i: "st_hours st * 3600 * 1000 = W"
      "file = Window_file (map JObj rows) seen" "represents W T rows H"
    by (auto simp: store_rep_def)
  from i(3) have g: "\<forall>e\<in>set rows. good_row T e \<and> row_spend e \<in> set H"
    by (simp add: represents_def)
  then have "\<forall>e\<in>set rows. good_row T e" by blast
  note nc = no_clamp [OF this assms(4)]
  note ok = good_rows_load [OF assms(3) g assms(2)]
  have "file1 = file" "st_hours st1 = st_hours st0" "\<exists>w. st_usage st1 = Some w \<and> w_entries w = rows"
    using assms(5,7) by (auto simp: load_def i(2) ok applyClockGuards_def Let_def nc)
  with assms(6) i represents_later [OF i(3) assms(4)] show ?thesis by (auto simp: store_rep_def)
qed

section \<open>The budget is kept\<close>

definition daemon_inv :: "policy \<Rightarrow> rat \<Rightarrow> daemon \<Rightarrow> bool" where
  "daemon_inv pol W D \<longleftrightarrow>
     store_rep W (dm_store D, dm_file D) (dm_clock D) (dm_history D) \<and> total_units (dm_history D) < 10 ^ 64
     \<and> within_caps pol W (dm_clock D) (dm_history D)"

lemma step_inv:
  assumes "daemon_step bn pol D D'" "bn_exact bn" "daemon_inv pol W D"
  shows "daemon_inv pol W D'"
proof -
  from assms(3) have i: "store_rep W (dm_store D, dm_file D) (dm_clock D) (dm_history D)"
      "total_units (dm_history D) < 10 ^ 64" "within_caps pol W (dm_clock D) (dm_history D)"
    by (simp_all add: daemon_inv_def)
  from assms(1) show ?thesis
  proof cases
    case (authorize t1 t2 s d lf u st1 file1 e lf' txid st2 file2)
    have l: "store_look bn t1 (dm_store D, dm_file D) u (st1, file1)"
      using authorize(5) by (auto simp: store_look_def)
    have c: "store_charge bn t2 e (st1, file1) (st2, file2)" using authorize(9) by (auto simp: store_charge_def)
    have "within_caps pol W t2 (dm_history D @ [spend_of t2 e])"
      using cosigner.check_then_charge [OF assms(2) i(1,3) authorize(2,3) l authorize(6)
          judged_tick_text [OF authorize(4,6)] authorize(7,8)] .
    moreover have "store_rep W (st2, file2) t2 (dm_history D @ [spend_of t2 e])"
      by (rule cosigner.charge_after_look [OF i(1) authorize(2,3) l c authorize(7)])
    ultimately show ?thesis using authorize(1,8) by (simp add: daemon_inv_def)
  next
    case (no_charge t1 lf u st1 file1)
    then have "store_look bn t1 (dm_store D, dm_file D) u (st1, file1)" by (auto simp: store_look_def)
    with no_charge i store_look_rep within_caps_later show ?thesis by (simp add: daemon_inv_def)
  next
    case (restart t1 st0 lf w st1 file1)
    with restart_rep [OF i(1,2) assms(2) restart(2,3,4,5)] i within_caps_later show ?thesis
      by (simp add: daemon_inv_def)
  qed
qed

lemma reach_inv:
  assumes "daemon_reach bn pol W D" "bn_exact bn"
  shows "daemon_inv pol W D"
  using assms(1)
proof induction
  case (boot st0 t lf w st1 file1)
  then show ?case using boot_rep [OF boot] by (simp add: daemon_inv_def within_caps_empty total_units_def)
next
  case (steps D D')
  then show ?case using step_inv assms(2) by blast
qed

section \<open>The contract\<close>

text \<open>
  The spending window keeps its budget. For every run of the co-signer from its first start, through
  approved and charged requests, requests that end without a charge and restarts that reload the
  file (a clock that does not run backward, exact decimals): at every state the rows in
  memory and the rows on disk both stand for the complete authorization history, and for every token
  with a cap, in any spelling, what was authorised in the last \<open>hours\<close> is at most that cap.
\<close>

theorem window_budget_kept:
  assumes "daemon_reach bn pol W D" and "bn_exact bn"
  shows "(\<exists>w. st_usage (dm_store D) = Some w \<and> represents W (dm_clock D) (w_entries w) (dm_history D))
    \<and> (\<exists>rows seen. dm_file D = Window_file (map JObj rows) seen \<and> represents W (dm_clock D) rows (dm_history D))
    \<and> (\<forall>caps k c. window_caps pol = Some caps \<and> k \<noteq> ''*'' \<and> capFor (Some caps) (Some (JStr k)) = Some c
        \<and> isNonNegativeDecimal (js_string c)
        \<longrightarrow> of_nat (authorised k W (dm_clock D) (dm_history D)) / 10 ^ 18 \<le> dec_val (js_string c))"
  using reach_inv [OF assms] unfolding daemon_inv_def store_rep_def within_caps_def by auto

definition demo_store :: store where
  "demo_store = \<lparr>st_hours = 24, st_init = True, st_locked = False, st_nonce = ''n'', st_usage = None,
     st_quarantined = [], st_faults = []\<rparr>"

definition demo_window :: window where
  "demo_window = \<lparr>w_entries = [], w_lastSeen = JInt 1000\<rparr>"

definition demo_rows :: "row list" where
  "demo_rows = [new_row 2000 ''SEND'' (Some (JStr ''JDOG'')) (Some (JStr ''5'')) JUndef]"

definition demo_daemon :: daemon where
  "demo_daemon = \<lparr>dm_store = demo_store\<lparr>st_usage := Some \<lparr>w_entries = demo_rows, w_lastSeen = JInt 2000\<rparr>\<rparr>,
     dm_file = Window_file (map JObj demo_rows) (JInt 2000), dm_clock = 2000, dm_history = [demo_spend]\<rparr>"

lemma demo_boot:
  "daemon_reach demo_bn demo_cap_policy 86400000
     \<lparr>dm_store = demo_store\<lparr>st_usage := Some demo_window\<rparr>, dm_file = Window_file [] (JInt 1000), dm_clock = 1000,
      dm_history = []\<rparr>"
proof (rule daemon_reach.boot)
  show "st_usage demo_store = None" "st_hours demo_store * 3600 * 1000 = 86400000"
    by (simp_all add: demo_store_def)
  show "load demo_bn 1000 No_lock demo_store NoFile
      = Inr (demo_window, demo_store\<lparr>st_usage := Some demo_window\<rparr>, Window_file [] (JInt 1000))"
    by (simp add: load_def demo_store_def persist_def assertLockOwned_def demo_window_def Let_def)
qed


lemma demo_step:
  "daemon_step demo_bn demo_cap_policy
     \<lparr>dm_store = demo_store\<lparr>st_usage := Some demo_window\<rparr>, dm_file = Window_file [] (JInt 1000), dm_clock = 1000,
      dm_history = []\<rparr> demo_daemon"
proof -
  let ?D = "\<lparr>dm_store = demo_store\<lparr>st_usage := Some demo_window\<rparr>, dm_file = Window_file [] (JInt 1000),
    dm_clock = 1000, dm_history = []\<rparr>"
  have add: "addable demo_bn (JStr ''5'')" by (simp add: addable_def addDecimal_def demo_add)
  have s: "snapshot demo_bn 2000 No_lock None (dm_store ?D) (dm_file ?D)
      = Inr (\<lparr>u_count = 0, u_perTick = []\<rparr>, dm_store ?D, dm_file ?D)"
    by (simp add: snapshot_def pruned_def load_def demo_window_def Let_def demo_store_def)
  have r: "record_spend demo_bn 2000 No_lock (ev_action demo_evaluation) (ev_tick demo_evaluation)
      (ev_amount demo_evaluation) JUndef (dm_store ?D) (dm_file ?D)
      = Inr (dm_store demo_daemon, dm_file demo_daemon)"
    by (simp add: record_spend_def pruned_def load_def demo_window_def Let_def demo_store_def assertLockOwned_def
      newest_def demo_evaluation_def add persist_def demo_daemon_def demo_rows_def last_seen_def finite_number_def)
  show ?thesis
    unfolding demo_daemon_def
    using daemon_step.authorize [OF _ _ judge_demo s, of 2000 demo_cap_policy demo_evaluation No_lock JUndef] r
      demo_cap_approved demo_spend_of demo_amounts(1)
    by (simp add: demo_judged_def demo_daemon_def demo_evaluation_def)
qed

theorem window_budget_kept_witness:
  "of_nat (authorised ''jdog'' 86400000 2000 [demo_spend]) / 10 ^ 18 \<le> (100 :: rat)
    \<and> authorised ''jdog'' 86400000 2000 [demo_spend] = 5 * 10 ^ 18"
proof -
  have w: "window_caps demo_cap_policy = Some [(''JDOG'', JInt 100)]"
    by (simp add: window_caps_def demo_cap_policy_def)
  have c: "capFor (Some [(''JDOG'', JInt 100)]) (Some (JStr ''jdog'')) = Some (JInt 100)"
    and k: "counted ''jdog'' ''JDOG''" and d: "isNonNegativeDecimal (js_string (JInt 100))" by code_simp+
  have a: "authorised ''jdog'' 86400000 2000 [demo_spend] = 5 * 10 ^ 18"
    using k by (simp add: authorised_def in_window_def demo_spend_def)
  have "of_nat (authorised ''jdog'' 86400000 2000 [demo_spend]) / 10 ^ 18 \<le> dec_val (js_string (JInt 100))"
    using window_budget_kept [OF daemon_reach.steps [OF demo_boot demo_step] demo_bn_exact, THEN conjunct2,
        THEN conjunct2, rule_format, of "[(''JDOG'', JInt 100)]" "''jdog''" "JInt 100"] w c d
    by (simp add: demo_daemon_def)
  with a show ?thesis by (simp add: demo_cap_checks(5) demo_amounts)
qed

end
