(* ===== verification/CoSigner.thy ===== *)
theory CoSigner
  imports WindowBudget Envelope
begin

text \<open>
  The co-signer's decision: \<open>cosigner/co_signer.js\<close> with \<open>co_signer/constructor_setup.js\<close> (limits and
  allow-list), \<open>output_policy.js\<close>, \<open>request_preparation.js\<close>, \<open>request_signing.js\<close> and
  \<open>sign_request.js\<close>, and \<open>policy/sighash_policy.js\<close>.

  \<^item> The keys are configured: the record holds the account script, the internal key and the tweaks the
    constructor derives. A value is a Number or a BigInt.
  \<^item> The window store and its file are threaded through; \<open>host n\<close> is the clock and the lock file the
    n-th use of the store meets. An exception of the store or of the evaluator leaves \<open>process\<close>.
  \<^item> A decision names the spend it handed to the window store, next to what the caller sees.
\<close>

section \<open>Configuration and requests\<close>

record output_cap =
  oc_script :: bytes
  oc_maxValue :: nat

record output_entry =
  oe_script :: "bufarg option"
  oe_address :: "string option"
  oe_maxValue :: jsval

record co_signer =
  cs_policy :: policy
  cs_internal :: bytes
  cs_recovery :: "recovery_leaves option"
  cs_account :: bytes
  cs_tweaks :: "tweak list"
  cs_allowed :: "output_cap list"
  cs_maxFeeSats :: "nat option"
  cs_maxCosignInputs :: nat
  cs_allowConfirmable :: bool
  cs_hasStore :: bool

record input_request =
  iq_index :: jsval
  iq_nonce :: "bufarg option"

record sign_request =
  rq_psbt :: psbt_arg
  rq_inputs :: "input_request list option"
  rq_sighash :: jsval
  rq_envelope :: "bufarg option"

datatype denial =
    PSBT_PARSE_FAILED
  | NO_PSBT
  | NO_INPUTS_REQUESTED
  | TOO_MANY_INPUTS
  | INPUT_INDEX_OUT_OF_RANGE jsval
  | DUPLICATE_INPUT_INDEX nat
  | MIXED_INPUT_SCRIPTS nat
  | ENVELOPE_SCRIPT_INVALID
  | ENVELOPE_NOT_COMMITTED
  | DECODE_REFUSED refusal
  | POLICY_DENIED violation
  | CONFIRMATION_REQUIRED
  | PREVOUT_NOT_OUR_ACCOUNT nat
  | SOURCE_NOT_OUR_ACCOUNT
  | CANNOT_CHECK_OUTPUTS
  | ENVELOPE_MIXED_CARRIER nat
  | OP_RETURN_CARRIES_VALUE nat
  | ENVELOPE_COMMIT_UNBOUNDED
  | OUTPUT_OVER_CAP nat
  | UNAUTHORIZED_OUTPUT nat
  | CANNOT_CHECK_FEE
  | OUTPUTS_EXCEED_INPUTS
  | FEE_BURNS_ENTIRE_INPUT
  | FEE_EXCEEDS_CAP
  | SIGHASH_TYPE_NOT_ALLOWED
  | CANNOT_DERIVE_SIGHASH
  | SIGN_FAILED

datatype thrown = Window_threw window_error | Evaluator_threw

section \<open>Satoshi values\<close>

definition exactU64 :: "jsval \<Rightarrow> nat option" where
  "exactU64 v =
     (case v of
        JBig i \<Rightarrow> if 0 \<le> i then Some (nat i) else None
      | JInt i \<Rightarrow> if 0 \<le> i \<and> i \<le> MAX_SAFE_INTEGER then Some (nat i) else None
      | JStr s \<Rightarrow> if all_digits (js_trim s) then Some (nat_of_digits (js_trim s)) else None
      | _ \<Rightarrow> None)"

definition toU64 :: "jsval \<Rightarrow> int option" where
  "toU64 v = (case v of JBig i \<Rightarrow> Some i | JInt i \<Rightarrow> if 0 \<le> i then Some i else None | _ \<Rightarrow> None)"

definition positive_value :: "jsval \<Rightarrow> bool" where
  "positive_value v = (case v of JBig i \<Rightarrow> 0 < i | JInt i \<Rightarrow> 0 < i | _ \<Rightarrow> False)"

section \<open>The output gate\<close>

definition OP_DUP :: nat where "OP_DUP = 118"
definition OP_HASH160 :: nat where "OP_HASH160 = 169"
definition OP_EQUALVERIFY :: nat where "OP_EQUALVERIFY = 136"
definition OP_EQUAL :: nat where "OP_EQUAL = 135"

definition push_of :: "nat list \<Rightarrow> chunk \<Rightarrow> bool" where
  "push_of ns c = (case c of Push b \<Rightarrow> length b \<in> set ns | Opcode n \<Rightarrow> False)"

text \<open>\<open>OP_0\<close> and \<open>OP_1\<close> are the opcodes 0 and 81.\<close>

definition isStandardPaymentScript :: "(bytes \<Rightarrow> chunk list option) \<Rightarrow> bytes \<Rightarrow> bool" where
  "isStandardPaymentScript dec script =
     (case dec script of
        Some [a, b, c, d, e] \<Rightarrow>
          a = Opcode OP_DUP \<and> b = Opcode OP_HASH160 \<and> push_of [20] c \<and> d = Opcode OP_EQUALVERIFY \<and> e = Opcode OP_CHECKSIG
      | Some [a, b, c] \<Rightarrow> a = Opcode OP_HASH160 \<and> push_of [20] b \<and> c = Opcode OP_EQUAL
      | Some [a, b] \<Rightarrow> (a = Opcode 0 \<and> push_of [20, 32] b) \<or> (a = Opcode 81 \<and> push_of [32] b)
      | _ \<Rightarrow> False)"

text \<open>
  One entry of the operator's list; \<open>None\<close> for the entries the constructor throws on. An empty
  script text counts as absent.
\<close>

definition entry_script :: "services \<Rightarrow> output_entry \<Rightarrow> bytes option" where
  "entry_script sv ent =
     (if oe_script ent \<noteq> None \<and> oe_script ent \<noteq> Some (Hex []) then map_option toBuf (oe_script ent)
      else Option.bind (oe_address ent) (sv_address sv))"

definition normalizeAllowedOutput :: "services \<Rightarrow> output_entry \<Rightarrow> output_cap option" where
  "normalizeAllowedOutput sv ent =
     (case entry_script sv ent of
        None \<Rightarrow> None
      | Some script \<Rightarrow>
          if \<not> isStandardPaymentScript (sv_decompile sv) script \<or> is_nullish (oe_maxValue ent) then None
          else map_option (\<lambda>m. \<lparr>oc_script = script, oc_maxValue = m\<rparr>) (exactU64 (oe_maxValue ent)))"

fun normalizeAllowedOutputs :: "services \<Rightarrow> output_entry list \<Rightarrow> output_cap list option" where
  "normalizeAllowedOutputs sv [] = Some []"
| "normalizeAllowedOutputs sv (e # es) =
     (case normalizeAllowedOutput sv e of
        None \<Rightarrow> None
      | Some c \<Rightarrow> map_option (\<lambda>cs. c # cs) (normalizeAllowedOutputs sv es))"

text \<open>\<open>None\<close> when the output is no data carrier, \<open>Some None\<close> for a carrier that may pass.\<close>

definition inspectDataCarrier ::
  "(bytes \<Rightarrow> chunk list option) \<Rightarrow> tx_out \<Rightarrow> nat \<Rightarrow> envelope option \<Rightarrow> denial option option" where
  "inspectDataCarrier dec out i env =
     (case dec (to_script out) of
        Some (c # cs) \<Rightarrow>
          if c \<noteq> Opcode OP_RETURN then None
          else if env \<noteq> None then Some (Some (ENVELOPE_MIXED_CARRIER i))
          else if positive_value (to_value out) then Some (Some (OP_RETURN_CARRIES_VALUE i))
          else Some None
      | _ \<Rightarrow> None)"

definition checkEnvelopeCommitOutput :: "co_signer \<Rightarrow> tx_out \<Rightarrow> nat \<Rightarrow> nat \<Rightarrow> denial option" where
  "checkEnvelopeCommitOutput cs out i seen =
     (if 0 < seen then Some (UNAUTHORIZED_OUTPUT i)
      else case cs_maxFeeSats cs of
          None \<Rightarrow> Some ENVELOPE_COMMIT_UNBOUNDED
        | Some m \<Rightarrow> (case toU64 (to_value out) of
                      None \<Rightarrow> Some (OUTPUT_OVER_CAP i)
                    | Some v \<Rightarrow> if int m < v then Some (OUTPUT_OVER_CAP i) else None))"

definition checkAllowedOutput :: "tx_out \<Rightarrow> nat \<Rightarrow> output_cap \<Rightarrow> int \<Rightarrow> denial + int" where
  "checkAllowedOutput out i cap used =
     (case toU64 (to_value out) of
        None \<Rightarrow> Inl (OUTPUT_OVER_CAP i)
      | Some v \<Rightarrow> if int (oc_maxValue cap) < used + v then Inl (OUTPUT_OVER_CAP i) else Inr (used + v))"

text \<open>The first entry of the list with the script, by its position, which is its identity.\<close>

definition match_entry :: "co_signer \<Rightarrow> bytes \<Rightarrow> nat option" where
  "match_entry cs script = find_index (\<lambda>c. oc_script c = script) (cs_allowed cs)"

fun output_loop ::
  "(bytes \<Rightarrow> chunk list option) \<Rightarrow> co_signer \<Rightarrow> bytes \<Rightarrow> envelope option \<Rightarrow> nat \<Rightarrow> (nat \<Rightarrow> int) \<Rightarrow> nat \<Rightarrow> tx_out list
     \<Rightarrow> denial option" where
  "output_loop dec cs account env i used seen [] = None"
| "output_loop dec cs account env i used seen (out # outs) =
     (case inspectDataCarrier dec out i env of
        Some (Some d) \<Rightarrow> Some d
      | Some None \<Rightarrow> output_loop dec cs account env (Suc i) used seen outs
      | None \<Rightarrow>
          if to_script out = account then output_loop dec cs account env (Suc i) used seen outs
          else if (case env of Some e \<Rightarrow> en_role e = Commit \<and> to_script out = cm_output (en_commit e) | None \<Rightarrow> False)
          then (case checkEnvelopeCommitOutput cs out i seen of
                  Some d \<Rightarrow> Some d
                | None \<Rightarrow> output_loop dec cs account env (Suc i) used (Suc seen) outs)
          else (case match_entry cs (to_script out) of
                  None \<Rightarrow> Some (UNAUTHORIZED_OUTPUT i)
                | Some k \<Rightarrow> (case checkAllowedOutput out i (cs_allowed cs ! k) (used k) of
                              Inl d \<Rightarrow> Some d
                            | Inr sum1 \<Rightarrow> output_loop dec cs account env (Suc i) (used(k := sum1)) seen outs)))"

definition checkOutputs ::
  "(bytes \<Rightarrow> chunk list option) \<Rightarrow> co_signer \<Rightarrow> psbt \<Rightarrow> nat \<Rightarrow> envelope option \<Rightarrow> denial option" where
  "checkOutputs dec cs p idx env =
     (case witness_at p idx of
        None \<Rightarrow> Some CANNOT_CHECK_OUTPUTS
      | Some w \<Rightarrow>
          output_loop dec cs (if env \<noteq> None then cs_account cs else w_script w) env 0 (\<lambda>_. 0) 0 (px_outputs p))"

section \<open>The fee gate\<close>

fun sum_values :: "jsval option list \<Rightarrow> int option" where
  "sum_values [] = Some 0"
| "sum_values (v # vs) =
     (case Option.bind v toU64 of
        None \<Rightarrow> None
      | Some x \<Rightarrow> map_option (\<lambda>s. x + s) (sum_values vs))"

definition checkFee :: "co_signer \<Rightarrow> psbt \<Rightarrow> denial option" where
  "checkFee cs p =
     (case sum_values (map (\<lambda>i. map_option w_value (ti_witness i)) (px_inputs p)) of
        None \<Rightarrow> Some CANNOT_CHECK_FEE
      | Some totalIn \<Rightarrow>
          (case sum_values (map (\<lambda>out. Some (to_value out)) (px_outputs p)) of
             None \<Rightarrow> Some CANNOT_CHECK_FEE
           | Some totalOut \<Rightarrow>
               let fee = totalIn - totalOut in
               if fee < 0 then Some OUTPUTS_EXCEED_INPUTS
               else if 0 < totalIn \<and> totalOut = 0 then Some FEE_BURNS_ENTIRE_INPUT
               else case cs_maxFeeSats cs of
                   None \<Rightarrow> None
                 | Some m \<Rightarrow> if int m < fee then Some FEE_EXCEEDS_CAP else None))"

section \<open>The prevout and source gates\<close>

fun checkPrevouts :: "bytes \<Rightarrow> psbt \<Rightarrow> nat list \<Rightarrow> denial option" where
  "checkPrevouts expected p [] = None"
| "checkPrevouts expected p (i # is) =
     (case witness_at p i of
        None \<Rightarrow> Some CANNOT_CHECK_OUTPUTS
      | Some w \<Rightarrow> if w_script w \<noteq> expected then Some (PREVOUT_NOT_OUR_ACCOUNT i) else checkPrevouts expected p is)"

definition checkSource :: "bytes \<Rightarrow> psbt \<Rightarrow> nat list \<Rightarrow> denial option" where
  "checkSource expected p idxs =
     (if 0 \<notin> set idxs then Some SOURCE_NOT_OUR_ACCOUNT
      else case witness_at p 0 of
          None \<Rightarrow> Some SOURCE_NOT_OUR_ACCOUNT
        | Some w \<Rightarrow> if w_script w \<noteq> expected then Some SOURCE_NOT_OUR_ACCOUNT else None)"

section \<open>The constructor\<close>

record account_keys =
  ak_internal :: bytes
  ak_recovery :: "recovery_leaves option"
  ak_account :: bytes
  ak_tweaks :: "tweak list"

record config =
  cf_policy :: policy
  cf_hasStore :: bool
  cf_allowConfirmable :: jsval
  cf_allowedOutputs :: "output_entry list"
  cf_maxFeeSats :: jsval
  cf_maxCosignInputs :: jsval

definition DEFAULT_MAX_COSIGN_INPUTS :: nat where "DEFAULT_MAX_COSIGN_INPUTS = 32"

text \<open>\<open>None\<close> where the constructor throws; the outer option of \<open>fee_limit\<close> is that.\<close>

definition fee_limit :: "jsval \<Rightarrow> nat option option" where
  "fee_limit v = (if is_nullish v then Some None else map_option Some (exactU64 v))"

definition input_limit :: "jsval \<Rightarrow> nat option" where
  "input_limit v =
     (if is_nullish v then Some DEFAULT_MAX_COSIGN_INPUTS
      else case js_Number v of
          Num q \<Rightarrow> if of_int \<lfloor>q\<rfloor> = q \<and> 1 \<le> \<lfloor>q\<rfloor> then Some (nat \<lfloor>q\<rfloor>) else None
        | _ \<Rightarrow> None)"

definition validateActionCaps :: "policy \<Rightarrow> bool" where
  "validateActionCaps pol =
     (case p_maxPerAction pol of None \<Rightarrow> True | Some caps \<Rightarrow> list_all (\<lambda>(a, t). \<not> isCapInert a) caps)"

definition new_co_signer :: "services \<Rightarrow> account_keys \<Rightarrow> config \<Rightarrow> co_signer option" where
  "new_co_signer sv ak cf =
     (if p_maxPerWindow (cf_policy cf) \<noteq> None \<and> \<not> cf_hasStore cf then None
      else if \<not> validateActionCaps (cf_policy cf) then None
      else case normalizeAllowedOutputs sv (cf_allowedOutputs cf) of
          None \<Rightarrow> None
        | Some outs \<Rightarrow>
            (case (fee_limit (cf_maxFeeSats cf), input_limit (cf_maxCosignInputs cf)) of
               (Some fee, Some n) \<Rightarrow>
                 Some \<lparr>cs_policy = cf_policy cf, cs_internal = ak_internal ak, cs_recovery = ak_recovery ak,
                       cs_account = ak_account ak, cs_tweaks = ak_tweaks ak, cs_allowed = outs,
                       cs_maxFeeSats = fee, cs_maxCosignInputs = n,
                       cs_allowConfirmable = (cf_allowConfirmable cf = JBool True), cs_hasStore = cf_hasStore cf\<rparr>
             | _ \<Rightarrow> None))"

section \<open>Preparing the request\<close>

definition readRequest :: "services \<Rightarrow> co_signer \<Rightarrow> sign_request \<Rightarrow> denial + (psbt \<times> input_request list)" where
  "readRequest sv cs req =
     (case read_psbt sv (rq_psbt req) of
        None \<Rightarrow> Inl PSBT_PARSE_FAILED
      | Some None \<Rightarrow> Inl NO_PSBT
      | Some (Some p) \<Rightarrow>
          (case rq_inputs req of
             None \<Rightarrow> Inl NO_INPUTS_REQUESTED
           | Some ins \<Rightarrow>
               if ins = [] then Inl NO_INPUTS_REQUESTED
               else if cs_maxCosignInputs cs < length ins then Inl TOO_MANY_INPUTS
               else if cs_maxCosignInputs cs < length (px_inputs p) then Inl TOO_MANY_INPUTS
               else Inr (p, ins)))"

text \<open>The requested indexes as numbers, in order, with the account script of the first.\<close>

fun validate_loop :: "psbt \<Rightarrow> nat list \<Rightarrow> bytes option \<Rightarrow> jsval list \<Rightarrow> denial + nat list" where
  "validate_loop p seen acct [] = Inr seen"
| "validate_loop p seen acct (v # vs) =
     (case v of
        JInt i \<Rightarrow>
          if i < 0 \<or> int (length (px_inputs p)) \<le> i then Inl (INPUT_INDEX_OUT_OF_RANGE v)
          else if nat i \<in> set seen then Inl (DUPLICATE_INPUT_INDEX (nat i))
          else (case witness_at p (nat i) of
                  None \<Rightarrow> Inl CANNOT_CHECK_OUTPUTS
                | Some w \<Rightarrow>
                    (case acct of
                       None \<Rightarrow> validate_loop p (seen @ [nat i]) (Some (w_script w)) vs
                     | Some s \<Rightarrow> if w_script w \<noteq> s then Inl (MIXED_INPUT_SCRIPTS (nat i))
                                 else validate_loop p (seen @ [nat i]) acct vs))
      | _ \<Rightarrow> Inl (INPUT_INDEX_OUT_OF_RANGE v))"

definition validateInputs :: "psbt \<Rightarrow> input_request list \<Rightarrow> denial + nat list" where
  "validateInputs p ins = validate_loop p [] None (map iq_index ins)"

definition deriveEnvelope :: "services \<Rightarrow> co_signer \<Rightarrow> sign_request \<Rightarrow> psbt \<Rightarrow> denial + envelope option" where
  "deriveEnvelope sv cs req p =
     (case rq_envelope req of
        None \<Rightarrow> Inr None
      | Some arg \<Rightarrow>
          (case deriveEnvelopeCommit sv (cs_internal cs) (cs_recovery cs) (toBuf arg) of
             None \<Rightarrow> Inl ENVELOPE_SCRIPT_INVALID
           | Some c \<Rightarrow>
               (case classifyEnvelopeRole sv p c of
                  None \<Rightarrow> Inl ENVELOPE_NOT_COMMITTED
                | Some r \<Rightarrow> Inr (Some \<lparr>en_role = r, en_commit = c, en_script = toBuf arg\<rparr>))))"

definition has_role :: "role \<Rightarrow> envelope option \<Rightarrow> bool" where
  "has_role r env = (case env of Some e \<Rightarrow> en_role e = r | None \<Rightarrow> False)"

definition revealCommitTxid :: "psbt \<Rightarrow> jsval" where
  "revealCommitTxid p =
     (case px_inputs p of
        [] \<Rightarrow> JNull
      | inp # inps \<Rightarrow> if length (ti_hash inp) \<noteq> 32 then JNull else JStr (hex_encode (rev (ti_hash inp))))"

section \<open>Decoding and policy\<close>

type_synonym host = "nat \<Rightarrow> int \<times> lock_file"

definition window_of ::
  "bignum \<Rightarrow> host \<Rightarrow> co_signer \<Rightarrow> psbt \<Rightarrow> envelope option \<Rightarrow> store \<Rightarrow> state_file
     \<Rightarrow> window_error + (usage option \<times> store \<times> state_file)" where
  "window_of bn host cs p env st file =
     (if \<not> cs_hasStore cs then Inr (None, st, file)
      else try_bind (snapshot bn (fst (host 0)) (snd (host 0)) None st file) (\<lambda>(u, st1, file1).
        if has_role Reveal env
        then try_bind (snapshotExcludingTxid bn (fst (host 1)) (snd (host 1)) (revealCommitTxid p) st1 file1)
               (\<lambda>(adjusted, st2, file2).
                  Inr (Some (case adjusted of None \<Rightarrow> u | Some a \<Rightarrow> a), st2, file2))
        else Inr (Some u, st1, file1)))"

definition decode_request :: "services \<Rightarrow> psbt \<Rightarrow> envelope option \<Rightarrow> refusal + decoded_action" where
  "decode_request sv p env =
     (case env of
        Some e \<Rightarrow> if en_role e = Reveal then decodeActionFromPsbt sv (Psbt_object p)
                  else decodeEnvelopeAction sv (en_script e)
      | None \<Rightarrow> decodeActionFromPsbt sv (Psbt_object p))"

text \<open>The judgment of a decoded action: the evaluation, absent for a cancel; \<open>None\<close> when it throws.\<close>

definition judge_request ::
  "bignum \<Rightarrow> co_signer \<Rightarrow> decoded_action \<Rightarrow> usage option \<Rightarrow> envelope option \<Rightarrow> (denial + evaluation option) option" where
  "judge_request bn cs d u env =
     (if has_role Cancel env then Some (Inr None)
      else case evaluatePolicy bn (cs_policy cs) (d_action d) (Some (d_version d)) (d_params d) u of
          None \<Rightarrow> None
        | Some (Inl v) \<Rightarrow> Some (Inl (POLICY_DENIED v))
        | Some (Inr e) \<Rightarrow>
            if ev_confirm e \<and> \<not> cs_allowConfirmable cs then Some (Inl CONFIRMATION_REQUIRED)
            else Some (Inr (Some e)))"

definition evaluateRequest ::
  "bignum \<Rightarrow> services \<Rightarrow> host \<Rightarrow> co_signer \<Rightarrow> psbt \<Rightarrow> envelope option \<Rightarrow> store \<Rightarrow> state_file
     \<Rightarrow> thrown + ((denial + (decoded_action \<times> evaluation option)) \<times> store \<times> state_file)" where
  "evaluateRequest bn sv host cs p env st file =
     (case decode_request sv p env of
        Inl r \<Rightarrow> Inr (Inl (DECODE_REFUSED r), st, file)
      | Inr d \<Rightarrow>
          (case window_of bn host cs p env st file of
             Inl e \<Rightarrow> Inl (Window_threw e)
           | Inr (u, st1, file1) \<Rightarrow>
               (case judge_request bn cs d u env of
                  None \<Rightarrow> Inl Evaluator_threw
                | Some (Inl x) \<Rightarrow> Inr (Inl x, st1, file1)
                | Some (Inr e) \<Rightarrow> Inr (Inr (d, e), st1, file1))))"

section \<open>The transaction gates, in order\<close>

definition expected_script :: "co_signer \<Rightarrow> envelope option \<Rightarrow> bytes" where
  "expected_script cs env =
     (case env of
        Some e \<Rightarrow> if en_role e = Commit then cs_account cs else cm_output (en_commit e)
      | None \<Rightarrow> cs_account cs)"

text \<open>\<open>sighashAllowed\<close>: unspecified, or \<open>SIGHASH_DEFAULT\<close>.\<close>

definition sighashAllowed :: "jsval \<Rightarrow> bool" where
  "sighashAllowed t \<longleftrightarrow> t = JUndef \<or> t = JInt 0"

definition checkTransaction ::
  "services \<Rightarrow> co_signer \<Rightarrow> psbt \<Rightarrow> nat list \<Rightarrow> envelope option \<Rightarrow> sign_request \<Rightarrow> denial option" where
  "checkTransaction sv cs p idxs env req =
     (case checkPrevouts (expected_script cs env) p idxs of
        Some d \<Rightarrow> Some d
      | None \<Rightarrow>
          (case checkSource (expected_script cs env) p idxs of
             Some d \<Rightarrow> Some d
           | None \<Rightarrow>
               (case checkOutputs (sv_decompile sv) cs p (hd idxs) env of
                  Some d \<Rightarrow> Some d
                | None \<Rightarrow>
                    (case checkFee cs p of
                       Some d \<Rightarrow> Some d
                     | None \<Rightarrow> if sighashAllowed (rq_sighash req) then None else Some SIGHASH_TYPE_NOT_ALLOWED))))"

section \<open>Signing\<close>

record signature =
  sg_index :: nat
  sg_publicNonce :: string
  sg_sig :: string
  sg_msg :: string

definition key_path_message :: "services \<Rightarrow> psbt \<Rightarrow> nat \<Rightarrow> jsval \<Rightarrow> bytes option \<Rightarrow> bytes option" where
  "key_path_message sv p i t lh =
     (if \<not> sighashAllowed t \<or> length (px_inputs p) \<le> i then None
      else if list_ex (\<lambda>inp. ti_witness inp = None) (px_inputs p) then None
      else let ws = map (\<lambda>inp. the (ti_witness inp)) (px_inputs p) in
           Some (sv_sighash sv p i (map w_script ws) (map w_value ws) lh))"

definition taprootKeyPathSighash :: "services \<Rightarrow> psbt \<Rightarrow> nat \<Rightarrow> jsval \<Rightarrow> bytes option" where
  "taprootKeyPathSighash sv p i t = key_path_message sv p i t None"

definition envelopeScriptPathSighash :: "services \<Rightarrow> psbt \<Rightarrow> nat \<Rightarrow> jsval \<Rightarrow> bytes \<Rightarrow> bytes option" where
  "envelopeScriptPathSighash sv p i t lh =
     (if length lh \<noteq> 32 then None else key_path_message sv p i t (Some lh))"

definition signing_message :: "services \<Rightarrow> psbt \<Rightarrow> nat \<Rightarrow> envelope option \<Rightarrow> jsval \<Rightarrow> bytes option" where
  "signing_message sv p i env t =
     (case env of
        Some e \<Rightarrow> if en_role e = Reveal then envelopeScriptPathSighash sv p i t (cm_leafHash (en_commit e))
                  else taprootKeyPathSighash sv p i t
      | None \<Rightarrow> taprootKeyPathSighash sv p i t)"

fun sign_loop ::
  "services \<Rightarrow> psbt \<Rightarrow> tweak list \<Rightarrow> envelope option \<Rightarrow> jsval \<Rightarrow> (nat \<times> bufarg option) list \<Rightarrow> denial + signature list" where
  "sign_loop sv p ts env t [] = Inr []"
| "sign_loop sv p ts env t ((i, nonce) # its) =
     (case signing_message sv p i env t of
        None \<Rightarrow> Inl CANNOT_DERIVE_SIGHASH
      | Some msg \<Rightarrow>
          (case Option.bind nonce (\<lambda>n. sv_sign sv ts (toBuf n) msg) of
             None \<Rightarrow> Inl SIGN_FAILED
           | Some (pub, sig) \<Rightarrow>
               try_bind (sign_loop sv p ts env t its) (\<lambda>rest.
                 Inr (\<lparr>sg_index = i, sg_publicNonce = hex_encode pub, sg_sig = hex_encode sig, sg_msg = hex_encode msg\<rparr>
                      # rest))))"

definition signInputs ::
  "services \<Rightarrow> co_signer \<Rightarrow> psbt \<Rightarrow> nat list \<Rightarrow> input_request list \<Rightarrow> envelope option \<Rightarrow> jsval \<Rightarrow> denial + signature list" where
  "signInputs sv cs p idxs ins env t =
     sign_loop sv p (envelopeRoundTweaks env (cs_tweaks cs)) env t (zip idxs (map iq_nonce ins))"

section \<open>The request as a whole\<close>

record approval =
  ap_action :: string
  ap_signatures :: "signature list"
  ap_role :: "role option"

datatype outcome = Denied denial | Approved approval

record decision =
  de_outcome :: outcome
  de_charged :: "evaluation option"
  de_store :: store
  de_file :: state_file

definition recordBudget ::
  "bignum \<Rightarrow> services \<Rightarrow> host \<Rightarrow> co_signer \<Rightarrow> psbt \<Rightarrow> evaluation \<Rightarrow> store \<Rightarrow> state_file
     \<Rightarrow> window_error + (store \<times> state_file)" where
  "recordBudget bn sv host cs p e st file =
     (if \<not> cs_hasStore cs then Inr (st, file)
      else record_spend bn (fst (host 2)) (snd (host 2)) (ev_action e) (ev_tick e) (ev_amount e)
             (case sv_txid sv p of None \<Rightarrow> JNull | Some t \<Rightarrow> JStr t) st file)"

definition denied :: "denial \<Rightarrow> store \<Rightarrow> state_file \<Rightarrow> decision" where
  "denied d st file = \<lparr>de_outcome = Denied d, de_charged = None, de_store = st, de_file = file\<rparr>"

text \<open>The steps that read the request only: the transaction, the indexes and the envelope.\<close>

definition open_request ::
  "services \<Rightarrow> co_signer \<Rightarrow> sign_request \<Rightarrow> denial + (psbt \<times> input_request list \<times> nat list \<times> envelope option)" where
  "open_request sv cs req =
     try_bind (readRequest sv cs req) (\<lambda>(p, ins).
       try_bind (validateInputs p ins) (\<lambda>idxs.
         try_bind (deriveEnvelope sv cs req p) (\<lambda>env. Inr (p, ins, idxs, env))))"

text \<open>The steps after the evaluation: gates, signatures, and the one charge of the window.\<close>

definition finish_request ::
  "bignum \<Rightarrow> services \<Rightarrow> host \<Rightarrow> co_signer \<Rightarrow> sign_request \<Rightarrow> psbt \<Rightarrow> input_request list \<Rightarrow> nat list \<Rightarrow> envelope option
     \<Rightarrow> decoded_action \<Rightarrow> evaluation option \<Rightarrow> store \<Rightarrow> state_file \<Rightarrow> thrown + decision" where
  "finish_request bn sv host cs req p ins idxs env d e st file =
     (case checkTransaction sv cs p idxs env req of
        Some x \<Rightarrow> Inr (denied x st file)
      | None \<Rightarrow>
          (case signInputs sv cs p idxs ins env (rq_sighash req) of
             Inl x \<Rightarrow> Inr (denied x st file)
           | Inr sigs \<Rightarrow>
               let outcome = Approved \<lparr>ap_action = d_action d, ap_signatures = sigs, ap_role = map_option en_role env\<rparr>
               in (case (if env = None \<or> has_role Commit env then e else None) of
                     None \<Rightarrow> Inr \<lparr>de_outcome = outcome, de_charged = None, de_store = st, de_file = file\<rparr>
                   | Some ev \<Rightarrow>
                       (case recordBudget bn sv host cs p ev st file of
                          Inl x \<Rightarrow> Inl (Window_threw x)
                        | Inr (st', file') \<Rightarrow>
                            Inr \<lparr>de_outcome = outcome, de_charged = (if cs_hasStore cs then Some ev else None),
                                 de_store = st', de_file = file'\<rparr>))))"

definition process ::
  "bignum \<Rightarrow> services \<Rightarrow> host \<Rightarrow> co_signer \<Rightarrow> sign_request \<Rightarrow> store \<Rightarrow> state_file \<Rightarrow> thrown + decision" where
  "process bn sv host cs req st file =
     (case open_request sv cs req of
        Inl x \<Rightarrow> Inr (denied x st file)
      | Inr (p, ins, idxs, env) \<Rightarrow>
          try_bind (evaluateRequest bn sv host cs p env st file) (\<lambda>(r, st1, file1).
            case r of
              Inl x \<Rightarrow> Inr (denied x st1 file1)
            | Inr (d, e) \<Rightarrow> finish_request bn sv host cs req p ins idxs env d e st1 file1))"

end
