(* ===== verification/CoSignerRun.thy ===== *)
theory CoSignerRun
  imports CoSigner
begin

text \<open>
  What an approval of the co-signer guarantees: the inputs it signs, the most the account can lose,
  the one row it adds to the window, and the budget over every run of requests and restarts.
\<close>

section \<open>The requested inputs\<close>

lemma validate_loop_Inr:
  assumes "validate_loop p seen acct vs = Inr idxs" "distinct seen" "\<forall>i\<in>set seen. i < length (px_inputs p)"
  shows "distinct idxs \<and> (\<forall>i\<in>set idxs. i < length (px_inputs p)) \<and> length idxs = length seen + length vs"
  using assms
proof (induction vs arbitrary: seen acct)
  case Nil
  then show ?case by simp
next
  case (Cons v vs)
  from Cons.prems(1) obtain i s where v: "v = JInt i" "0 \<le> i" "i < int (length (px_inputs p))" "nat i \<notin> set seen"
      and l: "validate_loop p (seen @ [nat i]) (Some s) vs = Inr idxs"
    by (auto split: jsval.splits if_split_asm option.splits)
  have "distinct (seen @ [nat i])" "\<forall>j\<in>set (seen @ [nat i]). j < length (px_inputs p)"
    using Cons.prems(2,3) v by auto
  from Cons.IH [OF l this] show ?case by simp
qed

lemma validateInputs_Inr:
  assumes "validateInputs p ins = Inr idxs"
  shows "distinct idxs" "\<forall>i\<in>set idxs. i < length (px_inputs p)" "length idxs = length ins"
  using validate_loop_Inr [OF assms [unfolded validateInputs_def]] by auto

lemma checkPrevouts_None:
  "checkPrevouts expected p idxs = None
     \<longleftrightarrow> (\<forall>i\<in>set idxs. \<exists>w. witness_at p i = Some w \<and> w_script w = expected)"
  by (induction idxs) (auto split: option.splits)

lemma checkSource_None: "checkSource expected p idxs = None \<Longrightarrow> 0 \<in> set idxs"
  by (auto simp: checkSource_def split: if_split_asm)

section \<open>Where the value goes\<close>

definition u64 :: "jsval \<Rightarrow> int" where
  "u64 v = (case toU64 v of None \<Rightarrow> 0 | Some i \<Rightarrow> i)"

definition in_value :: "tx_in \<Rightarrow> int" where
  "in_value inp = (case ti_witness inp of None \<Rightarrow> 0 | Some w \<Rightarrow> u64 (w_value w))"

definition out_value :: "tx_out \<Rightarrow> int" where
  "out_value out = u64 (to_value out)"

definition allowance :: "co_signer \<Rightarrow> int" where
  "allowance cs = (\<Sum>c\<leftarrow>cs_allowed cs. int (oc_maxValue c))"

text \<open>What the inputs the request signs hold, and what the outputs return to the account.\<close>

definition signed_value :: "psbt \<Rightarrow> nat list \<Rightarrow> int" where
  "signed_value p idxs = (\<Sum>i\<leftarrow>idxs. in_value (px_inputs p ! i))"

definition returned :: "bytes \<Rightarrow> psbt \<Rightarrow> int" where
  "returned account p = (\<Sum>out\<leftarrow>filter (\<lambda>out. to_script out = account) (px_outputs p). out_value out)"

lemma positive_value_u64: "\<not> positive_value v \<Longrightarrow> u64 v \<le> 0"
  by (auto simp: positive_value_def u64_def toU64_def split: jsval.splits)

lemma sum_values_Some: "sum_values vs = Some t \<Longrightarrow> t = (\<Sum>v\<leftarrow>vs. case v of None \<Rightarrow> 0 | Some x \<Rightarrow> u64 x)"
proof (induction vs arbitrary: t)
  case (Cons v vs)
  then show ?case by (cases v) (auto simp: u64_def split: option.splits)
qed simp

lemma find_index_bound: "find_index P xs = Some k \<Longrightarrow> k < length xs"
  by (induction xs arbitrary: k) (auto split: if_split_asm)

lemma match_entry_Some: "match_entry cs s = Some k \<Longrightarrow> k < length (cs_allowed cs)"
  unfolding match_entry_def by (rule find_index_bound)

definition room :: "co_signer \<Rightarrow> (nat \<Rightarrow> int) \<Rightarrow> int" where
  "room cs used = (\<Sum>k<length (cs_allowed cs). int (oc_maxValue (cs_allowed cs ! k)) - used k)"

lemma room_start: "room cs (\<lambda>k. 0) = allowance cs"
  by (simp add: room_def allowance_def sum_list_sum_nth atLeast0LessThan)

lemma room_spend:
  assumes "k < length (cs_allowed cs)"
  shows "room cs (used(k := used k + v)) = room cs used - v"
proof -
  have "room cs (used(k := used k + v))
      = (\<Sum>j<length (cs_allowed cs). (int (oc_maxValue (cs_allowed cs ! j)) - used j) - (if j = k then v else 0))"
    unfolding room_def by (rule sum.cong) auto
  also have "\<dots> = room cs used - v" using assms by (simp add: room_def sum_subtractf)
  finally show ?thesis .
qed

text \<open>
  The output loop. What leaves for scripts other than the account fits the room that is left, plus
  one commit output where one is still due.
\<close>

definition away :: "bytes \<Rightarrow> tx_out list \<Rightarrow> int" where
  "away account outs = (\<Sum>out\<leftarrow>filter (\<lambda>out. to_script out \<noteq> account) outs. out_value out)"

definition commit_room :: "envelope option \<Rightarrow> nat \<Rightarrow> nat \<Rightarrow> int" where
  "commit_room env m seen = (if has_role Commit env \<and> seen = 0 then int m else 0)"

lemma commit_room_nonneg [simp]: "0 \<le> commit_room env m seen"
  by (simp add: commit_room_def)

lemma room_nonneg:
  "\<forall>k<length (cs_allowed cs). used k \<le> int (oc_maxValue (cs_allowed cs ! k)) \<Longrightarrow> 0 \<le> room cs used"
  unfolding room_def by (rule sum_nonneg) simp

lemma output_loop_bounds:
  assumes "output_loop dec cs account env i used seen outs = None" and "cs_maxFeeSats cs = Some m"
    and "\<forall>k<length (cs_allowed cs). used k \<le> int (oc_maxValue (cs_allowed cs ! k))"
    and "\<forall>out\<in>set outs. 0 \<le> out_value out"
  shows "away account outs \<le> room cs used + commit_room env m seen"
  using assms(1,3,4)
proof (induction outs arbitrary: i used seen)
  case Nil
  then show ?case using room_nonneg [of cs used] by (simp add: away_def add_nonneg_nonneg)
next
  case (Cons out outs)
  have nn: "0 \<le> out_value out" "\<forall>out\<in>set outs. 0 \<le> out_value out" using Cons.prems(3) by auto
  have a: "away account (out # outs) = (if to_script out = account then 0 else out_value out) + away account outs"
    by (simp add: away_def)
  show ?case
  proof (cases "inspectDataCarrier dec out i env")
    case (Some d)
    with Cons.prems(1) have d: "d = None" and l: "output_loop dec cs account env (Suc i) used seen outs = None"
      by (auto split: option.splits)
    from Some d have "\<not> positive_value (to_value out)"
      by (auto simp: inspectDataCarrier_def split: option.splits list.splits if_split_asm)
    then have "out_value out \<le> 0" unfolding out_value_def by (rule positive_value_u64)
    with Cons.IH [OF l Cons.prems(2) nn(2)] nn(1) a show ?thesis by simp
  next
    case None
    note notCarrier = this
    show ?thesis
    proof (cases "to_script out = account")
      case True
      with Cons.prems(1) None have "output_loop dec cs account env (Suc i) used seen outs = None" by simp
      from Cons.IH [OF this Cons.prems(2) nn(2)] True a show ?thesis by simp
    next
      case False
      note away = this
      let ?c = "case env of Some e \<Rightarrow> en_role e = Commit \<and> to_script out = cm_output (en_commit e) | None \<Rightarrow> False"
      show ?thesis
      proof (cases ?c)
        case True
        with Cons.prems(1) None away have ck: "checkEnvelopeCommitOutput cs out i seen = None"
          and l: "output_loop dec cs account env (Suc i) used (Suc seen) outs = None"
          by (auto split: option.splits)
        have r: "has_role Commit env" using True by (auto simp: has_role_def split: option.splits)
        from ck assms(2) have "seen = 0" "out_value out \<le> int m"
          by (auto simp: checkEnvelopeCommitOutput_def out_value_def u64_def split: if_split_asm option.splits)
        with Cons.IH [OF l Cons.prems(2) nn(2)] r away a show ?thesis by (simp add: commit_room_def)
      next
        case False
        with Cons.prems(1) None away obtain k t where k: "match_entry cs (to_script out) = Some k"
          and ck: "checkAllowedOutput out i (cs_allowed cs ! k) (used k) = Inr t"
          and l: "output_loop dec cs account env (Suc i) (used(k := t)) seen outs = None"
          by (auto split: option.splits sum.splits)
        from ck have t: "t = used k + out_value out" "t \<le> int (oc_maxValue (cs_allowed cs ! k))"
          by (auto simp: checkAllowedOutput_def out_value_def u64_def split: option.splits if_split_asm)
        have "\<forall>j<length (cs_allowed cs). (used(k := t)) j \<le> int (oc_maxValue (cs_allowed cs ! j))"
          using Cons.prems(2) t(2) by simp
        from Cons.IH [OF l this nn(2)] room_spend [OF match_entry_Some [OF k], of used "out_value out"] t(1) away a
        show ?thesis by (simp del: fun_upd_apply)
      qed
    qed
  qed
qed

section \<open>What an approval went through\<close>

lemma open_request_Inr:
  assumes "open_request sv cs req = Inr (p, ins, idxs, env)"
  shows "validateInputs p ins = Inr idxs" "deriveEnvelope sv cs req p = Inr env"
  using assms by (auto simp: open_request_def try_bind_Inr)

lemma evaluateRequest_Inr:
  assumes "evaluateRequest bn sv host cs p env st file = Inr (Inr (d, e), st1, file1)"
  shows "decode_request sv p env = Inr d"
    "\<exists>u. window_of bn host cs p env st file = Inr (u, st1, file1) \<and> judge_request bn cs d u env = Some (Inr e)"
  using assms by (auto simp: evaluateRequest_def split: sum.splits option.splits prod.splits)

lemma judge_request_Inr:
  "judge_request bn cs d u env = Some (Inr e) \<longleftrightarrow>
     (if has_role Cancel env then e = None
      else \<exists>v. e = Some v \<and> (ev_confirm v \<longrightarrow> cs_allowConfirmable cs)
        \<and> evaluatePolicy bn (cs_policy cs) (d_action d) (Some (d_version d)) (d_params d) u = Some (Inr v))"
proof (cases "evaluatePolicy bn (cs_policy cs) (d_action d) (Some (d_version d)) (d_params d) u")
  case (Some r)
  then show ?thesis by (cases r) (auto simp: judge_request_def)
qed (auto simp: judge_request_def)

lemma process_opened:
  assumes "process bn sv host cs req st file = Inr R" "open_request sv cs req = Inr (p, ins, idxs, env)"
  shows "(\<exists>x st1 file1. evaluateRequest bn sv host cs p env st file = Inr (Inl x, st1, file1) \<and> R = denied x st1 file1)
    \<or> (\<exists>d e st1 file1. evaluateRequest bn sv host cs p env st file = Inr (Inr (d, e), st1, file1)
        \<and> finish_request bn sv host cs req p ins idxs env d e st1 file1 = Inr R)"
proof (cases "evaluateRequest bn sv host cs p env st file")
  case (Inl t)
  with assms show ?thesis by (simp add: process_def)
next
  case (Inr x)
  then obtain r st1 file1 where r: "evaluateRequest bn sv host cs p env st file = Inr (r, st1, file1)" by (cases x) auto
  with assms show ?thesis by (cases r) (auto simp: process_def)
qed

lemma finish_approved:
  assumes "finish_request bn sv host cs req p ins idxs env d e st file = Inr R" "de_outcome R = Approved a"
  shows "checkTransaction sv cs p idxs env req = None"
    "signInputs sv cs p idxs ins env (rq_sighash req) = Inr (ap_signatures a)"
    "ap_action a = d_action d" "ap_role a = map_option en_role env"
proof -
  show t: "checkTransaction sv cs p idxs env req = None"
    using assms by (cases "checkTransaction sv cs p idxs env req") (auto simp: finish_request_def denied_def)
  then obtain sigs where s: "signInputs sv cs p idxs ins env (rq_sighash req) = Inr sigs"
    using assms
    by (cases "signInputs sv cs p idxs ins env (rq_sighash req)") (auto simp: finish_request_def denied_def)
  have "a = \<lparr>ap_action = d_action d, ap_signatures = sigs, ap_role = map_option en_role env\<rparr>"
    using assms t s
    by (auto simp: finish_request_def Let_def split: option.split_asm sum.split_asm prod.split_asm if_split_asm)
  with s show "signInputs sv cs p idxs ins env (rq_sighash req) = Inr (ap_signatures a)"
    "ap_action a = d_action d" "ap_role a = map_option en_role env" by simp_all
qed

lemma approved_parts:
  assumes "process bn sv host cs req st file = Inr R" "de_outcome R = Approved a"
    and "open_request sv cs req = Inr (p, ins, idxs, env)"
  obtains d e st1 file1 where "evaluateRequest bn sv host cs p env st file = Inr (Inr (d, e), st1, file1)"
    "finish_request bn sv host cs req p ins idxs env d e st1 file1 = Inr R"
  using process_opened [OF assms(1,3)] assms(2) by (auto simp: denied_def)

lemma sign_loop_indexes:
  "sign_loop sv p ts env t its = Inr sigs \<Longrightarrow> map sg_index sigs = map fst its"
proof (induction its arbitrary: sigs)
  case (Cons it its)
  obtain i n where it: "it = (i, n)" by (cases it)
  with Cons show ?case by (auto simp: try_bind_Inr split: option.splits)
qed simp

lemma checkFee_None:
  assumes "checkFee cs p = None" "cs_maxFeeSats cs = Some m"
  shows "(\<Sum>inp\<leftarrow>px_inputs p. in_value inp) - (\<Sum>out\<leftarrow>px_outputs p. out_value out) \<le> int m"
proof -
  from assms obtain tin tout where t: "sum_values (map (\<lambda>i. map_option w_value (ti_witness i)) (px_inputs p)) = Some tin"
      "sum_values (map (\<lambda>out. Some (to_value out)) (px_outputs p)) = Some tout" "tin - tout \<le> int m"
    by (auto simp: checkFee_def Let_def split: option.splits if_split_asm)
  have i: "(\<lambda>inp. case map_option w_value (ti_witness inp) of None \<Rightarrow> 0 | Some x \<Rightarrow> u64 x) = in_value"
    by (auto simp: in_value_def split: option.splits)
  have o: "(\<lambda>out. case Some (to_value out) of None \<Rightarrow> 0 | Some x \<Rightarrow> u64 x) = out_value"
    by (auto simp: out_value_def)
  from sum_values_Some [OF t(1)] sum_values_Some [OF t(2)] t(3) show ?thesis
    unfolding map_map comp_def i o by simp
qed

lemma signed_value_le:
  assumes "distinct idxs" "\<forall>i\<in>set idxs. i < length (px_inputs p)" "\<forall>inp\<in>set (px_inputs p). 0 \<le> in_value inp"
  shows "signed_value p idxs \<le> (\<Sum>inp\<leftarrow>px_inputs p. in_value inp)"
proof -
  have "signed_value p idxs = (\<Sum>i\<in>set idxs. in_value (px_inputs p ! i))"
    using assms(1) by (simp add: signed_value_def sum_list_distinct_conv_sum_set)
  also have "\<dots> \<le> (\<Sum>i<length (px_inputs p). in_value (px_inputs p ! i))"
    using assms(2,3) by (intro sum_mono2) auto
  also have "\<dots> = (\<Sum>inp\<leftarrow>px_inputs p. in_value inp)" by (simp add: sum_list_sum_nth atLeast0LessThan)
  finally show ?thesis .
qed

lemma away_returned: "(\<Sum>out\<leftarrow>outs. out_value out)
    = away account outs + (\<Sum>out\<leftarrow>filter (\<lambda>out. to_script out = account) outs. out_value out)"
  unfolding away_def by (induction outs) auto

lemma checked_transaction:
  assumes "checkTransaction sv cs p idxs env req = None"
  shows "0 \<in> set idxs" "\<forall>i\<in>set idxs. \<exists>w. witness_at p i = Some w \<and> w_script w = expected_script cs env"
    "checkFee cs p = None" "sighashAllowed (rq_sighash req)"
    "output_loop (sv_decompile sv) cs (cs_account cs) env 0 (\<lambda>k. 0) 0 (px_outputs p) = None"
proof -
  have c: "checkPrevouts (expected_script cs env) p idxs = None" "checkSource (expected_script cs env) p idxs = None"
      "checkOutputs (sv_decompile sv) cs p (hd idxs) env = None"
    and "checkFee cs p = None" "sighashAllowed (rq_sighash req)"
    using assms by (auto simp: checkTransaction_def split: option.splits if_split_asm)
  then show "checkFee cs p = None" "sighashAllowed (rq_sighash req)" by simp_all
  show z: "0 \<in> set idxs" using c(2) by (rule checkSource_None)
  show w: "\<forall>i\<in>set idxs. \<exists>w. witness_at p i = Some w \<and> w_script w = expected_script cs env"
    using c(1) by (simp add: checkPrevouts_None)
  from z have "hd idxs \<in> set idxs" by (cases idxs) auto
  with w obtain x where "witness_at p (hd idxs) = Some x" "w_script x = expected_script cs env" by blast
  with c(3) show "output_loop (sv_decompile sv) cs (cs_account cs) env 0 (\<lambda>k. 0) 0 (px_outputs p) = None"
    by (cases env) (auto simp: checkOutputs_def expected_script_def)
qed

section \<open>The most an approval can cost the account\<close>

text \<open>
  C2: The anti-drain bound. When the co-signer approves a request, it signs exactly the distinct inputs
  requested, input 0 among them; every one of them spends the account's script (the derived commit
  output for a reveal or a cancel); the signature hash commits to every output; and what the signed
  inputs hold less what returns to the account is at most the sum of the operator's per-output
  caps, plus the fee cap, plus the fee cap once more when the request funds an envelope. The values
  are unsigned.
\<close>

theorem account_loss_bounded:
  assumes "process bn sv host cs req st file = Inr R" and "de_outcome R = Approved a"
    and "open_request sv cs req = Inr (p, ins, idxs, env)" and "cs_maxFeeSats cs = Some m"
    and "\<forall>inp\<in>set (px_inputs p). 0 \<le> in_value inp" and "\<forall>out\<in>set (px_outputs p). 0 \<le> out_value out"
  shows "map sg_index (ap_signatures a) = idxs \<and> distinct idxs \<and> 0 \<in> set idxs
    \<and> (\<forall>i\<in>set idxs. \<exists>w. witness_at p i = Some w \<and> w_script w = expected_script cs env)
    \<and> (rq_sighash req = JUndef \<or> rq_sighash req = JInt 0)
    \<and> signed_value p idxs - returned (cs_account cs) p
        \<le> allowance cs + int m + (if has_role Commit env then int m else 0)"
proof -
  obtain d e st1 file1 where "finish_request bn sv host cs req p ins idxs env d e st1 file1 = Inr R"
    by (rule approved_parts [OF assms(1-3)])
  note f = finish_approved [OF this assms(2)]
  note t = checked_transaction [OF f(1)]
  note v = validateInputs_Inr [OF open_request_Inr(1) [OF assms(3)]]
  have "map sg_index (ap_signatures a) = idxs"
    using sign_loop_indexes [OF f(2) [unfolded signInputs_def]] v(3) by simp
  moreover have "away (cs_account cs) (px_outputs p) \<le> allowance cs + (if has_role Commit env then int m else 0)"
    using output_loop_bounds [OF t(5) assms(4) _ assms(6)] by (simp add: room_start commit_room_def)
  moreover have "signed_value p idxs - (away (cs_account cs) (px_outputs p) + returned (cs_account cs) p) \<le> int m"
    using checkFee_None [OF t(3) assms(4)] signed_value_le [OF v(1,2) assms(5)]
    unfolding away_returned [of "px_outputs p" "cs_account cs"] returned_def by linarith
  ultimately show ?thesis using v(1) t(1,2,4) by (simp add: sighashAllowed_def)
qed

section \<open>The charge\<close>

lemma finish_charged:
  assumes "finish_request bn sv host cs req p ins idxs env d e st file = Inr R"
  shows "de_charged R = None \<and> de_store R = st \<and> de_file R = file
    \<or> (\<exists>ev a. e = Some ev \<and> cs_hasStore cs \<and> (env = None \<or> has_role Commit env) \<and> de_charged R = Some ev
        \<and> de_outcome R = Approved a
        \<and> record_spend bn (fst (host 2)) (snd (host 2)) (ev_action ev) (ev_tick ev) (ev_amount ev)
             (case sv_txid sv p of None \<Rightarrow> JNull | Some t \<Rightarrow> JStr t) st file = Inr (de_store R, de_file R))"
proof (cases "checkTransaction sv cs p idxs env req")
  case (Some x)
  with assms have "R = denied x st file" by (simp add: finish_request_def)
  then show ?thesis by (simp add: denied_def)
next
  case None
  note t = this
  show ?thesis
  proof (cases "signInputs sv cs p idxs ins env (rq_sighash req)")
    case (Inl x)
    with assms t have "R = denied x st file" by (simp add: finish_request_def)
    then show ?thesis by (simp add: denied_def)
  next
    case (Inr sigs)
    note t = t this
    show ?thesis
    proof (cases "if env = None \<or> has_role Commit env then e else None")
      case None
      with assms t have "R = \<lparr>de_outcome = Approved \<lparr>ap_action = d_action d, ap_signatures = sigs,
          ap_role = map_option en_role env\<rparr>, de_charged = None, de_store = st, de_file = file\<rparr>"
        unfolding finish_request_def Let_def by simp
      then show ?thesis by simp
    next
      case (Some ev)
      then have e: "e = Some ev" "env = None \<or> has_role Commit env" by (auto split: if_split_asm)
      show ?thesis
      proof (cases "recordBudget bn sv host cs p ev st file")
        case (Inl x)
        with assms t Some show ?thesis unfolding finish_request_def Let_def by simp
      next
        case (Inr y)
        obtain st' file' where y: "y = (st', file')" by (cases y)
        from assms t Some Inr y have R: "R = \<lparr>de_outcome = Approved \<lparr>ap_action = d_action d, ap_signatures = sigs,
            ap_role = map_option en_role env\<rparr>, de_charged = (if cs_hasStore cs then Some ev else None),
            de_store = st', de_file = file'\<rparr>"
          unfolding finish_request_def Let_def by simp
        with Inr y e show ?thesis by (cases "cs_hasStore cs") (simp_all add: recordBudget_def)
      qed
    qed
  qed
qed

section \<open>The window over a request\<close>

lemma excluding_cached:
  assumes "st_usage st = Some w" "snapshotExcludingTxid bn now lf txid st file = Inr (r, st1, file1)"
  shows "file1 = file" "st_hours st1 = st_hours st"
    "\<exists>w1. st_usage st1 = Some w1 \<and> (w_entries w1 = w_entries w \<or> w_entries w1 = filter (live st now) (w_entries w))"
proof -
  let ?rows = "filter (live st now) (w_entries w)"
  let ?st = "st\<lparr>st_usage := Some (w\<lparr>w_entries := ?rows\<rparr>)\<rparr>"
  have "window_ms ?st = window_ms st" by (simp add: window_ms_def)
  then have again: "live ?st now = live st now" by (intro ext) (simp only: live_def)
  have p: "pruned bn now lf st file = Inr (w\<lparr>w_entries := ?rows\<rparr>, ?st, file)" by (rule pruned_cached [OF assms(1)])
  have p2: "pruned bn now lf ?st file = Inr (w\<lparr>w_entries := ?rows\<rparr>, ?st, file)"
    using pruned_cached [where st = ?st and w = "w\<lparr>w_entries := ?rows\<rparr>"] by (simp add: again)
  have sn: "fl = file \<and> st_hours s2 = st_hours st \<and> st_usage s2 = Some (w\<lparr>w_entries := ?rows\<rparr>)"
    if "snapshot bn now lf x ?st file = Inr (u, s2, fl)" for x u s2 fl
    using that by (auto simp: snapshot_def p2 Let_def split: prod.splits)
  from assms(2) have "(st1 = st \<and> file1 = file) \<or> (st1 = ?st \<and> file1 = file)
      \<or> (\<exists>x u. snapshot bn now lf x ?st file = Inr (u, st1, file1))"
    by (auto simp: snapshotExcludingTxid_def p try_bind_Inr split: jsval.split_asm if_split_asm)
  with sn assms(1) show "file1 = file" "st_hours st1 = st_hours st"
    "\<exists>w1. st_usage st1 = Some w1 \<and> (w_entries w1 = w_entries w \<or> w_entries w1 = ?rows)"
    by fastforce+
qed

lemma excluding_rep:
  assumes "store_rep W (st, file) T H" "T \<le> t" "snapshotExcludingTxid bn t lf txid st file = Inr (r, st1, file1)"
  shows "store_rep W (st1, file1) t H"
proof -
  from store_rep_later [OF assms(1,2)] obtain w where i: "st_hours st * 3600 * 1000 = W" "st_usage st = Some w"
      "represents W t (w_entries w) H" "\<exists>rows seen. file = Window_file (map JObj rows) seen \<and> represents W t rows H"
    by (auto simp: store_rep_def)
  note x = excluding_cached [OF i(2) assms(3)]
  from x(3) obtain w1 where w1: "st_usage st1 = Some w1"
      "w_entries w1 = w_entries w \<or> w_entries w1 = filter (live st t) (w_entries w)" by blast
  then have "represents W t (w_entries w1) H" using i(3) represents_prune(1) [OF i(3,1)] by auto
  with x(1,2) w1(1) i(1,4) show ?thesis by (simp add: store_rep_def)
qed

lemma excluding_window:
  assumes "window_of bn host cs p env st file = Inr (u, st1, file1)" "cs_hasStore cs"
    and "store_rep W (st, file) T H" "T \<le> fst (host 0)" "fst (host 0) \<le> fst (host 1)"
  shows "store_rep W (st1, file1) (fst (host 1)) H"
proof -
  from assms(1,2) obtain u0 st0 file0 where sn: "snapshot bn (fst (host 0)) (snd (host 0)) None st file = Inr (u0, st0, file0)"
      and r: "(st1 = st0 \<and> file1 = file0)
        \<or> (\<exists>x. snapshotExcludingTxid bn (fst (host 1)) (snd (host 1)) (revealCommitTxid p) st0 file0 = Inr (x, st1, file1))"
    by (auto simp: window_of_def try_bind_Inr split: if_split_asm)
  have "store_look bn (fst (host 0)) (st, file) u0 (st0, file0)" using sn by (auto simp: store_look_def)
  from store_look_rep [OF assms(3,4) this] have l: "store_rep W (st0, file0) (fst (host 0)) H" .
  from r show ?thesis
  proof
    assume "st1 = st0 \<and> file1 = file0"
    then show ?thesis using store_rep_later [OF l assms(5)] by simp
  next
    assume "\<exists>x. snapshotExcludingTxid bn (fst (host 1)) (snd (host 1)) (revealCommitTxid p) st0 file0 = Inr (x, st1, file1)"
    then show ?thesis using excluding_rep [OF l assms(5)] by blast
  qed
qed

lemma window_no_store: "\<not> cs_hasStore cs \<Longrightarrow> window_of bn host cs p env st file = Inr (None, st, file)"
  by (simp add: window_of_def)

lemma window_snapshot:
  assumes "window_of bn host cs p env st file = Inr (u, st1, file1)" "cs_hasStore cs" "\<not> has_role Reveal env"
  shows "\<exists>u0. u = Some u0 \<and> snapshot bn (fst (host 0)) (snd (host 0)) None st file = Inr (u0, st1, file1)"
  using assms by (auto simp: window_of_def try_bind_Inr)

text \<open>The state after a request that is not charged, and after one that is.\<close>

lemma uncharged_rep:
  assumes "process bn sv host cs req st file = Inr R" "de_charged R = None"
    and "store_rep W (st, file) T H" "T \<le> fst (host 0)" "fst (host 0) \<le> fst (host 1)"
  shows "store_rep W (de_store R, de_file R) (fst (host 1)) H"
proof (cases "open_request sv cs req")
  case (Inl x)
  with assms(1) have "R = denied x st file" by (simp add: process_def)
  with assms(3-5) store_rep_later [of W "(st, file)" T H "fst (host 1)"] show ?thesis by (simp add: denied_def)
next
  case (Inr y)
  then obtain p ins idxs env where o: "open_request sv cs req = Inr (p, ins, idxs, env)" by (cases y) auto
  have w: "store_rep W (st1, file1) (fst (host 1)) H" if "window_of bn host cs p env st file = Inr (u, st1, file1)" for u st1 file1
  proof (cases "cs_hasStore cs")
    case True
    from excluding_window [OF that True assms(3-5)] show ?thesis .
  next
    case False
    with that have "st1 = st" "file1 = file" by (simp_all add: window_no_store)
    with assms(3-5) store_rep_later [of W "(st, file)" T H "fst (host 1)"] show ?thesis by simp
  qed
  have e: "store_rep W (st1, file1) (fst (host 1)) H"
    if "evaluateRequest bn sv host cs p env st file = Inr (r, st1, file1)" for r st1 file1
    using that w assms(3-5) store_rep_later [of W "(st, file)" T H "fst (host 1)"]
    by (auto simp: evaluateRequest_def split: sum.split_asm option.split_asm prod.split_asm)
  from process_opened [OF assms(1) o] show ?thesis
  proof (elim disjE exE conjE)
    fix x st1 file1
    assume "evaluateRequest bn sv host cs p env st file = Inr (Inl x, st1, file1)" "R = denied x st1 file1"
    with e show ?thesis by (simp add: denied_def)
  next
    fix d ev st1 file1
    assume a: "evaluateRequest bn sv host cs p env st file = Inr (Inr (d, ev), st1, file1)"
      "finish_request bn sv host cs req p ins idxs env d ev st1 file1 = Inr R"
    from finish_charged [OF a(2)] assms(2) e [OF a(1)] show ?thesis by auto
  qed
qed

text \<open>
  The action text of a request: with an envelope script, the text its payload declares, wherever the
  transaction funds it; without one, the text the transaction itself carries, in a leaf or in its data output.
\<close>

definition request_text :: "services \<Rightarrow> sign_request \<Rightarrow> psbt \<Rightarrow> extract_failure + string" where
  "request_text sv req p =
     (case rq_envelope req of
        Some script \<Rightarrow>
          (case parseEnvelopeScript sv (toBuf script) of
             None \<Rightarrow> Inl X_ENVELOPE_SCRIPT_INVALID
           | Some leaf \<Rightarrow> inner_text sv (lf_payload leaf))
      | None \<Rightarrow> if list_ex (carries_leaf sv) (px_inputs p) then extractEnvelopeActionString sv p
                else extractInlineActionString sv p)"

lemma decode_request_text:
  assumes "decode_request sv p env = Inr d" "deriveEnvelope sv cs req p = Inr env" "env = None \<or> has_role Commit env"
  shows "\<exists>s. request_text sv req p = Inr s \<and> judgeActionString s = Inr d"
proof (cases env)
  case None
  with assms(2) have "rq_envelope req = None"
    by (auto simp: deriveEnvelope_def split: option.split_asm)
  with assms(1) None show ?thesis
    by (auto simp: decode_request_def decodeActionFromPsbt_def request_text_def judge_extracted_Inr)
next
  case (Some e)
  with assms(2) obtain script where r: "rq_envelope req = Some script" "en_script e = toBuf script"
    by (auto simp: deriveEnvelope_def split: option.split_asm)
  from Some assms(1,3) have "decodeEnvelopeAction sv (en_script e) = Inr d"
    by (auto simp: decode_request_def has_role_def)
  then show ?thesis
    using r by (auto simp: decodeEnvelopeAction_def judge_extracted_Inr request_text_def split: option.split_asm if_split_asm)
qed

lemma charged_steps:
  assumes "process bn sv host cs req st file = Inr R" "de_charged R = Some e"
  obtains s d u st1 file1 p ins idxs env a where "open_request sv cs req = Inr (p, ins, idxs, env)"
    "request_text sv req p = Inr s" "judgeActionString s = Inr d"
    "snapshot bn (fst (host 0)) (snd (host 0)) None st file = Inr (u, st1, file1)"
    "evaluatePolicy bn (cs_policy cs) (d_action d) (Some (d_version d)) (d_params d) (Some u) = Some (Inr e)"
    "record_spend bn (fst (host 2)) (snd (host 2)) (ev_action e) (ev_tick e) (ev_amount e)
       (case sv_txid sv p of None \<Rightarrow> JNull | Some t \<Rightarrow> JStr t) st1 file1 = Inr (de_store R, de_file R)"
    "de_outcome R = Approved a" "ap_action a = d_action d"
proof (cases "open_request sv cs req")
  case (Inl x)
  with assms have False by (auto simp: process_def denied_def)
  then show thesis ..
next
  case (Inr y)
  then obtain p ins idxs env where o: "open_request sv cs req = Inr (p, ins, idxs, env)" by (cases y) auto
  from process_opened [OF assms(1) o] assms(2) obtain d v st1 file1 where
    a: "evaluateRequest bn sv host cs p env st file = Inr (Inr (d, v), st1, file1)"
      "finish_request bn sv host cs req p ins idxs env d v st1 file1 = Inr R"
    by (auto simp: denied_def)
  from finish_charged [OF a(2)] assms(2) obtain a where f: "v = Some e" "cs_hasStore cs" "env = None \<or> has_role Commit env"
      "de_outcome R = Approved a"
      "record_spend bn (fst (host 2)) (snd (host 2)) (ev_action e) (ev_tick e) (ev_amount e)
         (case sv_txid sv p of None \<Rightarrow> JNull | Some t \<Rightarrow> JStr t) st1 file1 = Inr (de_store R, de_file R)" by auto
  note ev = evaluateRequest_Inr [OF a(1)]
  from ev(2) obtain u where w: "window_of bn host cs p env st file = Inr (u, st1, file1)"
      "judge_request bn cs d u env = Some (Inr v)" by blast
  have "\<not> has_role Reveal env" using f(3) by (auto simp: has_role_def split: option.splits)
  from window_snapshot [OF w(1) f(2) this] obtain u0 where u0: "u = Some u0"
      "snapshot bn (fst (host 0)) (snd (host 0)) None st file = Inr (u0, st1, file1)" by blast
  from w(2) f(1) u0(1) have "evaluatePolicy bn (cs_policy cs) (d_action d) (Some (d_version d)) (d_params d) (Some u0) = Some (Inr e)"
    by (auto simp: judge_request_Inr split: if_split_asm)
  moreover obtain s where "request_text sv req p = Inr s" "judgeActionString s = Inr d"
    using decode_request_text [OF ev(1) open_request_Inr(2) [OF o] f(3)] by blast
  ultimately show thesis using that o u0(2) f(4,5) finish_approved(3) [OF a(2) f(4)] by blast
qed

section \<open>The co-signer's service\<close>

text \<open>
  The runs of the daemon: the first start, requests handled to their end, on a clock that does not run
  backward, with exact decimals where one is charged, and restarts that load the state file. The history
  holds the spend of every charged request.
\<close>

definition charge_history :: "int \<Rightarrow> evaluation option \<Rightarrow> spend list" where
  "charge_history t e = (case e of None \<Rightarrow> [] | Some v \<Rightarrow> [spend_of t v])"

definition exact_charge :: "evaluation option \<Rightarrow> bool" where
  "exact_charge e \<longleftrightarrow> (\<forall>v a. e = Some v \<longrightarrow> ev_amount v = Some a \<longrightarrow> amount_text (js_string a))"

inductive service_run :: "bignum \<Rightarrow> services \<Rightarrow> co_signer \<Rightarrow> rat \<Rightarrow> daemon \<Rightarrow> bool" for bn sv cs W where
  start: "service_run bn sv cs W \<lparr>dm_store = st1, dm_file = file1, dm_clock = t, dm_history = []\<rparr>"
    if "st_usage st0 = None" "st_hours st0 * 3600 * 1000 = W" "load bn t lf st0 NoFile = Inr (w, st1, file1)"
| serve: "service_run bn sv cs W \<lparr>dm_store = de_store R, dm_file = de_file R, dm_clock = fst (host 2),
      dm_history = dm_history D @ charge_history (fst (host 2)) (de_charged R)\<rparr>"
    if "service_run bn sv cs W D"
      "dm_clock D \<le> fst (host 0)" "fst (host 0) \<le> fst (host 1)" "fst (host 1) \<le> fst (host 2)"
      "process bn sv host cs req (dm_store D) (dm_file D) = Inr R"
      "exact_charge (de_charged R)"
      "total_units (dm_history D @ charge_history (fst (host 2)) (de_charged R)) < 10 ^ 64"
| restart: "service_run bn sv cs W \<lparr>dm_store = st1, dm_file = file1, dm_clock = t1, dm_history = dm_history D\<rparr>"
    if "service_run bn sv cs W D" "dm_clock D \<le> t1" "st_usage st0 = None" "st_hours st0 = st_hours (dm_store D)"
      "load bn t1 lf st0 (dm_file D) = Inr (w, st1, file1)"

lemma serve_inv:
  assumes "daemon_inv (cs_policy cs) W D" "bn_exact bn"
    and "dm_clock D \<le> fst (host 0)" "fst (host 0) \<le> fst (host 1)" "fst (host 1) \<le> fst (host 2)"
    and "process bn sv host cs req (dm_store D) (dm_file D) = Inr R" "exact_charge (de_charged R)"
    and "total_units (dm_history D @ charge_history (fst (host 2)) (de_charged R)) < 10 ^ 64"
  shows "daemon_inv (cs_policy cs) W \<lparr>dm_store = de_store R, dm_file = de_file R, dm_clock = fst (host 2),
      dm_history = dm_history D @ charge_history (fst (host 2)) (de_charged R)\<rparr>"
proof (cases "de_charged R")
  case None
  from assms(1) have i: "store_rep W (dm_store D, dm_file D) (dm_clock D) (dm_history D)"
      "total_units (dm_history D) < 10 ^ 64" "within_caps (cs_policy cs) W (dm_clock D) (dm_history D)"
    by (simp_all add: daemon_inv_def)
  have "dm_clock D \<le> fst (host 2)" using assms(3-5) by simp
  with i(2,3) within_caps_later store_rep_later [OF uncharged_rep [OF assms(6) None i(1) assms(3,4)] assms(5)] None
  show ?thesis by (simp add: daemon_inv_def charge_history_def)
next
  case (Some e)
  show ?thesis
  proof (rule charged_steps [OF assms(6) Some])
    fix s d u st1 file1 p ins idxs env a
    assume st: "judgeActionString s = Inr d"
      "snapshot bn (fst (host 0)) (snd (host 0)) None (dm_store D) (dm_file D) = Inr (u, st1, file1)"
      "evaluatePolicy bn (cs_policy cs) (d_action d) (Some (d_version d)) (d_params d) (Some u) = Some (Inr e)"
      "record_spend bn (fst (host 2)) (snd (host 2)) (ev_action e) (ev_tick e) (ev_amount e)
         (case sv_txid sv p of None \<Rightarrow> JNull | Some t \<Rightarrow> JStr t) st1 file1 = Inr (de_store R, de_file R)"
    have "fst (host 0) \<le> fst (host 2)" using assms(4,5) by simp
    moreover have "amount_text (js_string a)" if "ev_amount e = Some a" for a
      using that assms(7) Some by (simp add: exact_charge_def)
    moreover have "total_units (dm_history D @ [spend_of (fst (host 2)) e]) < 10 ^ 64"
      using assms(8) Some by (simp add: charge_history_def)
    ultimately have "daemon_step bn (cs_policy cs) D \<lparr>dm_store = de_store R, dm_file = de_file R,
        dm_clock = fst (host 2), dm_history = dm_history D @ [spend_of (fst (host 2)) e]\<rparr>"
      by (rule daemon_step.authorize [OF assms(3) _ st(1-3) _ _ st(4)])
    from step_inv [OF this assms(2,1)] Some show ?thesis by (simp add: charge_history_def)
  qed
qed

lemma service_inv:
  assumes "service_run bn sv cs W D" "bn_exact bn"
  shows "daemon_inv (cs_policy cs) W D"
  using assms(1)
proof induction
  case (start st0 t lf w st1 file1)
  then show ?case using reach_inv [OF daemon_reach.boot assms(2)] by blast
next
  case (serve D host req R)
  then show ?case using serve_inv [OF _ assms(2)] by blast
next
  case (restart D t1 st0 lf w st1 file1)
  then show ?case using step_inv [OF daemon_step.restart assms(2)] by blast
qed

section \<open>The contracts\<close>

lemma record_last:
  assumes "record_spend bn now lf action tick amt txid st file = Inr (st2, file2)"
  shows "\<exists>w. st_usage st2 = Some w \<and> w_entries w \<noteq> [] \<and> last (w_entries w) = new_row now action tick amt txid
    \<and> file2 = Window_file (map JObj (w_entries w)) (w_lastSeen w)"
  using assms by (auto simp: record_spend_def try_bind_Inr persist_def Let_def split: if_split_asm)

lemma charged_role:
  assumes "process bn sv host cs req st file = Inr R" "de_charged R = Some e"
  shows "\<exists>a. de_outcome R = Approved a \<and> ap_role a \<noteq> Some Reveal \<and> ap_role a \<noteq> Some Cancel"
proof (cases "open_request sv cs req")
  case (Inl x)
  with assms show ?thesis by (auto simp: process_def denied_def)
next
  case (Inr y)
  then obtain p ins idxs env where o: "open_request sv cs req = Inr (p, ins, idxs, env)" by (cases y) auto
  from process_opened [OF assms(1) o] assms(2) obtain d v st1 file1 where
    a: "finish_request bn sv host cs req p ins idxs env d v st1 file1 = Inr R"
    by (auto simp: denied_def)
  from finish_charged [OF a] assms(2) obtain b where b: "de_outcome R = Approved b" "env = None \<or> has_role Commit env"
    by auto
  from finish_approved(4) [OF a b(1)] b show ?thesis by (auto simp: has_role_def split: option.splits)
qed

lemma approval_charged:
  assumes "process bn sv host cs req st file = Inr R" "de_outcome R = Approved a" "cs_hasStore cs"
    "ap_role a \<noteq> Some Reveal" "ap_role a \<noteq> Some Cancel"
  shows "de_charged R \<noteq> None"
proof (cases "open_request sv cs req")
  case (Inl x)
  with assms(1,2) show ?thesis by (auto simp: process_def denied_def)
next
  case (Inr y)
  then obtain p ins idxs env where o: "open_request sv cs req = Inr (p, ins, idxs, env)" by (cases y) auto
  obtain d e st1 file1 where q: "evaluateRequest bn sv host cs p env st file = Inr (Inr (d, e), st1, file1)"
      "finish_request bn sv host cs req p ins idxs env d e st1 file1 = Inr R"
    by (rule approved_parts [OF assms(1,2) o])
  note f = finish_approved [OF q(2) assms(2)]
  have env: "env = None \<or> has_role Commit env" "\<not> has_role Cancel env"
    using f(4) assms(4,5) role.exhaust by (auto simp: has_role_def split: option.splits)
  from evaluateRequest_Inr(2) [OF q(1)] env(2) obtain v where v: "e = Some v"
    by (auto simp: judge_request_Inr)
  show ?thesis
  proof (cases "recordBudget bn sv host cs p v st1 file1")
    case (Inl x)
    with q(2) f(1,2) env(1) v show ?thesis unfolding finish_request_def Let_def by simp
  next
    case (Inr z)
    obtain st' file' where "z = (st', file')" by (cases z)
    with Inr q(2) f(1,2) env(1) v assms(3) have "de_charged R = Some v"
      unfolding finish_request_def Let_def by (auto simp del: not_None_eq)
    then show ?thesis by simp
  qed
qed

text \<open>
  C6: One charge per approval. With a window store, the co-signer charges exactly the approved
  requests that are not the reveal or the cancellation of an envelope, and nothing it denies. What it
  charges is the evaluation of the request's own action text (the one its envelope script declares, or else
  the one its transaction carries), judged against the window as it stood; the signatures are for that action;
  and the row, under the transaction's id, stands last in the window in memory and in the state file.
\<close>

theorem approval_charged_once:
  assumes "process bn sv host cs req st file = Inr R" and "cs_hasStore cs"
  shows "(case de_outcome R of
            Denied x \<Rightarrow> de_charged R = None
          | Approved a \<Rightarrow> de_charged R = None \<longleftrightarrow> ap_role a = Some Reveal \<or> ap_role a = Some Cancel)
    \<and> (\<forall>e. de_charged R = Some e \<longrightarrow>
         (\<exists>p ins idxs env s d u st1 file1 a w. open_request sv cs req = Inr (p, ins, idxs, env)
            \<and> request_text sv req p = Inr s \<and> judgeActionString s = Inr d
            \<and> de_outcome R = Approved a \<and> ap_action a = d_action d
            \<and> snapshot bn (fst (host 0)) (snd (host 0)) None st file = Inr (u, st1, file1)
            \<and> evaluatePolicy bn (cs_policy cs) (d_action d) (Some (d_version d)) (d_params d) (Some u) = Some (Inr e)
            \<and> st_usage (de_store R) = Some w \<and> w_entries w \<noteq> []
            \<and> last (w_entries w) = new_row (fst (host 2)) (ev_action e) (ev_tick e) (ev_amount e)
                (case sv_txid sv p of None \<Rightarrow> JNull | Some t \<Rightarrow> JStr t)
            \<and> de_file R = Window_file (map JObj (w_entries w)) (w_lastSeen w)))"
  (is "?A \<and> (\<forall>e. _ e \<longrightarrow> ?Q e)")
proof
  show "\<forall>e. de_charged R = Some e \<longrightarrow> ?Q e"
  proof (intro allI impI)
    fix e
    assume c: "de_charged R = Some e"
    obtain s d u st1 file1 p ins idxs env a where st: "open_request sv cs req = Inr (p, ins, idxs, env)"
        "request_text sv req p = Inr s" "judgeActionString s = Inr d"
        "snapshot bn (fst (host 0)) (snd (host 0)) None st file = Inr (u, st1, file1)"
        "evaluatePolicy bn (cs_policy cs) (d_action d) (Some (d_version d)) (d_params d) (Some u) = Some (Inr e)"
        "record_spend bn (fst (host 2)) (snd (host 2)) (ev_action e) (ev_tick e) (ev_amount e)
           (case sv_txid sv p of None \<Rightarrow> JNull | Some t \<Rightarrow> JStr t) st1 file1 = Inr (de_store R, de_file R)"
        "de_outcome R = Approved a" "ap_action a = d_action d"
      by (rule charged_steps [OF assms(1) c])
    from record_last [OF st(6)] obtain w where "st_usage (de_store R) = Some w" "w_entries w \<noteq> []"
        "last (w_entries w) = new_row (fst (host 2)) (ev_action e) (ev_tick e) (ev_amount e)
           (case sv_txid sv p of None \<Rightarrow> JNull | Some t \<Rightarrow> JStr t)"
        "de_file R = Window_file (map JObj (w_entries w)) (w_lastSeen w)" by blast
    with st(1-5,7,8) show "?Q e" by (intro exI conjI) assumption+
  qed
  show ?A
  proof (cases "de_charged R")
    case None
    with approval_charged [OF assms(1) _ assms(2)] show ?thesis by (auto split: outcome.split)
  next
    case (Some e)
    with charged_role [OF assms(1) Some] show ?thesis by auto
  qed
qed

text \<open>
  C1: The co-signer's service keeps the budget of every capped token but the one named \<open>*\<close>. Take any run
  of requests that end in an answer and of restarts, with any transactions, envelopes and lock files, on a
  clock that does not run backward, charging amounts of at most 18 decimals that fit 64 digits in
  total. Then the window in memory and the state file both stand for the history of the charged requests;
  and for every token other than \<open>*\<close> whose cap in the policy is a plain decimal, what was charged in
  the last \<open>hours\<close> is at most that cap. The token \<open>*\<close> is not protected (its used total is always
  read as zero); requests whose handling throws are not part of a run.
\<close>

theorem service_budget_kept:
  assumes "service_run bn sv cs W D" and "bn_exact bn"
  shows "(\<exists>w. st_usage (dm_store D) = Some w \<and> represents W (dm_clock D) (w_entries w) (dm_history D))
    \<and> (\<exists>rows seen. dm_file D = Window_file (map JObj rows) seen \<and> represents W (dm_clock D) rows (dm_history D))
    \<and> (\<forall>caps k c. window_caps (cs_policy cs) = Some caps \<and> k \<noteq> ''*'' \<and> capFor (Some caps) (Some (JStr k)) = Some c
        \<and> isNonNegativeDecimal (js_string c)
        \<longrightarrow> of_nat (authorised k W (dm_clock D) (dm_history D)) / 10 ^ 18 \<le> dec_val (js_string c))"
  using service_inv [OF assms] unfolding daemon_inv_def store_rep_def within_caps_def by auto

section \<open>One request, start to end\<close>

definition demo_co_signer :: co_signer where
  "demo_co_signer = \<lparr>cs_policy = demo_cap_policy, cs_internal = demo_key, cs_recovery = None, cs_account = demo_account,
     cs_tweaks = [], cs_allowed = [\<lparr>oc_script = demo_payee, oc_maxValue = 500\<rparr>], cs_maxFeeSats = Some 1000,
     cs_maxCosignInputs = 32, cs_allowConfirmable = False, cs_hasStore = True\<rparr>"

definition demo_psbt :: psbt where
  "demo_psbt = \<lparr>px_inputs = [\<lparr>ti_hash = [], ti_witness = Some \<lparr>w_script = demo_account, w_value = JInt 10000\<rparr>, ti_leaves = []\<rparr>],
     px_outputs = [\<lparr>to_script = demo_carrier, to_value = JInt 0\<rparr>, \<lparr>to_script = demo_payee, to_value = JInt 300\<rparr>,
       \<lparr>to_script = demo_account, to_value = JInt 9000\<rparr>]\<rparr>"

definition demo_sign_request :: sign_request where
  "demo_sign_request = \<lparr>rq_psbt = Psbt_object demo_psbt,
     rq_inputs = Some [\<lparr>iq_index = JInt 0, iq_nonce = Some (Buf [1])\<rparr>], rq_sighash = JUndef, rq_envelope = None\<rparr>"

definition demo_host :: host where "demo_host n = (2000, No_lock)"

definition demo_idle :: daemon where
  "demo_idle = \<lparr>dm_store = demo_store\<lparr>st_usage := Some demo_window\<rparr>, dm_file = Window_file [] (JInt 1000),
     dm_clock = 1000, dm_history = []\<rparr>"

definition demo_approval :: approval where
  "demo_approval = \<lparr>ap_action = ''SEND'',
     ap_signatures = [\<lparr>sg_index = 0, sg_publicNonce = hex_encode [1], sg_sig = hex_encode [0], sg_msg = hex_encode [0]\<rparr>],
     ap_role = None\<rparr>"

definition demo_after :: "store \<times> state_file" where
  "demo_after = (let w = \<lparr>w_entries = [new_row 2000 ''SEND'' (Some (JStr ''JDOG'')) (Some (JStr ''5'')) (JStr ''t'')],
                          w_lastSeen = JInt 2000\<rparr>
                 in (demo_store\<lparr>st_usage := Some w\<rparr>, Window_file (map JObj (w_entries w)) (w_lastSeen w)))"

lemma demo_outputs_distinct [simp]:
  "demo_carrier \<noteq> demo_account" "demo_payee \<noteq> demo_account" "demo_carrier \<noteq> demo_payee"
  by (simp_all add: demo_carrier_def demo_account_def demo_payee_def)

lemma demo_services_simps [simp]:
  "sv_decompile demo_services = demo_decompile" "sv_decipher demo_services k iv b = Some b"
  "sv_txid demo_services p = Some ''t''" "sv_sighash demo_services p i ss vs l = [of_nat i]"
  "sv_sign demo_services ts nonce msg = Some (nonce, msg)"
  by (simp_all add: demo_services_def)

lemma demo_open: "open_request demo_services demo_co_signer demo_sign_request
    = Inr (demo_psbt, [\<lparr>iq_index = JInt 0, iq_nonce = Some (Buf [1])\<rparr>], [0], None)"
  by (simp add: open_request_def readRequest_def validateInputs_def deriveEnvelope_def demo_sign_request_def
    demo_co_signer_def demo_psbt_def witness_at_def)

lemma demo_inline: "decodeActionFromPsbt demo_services (Psbt_object demo_psbt) = Inr demo_judged"
proof -
  have t: "sv_text demo_services [2] = Some ''TRANSFER|00|JDOG|5|bc1q|''" by (simp add: demo_services_def)
  have b: "demo_stream \<noteq> P2SH_TAG" "demo_stream \<noteq> P2WSH_TAG" "length demo_stream \<le> MAX_ACTION_DATA_LENGTH"
    by (simp_all add: demo_stream_def P2SH_TAG_def P2WSH_TAG_def MAX_ACTION_DATA_LENGTH_def utf8_def)
  show ?thesis
    using t b
    by (simp add: decodeActionFromPsbt_def demo_psbt_def carries_leaf_def envelopeLeafFromPsbtInput_def
      extractInlineActionString_def carrier_payload_def deobfuscate_def inner_text_def judge_extracted_def judge_demo
      OP_RETURN_def)
qed

lemma demo_evaluate: "evaluateRequest demo_bn demo_services demo_host demo_co_signer demo_psbt None
    (dm_store demo_idle) (dm_file demo_idle)
    = Inr (Inr (demo_judged, Some demo_evaluation), dm_store demo_idle, dm_file demo_idle)"
proof -
  have s: "snapshot demo_bn 2000 No_lock None (dm_store demo_idle) (dm_file demo_idle)
      = Inr (\<lparr>u_count = 0, u_perTick = []\<rparr>, dm_store demo_idle, dm_file demo_idle)"
    by (simp add: snapshot_def pruned_def load_def demo_idle_def demo_window_def Let_def demo_store_def)
  then have w: "window_of demo_bn demo_host demo_co_signer demo_psbt None (dm_store demo_idle) (dm_file demo_idle)
      = Inr (Some \<lparr>u_count = 0, u_perTick = []\<rparr>, dm_store demo_idle, dm_file demo_idle)"
    by (simp add: window_of_def demo_co_signer_def demo_host_def has_role_def)
  have "judge_request demo_bn demo_co_signer demo_judged (Some \<lparr>u_count = 0, u_perTick = []\<rparr>) None = Some (Inr (Some demo_evaluation))"
    using demo_cap_approved
    by (simp add: judge_request_Inr has_role_def demo_co_signer_def demo_evaluation_def) (simp add: demo_judged_def)
  with w demo_inline show ?thesis by (simp add: evaluateRequest_def decode_request_def)
qed

lemma demo_gates_pass: "checkTransaction demo_services demo_co_signer demo_psbt [0] None demo_sign_request = None"
  by (simp add: checkTransaction_def checkSource_def checkOutputs_def checkFee_def expected_script_def witness_at_def
    demo_psbt_def demo_co_signer_def demo_sign_request_def sighashAllowed_def inspectDataCarrier_def positive_value_def
    match_entry_def checkAllowedOutput_def toU64_def Let_def OP_RETURN_def)

lemma demo_signed: "signInputs demo_services demo_co_signer demo_psbt [0]
    [\<lparr>iq_index = JInt 0, iq_nonce = Some (Buf [1])\<rparr>] None (rq_sighash demo_sign_request) = Inr (ap_signatures demo_approval)"
  by (simp add: signInputs_def signing_message_def taprootKeyPathSighash_def key_path_message_def demo_psbt_def
    demo_sign_request_def sighashAllowed_def demo_approval_def)

definition demo_decision :: decision where
  "demo_decision = \<lparr>de_outcome = Approved demo_approval, de_charged = Some demo_evaluation,
     de_store = fst demo_after, de_file = snd demo_after\<rparr>"

lemma demo_recorded: "record_spend demo_bn 2000 No_lock (ev_action demo_evaluation) (ev_tick demo_evaluation)
    (ev_amount demo_evaluation) (JStr ''t'') (dm_store demo_idle) (dm_file demo_idle) = Inr demo_after"
proof -
  have add: "addable demo_bn (JStr ''5'')" by (simp add: addable_def addDecimal_def demo_add)
  show ?thesis
    by (simp add: record_spend_def pruned_def load_def demo_idle_def demo_window_def Let_def demo_store_def
      assertLockOwned_def newest_def demo_evaluation_def add persist_def demo_after_def last_seen_def finite_number_def)
qed

lemma demo_process: "process demo_bn demo_services demo_host demo_co_signer demo_sign_request
    (dm_store demo_idle) (dm_file demo_idle) = Inr demo_decision"
proof -
  have store: "cs_hasStore demo_co_signer" by (simp add: demo_co_signer_def)
  have "recordBudget demo_bn demo_services demo_host demo_co_signer demo_psbt demo_evaluation
      (dm_store demo_idle) (dm_file demo_idle) = Inr demo_after"
    using demo_recorded store by (simp add: recordBudget_def demo_host_def)
  moreover have "demo_approval = \<lparr>ap_action = d_action demo_judged, ap_signatures = ap_signatures demo_approval,
      ap_role = map_option en_role None\<rparr>"
    by (simp add: demo_approval_def demo_judged_def)
  ultimately show ?thesis
    using demo_open demo_evaluate demo_gates_pass demo_signed store
    by (simp add: process_def finish_request_def Let_def demo_decision_def split_beta)
qed

theorem account_loss_bounded_witness:
  "signed_value demo_psbt [0] - returned demo_account demo_psbt \<le> 1500
    \<and> signed_value demo_psbt [0] - returned demo_account demo_psbt = 1000"
proof -
  have "\<forall>inp\<in>set (px_inputs demo_psbt). 0 \<le> in_value inp" "\<forall>out\<in>set (px_outputs demo_psbt). 0 \<le> out_value out"
    by (simp_all add: demo_psbt_def in_value_def out_value_def u64_def toU64_def)
  from account_loss_bounded [OF demo_process _ demo_open _ this, of demo_approval 1000]
  have "signed_value demo_psbt [0] - returned (cs_account demo_co_signer) demo_psbt \<le> allowance demo_co_signer + 1000"
    by (simp add: demo_decision_def demo_co_signer_def has_role_def)
  then show ?thesis
    by (simp add: demo_co_signer_def allowance_def signed_value_def returned_def demo_psbt_def in_value_def out_value_def
      u64_def toU64_def)
qed

theorem approval_charged_once_witness:
  "de_charged demo_decision = Some demo_evaluation \<and> ap_role demo_approval = None"
  using approval_charged_once [OF demo_process, THEN conjunct1]
  by (simp add: demo_decision_def demo_approval_def demo_co_signer_def)

lemma demo_service: "service_run demo_bn demo_services demo_co_signer 86400000
    \<lparr>dm_store = fst demo_after, dm_file = snd demo_after, dm_clock = 2000, dm_history = [demo_spend]\<rparr>"
proof -
  have "service_run demo_bn demo_services demo_co_signer 86400000 demo_idle"
    unfolding demo_idle_def
  proof (rule service_run.start)
    show "st_usage demo_store = None" "st_hours demo_store * 3600 * 1000 = 86400000"
      by (simp_all add: demo_store_def)
    show "load demo_bn 1000 No_lock demo_store NoFile
        = Inr (demo_window, demo_store\<lparr>st_usage := Some demo_window\<rparr>, Window_file [] (JInt 1000))"
      by (simp add: load_def demo_store_def persist_def assertLockOwned_def demo_window_def Let_def)
  qed
  from service_run.serve [OF this _ _ _ demo_process] demo_amounts(1) demo_spend_of
  show ?thesis
    by (simp add: demo_decision_def demo_host_def charge_history_def exact_charge_def demo_evaluation_def demo_idle_def)
qed

theorem service_budget_kept_witness:
  "of_nat (authorised ''jdog'' 86400000 2000 [demo_spend]) / 10 ^ 18 \<le> (100 :: rat) \<and> demo_spend = (2000, ''JDOG'', 5 * 10 ^ 18)"
proof -
  have w: "window_caps (cs_policy demo_co_signer) = Some [(''JDOG'', JInt 100)]"
    by (simp add: window_caps_def demo_co_signer_def demo_cap_policy_def)
  have c: "capFor (Some [(''JDOG'', JInt 100)]) (Some (JStr ''jdog'')) = Some (JInt 100)"
    and d: "isNonNegativeDecimal (js_string (JInt 100))" by code_simp+
  have "of_nat (authorised ''jdog'' 86400000 2000 [demo_spend]) / 10 ^ 18 \<le> dec_val (js_string (JInt 100))"
    using service_budget_kept [OF demo_service demo_bn_exact, THEN conjunct2, THEN conjunct2, rule_format,
        of "[(''JDOG'', JInt 100)]" "''jdog''" "JInt 100"] w c d
    by simp
  then have "of_nat (authorised ''jdog'' 86400000 2000 [demo_spend]) / 10 ^ 18 \<le> (100 :: rat)"
    unfolding demo_cap_checks(5) demo_amounts(3) .
  then show ?thesis by (simp only: demo_spend_def)
qed

end
