(* ===== verification/StoreLock.thy ===== *)
theory StoreLock
  imports WindowStore
begin

text \<open>
  The single-writer lock of the window store: \<open>publishLock\<close>, \<open>acquireLock\<close>,
  \<open>reclaimStaleLock\<close> and the exit hook of \<open>cosigner/window_store.js\<close>, one step per system call
  that other processes can see.

  \<^item> A process is a daemon with its pid, the nonce of its store and the place it has reached. The
    places of the constructor are the points between two calls on the lock file: about to
    link (\<open>Publishing\<close>), about to read the holder (\<open>Reading\<close>), about to rename the stale lock away
    (\<open>Reclaiming\<close>), carrying the renamed file (\<open>Carrying\<close>).
  \<^item> The lock name is absent or holds a record. The mount supports hard links, so the
    record and the name appear in one step and the create-then-write fallback is not taken.
  \<^item> A process may be killed at any point (its lock stays), exit (the exit hook deletes the lock
    by name) or hand the store over (\<open>release\<close>).
\<close>

section \<open>The calls\<close>

datatype phase =
    Publishing nat
  | Reading nat
  | Reclaiming nat int
  | Carrying nat int lock_file
  | Holding
  | Handed_over
  | Refused
  | Stopped

record process =
  pr_pid :: int
  pr_nonce :: string
  pr_phase :: phase

definition holder_record :: "process \<Rightarrow> lock_file" where
  "holder_record p = Lock_record (JInt (pr_pid p)) (JStr (pr_nonce p))"

definition running :: "process \<Rightarrow> bool" where
  "running p \<longleftrightarrow> pr_phase p \<noteq> Stopped"

text \<open>\<open>pidAlive\<close>: an integer above zero that some running process carries.\<close>

definition pidAlive :: "process list \<Rightarrow> jsval \<Rightarrow> bool" where
  "pidAlive ps v =
     (case v of JInt i \<Rightarrow> 0 < i \<and> list_ex (\<lambda>p. pr_pid p = i \<and> running p) ps | _ \<Rightarrow> False)"

text \<open>\<open>publishLock\<close>: \<open>None\<close> when the name is taken.\<close>

definition publishLock :: "process \<Rightarrow> lock_file \<Rightarrow> lock_file option" where
  "publishLock p lf = (if lf = No_lock then Some (holder_record p) else None)"

definition holder_pid :: "lock_file \<Rightarrow> jsval" where
  "holder_pid lf = (case lf of Lock_record pid nonce \<Rightarrow> pid | _ \<Rightarrow> JNull)"

text \<open>What a starter that lost the link does with the record it reads: \<open>Some pid\<close> authorizes the takeover.\<close>

definition stale_holder :: "process list \<Rightarrow> lock_file \<Rightarrow> int option" where
  "stale_holder ps lf =
     (let pid = holder_pid lf in
      if pidAlive ps pid then None
      else case pid of JInt i \<Rightarrow> if i \<le> 0 then None else Some i | _ \<Rightarrow> None)"

text \<open>The check of the carried record, and the attempt to put a foreign one back.\<close>

definition carried_is_stale :: "process list \<Rightarrow> int \<Rightarrow> lock_file \<Rightarrow> bool" where
  "carried_is_stale ps pid carried \<longleftrightarrow>
     holder_pid carried = JInt pid \<and> \<not> pidAlive ps (holder_pid carried)"

definition put_back :: "lock_file \<Rightarrow> lock_file \<Rightarrow> lock_file" where
  "put_back carried lf = (if lf = No_lock then carried else lf)"

text \<open>The next attempt of \<open>acquireLock\<close>, of which there are two.\<close>

definition next_attempt :: "nat \<Rightarrow> phase" where
  "next_attempt n = (if Suc n < 2 then Publishing (Suc n) else Refused)"

definition acquireLock :: "process list \<Rightarrow> process \<Rightarrow> lock_file \<Rightarrow> phase \<times> lock_file" where
  "acquireLock ps p lf =
     (case pr_phase p of
        Publishing n \<Rightarrow> (case publishLock p lf of Some lf' \<Rightarrow> (Holding, lf') | None \<Rightarrow> (Reading n, lf))
      | Reading n \<Rightarrow> ((case stale_holder ps lf of Some pid \<Rightarrow> Reclaiming n pid | None \<Rightarrow> Refused), lf)
      | Reclaiming n pid \<Rightarrow>
          if lf = No_lock then (next_attempt n, lf) else (Carrying n pid lf, No_lock)
      | Carrying n pid carried \<Rightarrow>
          if carried_is_stale ps pid carried then (next_attempt n, lf)
          else (Refused, put_back carried lf)
      | ph \<Rightarrow> (ph, lf))"

text \<open>The exit hook removes every lock name in \<open>HELD_LOCKS\<close>, whoever's record is behind it.\<close>

definition exit_hook :: "process \<Rightarrow> lock_file \<Rightarrow> lock_file" where
  "exit_hook p lf = (if pr_phase p = Holding then No_lock else lf)"

text \<open>The store of a process, as the ownership check of \<open>WindowStore\<close> sees it.\<close>

definition store_of :: "process \<Rightarrow> store" where
  "store_of p = \<lparr>st_hours = 1, st_init = False, st_locked = (pr_phase p = Holding), st_nonce = pr_nonce p,
     st_usage = None, st_quarantined = [], st_faults = []\<rparr>"

section \<open>Interleavings\<close>

record host =
  ho_lock :: lock_file
  ho_procs :: "process list"

datatype event = Acquire nat | Release nat | Exit nat | Kill nat

definition set_phase :: "nat \<Rightarrow> phase \<Rightarrow> process list \<Rightarrow> process list" where
  "set_phase i ph ps = ps[i := (ps ! i)\<lparr>pr_phase := ph\<rparr>]"

text \<open>One event; an event that cannot happen changes nothing.\<close>

definition host_event :: "event \<Rightarrow> host \<Rightarrow> host" where
  "host_event ev h =
     (let ps = ho_procs h; lf = ho_lock h in
      case ev of
        Acquire i \<Rightarrow>
          if length ps \<le> i then h
          else (case acquireLock ps (ps ! i) lf of (ph, lf') \<Rightarrow> \<lparr>ho_lock = lf', ho_procs = set_phase i ph ps\<rparr>)
      | Release i \<Rightarrow>
          if length ps \<le> i \<or> pr_phase (ps ! i) \<noteq> Holding then h
          else \<lparr>ho_lock = snd (release (store_of (ps ! i)) lf), ho_procs = set_phase i Handed_over ps\<rparr>
      | Exit i \<Rightarrow>
          if length ps \<le> i then h
          else \<lparr>ho_lock = exit_hook (ps ! i) lf, ho_procs = set_phase i Stopped ps\<rparr>
      | Kill i \<Rightarrow>
          if length ps \<le> i then h else \<lparr>ho_lock = lf, ho_procs = set_phase i Stopped ps\<rparr>)"

fun run_events :: "event list \<Rightarrow> host \<Rightarrow> host" where
  "run_events [] h = h"
| "run_events (ev # evs) h = run_events evs (host_event ev h)"

definition may_write :: "host \<Rightarrow> nat \<Rightarrow> bool" where
  "may_write h i \<longleftrightarrow> i < length (ho_procs h) \<and> pr_phase (ho_procs h ! i) = Holding
     \<and> assertLockOwned (store_of (ho_procs h ! i)) (ho_lock h)"

definition fresh_processes :: "process list \<Rightarrow> bool" where
  "fresh_processes ps \<longleftrightarrow>
     distinct (map pr_pid ps) \<and> distinct (map pr_nonce ps)
     \<and> list_all (\<lambda>p. 0 < pr_pid p \<and> pr_phase p = Publishing 0) ps"

text \<open>The lock a crashed predecessor left: none, or a record whose nonce none of these stores drew.\<close>

definition leftover :: "process list \<Rightarrow> lock_file \<Rightarrow> bool" where
  "leftover ps lf \<longleftrightarrow>
     (case lf of
        No_lock \<Rightarrow> True
      | Unreadable_lock \<Rightarrow> False
      | Lock_record pid nonce \<Rightarrow> list_all (\<lambda>p. pid \<noteq> JInt (pr_pid p) \<and> nonce \<noteq> JStr (pr_nonce p)) ps
          \<and> (case nonce of JStr n \<Rightarrow> True | _ \<Rightarrow> False))"

section \<open>At most one store may write\<close>

definition readable :: "lock_file \<Rightarrow> bool" where
  "readable lf \<longleftrightarrow> (case lf of No_lock \<Rightarrow> True | Unreadable_lock \<Rightarrow> False | Lock_record pid nonce \<Rightarrow> (\<exists>n. nonce = JStr n))"

definition fence_inv :: "string list \<Rightarrow> host \<Rightarrow> bool" where
  "fence_inv ns h \<longleftrightarrow>
     map pr_nonce (ho_procs h) = ns \<and> readable (ho_lock h)
     \<and> (\<forall>p\<in>set (ho_procs h). \<forall>n pid c. pr_phase p = Carrying n pid c \<longrightarrow> readable c)"

lemma nth_set_phase:
  "i < length ps \<Longrightarrow> set_phase k ph ps ! i = (if i = k then (ps ! i)\<lparr>pr_phase := ph\<rparr> else ps ! i)"
  by (simp add: set_phase_def nth_list_update)

lemma length_set_phase [simp]: "length (set_phase k ph ps) = length ps"
  by (simp add: set_phase_def)

lemma nonces_set_phase [simp]: "map pr_nonce (set_phase k ph ps) = map pr_nonce ps"
  by (rule nth_equalityI) (auto simp: nth_set_phase)

lemma set_set_phase: "p \<in> set (set_phase k ph ps) \<Longrightarrow> k < length ps \<Longrightarrow> p = (ps ! k)\<lparr>pr_phase := ph\<rparr> \<or> p \<in> set ps"
  unfolding set_phase_def using set_update_subset_insert by fast

lemma readable_release: "readable lf \<Longrightarrow> readable (snd (release st lf))"
  by (simp add: release_def readable_def)

lemma readable_simps [simp]: "readable No_lock" "readable (holder_record p)"
  by (simp_all add: readable_def holder_record_def)

lemma readable_acquire:
  assumes "readable lf" "\<And>n pid c. pr_phase p = Carrying n pid c \<Longrightarrow> readable c" "acquireLock ps p lf = (ph, lf')"
  shows "readable lf' \<and> (\<forall>n pid c. ph = Carrying n pid c \<longrightarrow> readable c)"
  using assms
  by (cases "pr_phase p")
    (auto simp: acquireLock_def publishLock_def put_back_def next_attempt_def split: if_split_asm option.splits)

lemma fence_inv_set:
  assumes "fence_inv ns h" "k < length (ho_procs h)" "readable lf" "\<And>n pid c. ph = Carrying n pid c \<Longrightarrow> readable c"
  shows "fence_inv ns \<lparr>ho_lock = lf, ho_procs = set_phase k ph (ho_procs h)\<rparr>"
  using assms by (auto simp: fence_inv_def dest!: set_set_phase)

lemma fence_inv_event:
  assumes "fence_inv ns h"
  shows "fence_inv ns (host_event ev h)"
proof -
  have rd: "readable (ho_lock h)" using assms by (simp add: fence_inv_def)
  show ?thesis
  proof (cases ev)
    case (Acquire k)
    obtain ph lf' where a: "acquireLock (ho_procs h) (ho_procs h ! k) (ho_lock h) = (ph, lf')" by fastforce
    have "readable lf' \<and> (\<forall>n pid c. ph = Carrying n pid c \<longrightarrow> readable c)" if "k < length (ho_procs h)"
    proof (rule readable_acquire [OF rd _ a])
      fix n pid c
      assume "pr_phase (ho_procs h ! k) = Carrying n pid c"
      with assms nth_mem [OF that] show "readable c" unfolding fence_inv_def by blast
    qed
    then show ?thesis using Acquire a assms fence_inv_set [OF assms] by (auto simp: host_event_def Let_def)
  next
    case (Release k)
    then show ?thesis using assms fence_inv_set [OF assms, of k _ Handed_over] readable_release [OF rd]
      by (simp add: host_event_def Let_def)
  next
    case (Exit k)
    then show ?thesis using assms fence_inv_set [OF assms, of k _ Stopped] rd
      by (simp add: host_event_def Let_def exit_hook_def)
  next
    case (Kill k)
    then show ?thesis using assms fence_inv_set [OF assms, of k _ Stopped] rd
      by (simp add: host_event_def Let_def)
  qed
qed

lemma fence_inv_run: "fence_inv ns h \<Longrightarrow> fence_inv ns (run_events evs h)"
  by (induction evs h rule: run_events.induct) (simp_all add: fence_inv_event)

lemma owned_record:
  assumes "readable lf" "pr_phase p = Holding" "assertLockOwned (store_of p) lf"
  shows "\<exists>pid. lf = Lock_record pid (JStr (pr_nonce p))"
  using assms by (auto simp: assertLockOwned_def store_of_def lockIsOurs_def readable_def split: lock_file.splits)

text \<open>
  C10: A store that lost its lock cannot write. Whatever the interleaving of starters,
  takeovers, hand-overs, exits and crashes, at most one store whose constructor returned passes the
  ownership check that guards every write of the state file.
\<close>

theorem fenced_single_writer:
  assumes "fresh_processes ps" and "leftover ps lf"
    and "may_write (run_events evs \<lparr>ho_lock = lf, ho_procs = ps\<rparr>) i"
    and "may_write (run_events evs \<lparr>ho_lock = lf, ho_procs = ps\<rparr>) j"
  shows "i = j"
proof -
  define h where "h = run_events evs \<lparr>ho_lock = lf, ho_procs = ps\<rparr>"
  have "fence_inv (map pr_nonce ps) \<lparr>ho_lock = lf, ho_procs = ps\<rparr>"
    using assms(1,2)
    by (auto simp: fence_inv_def fresh_processes_def leftover_def readable_def list_all_iff
      split: lock_file.splits jsval.splits)
  then have inv: "fence_inv (map pr_nonce ps) h" unfolding h_def by (rule fence_inv_run)
  then have ns: "map pr_nonce (ho_procs h) = map pr_nonce ps" and r: "readable (ho_lock h)"
    by (simp_all add: fence_inv_def)
  note mw = assms(3,4) [folded h_def, unfolded may_write_def]
  have "pr_nonce (ho_procs h ! i) = pr_nonce (ho_procs h ! j)"
    using owned_record [OF r, of "ho_procs h ! i"] owned_record [OF r, of "ho_procs h ! j"] mw by auto
  moreover have "distinct (map pr_nonce (ho_procs h))" using ns assms(1) by (simp add: fresh_processes_def)
  ultimately show ?thesis using mw nth_eq_iff_index_eq [of "map pr_nonce (ho_procs h)" i j] by simp
qed

section \<open>Two starters\<close>

definition published :: "process \<Rightarrow> bool" where
  "published p \<longleftrightarrow> pr_phase p \<in> {Holding, Handed_over, Stopped}"

definition half_inv :: "lock_file \<Rightarrow> process \<Rightarrow> process \<Rightarrow> bool" where
  "half_inv lf p q \<longleftrightarrow>
     (pr_phase p = Holding \<longrightarrow> lf = holder_record p \<or> pr_phase q = Stopped
        \<or> (lf = No_lock \<and> (\<exists>n pid. pr_phase q = Carrying n pid (holder_record p))))
     \<and> (lf = holder_record p \<longrightarrow> published p)
     \<and> (\<forall>n pid. pr_phase q = Carrying n pid (holder_record p) \<longrightarrow> published p)
     \<and> (\<forall>n pid. pr_phase p \<noteq> Carrying n pid (holder_record p))"

definition pair_inv :: "lock_file \<Rightarrow> process \<Rightarrow> process \<Rightarrow> bool" where
  "pair_inv lf p q \<longleftrightarrow> half_inv lf p q \<and> half_inv lf q p \<and> pr_pid p \<noteq> pr_pid q \<and> pr_nonce p \<noteq> pr_nonce q
     \<and> 0 < pr_pid p \<and> 0 < pr_pid q"

lemma pair_inv_sym: "pair_inv lf p q \<longleftrightarrow> pair_inv lf q p"
  by (auto simp: pair_inv_def)

lemma record_inject [simp]:
  "holder_record p = holder_record q \<longleftrightarrow> pr_pid p = pr_pid q \<and> pr_nonce p = pr_nonce q"
  "holder_record (p\<lparr>pr_phase := ph\<rparr>) = holder_record p"
  "holder_record p \<noteq> No_lock" "No_lock \<noteq> holder_record p"
  by (auto simp: holder_record_def)

lemma pair_inv_acquire:
  assumes "pair_inv lf p q" "q \<in> set ps" "acquireLock ps p lf = (ph, lf')"
  shows "pair_inv lf' (p\<lparr>pr_phase := ph\<rparr>) q"
proof (cases "pr_phase p")
  case (Carrying n pid c)
  have alive: "\<not> carried_is_stale ps pid (holder_record q)" if "pr_phase q = Holding"
    using assms(1,2) that
    by (auto simp: carried_is_stale_def pidAlive_def pair_inv_def holder_pid_def holder_record_def list_ex_iff running_def)
  show ?thesis using assms alive Carrying
    by (cases "pr_phase q")
      (auto simp: acquireLock_def pair_inv_def half_inv_def published_def put_back_def next_attempt_def split: if_split_asm)
qed (use assms in \<open>auto simp: acquireLock_def pair_inv_def half_inv_def published_def publishLock_def next_attempt_def
      split: if_split_asm option.splits\<close>)

lemma pair_inv_stop:
  assumes "pair_inv lf p q"
  shows "pair_inv lf (p\<lparr>pr_phase := Stopped\<rparr>) q"
  using assms by (auto simp: pair_inv_def half_inv_def published_def)

lemma pair_inv_drop:
  assumes "pair_inv lf p q" "pr_phase p = Holding" "ph = Stopped \<or> ph = Handed_over" "lf' = No_lock \<or> lf' = lf"
  shows "pair_inv lf' (p\<lparr>pr_phase := ph\<rparr>) q"
  using assms by (auto simp: pair_inv_def half_inv_def published_def)

definition two_inv :: "host \<Rightarrow> bool" where
  "two_inv h \<longleftrightarrow> (\<exists>p q. ho_procs h = [p, q] \<and> pair_inv (ho_lock h) p q)"

lemma two_inv_event:
  assumes "two_inv h"
  shows "two_inv (host_event ev h)"
proof -
  obtain p q where h: "ho_procs h = [p, q]" and inv: "pair_inv (ho_lock h) p q"
    using assms by (auto simp: two_inv_def)
  note inv' = inv [unfolded pair_inv_sym [of _ p q]]
  have idx: "k = 0 \<or> k = 1 \<or> 2 \<le> k" for k :: nat by arith
  have left: "two_inv \<lparr>ho_lock = lf, ho_procs = set_phase 0 ph [p, q]\<rparr>"
    if "pair_inv lf (p\<lparr>pr_phase := ph\<rparr>) q" for lf ph
    using that by (simp add: two_inv_def set_phase_def)
  have right: "two_inv \<lparr>ho_lock = lf, ho_procs = set_phase 1 ph [p, q]\<rparr>"
    if "pair_inv lf (q\<lparr>pr_phase := ph\<rparr>) p" for lf ph
    using that by (simp add: two_inv_def set_phase_def pair_inv_sym)
  have drop: "snd (release (store_of r) lf) = No_lock \<or> snd (release (store_of r) lf) = lf" for r lf
    by (simp add: release_def)
  show ?thesis
  proof (cases ev)
    case (Acquire k)
    have "two_inv (case acquireLock [p, q] ([p, q] ! k) (ho_lock h) of (ph, lf') \<Rightarrow>
        \<lparr>ho_lock = lf', ho_procs = set_phase k ph [p, q]\<rparr>)" if "k = 0 \<or> k = 1"
      using that left [OF pair_inv_acquire [OF inv, of "[p, q]"]] right [OF pair_inv_acquire [OF inv', of "[p, q]"]] by (auto split: prod.split)
    with Acquire assms idx [of k] show ?thesis by (auto simp: host_event_def Let_def h)
  next
    case (Release k)
    have "two_inv \<lparr>ho_lock = snd (release (store_of ([p, q] ! k)) (ho_lock h)), ho_procs = set_phase k Handed_over [p, q]\<rparr>"
      if "k = 0 \<or> k = 1" "pr_phase ([p, q] ! k) = Holding"
      using that left right pair_inv_drop [OF inv] pair_inv_drop [OF inv'] drop by auto
    with Release assms idx [of k] show ?thesis by (auto simp: host_event_def Let_def h)
  next
    case (Exit k)
    have "two_inv \<lparr>ho_lock = exit_hook ([p, q] ! k) (ho_lock h), ho_procs = set_phase k Stopped [p, q]\<rparr>"
      if "k = 0 \<or> k = 1"
      using that left right pair_inv_drop [OF inv] pair_inv_drop [OF inv'] pair_inv_stop [OF inv] pair_inv_stop [OF inv']
      by (auto simp: exit_hook_def)
    with Exit assms idx [of k] show ?thesis by (auto simp: host_event_def Let_def h)
  next
    case (Kill k)
    have "two_inv \<lparr>ho_lock = ho_lock h, ho_procs = set_phase k Stopped [p, q]\<rparr>" if "k = 0 \<or> k = 1"
      using that left right pair_inv_stop [OF inv] pair_inv_stop [OF inv'] by auto
    with Kill assms idx [of k] show ?thesis by (auto simp: host_event_def Let_def h)
  qed
qed

lemma two_inv_run: "two_inv h \<Longrightarrow> two_inv (run_events evs h)"
  by (induction evs h rule: run_events.induct) (simp_all add: two_inv_event)

text \<open>
  C11: Two starters never both get the store. From any lock file a crashed predecessor
  left, in every interleaving of two starting processes, killed or exiting at any point, at most one of
  them is past its constructor and holds the lock.
\<close>

theorem two_starters_exclusive:
  assumes "fresh_processes [p, q]" and "leftover [p, q] lf"
    and "ho_procs (run_events evs \<lparr>ho_lock = lf, ho_procs = [p, q]\<rparr>) = [p', q']"
  shows "\<not> (pr_phase p' = Holding \<and> pr_phase q' = Holding)"
proof -
  have "lf \<noteq> holder_record r" if "r \<in> {p, q}" for r
    using assms(2) that by (auto simp: leftover_def holder_record_def)
  then have "two_inv \<lparr>ho_lock = lf, ho_procs = [p, q]\<rparr>"
    using assms(1) by (auto simp: two_inv_def pair_inv_def half_inv_def fresh_processes_def published_def)
  from two_inv_run [OF this, of evs] assms(3) have "pair_inv (ho_lock (run_events evs \<lparr>ho_lock = lf, ho_procs = [p, q]\<rparr>)) p' q'"
    by (auto simp: two_inv_def)
  then show ?thesis by (auto simp: pair_inv_def half_inv_def)
qed

definition starter :: "int \<Rightarrow> string \<Rightarrow> process" where
  "starter pid nonce = \<lparr>pr_pid = pid, pr_nonce = nonce, pr_phase = Publishing 0\<rparr>"

definition demo_starters :: "process list" where
  "demo_starters = [starter 101 ''a'', starter 102 ''b'']"

definition crashed_lock :: lock_file where
  "crashed_lock = Lock_record (JInt 100) (JStr ''old'')"

lemma demo_starters_ok: "fresh_processes demo_starters" "leftover demo_starters crashed_lock"
  by (simp_all add: fresh_processes_def leftover_def demo_starters_def starter_def crashed_lock_def)

definition takeover :: "event list" where
  "takeover = replicate 5 (Acquire 0) @ replicate 5 (Acquire 1)"

theorem two_starters_exclusive_witness:
  "map pr_phase (ho_procs (run_events takeover \<lparr>ho_lock = crashed_lock, ho_procs = demo_starters\<rparr>)) = [Holding, Refused]
    \<and> \<not> (Holding = Holding \<and> Refused = Holding)"
proof -
  have r: "ho_procs (run_events takeover \<lparr>ho_lock = crashed_lock, ho_procs = demo_starters\<rparr>)
      = [(starter 101 ''a'')\<lparr>pr_phase := Holding\<rparr>, (starter 102 ''b'')\<lparr>pr_phase := Refused\<rparr>]" by code_simp
  from two_starters_exclusive [OF demo_starters_ok [unfolded demo_starters_def], of takeover,
      folded demo_starters_def, OF r]
  show ?thesis by (simp add: r)
qed

theorem fenced_single_writer_witness:
  "may_write (run_events takeover \<lparr>ho_lock = crashed_lock, ho_procs = demo_starters\<rparr>) 0
    \<and> \<not> may_write (run_events takeover \<lparr>ho_lock = crashed_lock, ho_procs = demo_starters\<rparr>) 1"
proof -
  have "may_write (run_events takeover \<lparr>ho_lock = crashed_lock, ho_procs = demo_starters\<rparr>) 0" by code_simp
  with fenced_single_writer [OF demo_starters_ok this, of 1] show ?thesis by auto
qed

section \<open>Three starters\<close>

text \<open>
  The third starter publishes while the second one carries the first one's live lock away: both
  constructors have returned. The first store is fenced from then on; when it exits, its hook deletes the
  lock of the other by name, and that store is fenced too.
\<close>

definition overlap :: "event list" where
  "overlap = [Acquire 0, Acquire 1, Acquire 0, Acquire 1, Acquire 0, Acquire 0, Acquire 0, Acquire 1,
              Acquire 2, Acquire 1]"

definition three_starters :: "process list" where
  "three_starters = [starter 101 ''a'', starter 102 ''b'', starter 103 ''c'']"

text \<open>
  Three starters can both get the store. There is a schedule from a crashed predecessor's
  lock after which two running processes hold the store at once, although only one of them may
  write; and when the displaced one exits, the exit hook deletes the other's lock, so that the
  remaining live holder may not write either.
\<close>

lemma three_starters_both_hold:
  "fresh_processes three_starters \<and> leftover three_starters crashed_lock
    \<and> map pr_phase (ho_procs (run_events overlap \<lparr>ho_lock = crashed_lock, ho_procs = three_starters\<rparr>))
        = [Holding, Refused, Holding]
    \<and> \<not> may_write (run_events overlap \<lparr>ho_lock = crashed_lock, ho_procs = three_starters\<rparr>) 0
    \<and> may_write (run_events overlap \<lparr>ho_lock = crashed_lock, ho_procs = three_starters\<rparr>) 2
    \<and> \<not> may_write (run_events (overlap @ [Exit 0]) \<lparr>ho_lock = crashed_lock, ho_procs = three_starters\<rparr>) 2"
  by code_simp

end
