(* ===== verification/AgentSession.thy ===== *)
theory AgentSession
  imports SpendLedger
begin

text \<open>
  The client's policy session: \<open>cosigner/agent_session.js\<close>. It runs the evaluator of the co-signer
  around every submit and keeps its own window, one file per address, which also remembers
  idempotency keys.

  \<^item> A row of the window is the object the file holds, an association list; the entries of a file
    that was written by a session are objects. The file is absent, unreadable, or holds the rows.
  \<^item> A submit is one atomic handler, since submits are serialized on the session's tail. The clock is read
    once before the evaluation, once at the authorization and once after the broadcast. What the broadcast
    does (\<open>WalletSession.submitInner\<close>), the answer of the confirmation handler and the state of the
    kill-switch file are inputs.
  \<^item> The row of the current submission is the last one, the live reference the code patches.
\<close>

section \<open>Configuration\<close>

datatype session_error =
    POLICY_INVALID
  | POLICY_STATE_CORRUPT
  | POLICY_HALTED
  | POLICY_VIOLATION violation
  | POLICY_CONFIRMATION_DENIED
  | POLICY_IDEMPOTENCY_REQUIRED
  | POLICY_DUPLICATE_SUBMIT jsval
  | EVALUATION_THREW
  | SUBMIT_THREW

record agent_options =
  ao_policy :: policy
  ao_handler :: bool
  ao_idempotencyHours :: "rat option"
  ao_allowUnbounded :: bool
  ao_allowUnkeyedSubmits :: bool
  ao_paused :: bool

record session =
  se_policy :: policy
  se_idempotencyHours :: rat
  se_allowUnkeyedSubmits :: bool
  se_paused :: bool
  se_usage :: "row list option"

definition has_ceiling :: "policy \<Rightarrow> bool" where
  "has_ceiling pol \<longleftrightarrow>
     (case p_maxPerAction pol of Some t \<Rightarrow> hasEnforceableCap2 t | None \<Rightarrow> False)
     \<or> (case window_caps pol of Some t \<Rightarrow> hasEnforceableCap t | None \<Rightarrow> False)
     \<or> p_confirmAbove pol \<noteq> None"

definition validatePolicy :: "agent_options \<Rightarrow> session_error option" where
  "validatePolicy ao =
     (let pol = ao_policy ao in
      if p_allowedActions pol = [] then Some POLICY_INVALID
      else if (case p_maxPerWindow pol of Some w \<Rightarrow> wp_hours w \<le> 0 | None \<Rightarrow> False) then Some POLICY_INVALID
      else if p_confirmAbove pol \<noteq> None \<and> \<not> ao_handler ao then Some POLICY_INVALID
      else if (case ao_idempotencyHours ao of Some h \<Rightarrow> h \<le> 0 | None \<Rightarrow> False) then Some POLICY_INVALID
      else if \<not> has_ceiling pol \<and> \<not> ao_allowUnbounded ao then Some POLICY_INVALID
      else None)"

text \<open>The constructor: upper-cased action names, and 720 hours for the keys when nothing is said.\<close>

definition new_session :: "agent_options \<Rightarrow> session_error + session" where
  "new_session ao =
     (case validatePolicy ao of
        Some e \<Rightarrow> Inl e
      | None \<Rightarrow> Inr \<lparr>se_policy = (ao_policy ao)\<lparr>p_allowedActions := map ascii_upper (p_allowedActions (ao_policy ao))\<rparr>,
                    se_idempotencyHours = (case ao_idempotencyHours ao of Some h \<Rightarrow> h | None \<Rightarrow> 720),
                    se_allowUnkeyedSubmits = ao_allowUnkeyedSubmits ao, se_paused = ao_paused ao, se_usage = None\<rparr>)"

definition pause :: "session \<Rightarrow> session" where "pause se = se\<lparr>se_paused := True\<rparr>"
definition resume :: "session \<Rightarrow> session" where "resume se = se\<lparr>se_paused := False\<rparr>"

datatype halt_file = Halt_absent | Halt_present | Halt_unreadable

definition halted :: "session \<Rightarrow> halt_file \<Rightarrow> bool" where
  "halted se hf \<longleftrightarrow> se_paused se \<or> hf \<noteq> Halt_absent"

section \<open>The window\<close>

datatype usage_file = No_usage | Corrupt_usage | Usage_file "row list"

definition loadUsage :: "session \<Rightarrow> usage_file \<Rightarrow> session_error + row list" where
  "loadUsage se file =
     (case se_usage se of
        Some rows \<Rightarrow> Inr rows
      | None \<Rightarrow> (case file of
                   No_usage \<Rightarrow> Inr []
                 | Corrupt_usage \<Rightarrow> Inl POLICY_STATE_CORRUPT
                 | Usage_file rows \<Rightarrow> Inr rows))"

definition hours_ms :: "rat \<Rightarrow> rat" where
  "hours_ms h = h * 3600 * 1000"

definition no_older :: "rat \<Rightarrow> row \<Rightarrow> bool" where
  "no_older cutoff e \<longleftrightarrow> (case row_time e of Some t \<Rightarrow> cutoff \<le> t | None \<Rightarrow> False)"

definition row_key :: "row \<Rightarrow> jsval" where
  "row_key e = get_prop e ''key''"

definition compact_row :: "row \<Rightarrow> row" where
  "compact_row e =
     [(''t'', get_prop e ''t''), (''key'', row_key e),
      (''txid'', if get_prop e ''txid'' = JUndef then JNull else get_prop e ''txid'')]"

fun keep_rows :: "rat \<Rightarrow> rat \<Rightarrow> row list \<Rightarrow> row list" where
  "keep_rows windowCutoff keyCutoff [] = []"
| "keep_rows windowCutoff keyCutoff (e # es) =
     (if no_older windowCutoff e then e # keep_rows windowCutoff keyCutoff es
      else if \<not> is_nullish (row_key e) \<and> no_older keyCutoff e
      then compact_row e # keep_rows windowCutoff keyCutoff es
      else keep_rows windowCutoff keyCutoff es)"

definition pruned_rows :: "session \<Rightarrow> int \<Rightarrow> row list \<Rightarrow> row list" where
  "pruned_rows se now rows =
     (case p_maxPerWindow (se_policy se) of
        None \<Rightarrow> rows
      | Some win \<Rightarrow> keep_rows (of_int now - hours_ms (wp_hours win)) (of_int now - hours_ms (se_idempotencyHours se)) rows)"

definition pruned_usage :: "int \<Rightarrow> session \<Rightarrow> usage_file \<Rightarrow> session_error + (row list \<times> session)" where
  "pruned_usage now se file =
     try_bind (loadUsage se file) (\<lambda>rows.
       let rows' = pruned_rows se now rows in Inr (rows', se\<lparr>se_usage := Some rows'\<rparr>))"

text \<open>The totals per tick; an amount that cannot be added throws.\<close>

fun sum_rows :: "bignum \<Rightarrow> row list \<Rightarrow> (string \<times> string) list \<Rightarrow> (string \<times> string) list option" where
  "sum_rows bn [] per = Some per"
| "sum_rows bn (e # es) per =
     (if get_prop e ''amount'' = JUndef then sum_rows bn es per
      else
        let cur = (case ownLookup per (bucket_key e) of Some s \<Rightarrow> if s = [] then ''0'' else s | None \<Rightarrow> ''0'') in
        case addDecimal bn cur (get_prop e ''amount'') of
          Some s \<Rightarrow> sum_rows bn es (AList.update (bucket_key e) s per)
        | None \<Rightarrow> None)"

definition window_rows :: "session \<Rightarrow> int \<Rightarrow> row list \<Rightarrow> row list" where
  "window_rows se now rows =
     (case p_maxPerWindow (se_policy se) of
        None \<Rightarrow> filter (\<lambda>e. row_time e \<noteq> None) rows
      | Some win \<Rightarrow> filter (no_older (of_int now - hours_ms (wp_hours win))) rows)"

definition computeWindowUsage :: "bignum \<Rightarrow> int \<Rightarrow> session \<Rightarrow> usage_file \<Rightarrow> session_error + (usage \<times> session)" where
  "computeWindowUsage bn now se file =
     try_bind (pruned_usage now se file) (\<lambda>(rows, se').
       let inWindow = window_rows se' now rows in
       case sum_rows bn inWindow [] of
         None \<Rightarrow> Inl EVALUATION_THREW
       | Some per \<Rightarrow> Inr (\<lparr>u_count = length inWindow, u_perTick = per\<rparr>, se'))"

text \<open>The row of an authorization: its txid is still \<open>null\<close>, its key is there when one was given.\<close>

definition usage_row :: "int \<Rightarrow> evaluation \<Rightarrow> jsval \<Rightarrow> row" where
  "usage_row now e key =
     new_row now (ev_action e) (ev_tick e) (ev_amount e) JNull
     @ (if is_nullish key then [] else [(''key'', JStr (js_string key))])"

definition persistUsage :: "row list \<Rightarrow> session \<Rightarrow> session \<times> usage_file" where
  "persistUsage rows se = (se\<lparr>se_usage := Some rows\<rparr>, Usage_file rows)"

definition recordUsage ::
  "int \<Rightarrow> evaluation \<Rightarrow> jsval \<Rightarrow> session \<Rightarrow> usage_file \<Rightarrow> session_error + (session \<times> usage_file)" where
  "recordUsage now e key se file =
     try_bind (pruned_usage now se file) (\<lambda>(rows, se'). Inr (persistUsage (rows @ [usage_row now e key]) se'))"

definition patch_last :: "string \<Rightarrow> row list \<Rightarrow> row list" where
  "patch_last txid rows =
     (if rows = [] then [] else butlast rows @ [AList.update ''txid'' (JStr txid) (last rows)])"

definition patchUsageTxid :: "string option \<Rightarrow> session \<Rightarrow> usage_file \<Rightarrow> session \<times> usage_file" where
  "patchUsageTxid txid se file =
     (case (txid, se_usage se) of
        (Some x, Some rows) \<Rightarrow> if x = [] then (se, file) else persistUsage (patch_last x rows) se
      | _ \<Rightarrow> (se, file))"

section \<open>The chokepoint\<close>

text \<open>The first row that remembers a key, and whether the submission may go ahead.\<close>

definition prior_row :: "string \<Rightarrow> row list \<Rightarrow> row option" where
  "prior_row key rows = find (\<lambda>e. row_key e = JStr key) rows"

definition authorizeSubmission ::
  "int \<Rightarrow> evaluation \<Rightarrow> jsval \<Rightarrow> session \<Rightarrow> usage_file \<Rightarrow> session_error + (session \<times> usage_file)" where
  "authorizeSubmission now e key se file =
     (if is_nullish key then
        (if se_allowUnkeyedSubmits se then recordUsage now e key se file else Inl POLICY_IDEMPOTENCY_REQUIRED)
      else
        try_bind (pruned_usage now se file) (\<lambda>(rows, se').
          case prior_row (js_string key) rows of
            Some p \<Rightarrow> Inl (POLICY_DUPLICATE_SUBMIT (get_prop p ''txid''))
          | None \<Rightarrow> recordUsage now e key se' file))"

datatype outcome = Landed string | Threw "string option"

record surroundings =
  su_halt :: halt_file
  su_evaluated :: int
  su_authorized :: int
  su_confirmed :: bool
  su_outcome :: outcome

record submission =
  sb_action :: string
  sb_version :: "nat option"
  sb_params :: params
  sb_key :: jsval

definition evaluate_request ::
  "bignum \<Rightarrow> int \<Rightarrow> submission \<Rightarrow> session \<Rightarrow> usage_file \<Rightarrow> session_error + (evaluation \<times> session)" where
  "evaluate_request bn now sb se file =
     try_bind (if p_maxPerWindow (se_policy se) = None then Inr (None, se)
               else try_bind (computeWindowUsage bn now se file) (\<lambda>(u, se'). Inr (Some u, se')))
       (\<lambda>(u, se').
          case evaluatePolicy bn (se_policy se) (sb_action sb) (sb_version sb) (sb_params sb) u of
            None \<Rightarrow> Inl EVALUATION_THREW
          | Some (Inl v) \<Rightarrow> Inl (POLICY_VIOLATION v)
          | Some (Inr e) \<Rightarrow> Inr (e, se'))"

text \<open>The confirmation handler is shown the window, so the window is computed for it.\<close>

definition confirm_request ::
  "bignum \<Rightarrow> int \<Rightarrow> bool \<Rightarrow> evaluation \<Rightarrow> session \<Rightarrow> usage_file \<Rightarrow> session_error + session" where
  "confirm_request bn now answer e se file =
     (if ev_confirm e
      then try_bind (computeWindowUsage bn now se file) (\<lambda>(u, se').
             if answer then Inr se' else Inl POLICY_CONFIRMATION_DENIED)
      else Inr se)"

text \<open>Up to the point where \<open>submitInner\<close> is called: what was charged, or the refusal.\<close>

definition enforce ::
  "bignum \<Rightarrow> surroundings \<Rightarrow> submission \<Rightarrow> session \<Rightarrow> usage_file
     \<Rightarrow> session_error + (evaluation \<times> session \<times> usage_file)" where
  "enforce bn su sb se file =
     (if halted se (su_halt su) then Inl POLICY_HALTED
      else try_bind (evaluate_request bn (su_evaluated su) sb se file) (\<lambda>(e, se1).
           try_bind (confirm_request bn (su_evaluated su) (su_confirmed su) e se1 file) (\<lambda>se2.
           try_bind (authorizeSubmission (su_authorized su) e (sb_key sb) se2 file) (\<lambda>(se3, file3).
             Inr (e, se3, file3)))))"

definition outcome_txid :: "outcome \<Rightarrow> string option" where
  "outcome_txid out = (case out of Landed x \<Rightarrow> Some x | Threw x \<Rightarrow> x)"

definition enforceAndSubmit ::
  "bignum \<Rightarrow> surroundings \<Rightarrow> submission \<Rightarrow> session \<Rightarrow> usage_file
     \<Rightarrow> session_error + (evaluation \<times> session \<times> usage_file)" where
  "enforceAndSubmit bn su sb se file =
     try_bind (enforce bn su sb se file) (\<lambda>(e, se1, file1).
       case patchUsageTxid (outcome_txid (su_outcome su)) se1 file1 of (se2, file2) \<Rightarrow> Inr (e, se2, file2))"

section \<open>What pruning keeps\<close>

definition within_key :: "session \<Rightarrow> int \<Rightarrow> int \<Rightarrow> bool" where
  "within_key se now t \<longleftrightarrow>
     p_maxPerWindow (se_policy se) = None \<or> of_int now - hours_ms (se_idempotencyHours se) \<le> of_int t"

definition same_config :: "session \<Rightarrow> session \<Rightarrow> bool" where
  "same_config se se' \<longleftrightarrow>
     se_policy se' = se_policy se \<and> se_idempotencyHours se' = se_idempotencyHours se
     \<and> se_allowUnkeyedSubmits se' = se_allowUnkeyedSubmits se"

lemma same_config_refl [simp]: "same_config se se" "same_config se (se\<lparr>se_usage := u\<rparr>)"
    "same_config se (se\<lparr>se_paused := b\<rparr>)"
  and same_config_trans: "same_config se se' \<Longrightarrow> same_config se' se'' \<Longrightarrow> same_config se se''"
  by (simp_all add: same_config_def)

lemma within_key_later: "within_key se now' t \<Longrightarrow> now \<le> now' \<Longrightarrow> within_key se now t"
proof -
  assume "within_key se now' t" "now \<le> now'"
  moreover from this(2) have "(of_int now :: rat) \<le> of_int now'" by simp
  ultimately show ?thesis by (auto simp: within_key_def)
qed

lemma compact_row_simps [simp]:
  "row_key (compact_row e) = row_key e" "row_time (compact_row e) = row_time e"
  "get_prop (compact_row e) ''amount'' = JUndef" "get_prop (compact_row e) ''t'' = get_prop e ''t''"
  by (simp_all add: compact_row_def row_key_def row_time_def get_prop_def)

lemma keep_rows_keyed:
  assumes "r \<in> set rows" "row_key r = JStr k" "row_time r = Some t" "wc \<le> t \<or> kc \<le> t"
  shows "\<exists>r'\<in>set (keep_rows wc kc rows). row_key r' = JStr k \<and> row_time r' = Some t"
  using assms(1)
proof (induction rows)
  case (Cons e es)
  show ?case
  proof (cases "r = e")
    case True
    with assms(2-4) show ?thesis by (auto simp: no_older_def is_nullish_def)
  next
    case False
    with Cons show ?thesis by auto
  qed
qed simp

lemma pruned_rows_keyed:
  assumes "r \<in> set rows" "row_key r = JStr k" "row_time r = Some (of_int t)" "within_key se now t"
  shows "\<exists>r'\<in>set (pruned_rows se now rows). row_key r' = JStr k \<and> row_time r' = Some (of_int t)"
  using assms keep_rows_keyed [OF assms(1-3)]
  by (auto simp: pruned_rows_def within_key_def split: option.splits)

text \<open>Rows outside the window change, those inside are kept as they are.\<close>

lemma keep_rows_window:
  assumes "\<forall>e\<in>set rows. good_row T e" "T \<le> now" "W = hours_ms h"
  shows "filter (in_window W now) (map row_spend (keep_rows (of_int now - W) kc rows))
      = filter (in_window W now) (map row_spend rows)"
    and "\<forall>e\<in>set (keep_rows (of_int now - W) kc rows). good_row now e"
    and "filter (no_older (of_int now - W)) (keep_rows (of_int now - W) kc rows)
      = filter (no_older (of_int now - W)) rows"
proof -
  have iw: "in_window W now (row_spend e) \<longleftrightarrow> no_older (of_int now - W) e" if "good_row T e" for e
    using that by (auto simp: good_row_def in_window_def row_spend_def no_older_def row_time_def finite_number_def)
  have ic: "in_window W now (row_spend (compact_row e)) \<longleftrightarrow> in_window W now (row_spend e)" for e
    by (simp add: in_window_def row_spend_def)
  have nc: "no_older c (compact_row e) \<longleftrightarrow> no_older c e" for c e by (simp add: no_older_def)
  have g: "good_row now e" if "good_row T e" for e
    using that assms(2) unfolding good_row_def by (meson order_trans)
  have gc: "good_row now (compact_row e)" if "good_row T e" for e
    using g [OF that] by (simp add: good_row_def wf_row_def)
  show "filter (in_window W now) (map row_spend (keep_rows (of_int now - W) kc rows))
      = filter (in_window W now) (map row_spend rows)"
    using assms(1) by (induction rows) (auto simp: iw ic)
  show "\<forall>e\<in>set (keep_rows (of_int now - W) kc rows). good_row now e"
    using assms(1) by (induction rows) (auto simp: g gc)
  show "filter (no_older (of_int now - W)) (keep_rows (of_int now - W) kc rows)
      = filter (no_older (of_int now - W)) rows"
    by (induction rows) (auto simp: nc)
qed

lemma sum_rows_accumulate: "accumulate bn rows per = (per', []) \<Longrightarrow> sum_rows bn rows per = Some per'"
proof (induction rows arbitrary: per)
  case (Cons e es)
  then show ?case
    by (auto simp: Let_def split: if_split_asm option.splits prod.splits)
qed simp

section \<open>The session's window keeps the contract\<close>

definition usage_rows :: "usage_file \<Rightarrow> row list option" where
  "usage_rows file = (case file of No_usage \<Rightarrow> Some [] | Corrupt_usage \<Rightarrow> None | Usage_file rows \<Rightarrow> Some rows)"

definition rows_for :: "rat \<Rightarrow> int \<Rightarrow> row list \<Rightarrow> spend list \<Rightarrow> bool" where
  "rows_for W T rows H \<longleftrightarrow>
     (\<forall>e\<in>set rows. good_row T e) \<and> filter (in_window W T) (map row_spend rows) = filter (in_window W T) H"

definition session_rep :: "rat \<Rightarrow> session \<times> usage_file \<Rightarrow> int \<Rightarrow> spend list \<Rightarrow> bool" where
  "session_rep W s T H \<longleftrightarrow>
     (\<exists>win. p_maxPerWindow (se_policy (fst s)) = Some win \<and> hours_ms (wp_hours win) = W)
     \<and> (\<forall>rows. se_usage (fst s) = Some rows \<longrightarrow> rows_for W T rows H)
     \<and> (\<exists>rows. usage_rows (snd s) = Some rows \<and> rows_for W T rows H)"

definition session_look :: "bignum \<Rightarrow> int \<Rightarrow> session \<times> usage_file \<Rightarrow> usage \<Rightarrow> session \<times> usage_file \<Rightarrow> bool" where
  "session_look bn t s u s' \<longleftrightarrow> computeWindowUsage bn t (fst s) (snd s) = Inr (u, fst s') \<and> snd s' = snd s"

definition session_charge :: "bignum \<Rightarrow> int \<Rightarrow> evaluation \<Rightarrow> session \<times> usage_file \<Rightarrow> session \<times> usage_file \<Rightarrow> bool" where
  "session_charge bn t e s s' \<longleftrightarrow> (\<exists>key txid se1 file1.
     recordUsage t e key (fst s) (snd s) = Inr (se1, file1) \<and> patchUsageTxid txid se1 file1 = (fst s', snd s'))"

lemma rows_for_later:
  assumes "rows_for W T rows H" "T \<le> t"
  shows "rows_for W t rows H"
proof -
  have "filter (in_window W t) (map row_spend rows) = filter (in_window W t) H"
    using assms filter_filter_imp [of "in_window W t" "in_window W T"] in_window_mono [OF assms(2)]
    by (metis rows_for_def)
  moreover have "good_row t e" if "e \<in> set rows" for e
    using assms that by (fastforce simp: rows_for_def good_row_def)
  ultimately show ?thesis by (simp add: rows_for_def)
qed

lemma loaded_rows:
  assumes "session_rep W s T H" "loadUsage (fst s) (snd s) = Inr rows"
  shows "rows_for W T rows H"
  using assms by (auto simp: session_rep_def loadUsage_def usage_rows_def split: option.splits usage_file.splits)

lemma pruned_rows_for:
  assumes "rows_for W T rows H" "T \<le> t" "p_maxPerWindow (se_policy se) = Some win" "hours_ms (wp_hours win) = W"
  shows "rows_for W t (pruned_rows se t rows) H"
    and "window_rows se t (pruned_rows se t rows) = filter (no_older (of_int t - W)) rows"
proof -
  have good: "\<forall>e\<in>set rows. good_row T e" using assms(1) by (simp add: rows_for_def)
  note k = keep_rows_window [OF good assms(2) assms(4) [symmetric], of "of_int t - hours_ms (se_idempotencyHours se)"]
  have p: "pruned_rows se t rows = keep_rows (of_int t - W) (of_int t - hours_ms (se_idempotencyHours se)) rows"
    using assms(3,4) by (simp add: pruned_rows_def)
  show "rows_for W t (pruned_rows se t rows) H"
    unfolding p using k rows_for_later [OF assms(1,2)] by (simp add: rows_for_def)
  show "window_rows se t (pruned_rows se t rows) = filter (no_older (of_int t - W)) rows"
    unfolding p using k(3) assms(3,4) by (simp add: window_rows_def)
qed

lemma pruned_usage_Inr:
  assumes "pruned_usage t se file = Inr (rows', se')"
  shows "\<exists>rows. loadUsage se file = Inr rows \<and> rows' = pruned_rows se t rows \<and> se' = se\<lparr>se_usage := Some rows'\<rparr>"
  using assms by (auto simp: pruned_usage_def try_bind_Inr Let_def)

lemma pruned_usage_rep:
  assumes "session_rep W s T H" "T \<le> t" "pruned_usage t (fst s) (snd s) = Inr (rows', se')"
  shows "session_rep W (se', snd s) t H" and "rows_for W t rows' H"
    and "\<exists>rows. rows_for W T rows H \<and> window_rows se' t rows' = filter (no_older (of_int t - W)) rows"
proof -
  from pruned_usage_Inr [OF assms(3)] obtain rows where r: "loadUsage (fst s) (snd s) = Inr rows"
      "rows' = pruned_rows (fst s) t rows" "se' = (fst s)\<lparr>se_usage := Some rows'\<rparr>" by blast
  from assms(1) obtain win where w: "p_maxPerWindow (se_policy (fst s)) = Some win" "hours_ms (wp_hours win) = W"
    by (auto simp: session_rep_def)
  note l = loaded_rows [OF assms(1) r(1)]
  note p = pruned_rows_for [OF l assms(2) w]
  show "rows_for W t rows' H" using p(1) r(2) by simp
  with assms(1,2) w r(3) rows_for_later show "session_rep W (se', snd s) t H"
    by (auto simp: session_rep_def)
  have "window_rows se' t rows' = window_rows (fst s) t rows'" by (simp add: window_rows_def r(3))
  with p(2) l r(2) show "\<exists>rows. rows_for W T rows H \<and> window_rows se' t rows' = filter (no_older (of_int t - W)) rows"
    by auto
qed

lemma session_look_rep:
  assumes "session_rep W s T H" "T \<le> t" "session_look bn t s u s'"
  shows "session_rep W s' t H"
proof -
  from assms(3) obtain rows where "pruned_usage t (fst s) (snd s) = Inr (rows, fst s')" "snd s' = snd s"
    by (auto simp: session_look_def computeWindowUsage_def try_bind_Inr Let_def split: option.splits)
  with pruned_usage_rep(1) [OF assms(1,2)] show ?thesis by (metis prod.collapse)
qed

lemma window_rows_spent:
  assumes "rows_for W T rows H" "T \<le> t"
  defines "inw \<equiv> filter (no_older (of_int t - W)) rows"
  shows "spent k inw = authorised k W t H" and "rowsum (\<lambda>_. True) inw \<le> total_units H"
    and "\<forall>e\<in>set inw. wf_row e"
proof -
  have good: "\<forall>e\<in>set rows. good_row T e" using assms(1) by (simp add: rows_for_def)
  have "map row_spend (filter (no_older (of_int t - W)) rows) = filter (in_window W t) (map row_spend rows)"
    using good
    by (induction rows) (auto simp: good_row_def in_window_def row_spend_def no_older_def row_time_def finite_number_def)
  also have "\<dots> = filter (in_window W t) H"
    using rows_for_later [OF assms(1,2)] by (simp add: rows_for_def)
  finally have e: "map row_spend inw = filter (in_window W t) H" unfolding inw_def .
  show "spent k inw = authorised k W t H"
    unfolding spent_def rowsum_spends e authorised_def by simp
  have "rowsum (\<lambda>_. True) inw = sum_list (map (\<lambda>(t, x, n). n) (filter (in_window W t) H))"
    unfolding rowsum_spends e by simp
  also have "\<dots> \<le> total_units H" unfolding total_units_def by (rule sum_filter_le)
  finally show "rowsum (\<lambda>_. True) inw \<le> total_units H" .
  show "\<forall>e\<in>set inw. wf_row e" using good by (auto simp: inw_def good_row_def)
qed

lemma session_look_used:
  assumes "bn_exact bn" "session_rep W s T H" "T \<le> t" "total_units H < 10 ^ 64" "session_look bn t s u s'"
  shows "\<exists>used. windowUsedFor bn (u_perTick u) (JStr k) = Some used \<and> amount_text used
    \<and> amount_units used = authorised k W t H"
proof -
  from assms(5) obtain rows' per where p: "pruned_usage t (fst s) (snd s) = Inr (rows', fst s')"
      "sum_rows bn (window_rows (fst s') t rows') [] = Some per" "u_perTick u = per"
    by (auto simp: session_look_def computeWindowUsage_def try_bind_Inr Let_def split: option.splits)
  from pruned_usage_rep(3) [OF assms(2,3) p(1)] obtain rows where r: "rows_for W T rows H"
      "window_rows (fst s') t rows' = filter (no_older (of_int t - W)) rows" by blast
  note w = window_rows_spent [OF r(1) assms(3)]
  have "rowsum (\<lambda>_. True) (filter (no_older (of_int t - W)) rows) < 10 ^ 64" using w(2) assms(4) by simp
  from snapshot_used [OF assms(1) w(3) this, of k] obtain per' used where
    a: "accumulate bn (filter (no_older (of_int t - W)) rows) [] = (per', [])"
      "windowUsedFor bn per' (JStr k) = Some used" "amount_text used"
      "amount_units used = spent k (filter (no_older (of_int t - W)) rows)" by blast
  with sum_rows_accumulate [OF a(1)] p(2,3) r(2) w(1) show ?thesis by auto
qed

lemma usage_row_spend:
  assumes "\<And>a. ev_amount e = Some a \<Longrightarrow> amount_text (js_string a)"
  shows "good_row t (usage_row t e key)" and "row_spend (usage_row t e key) = spend_of t e"
  using assms
  by (auto simp: usage_row_def good_row_def wf_row_def opt_val_def new_row_def get_prop_def spend_of_def row_spend_def
    bucket_key_def row_units_def split: option.splits)

lemma rows_for_snoc:
  "rows_for W t rows H \<Longrightarrow> good_row t r \<Longrightarrow> rows_for W t (rows @ [r]) (H @ [row_spend r])"
  by (auto simp: rows_for_def)

lemma get_prop_update_other: "k \<noteq> k' \<Longrightarrow> get_prop (AList.update k v e) k' = get_prop e k'"
  by (simp add: get_prop_def update_conv)

lemma patched_row:
  "row_spend (AList.update ''txid'' v e) = row_spend e" "good_row t (AList.update ''txid'' v e) = good_row t e"
  "row_key (AList.update ''txid'' v e) = row_key e" "row_time (AList.update ''txid'' v e) = row_time e"
  by (simp_all add: row_spend_def bucket_key_def row_units_def good_row_def wf_row_def row_key_def row_time_def
    get_prop_update_other)

lemma patch_last_rows_for: "rows_for W t (patch_last x rows) H = rows_for W t rows H"
  by (cases rows rule: rev_cases) (auto simp: patch_last_def rows_for_def patched_row)

lemma session_charge_rep:
  assumes "session_rep W s T H" "T \<le> t" "session_charge bn t e s s'"
    and amt: "\<And>a. ev_amount e = Some a \<Longrightarrow> amount_text (js_string a)"
  shows "session_rep W s' t (H @ [spend_of t e])"
proof -
  from assms(3) obtain key txid se1 file1 where r: "recordUsage t e key (fst s) (snd s) = Inr (se1, file1)"
      and p: "patchUsageTxid txid se1 file1 = (fst s', snd s')" by (auto simp: session_charge_def)
  from r obtain rows' se0 where q: "pruned_usage t (fst s) (snd s) = Inr (rows', se0)"
      "(se1, file1) = persistUsage (rows' @ [usage_row t e key]) se0"
    by (auto simp: recordUsage_def try_bind_Inr)
  note rep = pruned_usage_rep(1,2) [OF assms(1,2) q(1)]
  let ?rows = "rows' @ [usage_row t e key]"
  have new: "rows_for W t ?rows (H @ [spend_of t e])"
    using rows_for_snoc [OF rep(2) usage_row_spend(1) [of e t key, OF amt]] usage_row_spend(2) [of e t key, OF amt]
    by simp
  have "\<exists>rows. se_usage (fst s') = Some rows \<and> snd s' = Usage_file rows \<and> rows_for W t rows (H @ [spend_of t e])
      \<and> se_policy (fst s') = se_policy se0"
    using p q(2) new
    by (auto simp: patchUsageTxid_def persistUsage_def patch_last_rows_for split: option.splits if_split_asm)
  with rep(1) show ?thesis by (auto simp: session_rep_def usage_rows_def)
qed

interpretation agent: spending_window session_rep session_look session_charge
  by unfold_locales (fact session_look_rep, fact session_look_used, fact session_charge_rep)

section \<open>Runs of a session\<close>

text \<open>One charge: when it was authorized, for what, and under which key.\<close>

type_synonym charge = "int \<times> evaluation \<times> jsval"

record client =
  cl_session :: session
  cl_file :: usage_file
  cl_clock :: int
  cl_log :: "charge list"

text \<open>
  A run from the first start, on a host whose clock never runs backward and whose state file nobody
  else touches: submits that reach \<open>submitInner\<close>, whatever the broadcast then does; reads of the
  window; pausing and resuming; restarts of the process, which forget the rows in memory. A refused
  submit changes nothing on disk, and in memory only what a read changes.
\<close>

inductive agent_run :: "bignum \<Rightarrow> session \<Rightarrow> client \<Rightarrow> bool" for bn se0 where
  started: "agent_run bn se0 \<lparr>cl_session = se0, cl_file = No_usage, cl_clock = t, cl_log = []\<rparr>"
    if "se_usage se0 = None"
| submitted: "agent_run bn se0 \<lparr>cl_session = se', cl_file = file', cl_clock = su_authorized su,
      cl_log = cl_log C @ [(su_authorized su, e, sb_key sb)]\<rparr>"
    if "agent_run bn se0 C" "cl_clock C \<le> su_evaluated su" "su_evaluated su \<le> su_authorized su"
      "enforceAndSubmit bn su sb (cl_session C) (cl_file C) = Inr (e, se', file')"
| looked: "agent_run bn se0 (C\<lparr>cl_session := se', cl_clock := t\<rparr>)"
    if "agent_run bn se0 C" "cl_clock C \<le> t" "computeWindowUsage bn t (cl_session C) (cl_file C) = Inr (u, se')"
| switched: "agent_run bn se0 (C\<lparr>cl_session := (cl_session C)\<lparr>se_paused := b\<rparr>\<rparr>)"
    if "agent_run bn se0 C"
| restarted: "agent_run bn se0 (C\<lparr>cl_session := (cl_session C)\<lparr>se_usage := None\<rparr>\<rparr>)"
    if "agent_run bn se0 C"

lemma computeWindowUsage_Inr:
  "computeWindowUsage bn t se file = Inr (u, se') \<Longrightarrow> \<exists>rows. pruned_usage t se file = Inr (rows, se')"
  by (auto simp: computeWindowUsage_def try_bind_Inr Let_def split: option.splits)

lemma verdict_Inr:
  "(case r of None \<Rightarrow> Inl x | Some (Inl v) \<Rightarrow> Inl (f v) | Some (Inr e) \<Rightarrow> Inr (e, se)) = Inr (e', se')
     \<longleftrightarrow> r = Some (Inr e') \<and> se' = se"
  by (auto split: option.splits sum.splits)

lemma evaluate_request_Inr:
  assumes "evaluate_request bn t sb se file = Inr (e, se1)"
  obtains (unlimited) "p_maxPerWindow (se_policy se) = None" "se1 = se"
    | (windowed) u where "computeWindowUsage bn t se file = Inr (u, se1)"
        "evaluatePolicy bn (se_policy se) (sb_action sb) (sb_version sb) (sb_params sb) (Some u) = Some (Inr e)"
proof (cases "p_maxPerWindow (se_policy se) = None")
  case True
  with assms unlimited show ?thesis by (simp add: evaluate_request_def verdict_Inr)
next
  case False
  with assms obtain u where "computeWindowUsage bn t se file = Inr (u, se1)"
      "evaluatePolicy bn (se_policy se) (sb_action sb) (sb_version sb) (sb_params sb) (Some u) = Some (Inr e)"
    by (auto simp: evaluate_request_def try_bind_Inr verdict_Inr)
  with windowed show ?thesis .
qed

lemma enforce_Inr:
  assumes "enforceAndSubmit bn su sb se file = Inr (e, se', file')"
  obtains se1 se2 se3 file3 where
    "evaluate_request bn (su_evaluated su) sb se file = Inr (e, se1)"
    "se2 = se1 \<or> (\<exists>u. computeWindowUsage bn (su_evaluated su) se1 file = Inr (u, se2))"
    "authorizeSubmission (su_authorized su) e (sb_key sb) se2 file = Inr (se3, file3)"
    "patchUsageTxid (outcome_txid (su_outcome su)) se3 file3 = (se', file')"
proof -
  from assms obtain se1 se2 se3 file3 where
    e: "evaluate_request bn (su_evaluated su) sb se file = Inr (e, se1)"
      "confirm_request bn (su_evaluated su) (su_confirmed su) e se1 file = Inr se2"
      "authorizeSubmission (su_authorized su) e (sb_key sb) se2 file = Inr (se3, file3)"
      "patchUsageTxid (outcome_txid (su_outcome su)) se3 file3 = (se', file')"
    by (auto simp: enforceAndSubmit_def enforce_def try_bind_Inr split: if_split_asm prod.splits)
  from e(2) have "se2 = se1 \<or> (\<exists>u. computeWindowUsage bn (su_evaluated su) se1 file = Inr (u, se2))"
    by (auto simp: confirm_request_def try_bind_Inr split: if_split_asm)
  with e that show ?thesis by blast
qed

text \<open>An authorization records on rows that were pruned once or twice, and no row had its key.\<close>

lemma authorize_Inr:
  assumes "authorizeSubmission t e key se file = Inr (se3, file3)"
  obtains rows se2 where "se2 = se \<or> pruned_usage t se file = Inr (rows, se2)"
    "recordUsage t e key se2 file = Inr (se3, file3)"
    "\<not> is_nullish key \<longrightarrow> pruned_usage t se file = Inr (rows, se2) \<and> prior_row (js_string key) rows = None"
proof (cases "is_nullish key")
  case True
  with assms have "recordUsage t e key se file = Inr (se3, file3)"
    by (auto simp: authorizeSubmission_def split: if_split_asm)
  with True that show ?thesis by blast
next
  case False
  with assms obtain rows se2 where "pruned_usage t se file = Inr (rows, se2)"
      "prior_row (js_string key) rows = None" "recordUsage t e key se2 file = Inr (se3, file3)"
    by (auto simp: authorizeSubmission_def try_bind_Inr split: option.splits)
  with that show ?thesis by blast
qed

section \<open>The session's budget\<close>

definition plain_charge :: "charge \<Rightarrow> bool" where
  "plain_charge c \<longleftrightarrow>
     (case c of (t, e, key) \<Rightarrow>
        (\<forall>a. ev_amount e = Some a \<longrightarrow> amount_text (js_string a))
        \<and> (\<forall>v. ev_tick e = Some v \<longrightarrow> (\<exists>x. v = JStr x)))"

definition log_spends :: "charge list \<Rightarrow> spend list" where
  "log_spends lg = map (\<lambda>(t, e, key). spend_of t e) lg"

lemma session_rep_prune: "session_rep W (se, file) T H \<Longrightarrow> T \<le> t \<Longrightarrow> pruned_usage t se file = Inr (rows, se') \<Longrightarrow>
    session_rep W (se', file) t H"
  using pruned_usage_rep(1) [of W "(se, file)" T H t rows se'] by simp

lemma session_rep_look: "session_rep W (se, file) T H \<Longrightarrow> T \<le> t \<Longrightarrow> computeWindowUsage bn t se file = Inr (u, se') \<Longrightarrow>
    session_rep W (se', file) t H"
  using computeWindowUsage_Inr session_rep_prune by blast

lemma session_rep_later: "session_rep W s T H \<Longrightarrow> T \<le> t \<Longrightarrow> session_rep W s t H"
  unfolding session_rep_def using rows_for_later by blast

lemma pruned_policy: "pruned_usage t se file = Inr (rows, se') \<Longrightarrow> same_config se se'"
  by (auto simp: pruned_usage_def try_bind_Inr Let_def same_config_def)

lemma session_budget_step:
  assumes bn: "bn_exact bn" and rep: "session_rep W (se, file) T H" and caps: "within_caps (se_policy se) W T H"
    and t: "T \<le> su_evaluated su" "su_evaluated su \<le> su_authorized su"
    and sub: "enforceAndSubmit bn su sb se file = Inr (e, se', file')"
    and plain: "plain_charge (su_authorized su, e, key)"
    and room: "total_units (H @ [spend_of (su_authorized su) e]) < 10 ^ 64"
  shows "session_rep W (se', file') (su_authorized su) (H @ [spend_of (su_authorized su) e])
    \<and> within_caps (se_policy se) W (su_authorized su) (H @ [spend_of (su_authorized su) e])"
proof -
  have amt: "\<And>a. ev_amount e = Some a \<Longrightarrow> amount_text (js_string a)"
    and tick: "\<And>v. ev_tick e = Some v \<Longrightarrow> \<exists>x. v = JStr x" using plain by (auto simp: plain_charge_def)
  obtain se1 se2 se3 file3 where e1: "evaluate_request bn (su_evaluated su) sb se file = Inr (e, se1)"
    and c2: "se2 = se1 \<or> (\<exists>u. computeWindowUsage bn (su_evaluated su) se1 file = Inr (u, se2))"
    and a3: "authorizeSubmission (su_authorized su) e (sb_key sb) se2 file = Inr (se3, file3)"
    and p4: "patchUsageTxid (outcome_txid (su_outcome su)) se3 file3 = (se', file')"
    by (rule enforce_Inr [OF sub])
  from rep obtain u where look: "computeWindowUsage bn (su_evaluated su) se file = Inr (u, se1)"
    and ev: "evaluatePolicy bn (se_policy se) (sb_action sb) (sb_version sb) (sb_params sb) (Some u) = Some (Inr e)"
    by (rule_tac evaluate_request_Inr [OF e1]) (auto simp: session_rep_def)
  have l: "session_look bn (su_evaluated su) (se, file) u (se1, file)" using look by (simp add: session_look_def)
  have r1: "session_rep W (se1, file) (su_evaluated su) H" by (rule session_rep_look [OF rep t(1) look])
  have r2: "session_rep W (se2, file) (su_evaluated su) H" using c2 r1 session_rep_look [OF r1 order_refl] by blast
  obtain rows se2' where q: "se2' = se2 \<or> pruned_usage (su_authorized su) se2 file = Inr (rows, se2')"
      "recordUsage (su_authorized su) e (sb_key sb) se2' file = Inr (se3, file3)"
    by (rule authorize_Inr [OF a3])
  have r3: "session_rep W (se2', file) (su_authorized su) H"
    using q(1) session_rep_later [OF r2 t(2)] session_rep_prune [OF r2 t(2)] by blast
  have "session_charge bn (su_authorized su) e (se2', file) (se', file')"
    using q(2) p4 by (auto simp: session_charge_def)
  from session_charge_rep [OF r3 order_refl this amt]
  have "session_rep W (se', file') (su_authorized su) (H @ [spend_of (su_authorized su) e])" .
  moreover have "within_caps (se_policy se) W (su_authorized su) (H @ [spend_of (su_authorized su) e])"
    by (rule agent.check_then_charge [OF bn rep caps t l ev tick amt room])
  ultimately show ?thesis ..
qed

section \<open>What the session remembers\<close>

definition remembers :: "session \<Rightarrow> int \<Rightarrow> charge list \<Rightarrow> row list \<Rightarrow> bool" where
  "remembers se T lg rows \<longleftrightarrow>
     (\<forall>(t, e, k)\<in>set lg. \<not> is_nullish k \<and> within_key se T t \<longrightarrow>
        (\<exists>r\<in>set rows. row_key r = JStr (js_string k) \<and> row_time r = Some (of_int t)))"

definition memory_rep :: "session \<Rightarrow> session \<Rightarrow> usage_file \<Rightarrow> int \<Rightarrow> charge list \<Rightarrow> bool" where
  "memory_rep se0 se file T lg \<longleftrightarrow>
     same_config se0 se
     \<and> (\<forall>rows. se_usage se = Some rows \<longrightarrow> remembers se0 T lg rows)
     \<and> (\<exists>rows. usage_rows file = Some rows \<and> remembers se0 T lg rows)"

definition apart :: "session \<Rightarrow> charge \<Rightarrow> charge \<Rightarrow> bool" where
  "apart se c c' \<longleftrightarrow>
     (case (c, c') of ((t, e, k), (t', e', k')) \<Rightarrow>
        \<not> is_nullish k \<and> \<not> is_nullish k' \<and> js_string k = js_string k' \<longrightarrow> \<not> within_key se t' t)"

lemma within_key_config: "same_config se se' \<Longrightarrow> within_key se' T t = within_key se T t"
  and pruned_rows_config: "same_config se se' \<Longrightarrow> pruned_rows se' T rows = pruned_rows se T rows"
  by (auto simp: same_config_def within_key_def pruned_rows_def split: option.splits)

lemma remembers_later: "remembers se T lg rows \<Longrightarrow> T \<le> t \<Longrightarrow> remembers se t lg rows"
  unfolding remembers_def using within_key_later by fast

lemma remembers_pruned:
  assumes "remembers se T lg rows" "T \<le> t"
  shows "remembers se t lg (pruned_rows se t rows)"
  unfolding remembers_def
proof (clarify)
  fix t0 e k
  assume m: "(t0, e, k) \<in> set lg" "\<not> is_nullish k" "within_key se t t0"
  with remembers_later [OF assms] obtain r where "r \<in> set rows" "row_key r = JStr (js_string k)"
      "row_time r = Some (of_int t0)" unfolding remembers_def by blast
  from pruned_rows_keyed [OF this m(3)]
  show "\<exists>r\<in>set (pruned_rows se t rows). row_key r = JStr (js_string k) \<and> row_time r = Some (of_int t0)" .
qed

lemma memory_later: "memory_rep se0 se file T lg \<Longrightarrow> T \<le> t \<Longrightarrow> memory_rep se0 se file t lg"
  unfolding memory_rep_def using remembers_later by blast

lemma memory_pruned:
  assumes "memory_rep se0 se file T lg" "T \<le> t" "pruned_usage t se file = Inr (rows, se')"
  shows "memory_rep se0 se' file t lg" and "remembers se0 t lg rows"
proof -
  from pruned_usage_Inr [OF assms(3)] obtain rows0 where r: "loadUsage se file = Inr rows0"
      "rows = pruned_rows se t rows0" "se' = se\<lparr>se_usage := Some rows\<rparr>" by blast
  from assms(1) r(1) have "remembers se0 T lg rows0"
    by (auto simp: memory_rep_def loadUsage_def usage_rows_def split: option.splits usage_file.splits)
  from remembers_pruned [OF this assms(2)] r(2) assms(1)
  show m: "remembers se0 t lg rows" by (simp add: memory_rep_def pruned_rows_config [of se0 se])
  show "memory_rep se0 se' file t lg"
    using memory_later [OF assms(1,2)] m r(3) by (auto simp: memory_rep_def same_config_def)
qed

lemma memory_look:
  assumes "memory_rep se0 se file T lg" "T \<le> t" "computeWindowUsage bn t se file = Inr (u, se')"
  shows "memory_rep se0 se' file t lg"
  using computeWindowUsage_Inr [OF assms(3)] memory_pruned(1) [OF assms(1,2)] by blast

lemma usage_row_key:
  "\<not> is_nullish k \<Longrightarrow> row_key (usage_row t e k) = JStr (js_string k)"
  "row_time (usage_row t e k) = Some (of_int t)"
  by (simp_all add: usage_row_def row_key_def row_time_def new_row_def get_prop_def finite_number_def)

lemma remembers_snoc:
  assumes "remembers se t lg rows"
  shows "remembers se t (lg @ [(t, e, k)]) (rows @ [usage_row t e k])"
  using assms usage_row_key by (fastforce simp: remembers_def)

lemma remembers_patch: "remembers se t lg rows \<Longrightarrow> remembers se t lg (patch_last x rows)"
  by (cases rows rule: rev_cases) (fastforce simp: patch_last_def remembers_def patched_row)+

lemma memory_record:
  assumes "memory_rep se0 se file T lg" "T \<le> t" "recordUsage t e k se file = Inr (se1, file1)"
    and "patchUsageTxid txid se1 file1 = (se', file')"
  shows "memory_rep se0 se' file' t (lg @ [(t, e, k)])"
proof -
  from assms(3) obtain rows se2 where q: "pruned_usage t se file = Inr (rows, se2)"
      "(se1, file1) = persistUsage (rows @ [usage_row t e k]) se2"
    by (auto simp: recordUsage_def try_bind_Inr)
  note m = memory_pruned [OF assms(1,2) q(1)]
  note new = remembers_snoc [OF m(2), of e k]
  have "same_config se0 se2" using m(1) by (simp add: memory_rep_def)
  then have "same_config se0 se1" using q(2) by (simp add: persistUsage_def same_config_def)
  with assms(4) q(2) new remembers_patch [OF new] show ?thesis
    by (auto simp: patchUsageTxid_def persistUsage_def memory_rep_def usage_rows_def same_config_def
      split: option.splits if_split_asm)
qed

lemma memory_submit:
  assumes mem: "memory_rep se0 se file T lg" and t: "T \<le> su_evaluated su" "su_evaluated su \<le> su_authorized su"
    and sub: "enforceAndSubmit bn su sb se file = Inr (e, se', file')"
  shows "memory_rep se0 se' file' (su_authorized su) (lg @ [(su_authorized su, e, sb_key sb)])"
    and "\<forall>c\<in>set lg. apart se0 c (su_authorized su, e, sb_key sb)"
proof -
  let ?t = "su_authorized su" and ?k = "sb_key sb"
  obtain se1 se2 se3 file3 where e1: "evaluate_request bn (su_evaluated su) sb se file = Inr (e, se1)"
    and c2: "se2 = se1 \<or> (\<exists>u. computeWindowUsage bn (su_evaluated su) se1 file = Inr (u, se2))"
    and a3: "authorizeSubmission ?t e ?k se2 file = Inr (se3, file3)"
    and p4: "patchUsageTxid (outcome_txid (su_outcome su)) se3 file3 = (se', file')"
    by (rule enforce_Inr [OF sub])
  have m1: "memory_rep se0 se1 file (su_evaluated su) lg"
    using memory_later [OF mem t(1)] memory_look [OF mem t(1)] by (rule_tac evaluate_request_Inr [OF e1]) auto
  have m2: "memory_rep se0 se2 file (su_evaluated su) lg"
    using c2 m1 memory_look [OF m1 order_refl] by blast
  obtain rows se2' where q: "se2' = se2 \<or> pruned_usage ?t se2 file = Inr (rows, se2')"
      "recordUsage ?t e ?k se2' file = Inr (se3, file3)"
    and new: "\<not> is_nullish ?k \<longrightarrow> pruned_usage ?t se2 file = Inr (rows, se2') \<and> prior_row (js_string ?k) rows = None"
    by (rule authorize_Inr [OF a3])
  have m3: "memory_rep se0 se2' file ?t lg"
    using q(1) memory_later [OF m2 t(2)] memory_pruned(1) [OF m2 t(2)] by blast
  show "memory_rep se0 se' file' ?t (lg @ [(?t, e, ?k)])"
    by (rule memory_record [OF m3 order_refl q(2) p4])
  show "\<forall>c\<in>set lg. apart se0 c (?t, e, ?k)"
  proof (clarify)
    fix t0 e0 k0
    assume c: "(t0, e0, k0) \<in> set lg"
    have "\<not> within_key se0 ?t t0" if k: "\<not> is_nullish k0" "\<not> is_nullish ?k" "js_string k0 = js_string ?k"
    proof
      assume "within_key se0 ?t t0"
      moreover have "remembers se0 ?t lg rows" using new k(2) memory_pruned(2) [OF m2 t(2)] by blast
      ultimately obtain r where "r \<in> set rows" "row_key r = JStr (js_string ?k)"
        using c k unfolding remembers_def by fastforce
      with new k(2) show False by (auto simp: prior_row_def find_None_iff)
    qed
    then show "apart se0 (t0, e0, k0) (?t, e, ?k)" by (simp add: apart_def)
  qed
qed

lemma agent_memory:
  assumes "agent_run bn se0 C"
  shows "memory_rep se0 (cl_session C) (cl_file C) (cl_clock C) (cl_log C) \<and> sorted_wrt (apart se0) (cl_log C)"
  using assms
proof induction
  case (started t)
  then show ?case by (simp add: memory_rep_def usage_rows_def remembers_def)
next
  case (submitted C su sb e se' file')
  note m = memory_submit [OF conjunct1 [OF submitted.IH] submitted(2-4)]
  from m(1) m(2) submitted.IH show ?case by (simp add: sorted_wrt_append)
next
  case (looked C t u se')
  then show ?case using memory_look [OF _ looked(2,3)] by simp
next
  case (switched C b)
  then show ?case by (simp add: memory_rep_def same_config_def)
next
  case (restarted C)
  then show ?case by (simp add: memory_rep_def same_config_def)
qed

text \<open>
  Of the memory that the runs keep: two charges under one key lie apart, and without a window, where no record is ever
  dropped, there are no two.
\<close>

lemma charges_apart:
  assumes "agent_run bn se0 C"
  shows "sorted_wrt (\<lambda>(t, e, k) (t', e', k').
      \<not> is_nullish k \<and> \<not> is_nullish k' \<and> js_string k = js_string k' \<longrightarrow>
        p_maxPerWindow (se_policy se0) \<noteq> None
        \<and> of_int t + hours_ms (se_idempotencyHours se0) < of_int t') (cl_log C)"
  using conjunct2 [OF agent_memory [OF assms]]
  by (rule sorted_wrt_mono_rel [rotated]) (auto simp: apart_def within_key_def)

text \<open>
  C8: One key pays once. In every run of a session, through broadcasts that land, throw after
  landing or throw before, pauses and restarts: two charges under one idempotency key lie
  more than \<open>idempotencyHours\<close> apart.
\<close>

theorem key_charged_once:
  assumes "agent_run bn se0 C"
  shows "sorted_wrt (\<lambda>(t, e, k) (t', e', k').
      \<not> is_nullish k \<and> \<not> is_nullish k' \<and> js_string k = js_string k' \<longrightarrow>
        of_int t + hours_ms (se_idempotencyHours se0) < of_int t') (cl_log C)"
  using charges_apart [OF assms]
  by (rule sorted_wrt_mono_rel [rotated]) auto

section \<open>The session's budget over a run\<close>

lemma agent_budget:
  assumes "agent_run bn se0 C" and "bn_exact bn" and "p_maxPerWindow (se_policy se0) = Some win"
    and "\<forall>c\<in>set (cl_log C). plain_charge c" and "total_units (log_spends (cl_log C)) < 10 ^ 64"
  shows "session_rep (hours_ms (wp_hours win)) (cl_session C, cl_file C) (cl_clock C) (log_spends (cl_log C))
    \<and> within_caps (se_policy se0) (hours_ms (wp_hours win)) (cl_clock C) (log_spends (cl_log C))"
  using assms
proof induction
  case (started t)
  then show ?case by (simp add: session_rep_def usage_rows_def rows_for_def log_spends_def within_caps_empty)
next
  case (submitted C su sb e se' file')
  let ?W = "hours_ms (wp_hours win)" and ?H = "log_spends (cl_log C)"
  have l: "log_spends (cl_log C @ [(su_authorized su, e, sb_key sb)]) = ?H @ [spend_of (su_authorized su) e]"
    by (simp add: log_spends_def)
  have "total_units ?H \<le> total_units (?H @ [spend_of (su_authorized su) e])" by (simp add: total_units_def)
  with submitted.prems(4) l have "total_units ?H < 10 ^ 64" by simp
  with submitted.IH submitted.prems have i: "session_rep ?W (cl_session C, cl_file C) (cl_clock C) ?H"
      "within_caps (se_policy se0) ?W (cl_clock C) ?H" by simp_all
  have "se_policy (cl_session C) = se_policy se0"
    using agent_memory [OF submitted(1)] by (simp add: memory_rep_def same_config_def)
  with session_budget_step [OF submitted.prems(1) i(1) _ submitted(2-4), of "sb_key sb"] i(2) submitted.prems l
  show ?case by simp
next
  case (looked C t u se')
  then show ?case using session_rep_look within_caps_later by simp blast
next
  case (switched C b)
  then show ?case by (simp add: session_rep_def)
next
  case (restarted C)
  then show ?case by (simp add: session_rep_def)
qed

text \<open>
  C9: The session's window keeps its budget. Take a run of a session with a window policy, every charge of
  which has a text tick and an amount of at most 18 decimals, and with less than \<open>10 ^ 64\<close> units of
  \<open>10 ^ -18\<close> charged in all. At every state, for every token but the one named \<open>*\<close> (which the window
  lookup takes for the entry of all tokens) whose cap is a plain decimal, in any spelling of the token, what was
  charged in the last \<open>hours\<close> is at most that cap.
\<close>

theorem session_budget_kept:
  assumes "agent_run bn se0 C" and "bn_exact bn" and "p_maxPerWindow (se_policy se0) = Some win"
    and "\<forall>c\<in>set (cl_log C). plain_charge c" and "total_units (log_spends (cl_log C)) < 10 ^ 64"
    and "wp_perTick win = Some caps" and "k \<noteq> ''*''" and "capFor (Some caps) (Some (JStr k)) = Some c"
    and "isNonNegativeDecimal (js_string c)"
  shows "of_nat (authorised k (hours_ms (wp_hours win)) (cl_clock C) (log_spends (cl_log C))) / 10 ^ 18
    \<le> dec_val (js_string c)"
proof -
  have "window_caps (se_policy se0) = Some caps" using assms(3,6) by (simp add: window_caps_def)
  then show ?thesis
    using conjunct2 [OF agent_budget [OF assms(1-5)]] assms(7-9) unfolding within_caps_def by blast
qed

section \<open>A run\<close>

definition demo_session :: session where
  "demo_session = \<lparr>se_policy = demo_cap_policy, se_idempotencyHours = 720, se_allowUnkeyedSubmits = False,
     se_paused = False, se_usage = None\<rparr>"

definition at_time :: "int \<Rightarrow> surroundings" where
  "at_time t = \<lparr>su_halt = Halt_absent, su_evaluated = t, su_authorized = t, su_confirmed = True, su_outcome = Threw None\<rparr>"

definition demo_request :: submission where
  "demo_request = \<lparr>sb_action = ''SEND'', sb_version = Some 0, sb_params = d_params demo_judged, sb_key = JStr ''invoice 7''\<rparr>"

definition demo_after :: "int \<Rightarrow> session" where
  "demo_after t = demo_session\<lparr>se_usage := Some [usage_row t demo_evaluation (JStr ''invoice 7'')]\<rparr>"

definition demo_usage_file :: "int \<Rightarrow> usage_file" where
  "demo_usage_file t = Usage_file [usage_row t demo_evaluation (JStr ''invoice 7'')]"

lemma demo_session_policy: "p_maxPerWindow demo_cap_policy =
    Some \<lparr>wp_perTick = Some [(''JDOG'', JInt 100)], wp_maxActions = Some 3, wp_hours = 24\<rparr>"
  by (simp add: demo_cap_policy_def)

lemma pruned_empty: "pruned_rows se t [] = []" "window_rows se t [] = []"
  by (simp_all add: pruned_rows_def window_rows_def split: option.split)

lemma demo_submit:
  assumes "loadUsage se file = Inr rows" "pruned_rows se t rows = []" "se = demo_session\<lparr>se_usage := u\<rparr>"
  shows "enforceAndSubmit demo_bn (at_time t) demo_request se file
    = Inr (demo_evaluation, demo_after t, demo_usage_file t)"
proof -
  let ?se = "se\<lparr>se_usage := Some []\<rparr>"
  have p: "pruned_usage t se file = Inr ([], ?se)" using assms(1,2) by (simp add: pruned_usage_def)
  have q: "pruned_usage t ?se file = Inr ([], ?se)"
    by (simp add: pruned_usage_def loadUsage_def pruned_empty)
  have c: "computeWindowUsage demo_bn t se file = Inr (\<lparr>u_count = 0, u_perTick = []\<rparr>, ?se)"
    by (simp add: computeWindowUsage_def p pruned_empty)
  have pol: "se_policy se = demo_cap_policy" "se_paused se = False" by (simp_all add: assms(3) demo_session_def)
  have e: "evaluate_request demo_bn t demo_request se file = Inr (demo_evaluation, ?se)"
    by (simp add: evaluate_request_def pol c demo_request_def demo_cap_approved demo_session_policy)
  have f: "confirm_request demo_bn t True demo_evaluation ?se file = Inr ?se"
    by (simp add: confirm_request_def demo_evaluation_def)
  have r: "recordUsage t demo_evaluation (JStr ''invoice 7'') ?se file = Inr (demo_after t, demo_usage_file t)"
    unfolding recordUsage_def q by (simp add: persistUsage_def demo_after_def demo_usage_file_def assms(3))
  have a: "authorizeSubmission t demo_evaluation (JStr ''invoice 7'') ?se file = Inr (demo_after t, demo_usage_file t)"
    by (simp add: authorizeSubmission_def is_nullish_def q prior_row_def r)
  show ?thesis
    by (simp add: enforceAndSubmit_def enforce_def halted_def at_time_def pol e f demo_request_def [of] a
      outcome_txid_def patchUsageTxid_def e [unfolded demo_request_def])
qed

definition demo_run :: client where
  "demo_run = \<lparr>cl_session = demo_after 2600000000, cl_file = demo_usage_file 2600000000, cl_clock = 2600000000,
     cl_log = [(2000, demo_evaluation, JStr ''invoice 7''), (2600000000, demo_evaluation, JStr ''invoice 7'')]\<rparr>"

lemma demo_agent_run: "agent_run demo_bn demo_session demo_run"
proof -
  have s0: "agent_run demo_bn demo_session \<lparr>cl_session = demo_session, cl_file = No_usage, cl_clock = 1000, cl_log = []\<rparr>"
    by (rule agent_run.started) (simp add: demo_session_def)
  have e1: "enforceAndSubmit demo_bn (at_time 2000) demo_request demo_session No_usage
      = Inr (demo_evaluation, demo_after 2000, demo_usage_file 2000)"
    by (rule demo_submit [where u = None and rows = "[]"])
      (simp_all add: loadUsage_def demo_session_def pruned_empty)
  have s1: "agent_run demo_bn demo_session \<lparr>cl_session = demo_after 2000, cl_file = demo_usage_file 2000, cl_clock = 2000,
      cl_log = [(2000, demo_evaluation, JStr ''invoice 7'')]\<rparr>"
    using agent_run.submitted [OF s0, of "at_time 2000" demo_request] e1 by (simp add: at_time_def demo_request_def)
  have "pruned_rows (demo_after 2000) 2600000000 [usage_row 2000 demo_evaluation (JStr ''invoice 7'')] = []"
    by (simp add: pruned_rows_def demo_after_def demo_session_def demo_session_policy no_older_def usage_row_key(2)
      hours_ms_def)
  then have e2: "enforceAndSubmit demo_bn (at_time 2600000000) demo_request (demo_after 2000) (demo_usage_file 2000)
      = Inr (demo_evaluation, demo_after 2600000000, demo_usage_file 2600000000)"
    by (intro demo_submit) (simp_all add: loadUsage_def demo_after_def)
  show ?thesis
    using agent_run.submitted [OF s1, of "at_time 2600000000" demo_request] e2
    by (simp add: at_time_def demo_request_def demo_run_def)
qed

theorem key_charged_once_witness:
  "of_int 2000 + hours_ms 720 < of_int 2600000000 \<and> hours_ms 720 = 2592000000"
  using key_charged_once [OF demo_agent_run]
  by (simp add: demo_run_def is_nullish_def demo_session_def hours_ms_def)

theorem session_budget_kept_witness:
  "of_nat (authorised ''jdog'' (hours_ms 24) 2600000000
      [spend_of 2000 demo_evaluation, spend_of 2600000000 demo_evaluation]) / 10 ^ 18 \<le> (100 :: rat)"
proof -
  have pl: "\<forall>c\<in>set (cl_log demo_run). plain_charge c"
    by (simp add: demo_run_def plain_charge_def demo_evaluation_def demo_amounts)
  have sp: "spend_of t demo_evaluation = (t, ''JDOG'', 5 * 10 ^ 18)" for t
    by (simp add: row_spend_new demo_evaluation_def demo_amounts opt_val_def is_nullish_def)
  have tot: "total_units (log_spends (cl_log demo_run)) < 10 ^ 64"
    by (simp add: demo_run_def log_spends_def sp total_units_def)
  have w: "p_maxPerWindow (se_policy demo_session) =
      Some \<lparr>wp_perTick = Some [(''JDOG'', JInt 100)], wp_maxActions = Some 3, wp_hours = 24\<rparr>"
    by (simp add: demo_session_def demo_session_policy)
  have c: "capFor (Some [(''JDOG'', JInt 100)]) (Some (JStr ''jdog'')) = Some (JInt 100)"
    and d: "isNonNegativeDecimal (js_string (JInt 100))" and k: "''jdog'' \<noteq> ''*''" by code_simp+
  have "of_nat (authorised ''jdog'' (hours_ms 24) 2600000000 (log_spends (cl_log demo_run))) / 10 ^ 18
      \<le> dec_val (js_string (JInt 100))"
    using session_budget_kept [OF demo_agent_run demo_bn_exact w pl tot _ k c d] by (simp add: demo_run_def)
  then show ?thesis unfolding demo_cap_checks(5) demo_amounts(3) by (simp add: demo_run_def log_spends_def)
qed

end
