(* ===== verification/Spec2Isabelle.thy ===== *)
theory Spec2Isabelle
  imports BlockProof Online AnchorVerify MultiLeg DeployPlan CoSignerRun StoreLock AgentSession
begin

text \<open>
  XChain SDK: verification library.

  The SDK is a JavaScript client library for a meta-protocol whose actions ride in Bitcoin-family
  transactions. The library below models the parts of it in which a wrong branch loses money or
  trust, directly from the source:

  \<^item> the light client, which decides from quorum-signed checkpoints and Merkle proofs whether a
    balance, an action or a validator set claimed by an untrusted explorer is true;
  \<^item> the action codec, which chooses a format version, writes an action string and reads one back;
  \<^item> the co-signer, which decides whether the second key of a two-of-two agent account signs a
    transaction, and the spending window and client session that keep the budget.

  How they meet. The light client asks an explorer (\<open>Fetch\<close>), picks the validators that decide
  (\<open>QuorumResolution\<close>), verifies a checkpoint (\<open>Checkpoint\<close>, by count or by the stake of
  \<open>StakeQuorum\<close>), and checks proofs against the state root the checkpoint signs (\<open>LightClient\<close>,
  \<open>ValidatorSet\<close>, \<open>BlockProof\<close>), which rest on the trees (\<open>Merkle\<close>, \<open>FixedMerkle\<close>) and on
  height gates (\<open>GateRegistry\<close>). The co-signer reads the action a transaction carries (\<open>Envelope\<close>,
  \<open>ActionDecode\<close>), asks the policy (\<open>Policy\<close>, over the table of \<open>Derivability\<close>) with a snapshot
  of its window (\<open>WindowStore\<close>, locked by \<open>StoreLock\<close>), signs, and charges the window
  (\<open>CoSigner\<close>, \<open>CoSignerRun\<close>). The client's \<open>AgentSession\<close> runs the same policy over its own file.
\<close>

section \<open>Theories and the code they model\<close>

text \<open>
  Paths are below \<open>src/src/\<close>.

  \<^item> \<open>Prelude\<close>: bytes, hex, decimal text, association lists, \<open>option\<close> and the error sum; the
    lemma collections the other theories use. \<open>JsValues\<close>: dynamically typed values, truthiness, property
    reads and \<open>Number(v)\<close>.
  \<^item> \<open>MerklePrims\<close>: \<open>merkle/primitives.js\<close>, with SHA-256 as a parameter. \<open>MerkleAmounts\<close>:
    \<open>canonicalAmount\<close> and \<open>sumCanonicalAmounts\<close> against an exact rational reading of the text.
  \<^item> \<open>Merkle\<close>: the depth-256 sparse Merkle tree of \<open>merkle.js\<close> with its proofs and their
    compression. \<open>FixedMerkle\<close>: the fixed binary tree, the state root over the subtrees and the block
    content root. \<open>CommittedTree\<close>: what a root commits to (the locale \<open>merkle_node\<close> of
    \<open>Merkle\<close> gives the binding of both trees from one proof). \<open>BlockProof\<close>: leaves of the per-block content and their proofs.
  \<^item> \<open>Wire\<close>: \<open>utils/wire_index.js\<close>. \<open>GateRows\<close>, \<open>GateRegistry\<close>: every activation row of
    \<open>consensus/gate_registry/shared_rows_1.js\<close> to \<open>shared_rows_5.js\<close>, \<open>core.js\<close>, \<open>regtest_env.js\<close> and
    \<open>gates/state_subtree_gate.js\<close>.
  \<^item> \<open>StakeQuorum\<close>: \<open>consensus/stake_weighted_quorum.js\<close>, \<open>snapshot_reorg_buffer.js\<close>,
    \<open>equivocation_header.js\<close>. \<open>Checkpoint\<close>: \<open>checkpoint.js\<close>,
    \<open>protocol/light_client/supersede_suffix.js\<close> and \<open>checkpoint_supersession.js\<close>.
  \<^item> \<open>LightClient\<close>, \<open>ValidatorSet\<close>, \<open>Fetch\<close>, \<open>QuorumResolution\<close>, \<open>Online\<close>:
    \<open>protocol/light_client/proof_checks.js\<close>, \<open>validator_set_follow.js\<close>, \<open>fetch_helpers.js\<close>,
    \<open>quorum_resolution.js\<close>, \<open>online_verify.js\<close> and \<open>protocol/pinned_checkpoints.js\<close>.
    \<open>AnchorParse\<close>, \<open>AnchorVerify\<close>: \<open>protocol/light_client.js\<close>, \<open>light_client/anchored_checkpoint.js\<close>,
    \<open>anchor_bundle_order.js\<close> and \<open>fold_archive_attach.js\<close>, the cold start from an on-chain anchor.
  \<^item> \<open>Formats\<close>, \<open>FormatSelector\<close>: \<open>protocol/formats.js\<close> (every version of every action),
    \<open>protocol/format_selector.js\<close> with \<open>field_names.js\<close>, \<open>repeated_legs.js\<close>, \<open>selection.js\<close>.
    \<open>ActionDecode\<close>, \<open>MultiLeg\<close>: \<open>decoder/aliases.js\<close>, the strict reader of \<open>decoder/parse.js\<close> with
    \<open>parse/field_mapping.js\<close>, and the judgement of \<open>cosigner/psbt_action_decode.js\<close>.
  \<^item> \<open>Envelope\<close>: \<open>cosigner/envelope.js\<close>, \<open>psbt_action_decode/action_string_extract.js\<close> and the
    carriers of \<open>psbt_action_decode.js\<close>. \<open>DeployPlan\<close>: \<open>contract/chunk_helper.js\<close> and the codec of
    \<open>contract/utils.js\<close>.
  \<^item> \<open>Derivability\<close>: \<open>cosigner/policy/value_derivability.js\<close>. \<open>Policy\<close>: \<open>policy_evaluator/\<close>.
  \<^item> \<open>WindowStore\<close>, \<open>SpendLedger\<close>, \<open>WindowBudget\<close>, \<open>StoreLock\<close>: \<open>cosigner/window_store.js\<close> and
    \<open>window_store/window_ledger.js\<close>. \<open>CoSigner\<close>, \<open>CoSignerRun\<close>: \<open>cosigner/co_signer.js\<close> and
    \<open>co_signer/\<close>. \<open>AgentSession\<close>: \<open>cosigner/agent_session.js\<close>.
\<close>

section \<open>State and operations\<close>

text \<open>
  A struct or options object of the code is a record, a tagged result is a datatype or
  \<open>error + 'a\<close> with the refusal on the left; a thrown exception is a value, and the caller's \<open>catch\<close>
  is a case on it. An object used as a map is an association list where the code depends on its order
  (param objects, window rows) and a function to \<open>option\<close> where it does not. Text is a list of
  characters; byte strings are lists of \<open>8 word\<close>. Heights, counts and amounts keep the range the code
  gives them: 32-bit words in \<open>nextPow2\<close>, integers up to \<open>2^53 - 1\<close> for wire indices, exact
  rationals for decimal amounts.

  State that survives a call is passed explicitly: the window store is its file, its rows in memory
  and its clock; a run is a reachability relation with one rule per request, restart or clock
  reading (\<open>daemon_reach\<close>, \<open>service_run\<close>, \<open>agent_run\<close>). The lock of the store is a step relation on a directory shared by
  several processes: each file-system call is a step, and processes interleave freely. The validator
  cache of the light client is a value returned by each call.
\<close>

section \<open>What the lemmas show\<close>

text \<open>
  \<^item> Commitments: both trees are binding (a proof that verifies against a root names the committed
    leaf, or exhibits a collision), proofs made by the code verify, compression is undone exactly, and
    canonical text is equal exactly when amounts are.
  \<^item> Checkpoints: the verdict of \<open>verifyCheckpoint\<close> is characterised branch by branch; the signed text
    binds every field; the stake threshold is exact and two quorums share more than a third of the
    stake; validator sets and rotations accepted by a client follow from sets it already held.
  \<^item> Online calls: a balance or action reported as verified was committed by a root that a quorum of
    the pinned or followed validators signed, or its proof exhibits a collision, or its claimed leaf is no
    JSON text; and an honest explorer is always believed. The two ways round this, a leaf sent as an array and
    a checkpoint below the flag day of the commitments, are theorems of their own.
  \<^item> Anchors: both parsers invert the wire grammar; a verified anchored checkpoint has two thirds of the
    stake behind a text that fixes its roots, so the republishing of an old signature with new roots
    fails; a verified fetch takes the latest matching row, and with \<open>requireTrustedDepth\<close> its depth counts
    from the caller's own height.
  \<^item> Actions: the format selector returns the smallest version that fits; what \<open>serialize\<close> writes is
    what the strict reader reads, for several legs exactly where the trimmed line still shows their number; the
    co-signer's judgement accepts only an action that re-serializes to the string it judged, and exactly the
    formats of the value table but BATCH.
  \<^item> Budget: an approval of the policy is within every cap; every recorded approval adds one row, for the
    request's own action text; over any run of requests, restarts and clock readings the spend inside any window
    of every token but \<open>*\<close> stays within its cap, for charges of at most 18 decimals that fit the 64 digits of the
    big-number library, on a clock that does not run backward. The token \<open>*\<close> escapes its window cap, which is
    a theorem too; a request whose handling throws is not part of a run. The locale \<open>spending_window\<close> (\<open>SpendLedger\<close>) states the contract between the
    policy and a window; the co-signer's store and the client's session are its two instances, so the
    budget theorem is proved once.
  \<^item> Drain: whatever the transaction, what the signed inputs hold less what returns to the account is
    at most the operator's per-output caps plus the fee cap, plus the fee cap once more when the
    transaction funds an envelope.
  \<^item> Locks: with the ownership check before each write at most one process writes; two starters cannot
    both hold the lock, and a lemma evaluates a schedule in which three starters do.
\<close>

section \<open>Parameters, bounds and fuel\<close>

text \<open>
  Not under the source tree, and so arguments of the definitions: SHA-256 (hypothesis where needed: 32
  bytes of output; the binding theorems conclude ``or a collision'' and assume no injectivity), Ed25519
  verification, the big-number library (a function on texts; \<open>bn_exact\<close> says that it is exact for
  operands whose sum fits its 64 significant digits), JSON parsing, the explorer's replies (arbitrary), the
  script decompiler, the stream cipher and inflate of carrier payloads, UTF-8 decoding, taproot tweaking
  and the MuSig2 signer, the clock and the process identifiers. Each hypothesis has a witness that
  instantiates the parameter with a concrete function.

  The sparse tree has depth 256 and recursion is on the remaining bits. \<open>nextPow2\<close> is a loop on 32-bit
  words that does not end above \<open>2^30\<close>: it is a partial function, and both facts are proved. A contract is
  cut into at most 12 chunks; the deployment theorem derives that bound from the size limit. Every other
  loop is structural, or has a termination proof.
\<close>

section \<open>Not modelled\<close>

text \<open>
  \<^item> White space and letter case beyond ASCII: \<open>js_trim\<close> strips the ASCII white space of \<open>String.trim\<close> and
    not U+00A0, U+FEFF, U+2028, U+2029 and the other Unicode spaces; \<open>ascii_upper\<close> and \<open>ascii_lower\<close> change
    ASCII letters alone. For texts outside ASCII the functions of the code may differ there.
  \<^item> Transport: \<open>api/\<close>, \<open>clients/\<close>, \<open>cosigner/server.js\<close>, \<open>hosted_server.js\<close>, \<open>transport.js\<close> and the
    MCP and x402 servers are HTTP plumbing around the operations modelled here.
  \<^item> Cryptography: wallets, key derivation, MuSig2 sessions, transaction construction and address codecs
    drive third-party curve and script libraries; what they compute is a parameter.
  \<^item> Faults of the file system: a write either happens or the process ends. Partial writes and lost
    renames are outside the model.
  \<^item> The lenient, display-oriented half of the decoder (\<open>describe\<close>, batch diagnostics), preflight
    checks, the field validators and the contract linter advise a user and gate nothing the co-signer or
    the light client decides.
  \<^item> Coin tables, protocol constants and generated action classes are data; the constants the modelled
    code reads are part of the definitions that read them.
  \<^item> Scripts under \<open>bin/\<close> maintain the repository.
\<close>

end
